(* ===== verification/Prelude.thy ===== *)
theory Prelude
  imports Main "HOL-Library.Word" "HOL-Library.Multiset" "HOL-Library.Char_ord"
    "HOL-Library.List_Lexorder" "HOL-Library.Product_Lexorder"
begin

text \<open>
  Shared vocabulary of the development: Go's instants and durations, Go maps
  with a zero value, the fault taxonomy of src/internal/kernel/fault, results
  that are either a fault or a value, and the generic lemmas on lists, sums
  and maps that the component theories use.

  Strings are byte lists, ordered by bytes, which is Go's order on string.
\<close>

section \<open>Collections of facts\<close>

named_theorems go_simps \<open>unfolding rules for the small Go helpers\<close>
named_theorems fault_simps \<open>the fault constructors\<close>
named_theorems table_simps \<open>effect of a repository statement on its table\<close>

section \<open>Time\<close>

text \<open>
  An instant is a number of nanoseconds; 0 is the zero value \<open>time.Time{}\<close>.
  \<open>Time.Sub\<close> saturates at the ends of the 64-bit duration range.
\<close>

type_synonym go_time = int
type_synonym duration = int

abbreviation (input) second :: duration where "second \<equiv> 1000000000"
abbreviation (input) minute :: duration where "minute \<equiv> 60000000000"

abbreviation (input) zero_time :: go_time where "zero_time \<equiv> 0"

abbreviation (input) max_duration :: duration where "max_duration \<equiv> 9223372036854775807"
abbreviation (input) min_duration :: duration where "min_duration \<equiv> - 9223372036854775808"

definition time_sub :: "go_time \<Rightarrow> go_time \<Rightarrow> duration" where
  "time_sub t u = max min_duration (min max_duration (t - u))"

text \<open>Comparisons with a duration inside the range do not notice the saturation.\<close>

lemma time_sub_less [go_simps]:
  "min_duration < d \<Longrightarrow> d \<le> max_duration \<Longrightarrow> time_sub t u < d \<longleftrightarrow> t - u < d"
  by (auto simp: time_sub_def)

lemma time_sub_le [go_simps]:
  "min_duration \<le> d \<Longrightarrow> d < max_duration \<Longrightarrow> time_sub t u \<le> d \<longleftrightarrow> t - u \<le> d"
  by (auto simp: time_sub_def)

lemma time_sub_gt [go_simps]:
  "min_duration \<le> d \<Longrightarrow> d < max_duration \<Longrightarrow> d < time_sub t u \<longleftrightarrow> d < t - u"
  by (auto simp: time_sub_def)

lemma time_sub_ge [go_simps]:
  "min_duration < d \<Longrightarrow> d \<le> max_duration \<Longrightarrow> d \<le> time_sub t u \<longleftrightarrow> d \<le> t - u"
  by (auto simp: time_sub_def)

section \<open>Go maps\<close>

text \<open>Reading a Go map at an absent key gives the zero value of its value type.\<close>

definition get_or :: "'v \<Rightarrow> ('k \<rightharpoonup> 'v) \<Rightarrow> 'k \<Rightarrow> 'v" where
  "get_or z m k = (case m k of None \<Rightarrow> z | Some v \<Rightarrow> v)"

lemma get_or_upd [simp]: "get_or z (m(k \<mapsto> v)) j = (if j = k then v else get_or z m j)"
  by (simp add: get_or_def)

lemma get_or_empty [simp]: "get_or z Map.empty k = z"
  by (simp add: get_or_def)

text \<open>\<open>m[k]++\<close> on a \<open>map[string]int\<close>.\<close>

definition bump :: "('k \<rightharpoonup> int) \<Rightarrow> 'k \<Rightarrow> ('k \<rightharpoonup> int)" where
  "bump m k = m(k \<mapsto> get_or 0 m k + 1)"

lemma get_or_bump [simp]:
  "get_or 0 (bump m k) j = get_or 0 m j + (if j = k then 1 else 0)"
  by (simp add: bump_def)

section \<open>Faults\<close>

text \<open>
  The error taxonomy of src/internal/kernel/fault/fault.go. A fault is its kind
  and its code; the message text and the wrapped cause are presentation only.
\<close>

datatype kind =
  KindInternal | KindInvalid | KindNotFound | KindConflict
| KindUnauthenticated | KindForbidden | KindUnavailable | KindTooMany

datatype fault = Fault (fault_kind: kind) (fault_code: string)

definition Invalid :: "string \<Rightarrow> fault" where
  "Invalid code = Fault KindInvalid code"
definition NotFound :: "string \<Rightarrow> fault" where
  "NotFound code = Fault KindNotFound code"
definition Conflict :: "string \<Rightarrow> fault" where
  "Conflict code = Fault KindConflict code"
definition Unauthenticated :: "string \<Rightarrow> fault" where
  "Unauthenticated code = Fault KindUnauthenticated code"
definition Forbidden :: "string \<Rightarrow> fault" where
  "Forbidden code = Fault KindForbidden code"
definition Unavailable :: "string \<Rightarrow> fault" where
  "Unavailable code = Fault KindUnavailable code"
definition TooMany :: "string \<Rightarrow> fault" where
  "TooMany code = Fault KindTooMany code"
definition Internal :: fault where
  "Internal = Fault KindInternal ''internal_error''"

lemmas fault_defs [fault_simps] =
  Invalid_def NotFound_def Conflict_def Unauthenticated_def Forbidden_def
  Unavailable_def TooMany_def Internal_def

section \<open>Results\<close>

type_synonym 'a result = "fault + 'a"

text \<open>\<open>if err != nil { return err }\<close> after a call.\<close>

definition bindR :: "('e + 'a) \<Rightarrow> ('a \<Rightarrow> 'e + 'b) \<Rightarrow> 'e + 'b" where
  "bindR r f = (case r of Inl e \<Rightarrow> Inl e | Inr a \<Rightarrow> f a)"

lemma bindR_simps [simp]: "bindR (Inl e) f = Inl e" "bindR (Inr a) f = f a"
  by (simp_all add: bindR_def)

lemma bindR_eq_Inr: "bindR r f = Inr b \<longleftrightarrow> (\<exists>a. r = Inr a \<and> f a = Inr b)"
  by (cases r) auto

lemma bindR_eq_Inl: "bindR r f = Inl e \<longleftrightarrow> r = Inl e \<or> (\<exists>a. r = Inr a \<and> f a = Inl e)"
  by (cases r) auto

section \<open>Lists\<close>

lemma sorted_map_append_iff:
  "sorted (map f (xs @ ys)) \<longleftrightarrow>
     sorted (map f xs) \<and> sorted (map f ys) \<and> (\<forall>x\<in>set xs. \<forall>y\<in>set ys. f x \<le> f y)"
  by (auto simp: sorted_append)

lemma sorted_map_last:
  assumes "sorted (map f xs)" "x \<in> set xs"
  shows "f x \<le> f (last xs)"
proof -
  from assms(2) have "xs \<noteq> []" by auto
  then have "xs = butlast xs @ [last xs]" by simp
  with assms have s: "sorted (map f (butlast xs @ [last xs]))" by metis
  from assms(2) \<open>xs = _\<close> have "x \<in> set (butlast xs) \<or> x = last xs"
    by (metis Un_iff empty_iff empty_set set_ConsD set_append)
  with s show ?thesis by (auto simp: sorted_append)
qed

lemma sorted_map_hd:
  assumes "sorted (map f xs)" "x \<in> set xs"
  shows "f (hd xs) \<le> f x"
  using assms by (cases xs) auto

lemma sorted_map_take [intro]: "sorted (map f xs) \<Longrightarrow> sorted (map f (take n xs))"
  by (metis sorted_wrt_take take_map)

lemma sorted_map_drop [intro]: "sorted (map f xs) \<Longrightarrow> sorted (map f (drop n xs))"
  by (metis sorted_wrt_drop drop_map)

lemma last_take_nth: "0 < n \<Longrightarrow> n \<le> length xs \<Longrightarrow> last (take n xs) = xs ! (n - 1)"
  by (subst last_conv_nth) (auto simp: min_def)

lemma filter_empty_if: "(\<And>x. x \<in> set xs \<Longrightarrow> \<not> P x) \<Longrightarrow> filter P xs = []"
  by (simp add: filter_empty_conv)

text \<open>Updating at most one row of a table that is keyed by \<open>f\<close>.\<close>

definition update_where :: "('a \<Rightarrow> bool) \<Rightarrow> ('a \<Rightarrow> 'a) \<Rightarrow> 'a list \<Rightarrow> 'a list" where
  "update_where P f xs = map (\<lambda>x. if P x then f x else x) xs"

lemma set_update_where:
  "set (update_where P f xs) = {x \<in> set xs. \<not> P x} \<union> f ` {x \<in> set xs. P x}"
  by (auto simp: update_where_def)

lemma map_update_where:
  "(\<And>x. P x \<Longrightarrow> g (f x) = g x) \<Longrightarrow> map g (update_where P f xs) = map g xs"
  by (simp add: update_where_def)

lemma length_update_where [simp]: "length (update_where P f xs) = length xs"
  by (simp add: update_where_def)

lemma update_where_none: "(\<And>x. x \<in> set xs \<Longrightarrow> \<not> P x) \<Longrightarrow> update_where P f xs = xs"
  by (simp add: update_where_def map_idI)

lemma Bex_update_where:
  "(\<exists>x\<in>set (update_where P f xs). Q x) \<longleftrightarrow> (\<exists>x\<in>set xs. if P x then Q (f x) else Q x)"
  by (auto simp: update_where_def)

lemma Ball_update_where:
  "(\<forall>x\<in>set (update_where P f xs). Q x) \<longleftrightarrow> (\<forall>x\<in>set xs. if P x then Q (f x) else Q x)"
  by (auto simp: update_where_def)

lemma find_SomeD: "find P xs = Some x \<Longrightarrow> x \<in> set xs \<and> P x"
  by (auto simp: find_Some_iff)

lemma find_key:
  "distinct (map key xs) \<Longrightarrow> x \<in> set xs \<Longrightarrow> find (\<lambda>y. key y = key x) xs = Some x"
  by (induction xs) auto

lemma snd_case_result:
  "snd (case r of (Inl e, s) \<Rightarrow> (f e s, g e s) | (Inr a, s) \<Rightarrow> (h a s, k a s)) =
   (case r of (Inl e, s) \<Rightarrow> g e s | (Inr a, s) \<Rightarrow> k a s)"
  by (cases r; cases "fst r") auto

lemma distinct_map_eq:
  "distinct (map f xs) \<Longrightarrow> x \<in> set xs \<Longrightarrow> y \<in> set xs \<Longrightarrow> f x = f y \<Longrightarrow> x = y"
  by (auto simp: distinct_map dest: inj_onD)

lemma find_update_where:
  "(\<And>x. P x \<Longrightarrow> key (f x) = key x) \<Longrightarrow>
   find (\<lambda>y. key y = k) (update_where P f xs) =
   map_option (\<lambda>x. if P x then f x else x) (find (\<lambda>y. key y = k) xs)"
  by (induction xs) (auto simp: update_where_def)

text \<open>What an update of one row, or the removal of rows, does to a sum over a table.\<close>

lemma sum_update_one:
  fixes g :: "'a \<Rightarrow> int"
  assumes "distinct (map key xs)" "x \<in> set xs" "\<And>y. P (f y) = P y"
  shows "sum_list (map g (filter P (update_where (\<lambda>y. key y = key x) f xs))) =
    sum_list (map g (filter P xs)) + (if P x then g (f x) - g x else 0)"
  using assms(1,2)
proof (induction xs)
  case (Cons y ys)
  show ?case
  proof (cases "y = x")
    case True
    then have "update_where (\<lambda>y. key y = key x) f ys = ys"
      using Cons.prems by (intro update_where_none) (auto simp: image_iff)
    then show ?thesis using True assms(3) by (simp add: update_where_def)
  next
    case False
    then have "x \<in> set ys" "key y \<noteq> key x" using Cons.prems by auto
    then show ?thesis using Cons assms(3) by (simp add: update_where_def)
  qed
qed simp

lemma length_filter_update:
  "(\<And>y. P (f y) = P y) \<Longrightarrow> length (filter P (update_where Q f xs)) = length (filter P xs)"
  by (induction xs) (auto simp: update_where_def)

lemma sum_filter_le:
  fixes g :: "'a \<Rightarrow> int"
  shows "(\<And>x. x \<in> set xs \<Longrightarrow> 0 \<le> g x) \<Longrightarrow> sum_list (map g (filter P (filter Q xs))) \<le> sum_list (map g (filter P xs))"
  by (induction xs) (auto, fastforce)

lemma length_filter_filter_le: "length (filter P (filter Q xs)) \<le> length (filter P xs)"
  by (induction xs) auto

end
