(* ===== verification/GoSort.thy ===== *)
theory GoSort
  imports Prelude
begin

text \<open>
  Go's \<open>sort.SliceStable\<close>, which the scheduler and the route tables call: runs
  of twenty elements sorted by insertion, then merged pairwise by SymMerge, the
  in-place merge the Go library uses. A comparison function is whatever the
  caller passes; nothing makes it an order, and the scheduler's is not one.

  The theory shows, for any comparison that refines a key, that the result is a
  permutation sorted by that key, and, when the comparison is exactly the
  strict order of the key, that the result is the stable sort \<open>sort_key\<close>.
\<close>

section \<open>Insertion sort of one run\<close>

text \<open>The new element moves left past its greater neighbours; the run is kept reversed.\<close>

fun insert_back :: "('a \<Rightarrow> 'a \<Rightarrow> bool) \<Rightarrow> 'a \<Rightarrow> 'a list \<Rightarrow> 'a list" where
  "insert_back lt x [] = [x]"
| "insert_back lt x (y # ys) =
     (if lt x y then y # insert_back lt x ys else x # y # ys)"

fun insert_run :: "('a \<Rightarrow> 'a \<Rightarrow> bool) \<Rightarrow> 'a list \<Rightarrow> 'a list \<Rightarrow> 'a list" where
  "insert_run lt acc [] = rev acc"
| "insert_run lt acc (x # xs) = insert_run lt (insert_back lt x acc) xs"

definition insertion_sort :: "('a \<Rightarrow> 'a \<Rightarrow> bool) \<Rightarrow> 'a list \<Rightarrow> 'a list" where
  "insertion_sort lt xs = insert_run lt [] xs"

section \<open>SymMerge\<close>

text \<open>The binary search both halves of SymMerge use: the first index at which \<open>P\<close> fails.\<close>

function bsearch :: "(nat \<Rightarrow> bool) \<Rightarrow> nat \<Rightarrow> nat \<Rightarrow> nat" where
  "bsearch P i j =
     (if i < j
      then (let h = (i + j) div 2 in if P h then bsearch P (Suc h) j else bsearch P i h)
      else i)"
  by pat_completeness auto
termination
  by (relation "measure (\<lambda>(P, i, j). j - i)") auto

declare bsearch.simps [simp del]

text \<open>
  Two adjacent runs \<open>A\<close> and \<open>B\<close>. The rotation of the middle part is written as the
  split it produces: the first \<open>s\<close> elements of \<open>A\<close> with the first \<open>mid - s\<close> of
  \<open>B\<close>, then the rest of both.
\<close>

definition sym_split :: "('a \<Rightarrow> 'a \<Rightarrow> bool) \<Rightarrow> 'a list \<Rightarrow> 'a list \<Rightarrow> nat" where
  "sym_split lt A B =
     (let m = length A; b = length A + length B; mid = b div 2;
          (start, r) = (if mid < m then (mid + m - b, mid) else (0, m))
      in bsearch (\<lambda>c. \<not> lt (B ! (mid - 1 - c)) (A ! c)) start r)"

function sym_merge :: "('a \<Rightarrow> 'a \<Rightarrow> bool) \<Rightarrow> 'a list \<Rightarrow> 'a list \<Rightarrow> 'a list" where
  "sym_merge lt A B =
     (if A = [] \<or> B = [] then A @ B
      else if length A = 1
      then (let i = bsearch (\<lambda>h. lt (B ! h) (A ! 0)) 0 (length B)
            in take i B @ A @ drop i B)
      else if length B = 1
      then (let i = bsearch (\<lambda>h. \<not> lt (B ! 0) (A ! h)) 0 (length A)
            in take i A @ B @ drop i A)
      else (let mid = (length A + length B) div 2; s = sym_split lt A B; k = mid - s
            in (if 0 < s \<and> s < mid then sym_merge lt (take s A) (take k B)
                else take s A @ take k B) @
               (if s < length A \<and> k < length B then sym_merge lt (drop s A) (drop k B)
                else drop s A @ drop k B)))"
  by pat_completeness auto
termination
proof (relation "measure (\<lambda>(lt, A, B). length A + length B)", goal_cases)
  case 1
  show ?case by simp
next
  case (2 lt A B mid s k)
  then show ?case by (cases A; cases B) (auto simp: min_def)
next
  case (3 lt A B mid s k)
  from 3 have "A \<noteq> []" "B \<noteq> []" by auto
  with 3(4,6) have "0 < s \<or> 0 < k" by (cases A; cases B) auto
  with 3 \<open>A \<noteq> []\<close> \<open>B \<noteq> []\<close> show ?case by auto
qed

declare sym_merge.simps [simp del]

section \<open>The whole sort\<close>

definition block_size :: nat where
  "block_size = 20"

function chunks :: "nat \<Rightarrow> 'a list \<Rightarrow> 'a list list" where
  "chunks n xs = (if n = 0 \<or> xs = [] then (if xs = [] then [] else [xs])
                  else take n xs # chunks n (drop n xs))"
  by pat_completeness auto
termination
  by (relation "measure (\<lambda>(n, xs). length xs)") auto

declare chunks.simps [simp del]

fun merge_pass :: "('a \<Rightarrow> 'a \<Rightarrow> bool) \<Rightarrow> 'a list list \<Rightarrow> 'a list list" where
  "merge_pass lt (A # B # rest) = sym_merge lt A B # merge_pass lt rest"
| "merge_pass lt rest = rest"

lemma length_merge_pass_le: "length (merge_pass lt xss) \<le> length xss"
  by (induction lt xss rule: merge_pass.induct) auto

function merge_runs :: "('a \<Rightarrow> 'a \<Rightarrow> bool) \<Rightarrow> 'a list list \<Rightarrow> 'a list" where
  "merge_runs lt [] = []"
| "merge_runs lt [A] = A"
| "merge_runs lt (A # B # rest) = merge_runs lt (merge_pass lt (A # B # rest))"
  by pat_completeness auto
termination
  by (relation "measure (\<lambda>(lt, xss). length xss)")
     (auto simp: less_Suc_eq_le length_merge_pass_le le_SucI)

definition slice_stable :: "('a \<Rightarrow> 'a \<Rightarrow> bool) \<Rightarrow> 'a list \<Rightarrow> 'a list" where
  "slice_stable lt xs = merge_runs lt (map (insertion_sort lt) (chunks block_size xs))"

section \<open>The result is a permutation\<close>

lemma mset_insert_back [simp]: "mset (insert_back lt x ys) = add_mset x (mset ys)"
  by (induction lt x ys rule: insert_back.induct) auto

lemma mset_insert_run [simp]: "mset (insert_run lt acc xs) = mset acc + mset xs"
  by (induction lt acc xs rule: insert_run.induct) auto

lemma mset_insertion_sort [simp]: "mset (insertion_sort lt xs) = mset xs"
  by (simp add: insertion_sort_def)

lemma mset_take_drop [simp]: "mset (take n xs) + mset (drop n xs) = mset xs"
  by (metis append_take_drop_id mset_append)

lemma mset_sym_merge [simp]: "mset (sym_merge lt A B) = mset A + mset B"
proof (induction lt A B rule: sym_merge.induct)
  case (1 lt A B)
  have split_mset: "mset (take n xs) + (mset (take m ys) + (mset (drop n xs) + mset (drop m ys)))
      = mset xs + mset ys" for n m and xs ys :: "'a list"
    by (metis mset_take_drop union_assoc union_lcomm)
  have mid: "mset (take n xs) + (M + mset (drop n xs)) = M + mset xs" for n M and xs :: "'a list"
    by (metis mset_take_drop union_lcomm)
  show ?case
    by (subst sym_merge.simps) (auto simp: Let_def 1 split_mset mid union_assoc)
qed

lemma concat_chunks [simp]: "concat (chunks n xs) = xs"
  by (induction n xs rule: chunks.induct) (subst chunks.simps, auto)

lemma mset_concat_merge_pass: "mset (concat (merge_pass lt xss)) = mset (concat xss)"
  by (induction lt xss rule: merge_pass.induct) (auto simp: union_assoc)

lemma mset_merge_runs: "mset (merge_runs lt xss) = mset (concat xss)"
proof (induction lt xss rule: merge_runs.induct)
  case (3 lt A B rest)
  then show ?case
    using mset_concat_merge_pass [of lt "A # B # rest"] by simp
qed simp_all

lemma mset_concat_map_insertion: "mset (concat (map (insertion_sort lt) xss)) = mset (concat xss)"
  by (induction xss) auto

theorem mset_slice_stable [simp]: "mset (slice_stable lt xs) = mset xs"
  by (simp add: slice_stable_def mset_merge_runs mset_concat_map_insertion)

corollary set_slice_stable [simp]: "set (slice_stable lt xs) = set xs"
  by (metis mset_slice_stable set_mset_mset)

corollary length_slice_stable [simp]: "length (slice_stable lt xs) = length xs"
  by (metis mset_slice_stable size_mset)

section \<open>Binary search\<close>

lemma bsearch_bounds: "i \<le> j \<Longrightarrow> i \<le> bsearch P i j \<and> bsearch P i j \<le> j"
proof (induction P i j rule: bsearch.induct)
  case (1 P i j)
  then show ?case
    by (subst (1 2) bsearch.simps) (fastforce simp: Let_def split: if_splits)
qed

lemma bsearch_below: "i < bsearch P i j \<Longrightarrow> P (bsearch P i j - 1)"
proof (induction P i j rule: bsearch.induct)
  case (1 P i j)
  show ?case
  proof (cases "i < j")
    case False
    with 1 show ?thesis by (subst (asm) bsearch.simps) simp
  next
    case True
    define h where "h = (i + j) div 2"
    show ?thesis
    proof (cases "P h")
      case P: True
      have eq: "bsearch P i j = bsearch P (Suc h) j"
        using True P by (subst bsearch.simps) (simp add: h_def)
      have "Suc h \<le> bsearch P (Suc h) j"
        using True bsearch_bounds [of "Suc h" j P] by (simp add: h_def)
      then show ?thesis
        using 1(1) [OF True h_def P] P by (cases "bsearch P (Suc h) j = Suc h") (auto simp: eq)
    next
      case P: False
      have eq: "bsearch P i j = bsearch P i h"
        using True P by (subst bsearch.simps) (simp add: h_def)
      show ?thesis using 1(2) [OF True h_def P] 1(3) by (simp add: eq)
    qed
  qed
qed

lemma bsearch_at: "bsearch P i j < j \<Longrightarrow> i \<le> j \<Longrightarrow> \<not> P (bsearch P i j)"
proof (induction P i j rule: bsearch.induct)
  case (1 P i j)
  show ?case
  proof (cases "i < j")
    case False
    with 1(3,4) show ?thesis by (simp add: bsearch.simps [of P i j])
  next
    case True
    define h where "h = (i + j) div 2"
    show ?thesis
    proof (cases "P h")
      case P: True
      have eq: "bsearch P i j = bsearch P (Suc h) j"
        using True P by (subst bsearch.simps) (simp add: h_def)
      show ?thesis using 1(1) [OF True h_def P] 1(3) True by (simp add: eq h_def)
    next
      case P: False
      have eq: "bsearch P i j = bsearch P i h"
        using True P by (subst bsearch.simps) (simp add: h_def)
      have "bsearch P i h \<le> h" using bsearch_bounds [of i h P] True by (simp add: h_def)
      then show ?thesis
        using 1(2) [OF True h_def P] P True by (cases "bsearch P i h = h") (auto simp: eq h_def)
    qed
  qed
qed

section \<open>Where SymMerge cuts the two runs\<close>

lemma sym_split_cut:
  fixes A B :: "'a list" and lt :: "'a \<Rightarrow> 'a \<Rightarrow> bool"
  defines "mid \<equiv> (length A + length B) div 2"
  defines "s \<equiv> sym_split lt A B"
  shows sym_split_le_mid: "s \<le> mid"
    and sym_split_le_length: "s \<le> length A"
    and sym_split_rest: "mid - s \<le> length B"
    and sym_split_keep: "0 < s \<Longrightarrow> mid - s < length B \<Longrightarrow> \<not> lt (B ! (mid - s)) (A ! (s - 1))"
    and sym_split_cross: "s < mid \<Longrightarrow> s < length A \<Longrightarrow> lt (B ! (mid - s - 1)) (A ! s)"
proof -
  define P where "P = (\<lambda>c. \<not> lt (B ! (mid - 1 - c)) (A ! c))"
  define start where "start = (if mid < length A then mid + length A - (length A + length B) else 0)"
  define r where "r = (if mid < length A then mid else length A)"
  have s: "s = bsearch P start r"
    by (simp add: s_def sym_split_def P_def start_def r_def mid_def Let_def)
  have se: "start \<le> r" by (simp add: start_def r_def mid_def)
  have b: "start \<le> s" "s \<le> r" using bsearch_bounds [OF se, of P] by (simp_all add: s)
  show le_mid: "s \<le> mid" using b by (simp add: r_def split: if_splits)
  show "s \<le> length A" using b by (simp add: r_def split: if_splits)
  show "mid - s \<le> length B"
    using b by (auto simp: start_def r_def mid_def split: if_splits)
  show "\<not> lt (B ! (mid - s)) (A ! (s - 1))" if "0 < s" "mid - s < length B"
  proof -
    have "start < s"
      using b that by (auto simp: start_def mid_def split: if_splits)
    then have "P (s - 1)" using bsearch_below [of start P r] by (simp add: s)
    moreover have "mid - 1 - (s - 1) = mid - s" using that le_mid by simp
    ultimately show ?thesis by (simp add: P_def)
  qed
  show "lt (B ! (mid - s - 1)) (A ! s)" if "s < mid" "s < length A"
  proof -
    have "s < r" using that by (simp add: r_def)
    then have "\<not> P s" using bsearch_at [of P start r] se by (simp add: s)
    moreover have "mid - 1 - s = mid - s - 1" by simp
    ultimately show ?thesis by (simp add: P_def)
  qed
qed

section \<open>Comparisons that refine a key\<close>

locale key_comparison =
  fixes lt :: "'a \<Rightarrow> 'a \<Rightarrow> bool"
    and key :: "'a \<Rightarrow> 'k::linorder"
  assumes lt_le: "lt x y \<Longrightarrow> key x \<le> key y"
    and not_lt_ge: "\<not> lt x y \<Longrightarrow> key y \<le> key x"
begin

lemma rev_sorted_insert_back:
  "sorted (map key (rev acc)) \<Longrightarrow> sorted (map key (rev (insert_back lt x acc)))"
proof (induction acc)
  case (Cons y ys)
  have "set (rev (insert_back lt x ys)) = insert x (set ys)"
    by (metis mset_insert_back set_mset_add_mset_insert set_mset_mset set_rev)
  with Cons show ?case
    by (auto simp: sorted_append dest: lt_le not_lt_ge intro: order_trans)
qed simp

lemma sorted_insert_run:
  "sorted (map key (rev acc)) \<Longrightarrow> sorted (map key (insert_run lt acc xs))"
proof (induction xs arbitrary: acc)
  case (Cons x xs)
  then show ?case using rev_sorted_insert_back [of acc x] by simp
qed simp

lemma sorted_insertion_sort: "sorted (map key (insertion_sort lt xs))"
  by (simp add: insertion_sort_def sorted_insert_run)

text \<open>After the cut, everything on the left is at most everything on the right.\<close>

lemma sym_split_separates:
  assumes A: "sorted (map key A)" and B: "sorted (map key B)"
  defines "mid \<equiv> (length A + length B) div 2"
  defines "s \<equiv> sym_split lt A B"
  assumes x: "x \<in> set (take s A) \<union> set (take (mid - s) B)"
    and y: "y \<in> set (drop s A) \<union> set (drop (mid - s) B)"
  shows "key x \<le> key y"
proof -
  note cut = sym_split_cut [where lt = lt and A = A and B = B, folded mid_def s_def]
  have AA: "key x \<le> key y" if "x \<in> set (take s A)" "y \<in> set (drop s A)"
    using A that sorted_map_append_iff [of key "take s A" "drop s A"] by auto
  have BB: "key x \<le> key y" if "x \<in> set (take k B)" "y \<in> set (drop k B)" for k
    using B that sorted_map_append_iff [of key "take k B" "drop k B"] by auto
  have AB: "key x \<le> key y" if x: "x \<in> set (take s A)" and y: "y \<in> set (drop (mid - s) B)"
  proof -
    have s: "0 < s" "take s A \<noteq> []" using x by (cases s; auto)+
    have k: "mid - s < length B" using y by (cases "mid - s < length B") auto
    have "key x \<le> key (A ! (s - 1))"
      using sorted_map_last [OF sorted_map_take [OF A] x] s cut(2) by (simp add: last_take_nth)
    also have "\<dots> \<le> key (B ! (mid - s))" using cut(4) [OF s(1) k] by (rule not_lt_ge)
    also have "\<dots> \<le> key y"
      using sorted_map_hd [OF sorted_map_drop [OF B] y] k by (simp add: hd_drop_conv_nth)
    finally show ?thesis .
  qed
  have BA: "key x \<le> key y" if x: "x \<in> set (take (mid - s) B)" and y: "y \<in> set (drop s A)"
  proof -
    have k: "s < mid" "0 < mid - s" using x by (cases "mid - s"; auto)+
    have s: "s < length A" using y by (cases "s < length A") auto
    have "key x \<le> key (B ! (mid - s - 1))"
      using sorted_map_last [OF sorted_map_take [OF B] x] k cut(3) by (simp add: last_take_nth)
    also have "\<dots> \<le> key (A ! s)" using cut(5) [OF k(1) s] by (rule lt_le)
    also have "\<dots> \<le> key y"
      using sorted_map_hd [OF sorted_map_drop [OF A] y] s by (simp add: hd_drop_conv_nth)
    finally show ?thesis .
  qed
  from x y AA BB AB BA show ?thesis by auto
qed

lemma sorted_insert_at:
  assumes "sorted (map key B)" "i \<le> length B"
    and "0 < i \<Longrightarrow> key (B ! (i - 1)) \<le> key x" and "i < length B \<Longrightarrow> key x \<le> key (B ! i)"
  shows "sorted (map key (take i B @ [x] @ drop i B))"
proof -
  have left: "key y \<le> key x" if "y \<in> set (take i B)" for y
  proof -
    have "0 < i" using that by (cases i) auto
    then show ?thesis
      using sorted_map_last [OF sorted_map_take [OF assms(1)] that] assms(2,3)
      by (simp add: last_take_nth)
  qed
  have right: "key x \<le> key y" if "y \<in> set (drop i B)" for y
  proof -
    have "i < length B" using that by (cases "i < length B") auto
    then show ?thesis
      using sorted_map_hd [OF sorted_map_drop [OF assms(1)] that] assms(4)
      by (simp add: hd_drop_conv_nth)
  qed
  have "key y \<le> key z" if "y \<in> set (take i B)" "z \<in> set (drop i B)" for y z
    using left [OF that(1)] right [OF that(2)] by (rule order_trans)
  with left right show ?thesis
    using sorted_map_take [OF assms(1)] sorted_map_drop [OF assms(1)] by (auto simp: sorted_append)
qed

lemma sorted_sym_merge:
  "sorted (map key A) \<Longrightarrow> sorted (map key B) \<Longrightarrow> sorted (map key (sym_merge lt A B))"
proof (induction "length A + length B" arbitrary: A B rule: less_induct)
  case less
  show ?case
  proof (cases "A = [] \<or> B = [] \<or> length A = 1 \<or> length B = 1")
    case True
    then consider "A = [] \<or> B = []" | x where "A = [x]" "B \<noteq> []"
      | y where "B = [y]" "A \<noteq> []" "length A \<noteq> 1"
      by (cases A; cases B) auto
    then show ?thesis
    proof cases
      case 1
      with less.prems show ?thesis by (subst sym_merge.simps) auto
    next
      case (2 x)
      define i where "i = bsearch (\<lambda>h. lt (B ! h) x) 0 (length B)"
      have "sorted (map key (take i B @ [x] @ drop i B))"
        using less.prems(2) bsearch_bounds [of 0 "length B"] bsearch_below [of 0 _ "length B"]
          bsearch_at [of _ 0 "length B"]
        by (intro sorted_insert_at) (auto simp: i_def intro: lt_le not_lt_ge)
      with 2 show ?thesis by (subst sym_merge.simps) (simp add: i_def Let_def)
    next
      case (3 y)
      define i where "i = bsearch (\<lambda>h. \<not> lt y (A ! h)) 0 (length A)"
      have "sorted (map key (take i A @ [y] @ drop i A))"
        using less.prems(1) bsearch_bounds [of 0 "length A"] bsearch_below [of 0 _ "length A"]
          bsearch_at [of _ 0 "length A"]
        by (intro sorted_insert_at) (auto simp: i_def intro: lt_le not_lt_ge)
      with 3 show ?thesis by (subst sym_merge.simps) (simp add: i_def Let_def)
    qed
  next
    case False
    define mid where "mid = (length A + length B) div 2"
    define s where "s = sym_split lt A B"
    define L where "L = (if 0 < s \<and> s < mid then sym_merge lt (take s A) (take (mid - s) B)
                         else take s A @ take (mid - s) B)"
    define R where "R = (if s < length A \<and> mid - s < length B
                         then sym_merge lt (drop s A) (drop (mid - s) B)
                         else drop s A @ drop (mid - s) B)"
    note cut = sym_split_cut [where lt = lt and A = A and B = B, folded mid_def s_def]
    have eq: "sym_merge lt A B = L @ R"
      using False by (subst sym_merge.simps) (simp add: L_def R_def s_def mid_def Let_def)
    have sizes: "length (take s A) + length (take (mid - s) B) < length A + length B"
      "length (drop s A) + length (drop (mid - s) B) < length A + length B"
      using False cut(1-3) by (cases A; cases B; auto simp: mid_def)+
    have L: "sorted (map key L)"
      using less.hyps [OF sizes(1)] less.prems cut(1-3)
      by (cases "0 < s"; cases "s < mid") (auto simp: L_def)
    have R: "sorted (map key R)"
      using less.hyps [OF sizes(2)] less.prems cut(1-3)
      by (cases "s < length A"; cases "mid - s < length B") (auto simp: R_def)
    have mL: "mset L = mset (take s A) + mset (take (mid - s) B)"
      and mR: "mset R = mset (drop s A) + mset (drop (mid - s) B)"
      by (simp_all add: L_def R_def)
    have sets: "set L = set (take s A) \<union> set (take (mid - s) B)"
      "set R = set (drop s A) \<union> set (drop (mid - s) B)"
      using arg_cong [OF mL, of set_mset] arg_cong [OF mR, of set_mset] by simp_all
    have "key x \<le> key y" if "x \<in> set L" "y \<in> set R" for x y
      using that sym_split_separates [OF less.prems, of x y] by (simp add: sets s_def mid_def)
    with L R show ?thesis by (simp add: eq sorted_append)
  qed
qed

lemma sorted_merge_pass:
  "\<forall>xs\<in>set xss. sorted (map key xs) \<Longrightarrow> \<forall>xs\<in>set (merge_pass lt xss). sorted (map key xs)"
  by (induction xss rule: induct_list012) (auto simp: sorted_sym_merge)

lemma sorted_merge_runs:
  "\<forall>xs\<in>set xss. sorted (map key xs) \<Longrightarrow> sorted (map key (merge_runs lt xss))"
proof (induction "length xss" arbitrary: xss rule: less_induct)
  case less
  show ?case
  proof (cases "(lt, xss)" rule: merge_runs.cases)
    case (3 lt' A B rest)
    then show ?thesis
      using less.hyps [of "merge_pass lt xss"] sorted_merge_pass [of xss] less.prems
        length_merge_pass_le [of lt rest] by simp
  qed (use less.prems in auto)
qed

theorem sorted_slice_stable: "sorted (map key (slice_stable lt xs))"
  by (simp add: slice_stable_def sorted_merge_runs sorted_insertion_sort)

corollary slice_stable_hd_least:
  assumes "x \<in> set xs"
  shows "key (hd (slice_stable lt xs)) \<le> key x"
  using sorted_map_hd [OF sorted_slice_stable [of xs]] assms by simp

end

section \<open>Comparisons that are the strict order of a key\<close>

locale strict_key_comparison =
  fixes lt :: "'a \<Rightarrow> 'a \<Rightarrow> bool"
    and key :: "'a \<Rightarrow> 'k::linorder"
  assumes lt_iff: "lt x y \<longleftrightarrow> key x < key y"

sublocale strict_key_comparison \<subseteq> key_comparison lt key
  by unfold_locales (auto simp: lt_iff)

context strict_key_comparison
begin

abbreviation eqs :: "'k \<Rightarrow> 'a list \<Rightarrow> 'a list" where
  "eqs c xs \<equiv> filter (\<lambda>z. key z = c) xs"

lemma eqs_insert_back: "eqs c (rev (insert_back lt x acc)) = eqs c (rev acc) @ eqs c [x]"
  by (induction acc) (auto simp: lt_iff)

lemma eqs_insert_run: "eqs c (insert_run lt acc xs) = eqs c (rev acc) @ eqs c xs"
proof (induction xs arbitrary: acc)
  case (Cons x xs)
  then show ?case using eqs_insert_back [of c x acc] by simp
qed simp

lemma eqs_insertion_sort: "eqs c (insertion_sort lt xs) = eqs c xs"
  by (simp add: insertion_sort_def eqs_insert_run)

lemma sym_split_crosses_strictly:
  assumes A: "sorted (map key A)" and B: "sorted (map key B)"
  defines "mid \<equiv> (length A + length B) div 2"
  defines "s \<equiv> sym_split lt A B"
  assumes x: "x \<in> set (take (mid - s) B)" and y: "y \<in> set (drop s A)"
  shows "key x < key y"
proof -
  note cut = sym_split_cut [where lt = lt and A = A and B = B, folded mid_def s_def]
  have k: "s < mid" "0 < mid - s" using x by (cases "mid - s"; auto)+
  have s: "s < length A" using y by (cases "s < length A") auto
  have "key x \<le> key (B ! (mid - s - 1))"
    using sorted_map_last [OF sorted_map_take [OF B] x] k cut(3) by (simp add: last_take_nth)
  also have "\<dots> < key (A ! s)" using cut(5) [OF k(1) s] by (simp add: lt_iff)
  also have "\<dots> \<le> key y"
    using sorted_map_hd [OF sorted_map_drop [OF A] y] s by (simp add: hd_drop_conv_nth)
  finally show ?thesis .
qed

lemma eqs_swap:
  assumes "\<And>x y. x \<in> set xs \<Longrightarrow> y \<in> set ys \<Longrightarrow> key x < key y"
  shows "eqs c xs @ eqs c ys = eqs c ys @ eqs c xs"
proof -
  have "eqs c xs = [] \<or> eqs c ys = []"
    using assms by (fastforce simp: filter_empty_conv)
  then show ?thesis by auto
qed

lemma bsearch_less_before:
  assumes "sorted (map key B)" and "y \<in> set (take (bsearch (\<lambda>h. lt (B ! h) x) 0 (length B)) B)"
  shows "key y < key x"
proof -
  define i where "i = bsearch (\<lambda>h. lt (B ! h) x) 0 (length B)"
  have y: "y \<in> set (take i B)" using assms(2) by (simp add: i_def)
  then have i: "0 < i" by (cases i) auto
  have le: "i \<le> length B" using bsearch_bounds [of 0 "length B"] by (simp add: i_def)
  have "key y \<le> key (B ! (i - 1))"
    using sorted_map_last [OF sorted_map_take [OF assms(1)] y] i le by (simp add: last_take_nth)
  also have "\<dots> < key x"
    using bsearch_below [of 0 "\<lambda>h. lt (B ! h) x" "length B"] i by (simp add: i_def lt_iff)
  finally show ?thesis .
qed

lemma bsearch_greater_after:
  assumes "sorted (map key A)" and "z \<in> set (drop (bsearch (\<lambda>h. \<not> lt y (A ! h)) 0 (length A)) A)"
  shows "key y < key z"
proof -
  define i where "i = bsearch (\<lambda>h. \<not> lt y (A ! h)) 0 (length A)"
  have i: "i < length A" using assms(2) by (cases "i < length A") (auto simp: i_def)
  have "key y < key (A ! i)"
    using bsearch_at [of "\<lambda>h. \<not> lt y (A ! h)" 0 "length A"] i by (simp add: i_def lt_iff)
  also have "\<dots> \<le> key z"
    using sorted_map_hd [OF sorted_map_drop [OF assms(1)] assms(2)] i
    by (simp add: hd_drop_conv_nth i_def)
  finally show ?thesis .
qed

lemma eqs_sym_merge:
  "sorted (map key A) \<Longrightarrow> sorted (map key B) \<Longrightarrow> eqs c (sym_merge lt A B) = eqs c A @ eqs c B"
proof (induction "length A + length B" arbitrary: A B rule: less_induct)
  case less
  show ?case
  proof (cases "A = [] \<or> B = [] \<or> length A = 1 \<or> length B = 1")
    case True
    then consider "A = [] \<or> B = []" | x where "A = [x]" "B \<noteq> []"
      | y where "B = [y]" "A \<noteq> []" "length A \<noteq> 1"
      by (cases A; cases B) auto
    then show ?thesis
    proof cases
      case 1
      then show ?thesis by (subst sym_merge.simps) auto
    next
      case (2 x)
      define i where "i = bsearch (\<lambda>h. lt (B ! h) x) 0 (length B)"
      have "eqs c (take i B) @ eqs c [x] = eqs c [x] @ eqs c (take i B)"
        using bsearch_less_before [OF less.prems(2)] by (intro eqs_swap) (auto simp: i_def)
      then have "eqs c (take i B @ [x] @ drop i B) = eqs c [x] @ eqs c (take i B @ drop i B)"
        by (metis append_assoc filter_append)
      with 2 show ?thesis by (subst sym_merge.simps) (simp add: i_def Let_def)
    next
      case (3 y)
      define i where "i = bsearch (\<lambda>h. \<not> lt y (A ! h)) 0 (length A)"
      have "eqs c [y] @ eqs c (drop i A) = eqs c (drop i A) @ eqs c [y]"
        using bsearch_greater_after [OF less.prems(1)] by (intro eqs_swap) (auto simp: i_def)
      then have "eqs c (take i A @ [y] @ drop i A) = eqs c (take i A @ drop i A) @ eqs c [y]"
        by (metis append_assoc filter_append)
      with 3 show ?thesis by (subst sym_merge.simps) (simp add: i_def Let_def)
    qed
  next
    case False
    define mid where "mid = (length A + length B) div 2"
    define s where "s = sym_split lt A B"
    note cut = sym_split_cut [where lt = lt and A = A and B = B, folded mid_def s_def]
    have sizes: "length (take s A) + length (take (mid - s) B) < length A + length B"
      "length (drop s A) + length (drop (mid - s) B) < length A + length B"
      using False cut(1-3) by (cases A; cases B; auto simp: mid_def)+
    have halves: "eqs c (sym_merge lt A B) =
        eqs c (take s A) @ eqs c (take (mid - s) B) @ eqs c (drop s A) @ eqs c (drop (mid - s) B)"
      using False less.hyps [OF sizes(1)] less.hyps [OF sizes(2)]
        sorted_map_take [OF less.prems(1)] sorted_map_take [OF less.prems(2)]
        sorted_map_drop [OF less.prems(1)] sorted_map_drop [OF less.prems(2)]
      by (subst sym_merge.simps) (simp add: s_def mid_def Let_def)
    have "eqs c (take (mid - s) B) @ eqs c (drop s A) = eqs c (drop s A) @ eqs c (take (mid - s) B)"
      using sym_split_crosses_strictly [OF less.prems] by (intro eqs_swap) (auto simp: s_def mid_def)
    with halves have "eqs c (sym_merge lt A B) =
        eqs c (take s A @ drop s A) @ eqs c (take (mid - s) B @ drop (mid - s) B)"
      by (metis append_assoc filter_append)
    then show ?thesis by simp
  qed
qed

lemma eqs_merge_pass:
  "\<forall>xs\<in>set xss. sorted (map key xs) \<Longrightarrow> eqs c (concat (merge_pass lt xss)) = eqs c (concat xss)"
  by (induction xss rule: induct_list012) (auto simp: eqs_sym_merge)

lemma eqs_merge_runs:
  "\<forall>xs\<in>set xss. sorted (map key xs) \<Longrightarrow> eqs c (merge_runs lt xss) = eqs c (concat xss)"
proof (induction "length xss" arbitrary: xss rule: less_induct)
  case less
  show ?case
  proof (cases "(lt, xss)" rule: merge_runs.cases)
    case (3 lt' A B rest)
    then have eq: "merge_runs lt xss = merge_runs lt (merge_pass lt xss)" by simp
    have "length (merge_pass lt xss) < length xss"
      using 3 length_merge_pass_le [of lt rest] by simp
    then show ?thesis
      unfolding eq
      using less.hyps [of "merge_pass lt xss"] sorted_merge_pass [OF less.prems]
        eqs_merge_pass [OF less.prems] by simp
  qed auto
qed

lemma eqs_slice_stable: "eqs c (slice_stable lt xs) = eqs c xs"
proof -
  have "eqs c (concat (map (insertion_sort lt) xss)) = eqs c (concat xss)" for xss
    by (induction xss) (auto simp: eqs_insertion_sort)
  then show ?thesis
    using eqs_merge_runs [of "map (insertion_sort lt) (chunks block_size xs)" c]
    by (simp add: slice_stable_def sorted_insertion_sort)
qed

text \<open>Go's stable sort is the stable sort of the library.\<close>

theorem slice_stable_eq_sort_key: "slice_stable lt xs = sort_key key xs"
proof (rule properties_for_sort_key [symmetric])
  show "filter (\<lambda>x. key k = key x) (slice_stable lt xs) = filter (\<lambda>x. key k = key x) xs" for k
    using eqs_slice_stable [of "key k" xs] by (simp add: eq_commute)
qed (simp_all add: sorted_slice_stable)

end

end
