(* ===== verification/Kernel.thy ===== *)
theory Kernel
  imports Prelude
begin

text \<open>
  The primitives every module calls: name validation
  (src/internal/kernel/validate), the text helpers of package strings the
  modules use, and the entries of the event log (src/internal/kernel/events).
\<close>

section \<open>Characters and text\<close>

definition is_digit :: "char \<Rightarrow> bool" where
  "is_digit c \<longleftrightarrow> CHR ''0'' \<le> c \<and> c \<le> CHR ''9''"

definition is_lower :: "char \<Rightarrow> bool" where
  "is_lower c \<longleftrightarrow> CHR ''a'' \<le> c \<and> c \<le> CHR ''z''"

definition is_upper :: "char \<Rightarrow> bool" where
  "is_upper c \<longleftrightarrow> CHR ''A'' \<le> c \<and> c \<le> CHR ''Z''"

text \<open>\<open>strings.TrimSpace\<close> and \<open>strings.ToLower\<close> on ASCII text.\<close>

definition is_space :: "char \<Rightarrow> bool" where
  "is_space c \<longleftrightarrow> c \<in> {CHR '' '', CHR 0x09, CHR 0x0A, CHR 0x0B, CHR 0x0C, CHR 0x0D}"

definition trim_space :: "string \<Rightarrow> string" where
  "trim_space s = rev (dropWhile is_space (rev (dropWhile is_space s)))"

definition lower_char :: "char \<Rightarrow> char" where
  "lower_char c = (if is_upper c then char_of (of_char c + 32 :: nat) else c)"

definition to_lower :: "string \<Rightarrow> string" where
  "to_lower s = map lower_char s"

definition has_prefix :: "string \<Rightarrow> string \<Rightarrow> bool" where
  "has_prefix s p \<longleftrightarrow> take (length p) s = p"

definition trim_suffix :: "string \<Rightarrow> string \<Rightarrow> string" where
  "trim_suffix s x =
     (if length x \<le> length s \<and> drop (length s - length x) s = x
      then take (length s - length x) s else s)"

text \<open>\<open>strconv.Itoa\<close>.\<close>

function digits_of :: "nat \<Rightarrow> string" where
  "digits_of n =
     (if n < 10 then [char_of (48 + n)] else digits_of (n div 10) @ [char_of (48 + n mod 10)])"
  by pat_completeness auto
termination by (relation "measure id") auto

declare digits_of.simps [simp del]

definition itoa :: "int \<Rightarrow> string" where
  "itoa i = (if i < 0 then CHR ''-'' # digits_of (nat (- i)) else digits_of (nat i))"

section \<open>Stored instants\<close>

text \<open>
  The tables hold instants as text in the format \<open>time.RFC3339Nano\<close> of UTC, and
  SQLite orders that text by bytes. Down to the second all texts have one shape, so
  the order is that of the seconds. Within a second it compares what follows: the
  nanoseconds without their trailing zeros, closed by a Z, which is greater than
  every digit. \<open>stamp_key\<close> is the key of that order.
\<close>

definition nano_text :: "int \<Rightarrow> string" where
  "nano_text n =
     (let padded = map (\<lambda>k. char_of (48 + nat (n div 10 ^ k mod 10))) (rev [0..<9])
      in if n = 0 then ''Z''
         else CHR ''.'' # rev (dropWhile (\<lambda>c. c = CHR ''0'') (rev padded)) @ ''Z'')"

definition stamp_key :: "go_time \<Rightarrow> int \<times> string" where
  "stamp_key t = (t div second, nano_text (t mod second))"

text \<open>Instants of different seconds are ordered by time, instants of one second are not.\<close>

lemma stamp_key_seconds: "t div second < u div second \<Longrightarrow> stamp_key t < stamp_key u"
  by (simp add: stamp_key_def less_prod_def)

lemma stamp_key_apart: "t + second \<le> u \<Longrightarrow> stamp_key t < stamp_key u"
  by (rule stamp_key_seconds) simp

lemma stamp_order_within_second: "stamp_key (second + 120000000) < stamp_key (second + 100000000)"
  by code_simp

section \<open>validate.Name and validate.OneOf\<close>

definition name_char :: "char \<Rightarrow> bool" where
  "name_char c \<longleftrightarrow> is_lower c \<or> is_digit c"

definition name_inner :: "char \<Rightarrow> bool" where
  "name_inner c \<longleftrightarrow> name_char c \<or> c = CHR ''-''"

text \<open>\<open>^[a-z0-9]([a-z0-9-]{0,61}[a-z0-9])?$\<close>\<close>

definition name_pattern :: "string \<Rightarrow> bool" where
  "name_pattern s =
     (case s of
        [] \<Rightarrow> False
      | c # rest \<Rightarrow> name_char c \<and>
          (rest = [] \<or>
           (length (butlast rest) \<le> 61 \<and> list_all name_inner (butlast rest) \<and>
            name_char (last rest))))"

definition validate_Name :: "string \<Rightarrow> string \<Rightarrow> unit result" where
  "validate_Name field value =
     (if value = [] then Inl (Invalid (''invalid_'' @ field))
      else if \<not> name_pattern value then Inl (Invalid (''invalid_'' @ field))
      else Inr ())"

fun validate_OneOf :: "string \<Rightarrow> string \<Rightarrow> string list \<Rightarrow> unit result" where
  "validate_OneOf field value [] = Inl (Invalid (''invalid_'' @ field))"
| "validate_OneOf field value (a # as) =
     (if value = a then Inr () else validate_OneOf field value as)"

lemma validate_OneOf_iff [simp]: "validate_OneOf field value as = Inr () \<longleftrightarrow> value \<in> set as"
  by (induction as) auto

lemma validate_OneOf_fault:
  "validate_OneOf field value as = Inl e \<Longrightarrow> fault_kind e = KindInvalid"
  by (induction as) (auto simp: Invalid_def split: if_splits)

lemma name_pattern_iff:
  "name_pattern s \<longleftrightarrow>
     1 \<le> length s \<and> length s \<le> 63 \<and> list_all name_inner s \<and>
     name_char (hd s) \<and> name_char (last s)"
proof (cases s)
  case (Cons c rest)
  show ?thesis
  proof (cases "rest = []")
    case True
    with Cons show ?thesis by (auto simp: name_pattern_def name_inner_def)
  next
    case False
    then obtain bs b where "rest = bs @ [b]" by (metis rev_exhaust)
    with Cons show ?thesis by (auto simp: name_pattern_def name_inner_def)
  qed
qed (simp add: name_pattern_def)

lemma validate_Name_iff: "validate_Name field value = Inr () \<longleftrightarrow> name_pattern value"
  by (auto simp: validate_Name_def name_pattern_def)

section \<open>Events\<close>

datatype severity = Info | Warn | SevError

record entry =
  e_ProjectID :: string
  e_Kind :: string
  e_Subject :: string
  e_NodeID :: string
  e_Message :: string
  e_Severity :: severity

section \<open>What a valid name is\<close>

text \<open>
  \<open>validate.Name\<close> accepts a text exactly when it is a DNS label: one to 63
  characters, each a lower-case letter, a digit or a hyphen, and neither the
  first nor the last a hyphen. Every other text gets an invalid_ fault.
\<close>

lemma validate_Name_accepts:
  "validate_Name field value =
     (if 1 \<le> length value \<and> length value \<le> 63 \<and>
         list_all (\<lambda>c. is_lower c \<or> is_digit c \<or> c = CHR ''-'') value \<and>
         hd value \<noteq> CHR ''-'' \<and> last value \<noteq> CHR ''-''
      then Inr () else Inl (Invalid (''invalid_'' @ field)))"
proof -
  have hyphen: "\<not> is_lower CHR ''-''" "\<not> is_digit CHR ''-''" by code_simp+
  have "name_pattern value \<longleftrightarrow>
      1 \<le> length value \<and> length value \<le> 63 \<and>
      list_all (\<lambda>c. is_lower c \<or> is_digit c \<or> c = CHR ''-'') value \<and>
      hd value \<noteq> CHR ''-'' \<and> last value \<noteq> CHR ''-''"
  proof (cases "value = []")
    case False
    then have "hd value \<in> set value" "last value \<in> set value" by simp_all
    then show ?thesis
      using hyphen by (auto simp: name_pattern_iff name_inner_def name_char_def list_all_iff)
  qed (simp add: name_pattern_def)
  then show ?thesis by (auto simp: validate_Name_def name_pattern_def)
qed

end
