(* ===== verification/Scheduler.thy ===== *)
theory Scheduler
  imports Kernel GoSort
begin

text \<open>
  The scheduler, src/internal/platform/scheduler/scheduler.go. Its sources (the
  interfaces NodeSource, InstanceSource, AddressSource, LoadSource and
  DeviceSource) are a record of functions on a world: a query returns a result, a
  command returns a result and the world after it. The sources that \<open>New\<close> may be
  given as nil or that a \<open>Use...\<close> method adds are optional. The state of a
  scheduler is the world, the two memories of what was already reported, and the
  events noted. Log lines are not modelled.
\<close>

section \<open>Types\<close>

abbreviation (input) DefaultStrandedGrace :: duration where
  "DefaultStrandedGrace \<equiv> 120000000000"

record candidate =
  cand_ID :: string
  cand_Name :: string
  cand_Zone :: string
  cand_Labels :: "(string \<times> string) list"

record pending =
  p_ID :: string
  p_ProjectID :: string
  p_Name :: string
  p_NetworkID :: string
  p_Group :: string
  p_Strict :: bool
  p_Selector :: "(string \<times> string) list"
  p_Extra :: "string list"
  p_Device :: string

record stranded =
  st_ID :: string
  st_ProjectID :: string
  st_Name :: string
  st_NodeID :: string
  st_Isolation :: string
  st_Migrating :: bool
  st_DiskParked :: bool

record load =
  MemoryFreeMiB :: int
  Fresh :: bool

abbreviation no_load :: load where
  "no_load \<equiv> \<lparr>MemoryFreeMiB = 0, Fresh = False\<rparr>"

type_synonym counts = "string \<rightharpoonup> int"
type_synonym ('w, 'a) command = "'w \<Rightarrow> 'a result \<times> 'w"

record 'w device_source =
  ds_FreeDevice :: "'w \<Rightarrow> string \<Rightarrow> string \<Rightarrow> (string \<times> bool) result"
  ds_ClaimDevice :: "'w \<Rightarrow> string \<Rightarrow> string \<Rightarrow> string \<Rightarrow> string result \<times> 'w"

record 'w sources =
  src_ReadyNodes :: "'w \<Rightarrow> candidate list result"
  src_UnreachableNodes :: "'w \<Rightarrow> duration \<Rightarrow> string list result"
  src_DrainingNodes :: "'w \<Rightarrow> string list result"
  src_FinishDraining :: "'w \<Rightarrow> string \<Rightarrow> unit result \<times> 'w"
  src_PendingPlacement :: "'w \<Rightarrow> pending list result"
  src_AssignedCounts :: "'w \<Rightarrow> counts result"
  src_GroupCounts :: "'w \<Rightarrow> string \<Rightarrow> counts result"
  src_HoldPlacement :: "'w \<Rightarrow> string \<Rightarrow> string \<Rightarrow> unit result \<times> 'w"
  src_Assign :: "'w \<Rightarrow> string \<Rightarrow> string \<Rightarrow> unit result \<times> 'w"
  src_StrandedOn :: "'w \<Rightarrow> string list \<Rightarrow> stranded list result"
  src_BeginMigration :: "'w \<Rightarrow> string \<Rightarrow> string \<Rightarrow> unit result \<times> 'w"
  src_ReleasePlacement :: "'w \<Rightarrow> string \<Rightarrow> string \<Rightarrow> unit result \<times> 'w"
  src_Allocate :: "('w \<Rightarrow> string \<Rightarrow> string \<Rightarrow> string \<Rightarrow> unit result \<times> 'w) option"
  src_NodeLoad :: "('w \<Rightarrow> (string \<rightharpoonup> load) result) option"
  src_Devices :: "'w device_source option"
  src_Events :: bool

record 'w sched =
  world :: 'w
  strandedIDs :: "string set"
  stuckDraining :: "string set"
  noted :: "entry list"

section \<open>Choosing a node\<close>

definition cand_matches :: "candidate \<Rightarrow> (string \<times> string) list \<Rightarrow> bool" where
  "cand_matches c selector =
     list_all (\<lambda>(key, want). get_or [] (map_of (cand_Labels c)) key = want) selector"

definition matching :: "candidate list \<Rightarrow> (string \<times> string) list \<Rightarrow> candidate list" where
  "matching candidates selector =
     (if selector = [] then candidates else filter (\<lambda>c. cand_matches c selector) candidates)"

fun zone_totals :: "counts \<Rightarrow> counts \<Rightarrow> candidate list \<Rightarrow> counts" where
  "zone_totals members byZone [] = byZone"
| "zone_totals members byZone (c # cs) =
     zone_totals members
       (byZone(cand_Zone c \<mapsto> get_or 0 byZone (cand_Zone c) + get_or 0 members (cand_ID c))) cs"

definition placement_less ::
    "counts \<Rightarrow> counts \<Rightarrow> (string \<rightharpoonup> load) \<Rightarrow> counts \<Rightarrow> candidate \<Rightarrow> candidate \<Rightarrow> bool" where
  "placement_less byZone counts load members left right =
     (let zi = get_or 0 byZone (cand_Zone left); zj = get_or 0 byZone (cand_Zone right);
          mi = get_or 0 members (cand_ID left); mj = get_or 0 members (cand_ID right);
          li = get_or no_load load (cand_ID left); lj = get_or no_load load (cand_ID right);
          ci = get_or 0 counts (cand_ID left); cj = get_or 0 counts (cand_ID right)
      in if zi \<noteq> zj then zi < zj
         else if mi \<noteq> mj then mi < mj
         else if Fresh li \<and> Fresh lj \<and> MemoryFreeMiB li \<noteq> MemoryFreeMiB lj
         then MemoryFreeMiB lj < MemoryFreeMiB li
         else if ci \<noteq> cj then ci < cj
         else cand_Name left < cand_Name right)"

text \<open>\<open>ordered[0]\<close> exists because every caller has checked that there is a candidate.\<close>

definition bestFor ::
    "candidate list \<Rightarrow> counts \<Rightarrow> (string \<rightharpoonup> load) \<Rightarrow> counts \<Rightarrow> candidate \<times> bool" where
  "bestFor candidates counts load members =
     (let byZone = zone_totals members Map.empty candidates;
          best = hd (slice_stable (placement_less byZone counts load members) candidates)
      in (best, get_or 0 members (cand_ID best) = 0))"

section \<open>Reporting and holding\<close>

definition note_event :: "'w sources \<Rightarrow> entry \<Rightarrow> 'w sched \<Rightarrow> 'w sched" where
  "note_event src e s = (if src_Events src then s\<lparr>noted := noted s @ [e]\<rparr> else s)"

definition describe :: "(string \<times> string) list \<Rightarrow> string" where
  "describe selector =
     concat (case map (\<lambda>k. k @ ''='' @ get_or [] (map_of selector) k) (sort (map fst selector)) of
               [] \<Rightarrow> [] | p # ps \<Rightarrow> p # map (\<lambda>q. '' '' @ q) ps)"

definition hold_with :: "'w sources \<Rightarrow> string \<Rightarrow> string \<Rightarrow> 'w sched \<Rightarrow> 'w sched" where
  "hold_with src iid reason s = s\<lparr>world := snd (src_HoldPlacement src (world s) iid reason)\<rparr>"

definition holdUnmatched :: "'w sources \<Rightarrow> pending \<Rightarrow> 'w sched \<Rightarrow> 'w sched" where
  "holdUnmatched src p s =
     hold_with src (p_ID p) (''no ready node carries '' @ describe (p_Selector p)) s"

definition hold :: "'w sources \<Rightarrow> pending \<Rightarrow> 'w sched \<Rightarrow> 'w sched" where
  "hold src p s =
     hold_with src (p_ID p)
       (''every ready node already runs a member of placement group '' @ p_Group p) s"

definition holdWithout :: "'w sources \<Rightarrow> pending \<Rightarrow> 'w sched \<Rightarrow> 'w sched" where
  "holdWithout src p s = hold_with src (p_ID p) (''no ready node has a free '' @ p_Device p) s"

definition carrying :: "'w sources \<Rightarrow> 'w \<Rightarrow> candidate list \<Rightarrow> string \<Rightarrow> candidate list" where
  "carrying src w cands kind =
     (case src_Devices src of
        None \<Rightarrow> []
      | Some ds \<Rightarrow>
          filter (\<lambda>c. case ds_FreeDevice ds w (cand_ID c) kind of
                        Inl _ \<Rightarrow> False | Inr (free, found) \<Rightarrow> found \<and> free \<noteq> []) cands)"

section \<open>Workloads on lost nodes\<close>

definition alreadyStranded :: "string \<Rightarrow> 'w sched \<Rightarrow> bool \<times> 'w sched" where
  "alreadyStranded iid s =
     (if iid \<in> strandedIDs s then (True, s) else (False, s\<lparr>strandedIDs := insert iid (strandedIDs s)\<rparr>))"

definition alreadyStuckDraining :: "string \<Rightarrow> 'w sched \<Rightarrow> bool \<times> 'w sched" where
  "alreadyStuckDraining iid s =
     (if iid \<in> stuckDraining s then (True, s)
      else (False, s\<lparr>stuckDraining := insert iid (stuckDraining s)\<rparr>))"

definition forgetRecovered :: "string set \<Rightarrow> 'w sched \<Rightarrow> 'w sched" where
  "forgetRecovered seen s = s\<lparr>strandedIDs := strandedIDs s \<inter> seen\<rparr>"

definition forgetUnstuck :: "string set \<Rightarrow> 'w sched \<Rightarrow> 'w sched" where
  "forgetUnstuck seen s = s\<lparr>stuckDraining := stuckDraining s \<inter> seen\<rparr>"

definition stranded_entry :: "string \<Rightarrow> severity \<Rightarrow> string \<Rightarrow> stranded \<Rightarrow> entry" where
  "stranded_entry kind sev msg x =
     \<lparr>e_ProjectID = st_ProjectID x, e_Kind = kind, e_Subject = st_ID x, e_NodeID = st_NodeID x,
      e_Message = msg, e_Severity = sev\<rparr>"

definition release_one :: "'w sources \<Rightarrow> stranded \<Rightarrow> 'w sched \<Rightarrow> 'w sched" where
  "release_one src x s =
     (if st_Isolation x \<noteq> ''container''
      then (case alreadyStranded (st_ID x) s of
              (True, s') \<Rightarrow> s'
            | (False, s') \<Rightarrow>
                note_event src (stranded_entry ''instance.stranded'' SevError
                  (''its node stopped answering, and isolation '' @ st_Isolation x @
                   '' cannot be moved without losing its disk'') x) s')
      else (case src_ReleasePlacement src (world s) (st_ID x) (st_NodeID x) of
              (Inl _, w) \<Rightarrow> s\<lparr>world := w\<rparr>
            | (Inr _, w) \<Rightarrow>
                note_event src (stranded_entry ''instance.rescheduled'' Warn
                  ''released from a node that stopped answering, waiting for a new one'' x)
                  (s\<lparr>world := w\<rparr>)))"

definition releaseStranded :: "'w sources \<Rightarrow> duration \<Rightarrow> 'w sched \<Rightarrow> unit result \<times> 'w sched" where
  "releaseStranded src grace s =
     (case src_UnreachableNodes src (world s) grace of
        Inl e \<Rightarrow> (Inl e, s)
      | Inr lost \<Rightarrow>
          if lost = [] then (Inr (), forgetRecovered {} s)
          else (case src_StrandedOn src (world s) lost of
                  Inl e \<Rightarrow> (Inl e, s)
                | Inr xs \<Rightarrow>
                    (Inr (), forgetRecovered (set (map st_ID xs)) (fold (release_one src) xs s))))"

section \<open>Draining nodes\<close>

definition carriesItsDisk :: "string \<Rightarrow> bool" where
  "carriesItsDisk isolation \<longleftrightarrow> isolation \<in> {''vm'', ''microvm'', ''sandbox''}"

definition noteBlocked :: "'w sources \<Rightarrow> stranded \<Rightarrow> 'w sched \<Rightarrow> 'w sched" where
  "noteBlocked src x s =
     (case alreadyStuckDraining (st_ID x) s of
        (True, s') \<Rightarrow> s'
      | (False, s') \<Rightarrow>
          note_event src (stranded_entry ''instance.drain_blocked'' SevError
            (''its node is draining, and nothing here knows how to carry the disk of isolation '' @
             st_Isolation x) x) s')"

text \<open>The result says whether the workload still holds the node up.\<close>

definition carryDisk :: "'w sources \<Rightarrow> stranded \<Rightarrow> 'w sched \<Rightarrow> bool \<times> 'w sched" where
  "carryDisk src x s =
     (if st_DiskParked x then (False, s)
      else (case src_BeginMigration src (world s) (st_ID x) (st_NodeID x) of
              (Inl _, w) \<Rightarrow> (True, s\<lparr>world := w\<rparr>)
            | (Inr _, w) \<Rightarrow>
                if st_Migrating x then (True, s\<lparr>world := w\<rparr>)
                else (True, note_event src (stranded_entry ''instance.migrating'' Warn
                       ''its node is draining, so it is being stopped and its disk carried to another node''
                       x) (s\<lparr>world := w\<rparr>))))"

definition drain_release ::
    "'w sources \<Rightarrow> stranded \<Rightarrow> counts \<times> 'w sched \<Rightarrow> counts \<times> 'w sched" where
  "drain_release src x a =
     (let stuck = fst a; s = snd a
      in case src_ReleasePlacement src (world s) (st_ID x) (st_NodeID x) of
           (Inl _, w) \<Rightarrow> (bump stuck (st_NodeID x), s\<lparr>world := w\<rparr>)
         | (Inr _, w) \<Rightarrow>
             (stuck, note_event src (stranded_entry ''instance.moved'' Info
                ''released from a draining node, waiting for a new one'' x) (s\<lparr>world := w\<rparr>)))"

definition drain_one ::
    "'w sources \<Rightarrow> stranded \<Rightarrow> counts \<times> 'w sched \<Rightarrow> counts \<times> 'w sched" where
  "drain_one src x a =
     (let stuck = fst a; s = snd a
      in if st_Isolation x \<noteq> ''container''
         then (if \<not> carriesItsDisk (st_Isolation x)
               then (bump stuck (st_NodeID x), noteBlocked src x s)
               else (case carryDisk src x s of
                       (True, s') \<Rightarrow> (bump stuck (st_NodeID x), s')
                     | (False, s') \<Rightarrow> drain_release src x (stuck, s')))
         else drain_release src x (stuck, s))"

definition finish_one :: "'w sources \<Rightarrow> counts \<Rightarrow> string \<Rightarrow> 'w sched \<Rightarrow> 'w sched" where
  "finish_one src stuck nodeID s =
     (if 0 < get_or 0 stuck nodeID then s
      else (case src_FinishDraining src (world s) nodeID of
              (Inl _, w) \<Rightarrow> s\<lparr>world := w\<rparr>
            | (Inr _, w) \<Rightarrow>
                note_event src \<lparr>e_ProjectID = [], e_Kind = ''node.drained'', e_Subject = nodeID,
                          e_NodeID = nodeID,
                          e_Message = ''nothing movable is left on it, and it stays unschedulable'',
                          e_Severity = Info\<rparr> (s\<lparr>world := w\<rparr>)))"

definition emptyDraining :: "'w sources \<Rightarrow> 'w sched \<Rightarrow> unit result \<times> 'w sched" where
  "emptyDraining src s =
     (case src_DrainingNodes src (world s) of
        Inl e \<Rightarrow> (Inl e, s)
      | Inr draining \<Rightarrow>
          if draining = [] then (Inr (), forgetUnstuck {} s)
          else (case src_StrandedOn src (world s) draining of
                  Inl e \<Rightarrow> (Inl e, s)
                | Inr held \<Rightarrow>
                    (let (stuck, s1) = fold (drain_one src) held (Map.empty, s)
                     in (Inr (), fold (finish_one src stuck) draining
                           (forgetUnstuck (set (map st_ID held)) s1)))))"

section \<open>The placement pass\<close>

definition membersOf ::
    "'w sources \<Rightarrow> 'w \<Rightarrow> (string \<rightharpoonup> counts) \<Rightarrow> string \<Rightarrow> (counts \<times> (string \<rightharpoonup> counts)) result" where
  "membersOf src w cache grp =
     (if grp = [] then Inr (Map.empty, cache)
      else case cache grp of
             Some known \<Rightarrow> Inr (known, cache)
           | None \<Rightarrow> bindR (src_GroupCounts src w grp) (\<lambda>m. Inr (m, cache(grp \<mapsto> m))))"

fun allocate_all ::
    "('w \<Rightarrow> string \<Rightarrow> string \<Rightarrow> string \<Rightarrow> unit result \<times> 'w) \<Rightarrow> string \<Rightarrow> string \<Rightarrow> string list \<Rightarrow> 'w \<Rightarrow> 'w"
  where
  "allocate_all alloc iid nodeID [] w = w"
| "allocate_all alloc iid nodeID (n # ns) w =
     allocate_all alloc iid nodeID ns (snd (alloc w iid n nodeID))"

definition claim_for ::
    "'w sources \<Rightarrow> pending \<Rightarrow> candidate \<Rightarrow> 'w \<Rightarrow> bool \<times> 'w" where
  "claim_for src p target w =
     (case src_Devices src of
        Some ds \<Rightarrow>
          if p_Device p \<noteq> []
          then (case ds_ClaimDevice ds w (cand_ID target) (p_Device p) (p_ID p) of
                  (Inl _, w') \<Rightarrow> (False, w') | (Inr _, w') \<Rightarrow> (True, w'))
          else (True, w)
      | None \<Rightarrow> (True, w))"

definition allocate_for :: "'w sources \<Rightarrow> pending \<Rightarrow> candidate \<Rightarrow> 'w \<Rightarrow> 'w" where
  "allocate_for src p target w =
     (case src_Allocate src of
        None \<Rightarrow> w
      | Some alloc \<Rightarrow>
          if p_NetworkID p = [] then w
          else allocate_all alloc (p_ID p) (cand_ID target) (p_NetworkID p # p_Extra p) w)"

text \<open>Maps the loop threads: the counts per node, and the cached members per group.\<close>

type_synonym 'w pass = "counts \<times> (string \<rightharpoonup> counts) \<times> 'w sched"

definition place_on ::
    "'w sources \<Rightarrow> pending \<Rightarrow> candidate \<Rightarrow> counts \<Rightarrow> counts \<Rightarrow> (string \<rightharpoonup> counts) \<Rightarrow> 'w sched \<Rightarrow> 'w pass" where
  "place_on src p target members counts cache s =
     (case claim_for src p target (world s) of
        (False, w) \<Rightarrow> (counts, cache, s\<lparr>world := w\<rparr>)
      | (True, w) \<Rightarrow>
          (case src_Assign src w (p_ID p) (cand_ID target) of
             (Inl _, w') \<Rightarrow> (counts, cache, s\<lparr>world := w'\<rparr>)
           | (Inr _, w') \<Rightarrow>
               (let cache' = (if p_Group p \<noteq> []
                              then cache(p_Group p \<mapsto> bump members (cand_ID target)) else cache);
                    s' = note_event src \<lparr>e_ProjectID = p_ProjectID p, e_Kind = ''instance.placed'',
                           e_Subject = p_ID p, e_NodeID = cand_ID target,
                           e_Message = ''scheduled onto '' @ cand_Name target, e_Severity = Info\<rparr>
                           (s\<lparr>world := w'\<rparr>)
                in (bump counts (cand_ID target), cache',
                    s'\<lparr>world := allocate_for src p target (world s')\<rparr>))))"

definition place_one ::
    "'w sources \<Rightarrow> candidate list \<Rightarrow> (string \<rightharpoonup> load) \<Rightarrow> pending \<Rightarrow> 'w pass \<Rightarrow> unit result \<times> 'w pass" where
  "place_one src candidates load p a =
     (case a of (counts, cache0, s) \<Rightarrow>
      case membersOf src (world s) cache0 (p_Group p) of
        Inl e \<Rightarrow> (Inl e, a)
      | Inr (members, cache) \<Rightarrow>
          (let matched = matching candidates (p_Selector p);
               eligible = (if p_Device p \<noteq> [] then carrying src (world s) matched (p_Device p)
                           else matched)
           in if matched = [] then (Inr (), counts, cache, holdUnmatched src p s)
              else if eligible = [] then (Inr (), counts, cache, holdWithout src p s)
              else (let (target, room) = bestFor eligible counts load members
                    in if p_Strict p \<and> p_Group p \<noteq> [] \<and> \<not> room
                       then (Inr (), counts, cache, hold src p s)
                       else (Inr (), place_on src p target members counts cache s))))"

fun place_loop ::
    "'w sources \<Rightarrow> candidate list \<Rightarrow> (string \<rightharpoonup> load) \<Rightarrow> pending list \<Rightarrow> 'w pass \<Rightarrow>
     unit result \<times> 'w pass" where
  "place_loop src candidates load [] a = (Inr (), a)"
| "place_loop src candidates load (p # ps) a =
     (case place_one src candidates load p a of
        (Inl e, a') \<Rightarrow> (Inl e, a')
      | (Inr _, a') \<Rightarrow> place_loop src candidates load ps a')"

definition measured_load :: "'w sources \<Rightarrow> 'w \<Rightarrow> (string \<rightharpoonup> load)" where
  "measured_load src w =
     (case src_NodeLoad src of
        None \<Rightarrow> Map.empty
      | Some f \<Rightarrow> (case f w of Inl _ \<Rightarrow> Map.empty | Inr m \<Rightarrow> m))"

definition place_pending :: "'w sources \<Rightarrow> 'w sched \<Rightarrow> unit result \<times> 'w sched" where
  "place_pending src s =
     (case src_PendingPlacement src (world s) of
        Inl e \<Rightarrow> (Inl e, s)
      | Inr ps \<Rightarrow>
          if ps = [] then (Inr (), s)
          else (case src_ReadyNodes src (world s) of
                  Inl e \<Rightarrow> (Inl e, s)
                | Inr candidates \<Rightarrow>
                    if candidates = [] then (Inr (), s)
                    else (case src_AssignedCounts src (world s) of
                            Inl e \<Rightarrow> (Inl e, s)
                          | Inr counts \<Rightarrow>
                              (case place_loop src candidates (measured_load src (world s)) ps
                                      (counts, Map.empty, s) of
                                 (res, _, _, s') \<Rightarrow> (res, s')))))"

definition Tick :: "'w sources \<Rightarrow> duration \<Rightarrow> 'w sched \<Rightarrow> unit result \<times> 'w sched" where
  "Tick src grace s =
     (case releaseStranded src grace s of
        (Inl e, s1) \<Rightarrow> (Inl e, s1)
      | (Inr _, s1) \<Rightarrow>
          (case emptyDraining src s1 of
             (Inl e, s2) \<Rightarrow> (Inl e, s2)
           | (Inr _, s2) \<Rightarrow> place_pending src s2))"

section \<open>The node that is chosen\<close>

text \<open>
  What the comparison always respects is the pair of the members in the zone and
  the members on the node; ties below it may be broken inconsistently.
\<close>

definition spread_key :: "counts \<Rightarrow> counts \<Rightarrow> candidate \<Rightarrow> int \<times> int" where
  "spread_key byZone members c =
     (get_or 0 byZone (cand_Zone c), get_or 0 members (cand_ID c))"

interpretation placement: key_comparison
  "placement_less byZone counts load members" "spread_key byZone members"
  for byZone counts load members
  by unfold_locales (auto simp: placement_less_def spread_key_def Let_def split: if_splits)

text \<open>Without load measurements the comparison is the strict order of a full key.\<close>

definition full_key :: "counts \<Rightarrow> counts \<Rightarrow> counts \<Rightarrow> candidate \<Rightarrow> int \<times> int \<times> int \<times> string" where
  "full_key byZone counts members c =
     (get_or 0 byZone (cand_Zone c), get_or 0 members (cand_ID c), get_or 0 counts (cand_ID c),
      cand_Name c)"

interpretation unmeasured: strict_key_comparison
  "placement_less byZone counts Map.empty members" "full_key byZone counts members"
  for byZone counts members
  by unfold_locales (auto simp: placement_less_def full_key_def Let_def)

lemma get_zone_totals:
  "get_or 0 (zone_totals members byZone cs) z =
     get_or 0 byZone z +
     sum_list (map (\<lambda>c. get_or 0 members (cand_ID c)) (filter (\<lambda>c. cand_Zone c = z) cs))"
  by (induction cs arbitrary: byZone) auto

definition members_in_zone :: "counts \<Rightarrow> candidate list \<Rightarrow> string \<Rightarrow> int" where
  "members_in_zone members cs z =
     sum_list (map (\<lambda>c. get_or 0 members (cand_ID c)) (filter (\<lambda>c. cand_Zone c = z) cs))"

lemma get_zone_totals_empty [simp]:
  "get_or 0 (zone_totals members Map.empty cs) z = members_in_zone members cs z"
  by (simp add: get_zone_totals members_in_zone_def)

lemma bestFor_in: "cs \<noteq> [] \<Longrightarrow> fst (bestFor cs counts load members) \<in> set cs"
  by (simp add: bestFor_def Let_def)
    (metis hd_in_set length_0_conv length_slice_stable set_slice_stable)

lemma bestFor_room:
  "bestFor cs counts load members = (t, room) \<Longrightarrow> room \<longleftrightarrow> get_or 0 members (cand_ID t) = 0"
  by (auto simp: bestFor_def Let_def)

lemma bestFor_least:
  assumes "c \<in> set cs"
  shows "spread_key (zone_totals members Map.empty cs) members (fst (bestFor cs counts load members))
    \<le> spread_key (zone_totals members Map.empty cs) members c"
  using placement.slice_stable_hd_least [OF assms] by (simp add: bestFor_def Let_def)

lemma set_matching: "set (matching cs sel) = {c \<in> set cs. cand_matches c sel}"
  by (auto simp: matching_def cand_matches_def)

lemma set_carrying: "set (carrying src w cs kind) \<subseteq> set cs"
  by (auto simp: carrying_def split: option.splits)

text \<open>
  The scheduler spreads a group over zones first and nodes second. The node
  it picks is one of the candidates; no zone of a candidate holds fewer members
  of the group than the zone of the node picked, and within equally loaded zones
  no candidate holds fewer members than that node. The room flag is set exactly
  when the node picked holds none.
\<close>

lemma bestFor_spreads:
  assumes c: "c \<in> set candidates"
    and best: "bestFor candidates counts load members = (target, room)"
  shows "target \<in> set candidates \<and>
    members_in_zone members candidates (cand_Zone target) \<le>
      members_in_zone members candidates (cand_Zone c) \<and>
    (members_in_zone members candidates (cand_Zone target) =
       members_in_zone members candidates (cand_Zone c) \<longrightarrow>
     get_or 0 members (cand_ID target) \<le> get_or 0 members (cand_ID c)) \<and>
    (room \<longleftrightarrow> get_or 0 members (cand_ID target) = 0)"
proof -
  from c have "candidates \<noteq> []" by auto
  with best bestFor_in have "target \<in> set candidates" by (metis fst_conv)
  with bestFor_least [OF c, of members counts load] bestFor_room [OF best] best
  show ?thesis by (auto simp: spread_key_def)
qed

theorem bestFor_spreads_witness:
  "(let a = \<lparr>cand_ID = ''n1'', cand_Name = ''mars-1'', cand_Zone = ''a'', cand_Labels = []\<rparr>;
        b = \<lparr>cand_ID = ''n2'', cand_Name = ''mars-2'', cand_Zone = ''b'', cand_Labels = []\<rparr>;
        m = [''n1'' \<mapsto> 1]
    in bestFor [a, b] Map.empty Map.empty m = (b, True) \<and>
       members_in_zone m [a, b] ''b'' \<le> members_in_zone m [a, b] ''a'')"
proof -
  define a where "a = \<lparr>cand_ID = ''n1'', cand_Name = ''mars-1'', cand_Zone = ''a'', cand_Labels = []\<rparr>"
  define b where "b = \<lparr>cand_ID = ''n2'', cand_Name = ''mars-2'', cand_Zone = ''b'', cand_Labels = []\<rparr>"
  have run: "bestFor [a, b] Map.empty Map.empty [''n1'' \<mapsto> 1] = (b, True)"
    unfolding a_def b_def by code_simp
  have "cand_Zone a = ''a''" "cand_Zone b = ''b''" by (simp_all add: a_def b_def)
  with bestFor_spreads [OF _ run, of a] run show ?thesis
    unfolding Let_def a_def [symmetric] b_def [symmetric] by simp
qed

text \<open>
  With no fresh load measurement the choice is fully determined: it is the
  first candidate in the order of zone members, node members, instances on the
  node and node name, whatever order the candidates are listed in.
\<close>

lemma bestFor_without_load:
  "fst (bestFor candidates counts Map.empty members) =
     hd (sort_key (full_key (zone_totals members Map.empty candidates) counts members) candidates)"
  by (simp add: bestFor_def Let_def unmeasured.slice_stable_eq_sort_key)

text \<open>
  A strict placement can be held although an eligible node holds no member of
  the group: the zone is compared before the node, so a free node in the busier
  zone is passed over and the room flag describes the node picked, not the
  candidates. The reason recorded, that every ready node already runs a member,
  is then false.
\<close>

lemma strict_hold_overlooks_free_node:
  "\<exists>candidates members c. c \<in> set candidates \<and> get_or 0 members (cand_ID c) = 0 \<and>
     \<not> snd (bestFor candidates Map.empty Map.empty members)"
proof -
  define a1 where "a1 = \<lparr>cand_ID = ''a1'', cand_Name = ''a1'', cand_Zone = ''a'', cand_Labels = []\<rparr>"
  define b1 where "b1 = \<lparr>cand_ID = ''b1'', cand_Name = ''b1'', cand_Zone = ''b'', cand_Labels = []\<rparr>"
  define b2 where "b2 = \<lparr>cand_ID = ''b2'', cand_Name = ''b2'', cand_Zone = ''b'', cand_Labels = []\<rparr>"
  have "\<not> snd (bestFor [a1, b1, b2] Map.empty Map.empty [''a1'' \<mapsto> 1, ''b1'' \<mapsto> 2])"
    unfolding a1_def b1_def b2_def by code_simp
  moreover have "get_or 0 [''a1'' \<mapsto> 1, ''b1'' \<mapsto> 2] (cand_ID b2) = (0::int)"
    by (simp add: b2_def)
  ultimately show ?thesis
    by (intro exI [of _ "[a1, b1, b2]"] exI [of _ "[''a1'' \<mapsto> 1, ''b1'' \<mapsto> 2]"] exI [of _ b2]) simp
qed

section \<open>Reports are not repeated\<close>

definition stranded_reports :: "entry list \<Rightarrow> string list" where
  "stranded_reports es = map e_Subject (filter (\<lambda>e. e_Kind e = ''instance.stranded'') es)"

definition immovable :: "stranded list \<Rightarrow> string set" where
  "immovable xs = st_ID ` {x \<in> set xs. st_Isolation x \<noteq> ''container''}"

lemma stranded_reports_append [simp]: "stranded_reports (a @ b) = stranded_reports a @ stranded_reports b"
  by (simp add: stranded_reports_def)

lemma release_one_reports:
  assumes "src_Events src"
  shows "\<exists>new. noted (release_one src x s) = noted s @ new \<and>
    strandedIDs (release_one src x s) = strandedIDs s \<union> immovable [x] \<and>
    stranded_reports new = (if st_Isolation x \<noteq> ''container'' \<and> st_ID x \<notin> strandedIDs s then [st_ID x] else [])"
  using assms
  by (auto simp: release_one_def alreadyStranded_def note_event_def stranded_entry_def immovable_def
      stranded_reports_def split: prod.splits sum.splits)

lemma release_fold_reports:
  assumes "src_Events src"
  shows "\<exists>new. noted (fold (release_one src) xs s) = noted s @ new \<and>
    strandedIDs (fold (release_one src) xs s) = strandedIDs s \<union> immovable xs \<and>
    distinct (stranded_reports new) \<and> set (stranded_reports new) = immovable xs - strandedIDs s"
proof (induction xs arbitrary: s)
  case Nil
  show ?case by (simp add: immovable_def stranded_reports_def)
next
  case (Cons x xs)
  let ?s = "release_one src x s"
  from release_one_reports [OF assms, of x s] obtain a where a: "noted ?s = noted s @ a"
    "strandedIDs ?s = strandedIDs s \<union> immovable [x]"
    "stranded_reports a = (if st_Isolation x \<noteq> ''container'' \<and> st_ID x \<notin> strandedIDs s then [st_ID x] else [])"
    by blast
  from Cons.IH [of ?s] obtain b where b: "noted (fold (release_one src) xs ?s) = noted ?s @ b"
    "strandedIDs (fold (release_one src) xs ?s) = strandedIDs ?s \<union> immovable xs"
    "distinct (stranded_reports b)" "set (stranded_reports b) = immovable xs - strandedIDs ?s" by blast
  show ?case
  proof (intro exI [of _ "a @ b"] conjI)
    show "noted (fold (release_one src) (x # xs) s) = noted s @ a @ b" using a(1) b(1) by simp
    show "strandedIDs (fold (release_one src) (x # xs) s) = strandedIDs s \<union> immovable (x # xs)"
      using a(2) b(2) by (auto simp: immovable_def)
    show "distinct (stranded_reports (a @ b))" using a(2,3) b(3,4) by (auto simp: immovable_def)
    show "set (stranded_reports (a @ b)) = immovable (x # xs) - strandedIDs s"
      using a(2,3) b(4) by (auto simp: immovable_def split: if_splits)
  qed
qed

text \<open>
  A workload that cannot be moved off a lost node is reported stranded once.
  A release phase that succeeds reports exactly the workloads that enter the
  remembered set, each once; one that is already remembered is not reported again.
\<close>

lemma stranded_reported_once:
  assumes "src_Events src" "releaseStranded src grace s = (Inr u, s')"
  shows "\<exists>new. noted s' = noted s @ new \<and> distinct (stranded_reports new) \<and>
    set (stranded_reports new) = strandedIDs s' - strandedIDs s"
proof (cases "src_UnreachableNodes src (world s) grace = Inr []")
  case True
  with assms(2) have "s' = forgetRecovered {} s" by (simp add: releaseStranded_def)
  then show ?thesis by (simp add: forgetRecovered_def stranded_reports_def)
next
  case False
  with assms(2) obtain xs where s': "s' = forgetRecovered (set (map st_ID xs)) (fold (release_one src) xs s)"
    by (auto simp: releaseStranded_def split: sum.splits if_splits)
  from release_fold_reports [OF assms(1), of xs s] obtain new where
    "noted (fold (release_one src) xs s) = noted s @ new" "distinct (stranded_reports new)"
    "strandedIDs (fold (release_one src) xs s) = strandedIDs s \<union> immovable xs"
    "set (stranded_reports new) = immovable xs - strandedIDs s" by blast
  moreover have "immovable xs \<subseteq> set (map st_ID xs)" by (auto simp: immovable_def)
  ultimately show ?thesis by (intro exI [of _ new]) (auto simp: s' forgetRecovered_def)
qed

definition one_lost :: "unit sources" where
  "one_lost =
     \<lparr>src_ReadyNodes = (\<lambda>_. Inr []), src_UnreachableNodes = (\<lambda>_ _. Inr [''n1'']),
      src_DrainingNodes = (\<lambda>_. Inr []), src_FinishDraining = (\<lambda>w _. (Inr (), w)),
      src_PendingPlacement = (\<lambda>_. Inr []), src_AssignedCounts = (\<lambda>_. Inr Map.empty),
      src_GroupCounts = (\<lambda>_ _. Inr Map.empty), src_HoldPlacement = (\<lambda>w _ _. (Inr (), w)),
      src_Assign = (\<lambda>w _ _. (Inr (), w)),
      src_StrandedOn = (\<lambda>_ _. Inr [\<lparr>st_ID = ''i1'', st_ProjectID = ''p'', st_Name = ''vm-1'', st_NodeID = ''n1'',
         st_Isolation = ''vm'', st_Migrating = False, st_DiskParked = False\<rparr>]),
      src_BeginMigration = (\<lambda>w _ _. (Inr (), w)), src_ReleasePlacement = (\<lambda>w _ _. (Inr (), w)),
      src_Allocate = None, src_NodeLoad = None, src_Devices = None, src_Events = True\<rparr>"

theorem stranded_reported_once_witness:
  "(let s = \<lparr>world = (), strandedIDs = {}, stuckDraining = {}, noted = []\<rparr>;
        s1 = snd (releaseStranded one_lost DefaultStrandedGrace s);
        s2 = snd (releaseStranded one_lost DefaultStrandedGrace s1)
    in stranded_reports (noted s1) = [''i1''] \<and> stranded_reports (noted s2) = [''i1''] \<and>
       set (stranded_reports (noted s1)) = strandedIDs s1)"
proof -
  let ?s = "\<lparr>world = (), strandedIDs = {}, stuckDraining = {}, noted = []\<rparr>"
  have ev: "src_Events one_lost" by (simp add: one_lost_def)
  obtain s1 where r1: "releaseStranded one_lost DefaultStrandedGrace ?s = (Inr (), s1)"
    by (simp add: releaseStranded_def one_lost_def)
  have n1: "stranded_reports (noted (snd (releaseStranded one_lost DefaultStrandedGrace ?s))) = [''i1'']"
    by code_simp
  moreover have "stranded_reports (noted (snd (releaseStranded one_lost DefaultStrandedGrace
      (snd (releaseStranded one_lost DefaultStrandedGrace ?s))))) = [''i1'']" by code_simp
  moreover from stranded_reported_once [OF ev r1] have "set (stranded_reports (noted s1)) = strandedIDs s1" by auto
  ultimately show ?thesis by (simp add: Let_def r1)
qed

end
