(* ===== verification/Placement.thy ===== *)
theory Placement
  imports Scheduler
begin

text \<open>
  What the scheduler relies on from its sources, and what a pass then
  guarantees. The locale \<open>placement_world\<close> names the view of a world that
  placement is about: the node of each instance, the fixed attributes of each
  instance (group, strictness, isolation), and the members of a group on a node.
  The locale \<open>drain_world\<close> adds what draining is about. Both are interpreted on
  the composed platform in the theory Wiring.
\<close>

type_synonym attrs = "string \<times> bool \<times> string"

locale placement_world =
  fixes src :: "'w sources"
    and ok :: "'w \<Rightarrow> bool"
    and node_of :: "'w \<Rightarrow> string \<Rightarrow> string"
    and attrs_of :: "'w \<Rightarrow> string \<Rightarrow> attrs"
    and members :: "'w \<Rightarrow> string \<Rightarrow> string \<Rightarrow> int"
  assumes Assign_refused:
      "ok w \<Longrightarrow> src_Assign src w i n = (Inl e, w') \<Longrightarrow>
       ok w' \<and> attrs_of w' = attrs_of w \<and> node_of w' = node_of w \<and> members w' = members w"
    and Assign_done:
      "ok w \<Longrightarrow> n \<noteq> [] \<Longrightarrow> src_Assign src w i n = (Inr u, w') \<Longrightarrow>
       ok w' \<and> attrs_of w' = attrs_of w \<and> node_of w i = [] \<and> node_of w' = (node_of w)(i := n) \<and>
       members w' = (\<lambda>g m. members w g m + (if g = fst (attrs_of w i) \<and> m = n then 1 else 0))"
    and Hold_quiet:
      "ok w \<Longrightarrow> w' = snd (src_HoldPlacement src w i reason) \<Longrightarrow>
       ok w' \<and> attrs_of w' = attrs_of w \<and> node_of w' = node_of w \<and> members w' = members w"
    and Claim_quiet:
      "ok w \<Longrightarrow> src_Devices src = Some ds \<Longrightarrow> w' = snd (ds_ClaimDevice ds w n kind i) \<Longrightarrow>
       ok w' \<and> attrs_of w' = attrs_of w \<and> node_of w' = node_of w \<and> members w' = members w"
    and Allocate_quiet:
      "ok w \<Longrightarrow> src_Allocate src = Some alloc \<Longrightarrow> w' = snd (alloc w i net n) \<Longrightarrow>
       ok w' \<and> attrs_of w' = attrs_of w \<and> node_of w' = node_of w \<and> members w' = members w"
    and GroupCounts_exact:
      "ok w \<Longrightarrow> src_GroupCounts src w g = Inr m \<Longrightarrow> n \<noteq> [] \<Longrightarrow> get_or 0 m n = members w g n"
    and Pending_attrs:
      "ok w \<Longrightarrow> src_PendingPlacement src w = Inr ps \<Longrightarrow> p \<in> set ps \<Longrightarrow>
       p_Group p = fst (attrs_of w (p_ID p)) \<and> p_Strict p = fst (snd (attrs_of w (p_ID p)))"
    and Ready_named:
      "ok w \<Longrightarrow> src_ReadyNodes src w = Inr cs \<Longrightarrow> c \<in> set cs \<Longrightarrow> cand_ID c \<noteq> []"
begin

definition same :: "'w \<Rightarrow> 'w \<Rightarrow> bool" where
  "same w w' \<longleftrightarrow> ok w' \<and> attrs_of w' = attrs_of w \<and> node_of w' = node_of w \<and> members w' = members w"

lemma same_refl: "ok w \<Longrightarrow> same w w"
  by (simp add: same_def)

lemma same_trans: "same w w' \<Longrightarrow> same w' w'' \<Longrightarrow> same w w''"
  by (simp add: same_def)

lemma same_ok: "same w w' \<Longrightarrow> ok w'"
  by (simp add: same_def)

lemma world_note_event [simp]: "world (note_event src e s) = world s"
  by (simp add: note_event_def)

lemma same_hold: "ok (world s) \<Longrightarrow> same (world s) (world (hold_with src i reason s))"
  unfolding same_def hold_with_def using Hold_quiet by simp

lemma same_claim: "ok w \<Longrightarrow> same w (snd (claim_for src p t w))"
proof (cases "src_Devices src")
  case (Some ds)
  assume "ok w"
  from Claim_quiet [OF this Some refl, of "cand_ID t" "p_Device p" "p_ID p"] \<open>ok w\<close> Some
  show ?thesis by (auto simp: claim_for_def same_def split: prod.splits sum.splits)
qed (simp add: claim_for_def same_refl)

lemma same_allocate_all:
  "ok w \<Longrightarrow> src_Allocate src = Some alloc \<Longrightarrow> same w (allocate_all alloc i n nets w)"
proof (induction nets arbitrary: w)
  case (Cons net nets)
  have "same w (snd (alloc w i net n))"
    using Allocate_quiet [OF Cons.prems refl] by (simp add: same_def)
  with Cons.IH [OF same_ok Cons.prems(2)] show ?case by (auto intro: same_trans)
qed (simp add: same_refl)

lemma same_allocate_for: "ok w \<Longrightarrow> same w (allocate_for src p t w)"
  using same_allocate_all [of w _ "p_ID p" "cand_ID t" "p_NetworkID p # p_Extra p"]
  by (auto simp: allocate_for_def same_refl split: option.splits)

text \<open>The cached maps hold the current members of their groups.\<close>

definition cache_ok :: "'w \<Rightarrow> (string \<rightharpoonup> counts) \<Rightarrow> bool" where
  "cache_ok w cache \<longleftrightarrow>
     (\<forall>g m n. cache g = Some m \<longrightarrow> g \<noteq> [] \<longrightarrow> n \<noteq> [] \<longrightarrow> get_or 0 m n = members w g n)"

lemma cache_ok_same: "same w w' \<Longrightarrow> cache_ok w cache \<Longrightarrow> cache_ok w' cache"
  by (simp add: cache_ok_def same_def)

lemma membersOf_ok:
  assumes "ok w" "cache_ok w cache" "membersOf src w cache g = Inr (m, cache')"
  shows "cache_ok w cache' \<and> (g \<noteq> [] \<longrightarrow> cache' g = Some m) \<and>
    (g \<noteq> [] \<longrightarrow> (\<forall>n. n \<noteq> [] \<longrightarrow> get_or 0 m n = members w g n))"
  using assms GroupCounts_exact [of w g]
  by (auto simp: membersOf_def cache_ok_def bindR_eq_Inr split: if_splits option.splits)

text \<open>What one instance of the pass does: nothing to the view, or one placement.\<close>

definition placed :: "'w \<Rightarrow> 'w \<Rightarrow> pending \<Rightarrow> candidate \<Rightarrow> bool" where
  "placed w w' p c \<longleftrightarrow>
     ok w' \<and> attrs_of w' = attrs_of w \<and> node_of w (p_ID p) = [] \<and>
     node_of w' = (node_of w)(p_ID p := cand_ID c) \<and>
     members w' = (\<lambda>g m. members w g m +
       (if g = fst (attrs_of w (p_ID p)) \<and> m = cand_ID c then 1 else 0))"

lemma placed_same: "placed w w' p c \<Longrightarrow> same w' w'' \<Longrightarrow> placed w w'' p c"
  by (simp add: placed_def same_def)

lemma same_placed: "same w w' \<Longrightarrow> placed w' w'' p c \<Longrightarrow> placed w w'' p c"
  by (simp add: placed_def same_def)

lemma place_on_cases:
  assumes ok: "ok (world s)" and cache: "cache_ok (world s) cache" and c: "cand_ID c \<noteq> []"
    and grp: "p_Group p = fst (attrs_of (world s) (p_ID p))"
    and mem: "p_Group p \<noteq> [] \<longrightarrow> (\<forall>n. n \<noteq> [] \<longrightarrow> get_or 0 m n = members (world s) (p_Group p) n)"
    and call: "place_on src p c m counts cache s = (counts', cache', s')"
  shows "(same (world s) (world s') \<or> placed (world s) (world s') p c) \<and> cache_ok (world s') cache'"
proof -
  obtain b w where claim: "claim_for src p c (world s) = (b, w)" by fastforce
  with same_claim [OF ok, of p c] have sw: "same (world s) w" by simp
  show ?thesis
  proof (cases b)
    case False
    with call claim sw cache_ok_same [OF sw cache] show ?thesis by (auto simp: place_on_def)
  next
    case True
    obtain r w1 where asg: "src_Assign src w (p_ID p) (cand_ID c) = (r, w1)" by fastforce
    show ?thesis
    proof (cases r)
      case (Inl e)
      with Assign_refused [OF same_ok [OF sw]] asg have "same w w1" by (simp add: same_def)
      with sw have "same (world s) w1" by (rule same_trans)
      with call claim asg True Inl cache_ok_same [OF this cache] show ?thesis
        by (auto simp: place_on_def)
    next
      case (Inr u)
      from Assign_done [OF same_ok [OF sw] c] asg Inr have "placed w w1 p c" by (simp add: placed_def)
      with sw have pl: "placed (world s) w1 p c" by (rule same_placed)
      define w2 where "w2 = allocate_for src p c w1"
      have s': "world s' = w2"
        and cache': "cache' = (if p_Group p \<noteq> [] then cache(p_Group p \<mapsto> bump m (cand_ID c)) else cache)"
        using call claim asg True Inr by (auto simp: place_on_def Let_def w2_def)
      have "same w1 w2" unfolding w2_def using pl by (intro same_allocate_for) (simp add: placed_def)
      with pl have pl2: "placed (world s) w2 p c" by (rule placed_same)
      have "cache_ok w2 cache'"
        using pl2 cache mem unfolding cache' cache_ok_def placed_def grp by auto
      with pl2 s' show ?thesis by simp
    qed
  qed
qed

lemma place_one_cases:
  assumes ok: "ok (world s)" and cache: "cache_ok (world s) cache"
    and named: "\<forall>c\<in>set cs. cand_ID c \<noteq> []"
    and grp: "p_Group p = fst (attrs_of (world s) (p_ID p))"
    and call: "place_one src cs load p (counts, cache, s) = (r, counts', cache', s')"
  shows "cache_ok (world s') cache' \<and>
    (same (world s) (world s') \<or>
     (\<exists>c\<in>set cs. cand_matches c (p_Selector p) \<and> placed (world s) (world s') p c \<and>
        (p_Strict p \<and> p_Group p \<noteq> [] \<longrightarrow> members (world s) (p_Group p) (cand_ID c) = 0)))"
proof (cases "membersOf src (world s) cache (p_Group p)")
  case (Inl e)
  with call ok cache show ?thesis by (auto simp: place_one_def same_refl)
next
  case (Inr mc)
  then obtain m cache1 where mo: "membersOf src (world s) cache (p_Group p) = Inr (m, cache1)"
    by (cases mc) auto
  from membersOf_ok [OF ok cache mo] have c1: "cache_ok (world s) cache1"
    and mem: "p_Group p \<noteq> [] \<longrightarrow> (\<forall>n. n \<noteq> [] \<longrightarrow> get_or 0 m n = members (world s) (p_Group p) n)" by auto
  define matched where "matched = matching cs (p_Selector p)"
  define eligible where "eligible =
    (if p_Device p \<noteq> [] then carrying src (world s) matched (p_Device p) else matched)"
  have sub: "set eligible \<subseteq> {c \<in> set cs. cand_matches c (p_Selector p)}"
    using set_carrying [of src "world s" matched "p_Device p"] set_matching [of cs "p_Selector p"]
    by (auto simp: eligible_def matched_def)
  obtain t room where best: "bestFor eligible counts load m = (t, room)" by fastforce
  have body: "place_one src cs load p (counts, cache, s) =
      (if matched = [] then (Inr (), counts, cache1, holdUnmatched src p s)
       else if eligible = [] then (Inr (), counts, cache1, holdWithout src p s)
       else if p_Strict p \<and> p_Group p \<noteq> [] \<and> \<not> room then (Inr (), counts, cache1, hold src p s)
       else (Inr (), place_on src p t m counts cache1 s))"
    unfolding place_one_def prod.case mo sum.case Let_def matched_def [symmetric]
      eligible_def [symmetric] best ..
  show ?thesis
  proof (cases "matched = [] \<or> eligible = [] \<or> (p_Strict p \<and> p_Group p \<noteq> [] \<and> \<not> room)")
    case True
    then have "\<exists>reason. s' = hold_with src (p_ID p) reason s \<and> cache' = cache1"
      using call unfolding body holdUnmatched_def holdWithout_def hold_def by (auto split: if_splits)
    with same_hold [OF ok] c1 cache_ok_same show ?thesis by metis
  next
    case False
    with call body have po: "place_on src p t m counts cache1 s = (counts', cache', s')" by auto
    from False bestFor_in [of eligible counts load m] best have "t \<in> set eligible" by auto
    with sub have t: "t \<in> set cs" "cand_matches t (p_Selector p)" by auto
    from place_on_cases [OF ok c1 _ grp mem po] t named
    have "same (world s) (world s') \<or> placed (world s) (world s') p t" "cache_ok (world s') cache'"
      by blast+
    moreover have "p_Strict p \<and> p_Group p \<noteq> [] \<longrightarrow> members (world s) (p_Group p) (cand_ID t) = 0"
      using False bestFor_room [OF best] mem t named by auto
    ultimately show ?thesis using t by blast
  qed
qed

text \<open>The whole loop: where instances may have gone, and how full a strict group may be.\<close>

lemma place_loop_view:
  assumes "ok (world s)" "cache_ok (world s) cache" "\<forall>c\<in>set cs. cand_ID c \<noteq> []"
    and "\<forall>p\<in>set ps. p_Group p = fst (attrs_of (world s) (p_ID p)) \<and>
           p_Strict p = fst (snd (attrs_of (world s) (p_ID p)))"
    and "place_loop src cs load ps (counts, cache, s) = (r, counts', cache', s')"
  shows "ok (world s') \<and> attrs_of (world s') = attrs_of (world s) \<and>
    (\<forall>j. node_of (world s') j = node_of (world s) j \<or>
       (node_of (world s) j = [] \<and> (\<exists>p\<in>set ps. p_ID p = j \<and>
         (\<exists>c\<in>set cs. cand_ID c = node_of (world s') j \<and> cand_matches c (p_Selector p))))) \<and>
    (\<forall>g n. g \<noteq> [] \<and> (\<forall>i. fst (attrs_of (world s) i) = g \<longrightarrow> fst (snd (attrs_of (world s) i))) \<longrightarrow>
       members (world s') g n \<le> max 1 (members (world s) g n))"
  using assms
proof (induction ps arbitrary: counts cache s)
  case Nil
  then show ?case by auto
next
  case (Cons p ps)
  obtain r1 counts1 cache1 s1 where one: "place_one src cs load p (counts, cache, s) = (r1, counts1, cache1, s1)"
    by (metis prod_cases4)
  have grp: "p_Group p = fst (attrs_of (world s) (p_ID p))"
    and strict: "p_Strict p = fst (snd (attrs_of (world s) (p_ID p)))" using Cons.prems(4) by auto
  note step = place_one_cases [OF Cons.prems(1,2,3) grp one]
  then have ok1: "ok (world s1)" and at1: "attrs_of (world s1) = attrs_of (world s)"
    and cache1: "cache_ok (world s1) cache1"
    by (auto simp: same_def placed_def)
  have node1: "node_of (world s1) j = node_of (world s) j \<or>
      (node_of (world s) j = [] \<and> p_ID p = j \<and>
       (\<exists>c\<in>set cs. cand_ID c = node_of (world s1) j \<and> cand_ID c \<noteq> [] \<and> cand_matches c (p_Selector p)))" for j
    using step Cons.prems(3) by (cases "j = p_ID p") (auto simp: same_def placed_def)
  have mem1: "members (world s1) g n \<le> max 1 (members (world s) g n)"
    if "g \<noteq> []" "\<forall>i. fst (attrs_of (world s) i) = g \<longrightarrow> fst (snd (attrs_of (world s) i))" for g n
    using step that grp strict by (auto simp: same_def placed_def split: if_splits)
  show ?case
  proof (cases r1)
    case (Inl e)
    with Cons.prems(5) one have "s' = s1" by simp
    with ok1 at1 node1 mem1 show ?thesis by auto
  next
    case (Inr u)
    with Cons.prems(5) one have rest: "place_loop src cs load ps (counts1, cache1, s1) = (r, counts', cache', s')"
      by simp
    have "\<forall>p\<in>set ps. p_Group p = fst (attrs_of (world s1) (p_ID p)) \<and>
        p_Strict p = fst (snd (attrs_of (world s1) (p_ID p)))"
      using Cons.prems(4) at1 by simp
    note IH = Cons.IH [OF ok1 cache1 Cons.prems(3) this rest]
    have "node_of (world s') j = node_of (world s) j \<or>
       (node_of (world s) j = [] \<and> (\<exists>q\<in>set (p # ps). p_ID q = j \<and>
         (\<exists>c\<in>set cs. cand_ID c = node_of (world s') j \<and> cand_matches c (p_Selector q))))" for j
    proof (cases "node_of (world s') j = node_of (world s1) j")
      case True
      with node1 [of j] show ?thesis by auto
    next
      case False
      with IH obtain q where "node_of (world s1) j = []" "q \<in> set ps" "p_ID q = j"
        "\<exists>c\<in>set cs. cand_ID c = node_of (world s') j \<and> cand_matches c (p_Selector q)" by blast
      moreover from this node1 [of j] have "node_of (world s) j = []" by auto
      ultimately show ?thesis by auto
    qed
    moreover have "members (world s') g n \<le> max 1 (members (world s) g n)"
      if "g \<noteq> []" "\<forall>i. fst (attrs_of (world s) i) = g \<longrightarrow> fst (snd (attrs_of (world s) i))" for g n
    proof -
      have "members (world s') g n \<le> max 1 (members (world s1) g n)" using IH that at1 by simp
      with mem1 [OF that, of n] show ?thesis by simp
    qed
    moreover have "ok (world s')" "attrs_of (world s') = attrs_of (world s)" using IH at1 by simp_all
    ultimately show ?thesis by blast
  qed
qed

lemma place_pending_view:
  assumes ok: "ok (world s)" and call: "place_pending src s = (r, s')"
  shows "ok (world s') \<and> attrs_of (world s') = attrs_of (world s) \<and>
    (\<forall>j. node_of (world s') j = node_of (world s) j \<or>
       (node_of (world s) j = [] \<and>
        (\<exists>ps cs. src_PendingPlacement src (world s) = Inr ps \<and> src_ReadyNodes src (world s) = Inr cs \<and>
          (\<exists>p\<in>set ps. p_ID p = j \<and>
            (\<exists>c\<in>set cs. cand_ID c = node_of (world s') j \<and> cand_matches c (p_Selector p)))))) \<and>
    (\<forall>g n. g \<noteq> [] \<and> (\<forall>i. fst (attrs_of (world s) i) = g \<longrightarrow> fst (snd (attrs_of (world s) i))) \<longrightarrow>
       members (world s') g n \<le> max 1 (members (world s) g n))"
proof (cases "s' = s")
  case True
  with ok show ?thesis by auto
next
  case False
  with call obtain ps cs counts counts' cache' where
    ps: "src_PendingPlacement src (world s) = Inr ps" and cs: "src_ReadyNodes src (world s) = Inr cs"
    and loop: "place_loop src cs (measured_load src (world s)) ps (counts, Map.empty, s) =
      (r, counts', cache', s')"
    by (auto simp: place_pending_def split: sum.splits if_splits prod.splits)
  have "\<forall>p\<in>set ps. p_Group p = fst (attrs_of (world s) (p_ID p)) \<and>
      p_Strict p = fst (snd (attrs_of (world s) (p_ID p)))"
    using Pending_attrs [OF ok ps] by blast
  moreover have "\<forall>c\<in>set cs. cand_ID c \<noteq> []" using Ready_named [OF ok cs] by blast
  moreover have "cache_ok (world s) Map.empty" by (simp add: cache_ok_def)
  ultimately show ?thesis using place_loop_view [OF ok _ _ _ loop] ps cs by blast
qed

end

section \<open>Lost and draining nodes\<close>

locale drain_world = placement_world src ok node_of attrs_of members
  for src :: "'w sources" and ok node_of attrs_of members +
  fixes busy :: "'w \<Rightarrow> string \<Rightarrow> bool"
    and draining :: "'w \<Rightarrow> string set"
  assumes Release_effect:
      "ok w \<Longrightarrow> src_ReleasePlacement src w i n = (r, w') \<Longrightarrow>
       ok w' \<and> attrs_of w' = attrs_of w \<and> busy w' = busy w \<and> draining w' = draining w \<and>
       (\<forall>j. node_of w' j = node_of w j \<or> (j = i \<and> node_of w j = n \<and> node_of w' j = [])) \<and>
       (\<forall>g m. members w' g m \<le> members w g m)"
    and Release_done:
      "ok w \<Longrightarrow> src_ReleasePlacement src w i n = (Inr u, w') \<Longrightarrow> node_of w' i = []"
    and Begin_quiet:
      "ok w \<Longrightarrow> w' = snd (src_BeginMigration src w i n) \<Longrightarrow>
       ok w' \<and> attrs_of w' = attrs_of w \<and> draining w' = draining w \<and> node_of w' = node_of w \<and>
       members w' = members w \<and> (\<forall>j. busy w' j \<longrightarrow> busy w j \<or> j = i)"
    and Finish_effect:
      "ok w \<Longrightarrow> w' = snd (src_FinishDraining src w n) \<Longrightarrow>
       ok w' \<and> attrs_of w' = attrs_of w \<and> node_of w' = node_of w \<and> members w' = members w \<and>
       busy w' = busy w \<and> draining w - {n} \<subseteq> draining w'"
    and Draining_exact:
      "ok w \<Longrightarrow> src_DrainingNodes src w = Inr ns \<Longrightarrow> set ns = draining w"
    and Stranded_exact:
      "ok w \<Longrightarrow> src_StrandedOn src w ns = Inr xs \<Longrightarrow> n \<in> set ns \<Longrightarrow> n \<noteq> [] \<Longrightarrow>
       {st_ID x |x. x \<in> set xs \<and> st_NodeID x = n} = {i. busy w i \<and> node_of w i = n}"
    and Stranded_isolation:
      "ok w \<Longrightarrow> src_StrandedOn src w ns = Inr xs \<Longrightarrow> x \<in> set xs \<Longrightarrow>
       st_Isolation x = snd (snd (attrs_of w (st_ID x)))"
    and Stranded_there:
      "ok w \<Longrightarrow> src_StrandedOn src w ns = Inr xs \<Longrightarrow> x \<in> set xs \<Longrightarrow> st_NodeID x \<in> set ns"
    and Stranded_busy:
      "ok w \<Longrightarrow> src_StrandedOn src w ns = Inr xs \<Longrightarrow> x \<in> set xs \<Longrightarrow> busy w (st_ID x)"
begin

text \<open>
  What the two release passes may change: placements are only taken away, and only
  the given instances may start to move.
\<close>

definition shrinks :: "string set \<Rightarrow> 'w \<Rightarrow> 'w \<Rightarrow> bool" where
  "shrinks ids w w' \<longleftrightarrow>
     ok w' \<and> attrs_of w' = attrs_of w \<and>
     (\<forall>j. node_of w' j = node_of w j \<or> node_of w' j = []) \<and>
     (\<forall>g m. members w' g m \<le> members w g m) \<and> (\<forall>j. busy w' j \<longrightarrow> busy w j \<or> j \<in> ids)"

lemma shrinks_refl: "ok w \<Longrightarrow> shrinks ids w w"
  by (simp add: shrinks_def)

lemma shrinks_trans: "shrinks A w w' \<Longrightarrow> shrinks B w' w'' \<Longrightarrow> A \<subseteq> C \<Longrightarrow> B \<subseteq> C \<Longrightarrow> shrinks C w w''"
proof -
  assume h: "shrinks A w w'" "shrinks B w' w''" "A \<subseteq> C" "B \<subseteq> C"
  from h(1,2) have "members w'' g m \<le> members w g m" for g m
    unfolding shrinks_def by (meson order_trans)
  moreover from h(1,2) have "node_of w'' j = node_of w j \<or> node_of w'' j = []" for j
    unfolding shrinks_def by metis
  moreover from h have "busy w'' j \<Longrightarrow> busy w j \<or> j \<in> C" for j
    unfolding shrinks_def by blast
  ultimately show "shrinks C w w''" using h(1,2) by (simp add: shrinks_def)
qed

lemma shrinks_ok: "shrinks ids w w' \<Longrightarrow> ok w'"
  by (simp add: shrinks_def)

text \<open>One stranded workload: only a container is ever taken off its node.\<close>

lemma release_one_view:
  assumes "ok (world s)"
  shows "shrinks {} (world s) (world (release_one src x s)) \<and>
    draining (world (release_one src x s)) = draining (world s) \<and>
    (\<forall>j. node_of (world (release_one src x s)) j \<noteq> node_of (world s) j \<longrightarrow>
       j = st_ID x \<and> node_of (world s) j = st_NodeID x \<and> st_Isolation x = ''container'')"
proof (cases "st_Isolation x = ''container''")
  case True
  obtain r w where rel: "src_ReleasePlacement src (world s) (st_ID x) (st_NodeID x) = (r, w)" by fastforce
  with True have "world (release_one src x s) = w"
    by (auto simp: release_one_def split: sum.splits)
  with Release_effect [OF assms rel] True show ?thesis by (auto simp: shrinks_def)
next
  case False
  then have "world (release_one src x s) = world s"
    by (auto simp: release_one_def alreadyStranded_def)
  with assms show ?thesis by (simp add: shrinks_refl)
qed

lemma release_fold_view:
  "ok (world s) \<Longrightarrow>
   shrinks {} (world s) (world (fold (release_one src) xs s)) \<and>
   draining (world (fold (release_one src) xs s)) = draining (world s) \<and>
   (\<forall>j. node_of (world (fold (release_one src) xs s)) j \<noteq> node_of (world s) j \<longrightarrow>
      (\<exists>x\<in>set xs. j = st_ID x \<and> node_of (world s) j = st_NodeID x \<and> st_Isolation x = ''container''))"
proof (induction xs arbitrary: s)
  case (Cons x xs)
  let ?s = "release_one src x s"
  from release_one_view [OF Cons.prems, of x] have one: "shrinks {} (world s) (world ?s)"
    "draining (world ?s) = draining (world s)"
    "\<forall>j. node_of (world ?s) j \<noteq> node_of (world s) j \<longrightarrow>
       j = st_ID x \<and> node_of (world s) j = st_NodeID x \<and> st_Isolation x = ''container''"
    by blast+
  note rest = Cons.IH [OF shrinks_ok [OF one(1)]]
  show ?case
  proof (intro conjI allI impI)
    show "shrinks {} (world s) (world (fold (release_one src) (x # xs) s))"
      using one(1) rest by (auto intro: shrinks_trans)
    show "draining (world (fold (release_one src) (x # xs) s)) = draining (world s)"
      using one(2) rest by simp
    fix j
    assume "node_of (world (fold (release_one src) (x # xs) s)) j \<noteq> node_of (world s) j"
    then consider (here) "node_of (world ?s) j \<noteq> node_of (world s) j"
      | (later) "node_of (world ?s) j = node_of (world s) j"
        "node_of (world (fold (release_one src) xs ?s)) j \<noteq> node_of (world ?s) j" by fastforce
    then show "\<exists>y\<in>set (x # xs). j = st_ID y \<and> node_of (world s) j = st_NodeID y \<and> st_Isolation y = ''container''"
    proof cases
      case here
      with one(3) show ?thesis by auto
    next
      case later
      with rest obtain y where "y \<in> set xs" "j = st_ID y" "node_of (world ?s) j = st_NodeID y"
        "st_Isolation y = ''container''" by blast
      with later(1) show ?thesis by auto
    qed
  qed
qed (simp add: shrinks_refl)

lemma world_forget [simp]: "world (forgetRecovered seen s) = world s" "world (forgetUnstuck seen s) = world s"
  by (simp_all add: forgetRecovered_def forgetUnstuck_def)

lemma releaseStranded_view:
  assumes ok: "ok (world s)" and call: "releaseStranded src grace s = (r, s')"
  shows "shrinks {} (world s) (world s') \<and> draining (world s') = draining (world s) \<and>
    (\<forall>j. node_of (world s') j \<noteq> node_of (world s) j \<longrightarrow>
       node_of (world s') j = [] \<and> snd (snd (attrs_of (world s) j)) = ''container'' \<and>
       (\<exists>lost. src_UnreachableNodes src (world s) grace = Inr lost \<and> node_of (world s) j \<in> set lost))"
proof (cases "world s' = world s")
  case True
  with ok show ?thesis by (simp add: shrinks_refl)
next
  case False
  with call obtain lost xs where lost: "src_UnreachableNodes src (world s) grace = Inr lost"
    and xs: "src_StrandedOn src (world s) lost = Inr xs"
    and s': "world s' = world (fold (release_one src) xs s)"
    by (auto simp: releaseStranded_def split: sum.splits if_splits)
  note view = release_fold_view [OF ok, of xs, folded s']
  have "node_of (world s') j = [] \<and> snd (snd (attrs_of (world s) j)) = ''container'' \<and> node_of (world s) j \<in> set lost"
    if "node_of (world s') j \<noteq> node_of (world s) j" for j
  proof -
    from view that obtain x where x: "x \<in> set xs" "j = st_ID x" "node_of (world s) j = st_NodeID x"
      "st_Isolation x = ''container''" by blast
    from view that have "node_of (world s') j = []" unfolding shrinks_def by metis
    with x Stranded_isolation [OF ok xs x(1)] Stranded_there [OF ok xs x(1)] show ?thesis by simp
  qed
  with view lost show ?thesis by blast
qed

text \<open>
  One workload of a draining node: either it is off the node afterwards, or the
  count of what holds the node up has grown.
\<close>

definition drain_ok :: "counts \<Rightarrow> counts \<Rightarrow> bool" where
  "drain_ok stuck stuck' \<longleftrightarrow> (\<forall>n. get_or 0 stuck n \<le> get_or 0 stuck' n)"

lemma drain_ok_bump [simp]: "drain_ok stuck (bump stuck n)"
  by (simp add: drain_ok_def)

lemma drain_ok_refl [simp]: "drain_ok stuck stuck"
  by (simp add: drain_ok_def)

lemma drain_ok_trans: "drain_ok a b \<Longrightarrow> drain_ok b c \<Longrightarrow> drain_ok a c"
  unfolding drain_ok_def by (meson order_trans)

lemma drain_release_view:
  assumes ok: "ok (world s)" and pos: "\<forall>n. 0 \<le> get_or 0 stuck n"
    and call: "drain_release src x (stuck, s) = (stuck', s')"
  shows "shrinks {st_ID x} (world s) (world s') \<and> draining (world s') = draining (world s) \<and> drain_ok stuck stuck' \<and>
    (node_of (world s') (st_ID x) = [] \<or> 0 < get_or 0 stuck' (st_NodeID x))"
proof -
  obtain r w where rel: "src_ReleasePlacement src (world s) (st_ID x) (st_NodeID x) = (r, w)" by fastforce
  with call have w: "world s' = w" and st: "stuck' = (if isl r then bump stuck (st_NodeID x) else stuck)"
    by (auto simp: drain_release_def Let_def split: sum.splits)
  have "node_of w (st_ID x) = []" if "\<not> isl r"
    using Release_done [OF ok, of "st_ID x" "st_NodeID x"] rel that by (cases r) auto
  moreover have "0 < get_or 0 (bump stuck (st_NodeID x)) (st_NodeID x)"
    using pos by (simp add: le_imp_0_less add.commute)
  ultimately show ?thesis using Release_effect [OF ok rel] w st by (auto simp: shrinks_def)
qed

lemma carryDisk_view:
  assumes ok: "ok (world s)" and call: "carryDisk src x s = (b, s')"
  shows "shrinks {st_ID x} (world s) (world s') \<and> draining (world s') = draining (world s)"
proof -
  have "world s' = world s \<or> world s' = snd (src_BeginMigration src (world s) (st_ID x) (st_NodeID x))"
    using call by (auto simp: carryDisk_def split: if_splits prod.splits sum.splits)
  with Begin_quiet [OF ok refl, of "st_ID x" "st_NodeID x"] ok show ?thesis
    by (auto simp: shrinks_def)
qed

lemma drain_one_view:
  assumes ok: "ok (world s)" and pos: "\<forall>n. 0 \<le> get_or 0 stuck n"
    and call: "drain_one src x (stuck, s) = (stuck', s')"
  shows "shrinks {st_ID x} (world s) (world s') \<and> draining (world s') = draining (world s) \<and> drain_ok stuck stuck' \<and>
    (node_of (world s') (st_ID x) = [] \<or> 0 < get_or 0 stuck' (st_NodeID x))"
proof -
  have up: "0 < get_or 0 (bump stuck (st_NodeID x)) (st_NodeID x)"
    using pos by (simp add: le_imp_0_less add.commute)
  consider (container) "st_Isolation x = ''container''"
    | (blocked) "st_Isolation x \<noteq> ''container''" "\<not> carriesItsDisk (st_Isolation x)"
    | (carried) "st_Isolation x \<noteq> ''container''" "carriesItsDisk (st_Isolation x)" by blast
  then show ?thesis
  proof cases
    case container
    with call drain_release_view [OF ok pos] show ?thesis by (simp add: drain_one_def)
  next
    case blocked
    have "world (noteBlocked src x s) = world s"
      by (auto simp: noteBlocked_def alreadyStuckDraining_def)
    with blocked call up ok show ?thesis by (auto simp: drain_one_def shrinks_refl)
  next
    case carried
    obtain b s1 where car: "carryDisk src x s = (b, s1)" by fastforce
    note view = carryDisk_view [OF ok car]
    show ?thesis
    proof (cases b)
      case True
      with carried call car view up show ?thesis by (auto simp: drain_one_def)
    next
      case False
      with carried call car have "drain_release src x (stuck, s1) = (stuck', s')"
        by (simp add: drain_one_def)
      with drain_release_view [OF shrinks_ok pos this] view show ?thesis
        by (auto intro: shrinks_trans)
    qed
  qed
qed

lemma drain_fold_view:
  "ok (world s) \<Longrightarrow> \<forall>n. 0 \<le> get_or 0 stuck n \<Longrightarrow> fold (drain_one src) xs (stuck, s) = (stuck', s') \<Longrightarrow>
   shrinks (st_ID ` set xs) (world s) (world s') \<and> draining (world s') = draining (world s) \<and> drain_ok stuck stuck' \<and>
   (\<forall>x\<in>set xs. node_of (world s') (st_ID x) = [] \<or> 0 < get_or 0 stuck' (st_NodeID x))"
proof (induction xs arbitrary: stuck s)
  case (Cons x xs)
  obtain stuck1 s1 where one: "drain_one src x (stuck, s) = (stuck1, s1)" by fastforce
  note v1 = drain_one_view [OF Cons.prems(1,2) one]
  then have pos1: "\<forall>n. 0 \<le> get_or 0 stuck1 n"
    using Cons.prems(2) by (meson drain_ok_def order_trans)
  note v2 = Cons.IH [OF shrinks_ok pos1]
  from Cons.prems(3) one have rest: "fold (drain_one src) xs (stuck1, s1) = (stuck', s')" by simp
  from v1 v2 [OF _ rest] have both: "shrinks (st_ID ` set xs) (world s1) (world s')" "drain_ok stuck1 stuck'"
    "\<forall>y\<in>set xs. node_of (world s') (st_ID y) = [] \<or> 0 < get_or 0 stuck' (st_NodeID y)"
    "draining (world s') = draining (world s1)" by blast+
  have "node_of (world s') (st_ID x) = [] \<or> 0 < get_or 0 stuck' (st_NodeID x)"
  proof (cases "node_of (world s1) (st_ID x) = []")
    case True
    with both(1) show ?thesis unfolding shrinks_def by metis
  next
    case False
    with v1 both(2) show ?thesis unfolding drain_ok_def by (meson less_le_trans)
  qed
  with v1 both show ?case by (auto intro: shrinks_trans drain_ok_trans)
qed (auto simp: shrinks_refl)

lemma finish_fold_view:
  "ok (world s) \<Longrightarrow> ok (world (fold (finish_one src stuck) ns s)) \<and>
   attrs_of (world (fold (finish_one src stuck) ns s)) = attrs_of (world s) \<and>
   node_of (world (fold (finish_one src stuck) ns s)) = node_of (world s) \<and>
   members (world (fold (finish_one src stuck) ns s)) = members (world s) \<and>
   busy (world (fold (finish_one src stuck) ns s)) = busy (world s) \<and>
   (\<forall>n\<in>draining (world s). n \<notin> draining (world (fold (finish_one src stuck) ns s)) \<longrightarrow>
      \<not> 0 < get_or 0 stuck n)"
proof (induction ns arbitrary: s)
  case (Cons n ns)
  let ?s = "finish_one src stuck n s"
  have one: "ok (world ?s) \<and> attrs_of (world ?s) = attrs_of (world s) \<and> node_of (world ?s) = node_of (world s) \<and>
      members (world ?s) = members (world s) \<and> busy (world ?s) = busy (world s) \<and>
      (\<forall>m\<in>draining (world s). m \<notin> draining (world ?s) \<longrightarrow> \<not> 0 < get_or 0 stuck m)"
  proof (cases "0 < get_or 0 stuck n")
    case True
    then show ?thesis using Cons.prems by (simp add: finish_one_def)
  next
    case False
    then have "world ?s = snd (src_FinishDraining src (world s) n)"
      by (auto simp: finish_one_def split: prod.splits sum.splits)
    with Finish_effect [OF Cons.prems refl, of n] False show ?thesis by auto
  qed
  with Cons.IH [of ?s] show ?case by auto
qed auto

text \<open>A drain that is marked finished left nothing busy on the node.\<close>

lemma emptyDraining_view:
  assumes ok: "ok (world s)" and call: "emptyDraining src s = (r, s')"
  shows "shrinks {} (world s) (world s') \<and>
    (\<forall>n. n \<noteq> [] \<longrightarrow> n \<in> draining (world s) \<longrightarrow> n \<notin> draining (world s') \<longrightarrow>
       (\<forall>i. \<not> (busy (world s') i \<and> node_of (world s') i = n)))"
proof (cases "world s' = world s")
  case True
  with ok show ?thesis by (simp add: shrinks_refl)
next
  case False
  with call obtain ns held stuck s1 where ns: "src_DrainingNodes src (world s) = Inr ns"
    and held: "src_StrandedOn src (world s) ns = Inr held"
    and drain: "fold (drain_one src) held (Map.empty, s) = (stuck, s1)"
    and s': "s' = fold (finish_one src stuck) ns (forgetUnstuck (set (map st_ID held)) s1)"
    by (auto simp: emptyDraining_def split: sum.splits if_splits prod.splits)
  have v1: "shrinks (st_ID ` set held) (world s) (world s1)" "draining (world s1) = draining (world s)"
    "\<forall>x\<in>set held. node_of (world s1) (st_ID x) = [] \<or> 0 < get_or 0 stuck (st_NodeID x)"
    using drain_fold_view [OF ok _ drain] by auto
  let ?s1 = "forgetUnstuck (set (map st_ID held)) s1"
  have v2: "ok (world s') \<and> attrs_of (world s') = attrs_of (world s1) \<and> node_of (world s') = node_of (world s1) \<and>
      members (world s') = members (world s1) \<and> busy (world s') = busy (world s1) \<and>
      (\<forall>n\<in>draining (world s1). n \<notin> draining (world s') \<longrightarrow> \<not> 0 < get_or 0 stuck n)"
    unfolding s' using finish_fold_view [of ?s1 stuck ns] shrinks_ok [OF v1(1)] by simp
  have was_busy: "busy (world s) j" if "busy (world s1) j" for j
    using that v1(1) Stranded_busy [OF ok held] unfolding shrinks_def by blast
  with v1(1) v2 have "shrinks {} (world s) (world s')" by (simp add: shrinks_def)
  moreover have "\<not> (busy (world s') i \<and> node_of (world s') i = n)"
    if n: "n \<noteq> []" "n \<in> draining (world s)" "n \<notin> draining (world s')" for n i
  proof
    assume b: "busy (world s') i \<and> node_of (world s') i = n"
    with v2 have s1: "busy (world s1) i" "node_of (world s1) i = n" by simp_all
    with v1(1) n(1) was_busy have "busy (world s) i" "node_of (world s) i = n"
      unfolding shrinks_def by (blast, metis)
    moreover from Draining_exact [OF ok ns] n have "n \<in> set ns" by simp
    ultimately have "i \<in> {st_ID x |x. x \<in> set held \<and> st_NodeID x = n}"
      by (simp add: Stranded_exact [OF ok held _ n(1)])
    then obtain x where x: "x \<in> set held" "st_NodeID x = n" "st_ID x = i" by auto
    from v1(3) x(1) have "node_of (world s1) (st_ID x) = [] \<or> 0 < get_or 0 stuck (st_NodeID x)" ..
    with x(2,3) s1(2) n(1) have "0 < get_or 0 stuck n" by simp
    moreover from v2 n v1(2) have "\<not> 0 < get_or 0 stuck n" by simp
    ultimately show False by simp
  qed
  ultimately show ?thesis by blast
qed

text \<open>The three phases of a pass together.\<close>

lemma Tick_view:
  assumes ok: "ok (world s)" and call: "Tick src grace s = (r, s')"
  shows "ok (world s') \<and> attrs_of (world s') = attrs_of (world s) \<and>
    (\<forall>g n. g \<noteq> [] \<and> (\<forall>i. fst (attrs_of (world s) i) = g \<longrightarrow> fst (snd (attrs_of (world s) i))) \<longrightarrow>
       members (world s') g n \<le> max 1 (members (world s) g n))"
proof -
  obtain r1 s1 where t1: "releaseStranded src grace s = (r1, s1)" by fastforce
  obtain r2 s2 where t2: "emptyDraining src s1 = (r2, s2)" by fastforce
  from releaseStranded_view [OF ok t1] have h1: "shrinks {} (world s) (world s1)" by blast
  from emptyDraining_view [OF shrinks_ok [OF h1] t2] h1 have h2: "shrinks {} (world s) (world s2)"
    by (blast intro: shrinks_trans)
  have shrunk: ?thesis if "s' = s1 \<or> s' = s2"
    using that h1 h2 unfolding shrinks_def by (metis max.coboundedI2)
  show ?thesis
  proof (cases "isl r1 \<or> isl r2")
    case True
    with call t1 t2 have "s' = s1 \<or> s' = s2"
      by (auto simp: Tick_def split: sum.splits prod.splits)
    then show ?thesis by (rule shrunk)
  next
    case False
    with call t1 t2 have t3: "place_pending src s2 = (r, s')"
      by (auto simp: Tick_def split: sum.splits)
    note p = place_pending_view [OF shrinks_ok [OF h2] t3]
    have at: "attrs_of (world s2) = attrs_of (world s)" and le: "\<forall>g m. members (world s2) g m \<le> members (world s) g m"
      using h2 by (simp_all add: shrinks_def)
    have "members (world s') g n \<le> max 1 (members (world s) g n)"
      if "g \<noteq> []" "\<forall>i. fst (attrs_of (world s) i) = g \<longrightarrow> fst (snd (attrs_of (world s) i))" for g n
      using p that le at by (metis (no_types, lifting) max.mono order_refl order_trans)
    with p at show ?thesis by auto
  qed
qed

end

end
