(* ===== verification/Nodes.thy ===== *)
theory Nodes
  imports Kernel
begin

text \<open>
  The node module, src/internal/platform/node: the tables nodes, node_labels and
  node_devices as one record, every statement of repository.go as a function on
  it, and the service and module operations over them. A result is paired with
  the tables after the call. Generated ids and the address parser of net/netip
  are arguments. A failing database connection is not modelled.
\<close>

section \<open>Types and tables\<close>

datatype status = StatusReady | StatusUnreachable

abbreviation (input) ReadyWindow :: duration where "ReadyWindow \<equiv> 30000000000"
abbreviation (input) MaxLabels :: nat where "MaxLabels \<equiv> 32"
abbreviation (input) MaxDevicesPerNode :: nat where "MaxDevicesPerNode \<equiv> 64"

record node =
  n_ID :: string
  n_Schedulable :: bool
  n_Draining :: bool
  n_Name :: string
  n_Zone :: string
  n_Address :: string
  n_Arch :: string
  n_OS :: string
  n_CPUs :: int
  n_MemoryMiB :: int
  n_AgentVersion :: string
  n_Labels :: "(string \<times> string) list"
  n_RegisteredAt :: go_time
  n_LastSeenAt :: go_time

record register_params =
  rp_Name :: string
  rp_Zone :: string
  rp_Address :: string
  rp_Arch :: string
  rp_OS :: string
  rp_CPUs :: int
  rp_MemoryMiB :: int
  rp_AgentVersion :: string

record device =
  dev_NodeID :: string
  dev_Address :: string
  dev_Kind :: string
  dev_Vendor :: string
  dev_Product :: string
  dev_Driver :: string
  dev_Ready :: bool
  dev_InstanceID :: string

record node_db =
  nodes :: "node list"
  node_labels :: "(string \<times> string \<times> string) list"
  node_devices :: "device list"

definition node_Matches :: "node \<Rightarrow> (string \<times> string) list \<Rightarrow> bool" where
  "node_Matches n selector =
     list_all (\<lambda>(key, want). get_or [] (map_of (n_Labels n)) key = want) selector"

definition StatusAt :: "node \<Rightarrow> go_time \<Rightarrow> status" where
  "StatusAt n now =
     (if time_sub now (n_LastSeenAt n) \<le> ReadyWindow then StatusReady else StatusUnreachable)"

section \<open>Repository\<close>

datatype node_error = node_errNotFound | node_errOther

definition node_translate :: "node_error \<Rightarrow> fault" where
  "node_translate e =
     (case e of node_errNotFound \<Rightarrow> NotFound ''node_not_found'' | node_errOther \<Rightarrow> Internal)"

definition repo_node_findByName :: "node_db \<Rightarrow> string \<Rightarrow> node_error + node" where
  "repo_node_findByName db name =
     (case find (\<lambda>n. n_Name n = name) (nodes db) of
        None \<Rightarrow> Inl node_errNotFound | Some n \<Rightarrow> Inr n)"

text \<open>The id is the primary key and the name has a unique index.\<close>

definition repo_node_insert :: "node_db \<Rightarrow> node \<Rightarrow> (node_error + unit) \<times> node_db" where
  "repo_node_insert db n =
     (if n_ID n \<in> n_ID ` set (nodes db) \<or> n_Name n \<in> n_Name ` set (nodes db)
      then (Inl node_errOther, db)
      else (Inr (), db\<lparr>nodes := nodes db @ [n]\<rparr>))"

definition repo_node_setSchedulable ::
    "node_db \<Rightarrow> string \<Rightarrow> bool \<Rightarrow> bool \<Rightarrow> (node_error + unit) \<times> node_db" where
  "repo_node_setSchedulable db nid schedulable draining =
     (if nid \<in> n_ID ` set (nodes db)
      then (Inr (), db\<lparr>nodes := update_where (\<lambda>n. n_ID n = nid)
             (\<lambda>n. n\<lparr>n_Schedulable := schedulable, n_Draining := draining\<rparr>) (nodes db)\<rparr>)
      else (Inl node_errNotFound, db))"

definition repo_node_setDraining ::
    "node_db \<Rightarrow> string \<Rightarrow> bool \<Rightarrow> (node_error + unit) \<times> node_db" where
  "repo_node_setDraining db nid draining =
     (Inr (), db\<lparr>nodes := update_where (\<lambda>n. n_ID n = nid) (\<lambda>n. n\<lparr>n_Draining := draining\<rparr>)
        (nodes db)\<rparr>)"

definition repo_node_updateOnRegister ::
    "node_db \<Rightarrow> node \<Rightarrow> (node_error + unit) \<times> node_db" where
  "repo_node_updateOnRegister db n =
     (if n_ID n \<in> n_ID ` set (nodes db)
      then (Inr (), db\<lparr>nodes := update_where (\<lambda>m. n_ID m = n_ID n)
             (\<lambda>m. m\<lparr>n_Zone := n_Zone n, n_Address := n_Address n, n_Arch := n_Arch n,
                    n_OS := n_OS n, n_CPUs := n_CPUs n, n_MemoryMiB := n_MemoryMiB n,
                    n_AgentVersion := n_AgentVersion n, n_LastSeenAt := n_LastSeenAt n\<rparr>)
             (nodes db)\<rparr>)
      else (Inl node_errNotFound, db))"

definition repo_node_touch ::
    "node_db \<Rightarrow> string \<Rightarrow> go_time \<Rightarrow> (node_error + unit) \<times> node_db" where
  "repo_node_touch db nid now =
     (if nid \<in> n_ID ` set (nodes db)
      then (Inr (), db\<lparr>nodes := update_where (\<lambda>n. n_ID n = nid)
             (\<lambda>n. n\<lparr>n_LastSeenAt := now\<rparr>) (nodes db)\<rparr>)
      else (Inl node_errNotFound, db))"

definition repo_node_get :: "node_db \<Rightarrow> string \<Rightarrow> node_error + node" where
  "repo_node_get db nid =
     (case find (\<lambda>n. n_ID n = nid) (nodes db) of
        None \<Rightarrow> Inl node_errNotFound | Some n \<Rightarrow> Inr n)"

definition repo_node_list :: "node_db \<Rightarrow> node list" where
  "repo_node_list db = sort_key n_Name (nodes db)"

definition repo_node_labelsFor :: "node_db \<Rightarrow> string \<Rightarrow> (string \<times> string) list" where
  "repo_node_labelsFor db nodeID =
     sort_key fst (map snd (filter (\<lambda>(n, _). n = nodeID) (node_labels db)))"

definition repo_node_replaceLabels ::
    "node_db \<Rightarrow> string \<Rightarrow> (string \<times> string) list \<Rightarrow> node_db" where
  "repo_node_replaceLabels db nodeID labels =
     db\<lparr>node_labels := filter (\<lambda>(n, _). n \<noteq> nodeID) (node_labels db) @
                       map (\<lambda>(k, v). (nodeID, k, v)) labels\<rparr>"

definition repo_node_replaceDevices ::
    "node_db \<Rightarrow> string \<Rightarrow> device list \<Rightarrow> unit result \<times> node_db" where
  "repo_node_replaceDevices db nodeID held =
     (let mine = filter (\<lambda>d. dev_NodeID d = nodeID) (node_devices db);
          taken = map_of (map (\<lambda>d. (dev_Address d, dev_InstanceID d)) mine);
          reported = set (map dev_Address held);
          kept = filter (\<lambda>d. \<not> (dev_NodeID d = nodeID \<and> dev_InstanceID d = [])) (node_devices db);
          marked = update_where (\<lambda>d. dev_NodeID d = nodeID \<and> dev_Address d \<notin> reported)
                     (\<lambda>d. d\<lparr>dev_Ready := False, dev_Driver := ''missing''\<rparr>) kept;
          cleared = filter (\<lambda>d. \<not> (dev_NodeID d = nodeID \<and> dev_Address d \<in> reported)) marked
      in if distinct (map dev_Address held)
         then (Inr (), db\<lparr>node_devices := cleared @
                 map (\<lambda>d. d\<lparr>dev_NodeID := nodeID,
                             dev_InstanceID := get_or [] taken (dev_Address d)\<rparr>) held\<rparr>)
         else (Inl Internal, db))"

definition repo_node_devicesOn :: "node_db \<Rightarrow> string \<Rightarrow> device list" where
  "repo_node_devicesOn db nodeID =
     sort_key dev_Address (filter (\<lambda>d. dev_NodeID d = nodeID) (node_devices db))"

definition repo_node_devicesOfInstance :: "node_db \<Rightarrow> string \<Rightarrow> device list" where
  "repo_node_devicesOfInstance db instanceID =
     sort_key dev_Address (filter (\<lambda>d. dev_InstanceID d = instanceID) (node_devices db))"

definition repo_node_claimDevice ::
    "node_db \<Rightarrow> string \<Rightarrow> string \<Rightarrow> string \<Rightarrow> bool \<times> node_db" where
  "repo_node_claimDevice db nodeID address instanceID =
     (let free = (\<lambda>d. dev_NodeID d = nodeID \<and> dev_Address d = address \<and> dev_InstanceID d = [])
      in (length (filter free (node_devices db)) = 1,
          db\<lparr>node_devices := update_where free (\<lambda>d. d\<lparr>dev_InstanceID := instanceID\<rparr>)
               (node_devices db)\<rparr>))"

definition repo_node_releaseDevice :: "node_db \<Rightarrow> string \<Rightarrow> node_db" where
  "repo_node_releaseDevice db instanceID =
     db\<lparr>node_devices := update_where (\<lambda>d. dev_InstanceID d = instanceID)
          (\<lambda>d. d\<lparr>dev_InstanceID := []\<rparr>) (node_devices db)\<rparr>"

section \<open>Service\<close>

definition node_get :: "node_db \<Rightarrow> string \<Rightarrow> node result" where
  "node_get db nid =
     (case repo_node_get db nid of
        Inl e \<Rightarrow> Inl (node_translate e)
      | Inr n \<Rightarrow> Inr (n\<lparr>n_Labels := repo_node_labelsFor db (n_ID n)\<rparr>))"

definition node_list :: "node_db \<Rightarrow> node list" where
  "node_list db =
     map (\<lambda>n. n\<lparr>n_Labels := repo_node_labelsFor db (n_ID n)\<rparr>) (repo_node_list db)"

definition node_cordon :: "node_db \<Rightarrow> string \<Rightarrow> bool \<Rightarrow> node result \<times> node_db" where
  "node_cordon db nid schedulable =
     (case node_get db nid of
        Inl e \<Rightarrow> (Inl e, db)
      | Inr found \<Rightarrow>
          (case repo_node_setSchedulable db (n_ID found) schedulable False of
             (Inl e, db') \<Rightarrow> (Inl (node_translate e), db')
           | (Inr _, db') \<Rightarrow> (node_get db' (n_ID found), db')))"

definition node_drain :: "node_db \<Rightarrow> string \<Rightarrow> node result \<times> node_db" where
  "node_drain db nid =
     (case node_get db nid of
        Inl e \<Rightarrow> (Inl e, db)
      | Inr found \<Rightarrow>
          (case repo_node_setSchedulable db (n_ID found) False True of
             (Inl e, db') \<Rightarrow> (Inl (node_translate e), db')
           | (Inr _, db') \<Rightarrow> (node_get db' (n_ID found), db')))"

definition validateRegister :: "(string \<Rightarrow> bool) \<Rightarrow> register_params \<Rightarrow> unit result" where
  "validateRegister addr_ok p =
     bindR (validate_Name ''name'' (rp_Name p)) (\<lambda>_.
     bindR (if rp_Zone p \<noteq> [] then validate_Name ''zone'' (rp_Zone p) else Inr ()) (\<lambda>_.
     if rp_Address p \<noteq> [] \<and> \<not> addr_ok (rp_Address p) then Inl (Invalid ''invalid_address'')
     else if rp_Arch p = [] then Inl (Invalid ''invalid_arch'')
     else if rp_OS p = [] then Inl (Invalid ''invalid_os'')
     else if rp_CPUs p < 1 then Inl (Invalid ''invalid_cpus'')
     else if rp_MemoryMiB p < 128 then Inl (Invalid ''invalid_memory'')
     else Inr ()))"

definition node_register ::
    "(string \<Rightarrow> bool) \<Rightarrow> string \<Rightarrow> go_time \<Rightarrow> node_db \<Rightarrow> register_params \<Rightarrow> node result \<times> node_db" where
  "node_register addr_ok new_id now db p =
     (case validateRegister addr_ok p of
        Inl e \<Rightarrow> (Inl e, db)
      | Inr _ \<Rightarrow>
          (case repo_node_findByName db (rp_Name p) of
             Inr existing \<Rightarrow>
               (let n = existing\<lparr>n_Zone := rp_Zone p, n_Address := rp_Address p,
                          n_Arch := rp_Arch p, n_OS := rp_OS p, n_CPUs := rp_CPUs p,
                          n_MemoryMiB := rp_MemoryMiB p, n_AgentVersion := rp_AgentVersion p,
                          n_LastSeenAt := now\<rparr>
                in case repo_node_updateOnRegister db n of
                     (Inl e, db') \<Rightarrow> (Inl (node_translate e), db')
                   | (Inr _, db') \<Rightarrow> (Inr n, db'))
           | Inl node_errNotFound \<Rightarrow>
               (let n = \<lparr>n_ID = new_id, n_Schedulable = True, n_Draining = False,
                         n_Name = rp_Name p, n_Zone = rp_Zone p, n_Address = rp_Address p,
                         n_Arch = rp_Arch p, n_OS = rp_OS p, n_CPUs = rp_CPUs p,
                         n_MemoryMiB = rp_MemoryMiB p, n_AgentVersion = rp_AgentVersion p,
                         n_Labels = [], n_RegisteredAt = now, n_LastSeenAt = now\<rparr>
                in case repo_node_insert db n of
                     (Inl e, db') \<Rightarrow> (Inl (node_translate e), db')
                   | (Inr _, db') \<Rightarrow> (Inr n, db'))
           | Inl e \<Rightarrow> (Inl (node_translate e), db)))"

definition node_heartbeat :: "go_time \<Rightarrow> node_db \<Rightarrow> string \<Rightarrow> node result \<times> node_db" where
  "node_heartbeat now db nid =
     (case repo_node_touch db nid now of
        (Inl e, db') \<Rightarrow> (Inl (node_translate e), db')
      | (Inr _, db') \<Rightarrow> (node_get db' nid, db'))"

fun validate_label_pairs :: "(string \<times> string) list \<Rightarrow> unit result" where
  "validate_label_pairs [] = Inr ()"
| "validate_label_pairs ((key, val) # rest) =
     bindR (validate_Name ''label_key'' key) (\<lambda>_.
     bindR (validate_Name ''label_value'' val) (\<lambda>_. validate_label_pairs rest))"

definition validateLabels :: "(string \<times> string) list \<Rightarrow> unit result" where
  "validateLabels labels =
     (if MaxLabels < length labels then Inl (Invalid ''too_many_labels'')
      else validate_label_pairs labels)"

definition node_setLabels ::
    "node_db \<Rightarrow> string \<Rightarrow> (string \<times> string) list \<Rightarrow> node result \<times> node_db" where
  "node_setLabels db nid labels =
     (case validateLabels labels of
        Inl e \<Rightarrow> (Inl e, db)
      | Inr _ \<Rightarrow>
          (case node_get db nid of
             Inl e \<Rightarrow> (Inl e, db)
           | Inr found \<Rightarrow>
               (let db' = repo_node_replaceLabels db (n_ID found) labels
                in (node_get db' (n_ID found), db'))))"

definition node_setDevices :: "node_db \<Rightarrow> string \<Rightarrow> device list \<Rightarrow> unit result \<times> node_db" where
  "node_setDevices db nodeID held =
     (if MaxDevicesPerNode < length held then (Inl (Invalid ''too_many_devices''), db)
      else (let owned = map (\<lambda>d. d\<lparr>dev_NodeID := nodeID,
                                   dev_Address := trim_space (dev_Address d)\<rparr>) held
            in if list_ex (\<lambda>d. dev_Address d = []) owned then (Inl (Invalid ''invalid_device''), db)
               else repo_node_replaceDevices db nodeID owned))"

definition FreeDevice :: "node_db \<Rightarrow> string \<Rightarrow> string \<Rightarrow> string \<times> bool" where
  "FreeDevice db nodeID kind =
     (case find (\<lambda>d. dev_Kind d = kind \<and> dev_Ready d \<and> dev_InstanceID d = [])
             (repo_node_devicesOn db nodeID) of
        Some d \<Rightarrow> (dev_Address d, True) | None \<Rightarrow> ([], False))"

fun claim_loop ::
    "string \<Rightarrow> string \<Rightarrow> string \<Rightarrow> device list \<Rightarrow> node_db \<Rightarrow> string result \<times> node_db" where
  "claim_loop nodeID kind instanceID [] db = (Inl (Conflict ''no_free_device''), db)"
| "claim_loop nodeID kind instanceID (d # rest) db =
     (if dev_Kind d \<noteq> kind \<or> \<not> dev_Ready d \<or> dev_InstanceID d \<noteq> []
      then claim_loop nodeID kind instanceID rest db
      else (case repo_node_claimDevice db nodeID (dev_Address d) instanceID of
              (True, db') \<Rightarrow> (Inr (dev_Address d), db')
            | (False, db') \<Rightarrow> claim_loop nodeID kind instanceID rest db'))"

definition ClaimDevice ::
    "node_db \<Rightarrow> string \<Rightarrow> string \<Rightarrow> string \<Rightarrow> string result \<times> node_db" where
  "ClaimDevice db nodeID kind instanceID =
     (let held = repo_node_devicesOn db nodeID
      in case find (\<lambda>d. dev_InstanceID d = instanceID) held of
           Some d \<Rightarrow> (Inr (dev_Address d), db)
         | None \<Rightarrow> claim_loop nodeID kind instanceID held db)"

section \<open>Module\<close>

definition NodesUnreachableFor :: "go_time \<Rightarrow> duration \<Rightarrow> node_db \<Rightarrow> node list" where
  "NodesUnreachableFor now grace db =
     filter (\<lambda>n. StatusAt n now \<noteq> StatusReady \<and> grace \<le> time_sub now (n_LastSeenAt n))
       (node_list db)"

definition ReadyNodes :: "go_time \<Rightarrow> node_db \<Rightarrow> node list" where
  "ReadyNodes now db =
     filter (\<lambda>n. StatusAt n now = StatusReady \<and> n_Schedulable n) (node_list db)"

definition DrainingNodes :: "node_db \<Rightarrow> node list" where
  "DrainingNodes db = filter n_Draining (node_list db)"

definition FinishDraining :: "node_db \<Rightarrow> string \<Rightarrow> unit result \<times> node_db" where
  "FinishDraining db nodeID =
     (case repo_node_setDraining db nodeID False of
        (Inl e, db') \<Rightarrow> (Inl (node_translate e), db')
      | (Inr _, db') \<Rightarrow> (Inr (), db'))"

definition ReleaseInstance :: "node_db \<Rightarrow> string \<Rightarrow> unit result \<times> node_db" where
  "ReleaseInstance db instanceID = (Inr (), repo_node_releaseDevice db instanceID)"

definition node_AddressOf :: "node_db \<Rightarrow> string \<Rightarrow> string" where
  "node_AddressOf db instanceID =
     (case repo_node_devicesOfInstance db instanceID of [] \<Rightarrow> [] | d # _ \<Rightarrow> dev_Address d)"

section \<open>Well-formed tables\<close>

text \<open>
  The keys the schema declares: the id and the name of a node, and the node and
  address of a device. Any table the statements above build satisfies them.
\<close>

definition node_db_wf :: "node_db \<Rightarrow> bool" where
  "node_db_wf db \<longleftrightarrow>
     distinct (map n_ID (nodes db)) \<and> distinct (map n_Name (nodes db)) \<and>
     distinct (map (\<lambda>d. (dev_NodeID d, dev_Address d)) (node_devices db))"

definition claims_of :: "device list \<Rightarrow> (string \<times> string \<times> string) set" where
  "claims_of ds =
     set (map (\<lambda>d. (dev_NodeID d, dev_Address d, dev_InstanceID d))
            (filter (\<lambda>d. dev_InstanceID d \<noteq> []) ds))"

definition device_claims :: "node_db \<Rightarrow> (string \<times> string \<times> string) set" where
  "device_claims db = claims_of (node_devices db)"

section \<open>Effect of the statements on the tables\<close>

lemma map_n_ID_update [table_simps]:
  "(\<And>n. n_ID (f n) = n_ID n) \<Longrightarrow> map n_ID (update_where P f ns) = map n_ID ns"
  by (rule map_update_where)

lemma map_n_Name_update [table_simps]:
  "(\<And>n. n_Name (f n) = n_Name n) \<Longrightarrow> map n_Name (update_where P f ns) = map n_Name ns"
  by (rule map_update_where)

lemma map_dev_key_update [table_simps]:
  "(\<And>d. dev_NodeID (f d) = dev_NodeID d) \<Longrightarrow> (\<And>d. dev_Address (f d) = dev_Address d) \<Longrightarrow>
   map (\<lambda>d. (dev_NodeID d, dev_Address d)) (update_where P f ds) =
   map (\<lambda>d. (dev_NodeID d, dev_Address d)) ds"
  by (rule map_update_where) simp

lemma node_list_ids: "mset (map n_ID (node_list db)) = mset (map n_ID (nodes db))"
proof -
  have "map n_ID (node_list db) = map n_ID (sort_key n_Name (nodes db))"
    by (simp add: node_list_def repo_node_list_def)
  then show ?thesis by (simp only: mset_map mset_sort)
qed

lemma distinct_node_list: "node_db_wf db \<Longrightarrow> distinct (map n_ID (node_list db))"
  using node_list_ids [of db] by (metis mset_eq_imp_distinct_iff node_db_wf_def)

lemma distinct_ready:
  "node_db_wf db \<Longrightarrow> distinct (map n_ID (ReadyNodes now db))"
  unfolding ReadyNodes_def by (rule distinct_map_filter, rule distinct_node_list)

section \<open>Every operation keeps the tables well formed\<close>

lemma wf_repo_node_insert: "node_db_wf db \<Longrightarrow> node_db_wf (snd (repo_node_insert db n))"
  by (auto simp: node_db_wf_def repo_node_insert_def)

lemma wf_repo_node_setSchedulable:
  "node_db_wf db \<Longrightarrow> node_db_wf (snd (repo_node_setSchedulable db nid s d))"
  by (auto simp: node_db_wf_def repo_node_setSchedulable_def table_simps)

lemma wf_repo_node_setDraining:
  "node_db_wf db \<Longrightarrow> node_db_wf (snd (repo_node_setDraining db nid d))"
  by (auto simp: node_db_wf_def repo_node_setDraining_def table_simps)

lemma wf_repo_node_updateOnRegister:
  "node_db_wf db \<Longrightarrow> node_db_wf (snd (repo_node_updateOnRegister db n))"
  by (auto simp: node_db_wf_def repo_node_updateOnRegister_def table_simps)

lemma wf_repo_node_touch: "node_db_wf db \<Longrightarrow> node_db_wf (snd (repo_node_touch db nid now))"
  by (auto simp: node_db_wf_def repo_node_touch_def table_simps)

lemma wf_repo_node_replaceLabels:
  "node_db_wf db \<Longrightarrow> node_db_wf (repo_node_replaceLabels db nid ls)"
  by (simp add: node_db_wf_def repo_node_replaceLabels_def)

lemma wf_repo_node_claimDevice:
  "node_db_wf db \<Longrightarrow> node_db_wf (snd (repo_node_claimDevice db nid a i))"
  by (auto simp: node_db_wf_def repo_node_claimDevice_def Let_def table_simps)

lemma wf_repo_node_releaseDevice: "node_db_wf db \<Longrightarrow> node_db_wf (repo_node_releaseDevice db i)"
  by (auto simp: node_db_wf_def repo_node_releaseDevice_def table_simps)

lemma wf_repo_node_replaceDevices:
  assumes "node_db_wf db"
  shows "node_db_wf (snd (repo_node_replaceDevices db nid held))"
proof (cases "distinct (map dev_Address held)")
  case True
  then have "distinct (map (\<lambda>d. (nid, dev_Address d)) held)"
    by (auto simp: distinct_map inj_on_def)
  with True assms show ?thesis
    by (auto simp: node_db_wf_def repo_node_replaceDevices_def Let_def comp_def table_simps
        intro!: distinct_map_filter)
qed (use assms in \<open>simp add: repo_node_replaceDevices_def\<close>)

lemmas repo_node_wf [intro] =
  wf_repo_node_insert wf_repo_node_setSchedulable wf_repo_node_setDraining
  wf_repo_node_updateOnRegister wf_repo_node_touch wf_repo_node_replaceLabels
  wf_repo_node_claimDevice wf_repo_node_releaseDevice wf_repo_node_replaceDevices

lemma wf_claim_loop: "node_db_wf db \<Longrightarrow> node_db_wf (snd (claim_loop nid kind i ds db))"
proof (induction nid kind i ds db rule: claim_loop.induct)
  case (2 nid kind i d rest db)
  then show ?case
    using wf_repo_node_claimDevice [of db nid "dev_Address d" i]
    by (auto split: prod.splits bool.splits)
qed simp

text \<open>One call of the module by a handler, by the scheduler or by the instance service.\<close>

inductive node_step :: "node_db \<Rightarrow> node_db \<Rightarrow> bool" where
  register: "node_step db (snd (node_register addr_ok new_id now db p))"
| heartbeat: "node_step db (snd (node_heartbeat now db nid))"
| cordon: "node_step db (snd (node_cordon db nid schedulable))"
| drain: "node_step db (snd (node_drain db nid))"
| finish: "node_step db (snd (FinishDraining db nid))"
| labels: "node_step db (snd (node_setLabels db nid labels))"
| devices: "node_step db (snd (node_setDevices db nid held))"
| claim: "node_step db (snd (ClaimDevice db nid kind instanceID))"
| release: "node_step db (snd (ReleaseInstance db instanceID))"

inductive_cases node_stepE: "node_step db db'"

lemma node_step_wf: "node_step db db' \<Longrightarrow> node_db_wf db \<Longrightarrow> node_db_wf db'"
proof (induction rule: node_step.induct)
  case (register db addr_ok new_id now p)
  then show ?case
    using wf_repo_node_updateOnRegister wf_repo_node_insert
    by (auto simp: node_register_def Let_def split: sum.splits prod.splits node_error.splits
        dest: sym intro: snd_conv)
      (metis snd_conv)+
next
  case (claim db nid kind instanceID)
  then show ?case by (auto simp: ClaimDevice_def Let_def wf_claim_loop split: option.splits)
qed (auto simp: node_heartbeat_def node_cordon_def node_drain_def FinishDraining_def node_setLabels_def
    node_setDevices_def ReleaseInstance_def Let_def wf_repo_node_replaceLabels wf_repo_node_replaceDevices
    wf_repo_node_releaseDevice
    split: sum.splits prod.splits,
    (metis snd_conv wf_repo_node_touch wf_repo_node_setSchedulable wf_repo_node_setDraining)+)

section \<open>Device claims\<close>

lemma in_claims_of:
  "(n, a, i) \<in> claims_of ds \<longleftrightarrow>
     i \<noteq> [] \<and> (\<exists>d\<in>set ds. dev_NodeID d = n \<and> dev_Address d = a \<and> dev_InstanceID d = i)"
  by (auto simp: claims_of_def image_iff)

lemma claims_of_append: "claims_of (ds @ es) = claims_of ds \<union> claims_of es"
  by (auto simp: claims_of_def)

lemma claims_of_update:
  "(\<And>d. dev_NodeID (f d) = dev_NodeID d) \<Longrightarrow> (\<And>d. dev_Address (f d) = dev_Address d) \<Longrightarrow>
   (\<And>d. dev_InstanceID (f d) = dev_InstanceID d) \<Longrightarrow> claims_of (update_where P f ds) = claims_of ds"
  unfolding claims_of_def update_where_def by (induction ds) auto

lemma claims_of_filter:
  "(\<And>d. P d \<longleftrightarrow> Q (dev_NodeID d) (dev_Address d) (dev_InstanceID d)) \<Longrightarrow>
   claims_of (filter P ds) = {(n, a, i) \<in> claims_of ds. Q n a i}"
  by (auto simp: claims_of_def)

lemma claims_unique:
  "distinct (map (\<lambda>d. (dev_NodeID d, dev_Address d)) ds) \<Longrightarrow>
   (n, a, i) \<in> claims_of ds \<Longrightarrow> (n, a, j) \<in> claims_of ds \<Longrightarrow> i = j"
  by (auto simp: in_claims_of) (metis (no_types, lifting) distinct_map inj_onD)

lemma taken_claims:
  assumes "distinct (map (\<lambda>d. (dev_NodeID d, dev_Address d)) ds)"
  shows "get_or [] (map_of (map (\<lambda>d. (dev_Address d, dev_InstanceID d))
           (filter (\<lambda>d. dev_NodeID d = nid) ds))) a = i \<and> i \<noteq> [] \<longleftrightarrow> (nid, a, i) \<in> claims_of ds"
  using assms
  by (induction ds) (auto simp: get_or_def in_claims_of image_iff split: option.splits
      dest: map_of_SomeD)

text \<open>A report of devices by a node neither drops nor invents a claim.\<close>

lemma replaceDevices_claims:
  assumes wf: "node_db_wf db"
  shows "device_claims (snd (repo_node_replaceDevices db nid held)) = device_claims db"
proof (cases "distinct (map dev_Address held)")
  case True
  let ?ds = "node_devices db" and ?rep = "dev_Address ` set held"
  let ?taken = "map_of (map (\<lambda>d. (dev_Address d, dev_InstanceID d))
    (filter (\<lambda>d. dev_NodeID d = nid) ?ds))"
  let ?new = "map (\<lambda>d. d\<lparr>dev_NodeID := nid, dev_InstanceID := get_or [] ?taken (dev_Address d)\<rparr>) held"
  let ?kept = "filter (\<lambda>d. \<not> (dev_NodeID d = nid \<and> dev_InstanceID d = [])) ?ds"
  let ?marked = "update_where (\<lambda>d. dev_NodeID d = nid \<and> dev_Address d \<notin> ?rep)
    (\<lambda>d. d\<lparr>dev_Ready := False, dev_Driver := ''missing''\<rparr>) ?kept"
  let ?clear = "filter (\<lambda>d. \<not> (dev_NodeID d = nid \<and> dev_Address d \<in> ?rep)) ?marked"
  have key: "distinct (map (\<lambda>d. (dev_NodeID d, dev_Address d)) ?ds)"
    using wf by (simp add: node_db_wf_def)
  have "claims_of ?kept = claims_of ?ds"
    by (auto simp: claims_of_def)
  then have "claims_of ?marked = claims_of ?ds"
    by (simp add: claims_of_update)
  then have clear: "claims_of ?clear = {(n, a, i) \<in> claims_of ?ds. \<not> (n = nid \<and> a \<in> ?rep)}"
    by (subst claims_of_filter [where Q = "\<lambda>n a i. \<not> (n = nid \<and> a \<in> ?rep)"]) auto
  have "(n, a, i) \<in> claims_of ?new \<longleftrightarrow>
      n = nid \<and> a \<in> ?rep \<and> get_or [] ?taken a = i \<and> i \<noteq> []" for n a i
    by (auto simp: in_claims_of)
  then have "(n, a, i) \<in> claims_of ?new \<longleftrightarrow> n = nid \<and> a \<in> ?rep \<and> (n, a, i) \<in> claims_of ?ds"
    for n a i
    by (auto simp only: taken_claims [OF key])
  then have "claims_of ?new = {(n, a, i) \<in> claims_of ?ds. n = nid \<and> a \<in> ?rep}"
    by blast
  with clear have "claims_of (?clear @ ?new) = claims_of ?ds"
    by (simp only: claims_of_append) blast
  with True show ?thesis
    by (simp add: device_claims_def repo_node_replaceDevices_def Let_def)
qed (simp add: repo_node_replaceDevices_def)

lemma setDevices_claims:
  "node_db_wf db \<Longrightarrow> device_claims (snd (node_setDevices db nid held)) = device_claims db"
  by (simp add: node_setDevices_def Let_def replaceDevices_claims)

text \<open>The compare-and-set that takes a device.\<close>

lemma at_most_one_free:
  "distinct (map (\<lambda>d. (dev_NodeID d, dev_Address d)) ds) \<Longrightarrow>
   length (filter (\<lambda>d. dev_NodeID d = nid \<and> dev_Address d = a \<and> dev_InstanceID d = []) ds) \<le> 1"
  by (induction ds) (auto simp: image_iff intro!: filter_empty_if)

lemma claimDevice_cases:
  assumes wf: "node_db_wf db" and i: "i \<noteq> []"
    and call: "repo_node_claimDevice db nid a i = (ok, db')"
  shows "if ok then device_claims db' = insert (nid, a, i) (device_claims db) \<and>
                (\<forall>j. (nid, a, j) \<notin> device_claims db)
     else db' = db"
proof -
  let ?free = "\<lambda>d. dev_NodeID d = nid \<and> dev_Address d = a \<and> dev_InstanceID d = []"
  have key: "distinct (map (\<lambda>d. (dev_NodeID d, dev_Address d)) (node_devices db))"
    using wf by (simp add: node_db_wf_def)
  show ?thesis
  proof (cases ok)
    case True
    with call have "length (filter ?free (node_devices db)) = 1"
      by (simp add: repo_node_claimDevice_def Let_def)
    then have "filter ?free (node_devices db) \<noteq> []" by auto
    then obtain d where d: "d \<in> set (node_devices db)" "?free d"
      by (auto simp: filter_empty_conv)
    have uniq: "e = d" if "e \<in> set (node_devices db)" "dev_NodeID e = nid" "dev_Address e = a" for e
      using key d that by (metis (mono_tags, lifting) distinct_map inj_onD)
    have "(nid, a, j) \<notin> claims_of (node_devices db)" for j
      using uniq d by (auto simp: in_claims_of)
    moreover have "claims_of (update_where ?free (\<lambda>d. d\<lparr>dev_InstanceID := i\<rparr>) (node_devices db)) =
        insert (nid, a, i) (claims_of (node_devices db))"
    proof -
      have "(n, b, j) \<in> claims_of (update_where ?free (\<lambda>d. d\<lparr>dev_InstanceID := i\<rparr>) (node_devices db)) \<longleftrightarrow>
          (n, b, j) \<in> insert (nid, a, i) (claims_of (node_devices db))" for n b j
        unfolding in_claims_of insert_iff Bex_update_where using d i by (auto split: if_splits)
      then show ?thesis by auto
    qed
    ultimately show ?thesis
      using call True by (auto simp: device_claims_def repo_node_claimDevice_def Let_def)
  next
    case False
    with call have "length (filter ?free (node_devices db)) \<noteq> 1"
      by (simp add: repo_node_claimDevice_def Let_def)
    with at_most_one_free [OF key, of nid a] have "filter ?free (node_devices db) = []"
      by (cases "filter ?free (node_devices db)") auto
    then have "update_where ?free (\<lambda>d. d\<lparr>dev_InstanceID := i\<rparr>) (node_devices db) = node_devices db"
      by (intro update_where_none) (simp add: filter_empty_conv)
    with call False show ?thesis by (auto simp: repo_node_claimDevice_def Let_def)
  qed
qed

lemma claimDevice_free:
  assumes wf: "node_db_wf db" and i: "i \<noteq> []" and d: "d \<in> set (node_devices db)"
    and free: "dev_NodeID d = nid" "dev_InstanceID d = []"
  shows "fst (repo_node_claimDevice db nid (dev_Address d) i)"
proof -
  let ?free = "\<lambda>e. dev_NodeID e = nid \<and> dev_Address e = dev_Address d \<and> dev_InstanceID e = []"
  have "filter ?free (node_devices db) \<noteq> []" using d free by (auto simp: filter_empty_conv)
  moreover have "length (filter ?free (node_devices db)) \<le> 1"
    using wf by (intro at_most_one_free) (simp add: node_db_wf_def)
  ultimately show ?thesis
    by (cases "filter ?free (node_devices db)") (auto simp: repo_node_claimDevice_def Let_def)
qed

definition free_of_kind :: "node_db \<Rightarrow> string \<Rightarrow> string \<Rightarrow> device \<Rightarrow> bool" where
  "free_of_kind db nid kind d \<longleftrightarrow>
     d \<in> set (node_devices db) \<and> dev_NodeID d = nid \<and> dev_Kind d = kind \<and> dev_Ready d \<and>
     dev_InstanceID d = []"

lemma claim_loop_spec:
  assumes wf: "node_db_wf db" and i: "i \<noteq> []"
  shows "\<forall>d\<in>set ds. d \<in> set (node_devices db) \<and> dev_NodeID d = nid \<Longrightarrow>
    (case claim_loop nid kind i ds db of
       (Inr a, db') \<Rightarrow> device_claims db' = insert (nid, a, i) (device_claims db) \<and>
         (\<forall>j. (nid, a, j) \<notin> device_claims db) \<and>
         (\<exists>d. free_of_kind db nid kind d \<and> dev_Address d = a)
     | (Inl e, db') \<Rightarrow> e = Conflict ''no_free_device'' \<and> db' = db \<and>
         (\<forall>d\<in>set ds. \<not> free_of_kind db nid kind d))"
proof (induction ds)
  case (Cons d ds)
  show ?case
  proof (cases "dev_Kind d = kind \<and> dev_Ready d \<and> dev_InstanceID d = []")
    case True
    obtain ok db' where call: "repo_node_claimDevice db nid (dev_Address d) i = (ok, db')"
      by fastforce
    with claimDevice_free [OF wf i, of d nid] Cons.prems True have ok by auto
    with claimDevice_cases [OF wf i call] call True Cons.prems show ?thesis
      by (auto simp: free_of_kind_def)
  next
    case False
    then have "claim_loop nid kind i (d # ds) db = claim_loop nid kind i ds db" by auto
    moreover from False have "\<not> free_of_kind db nid kind d" by (auto simp: free_of_kind_def)
    ultimately show ?thesis using Cons by (auto split: prod.splits sum.splits)
  qed
qed simp

lemma set_devicesOn [simp]:
  "set (repo_node_devicesOn db nid) = {d \<in> set (node_devices db). dev_NodeID d = nid}"
  by (auto simp: repo_node_devicesOn_def)

text \<open>
  C25: taking a device of a kind on a node for an instance. An instance that has a
  device on the node gets that one again and nothing changes. Otherwise the address is
  that of a device of the kind which was ready and free, and exactly the claim on it is
  added. In both cases the instance is the only one with a claim on the address. A
  refusal says no_free_device, changes nothing, and means that the instance has no
  device on the node and that no device of the kind there is ready and free.
\<close>

theorem ClaimDevice_exclusive:
  assumes wf: "node_db_wf db" and i: "instanceID \<noteq> []"
    and call: "ClaimDevice db nid kind instanceID = (r, db')"
  defines "has \<equiv> \<exists>d\<in>set (node_devices db). dev_NodeID d = nid \<and> dev_InstanceID d = instanceID"
  shows "case r of
      Inr a \<Rightarrow>
        (if has then (nid, a, instanceID) \<in> device_claims db \<and> db' = db
         else (\<exists>d. free_of_kind db nid kind d \<and> dev_Address d = a) \<and>
              device_claims db' = insert (nid, a, instanceID) (device_claims db)) \<and>
        (\<forall>j. (nid, a, j) \<in> device_claims db' \<longrightarrow> j = instanceID)
    | Inl e \<Rightarrow> e = Conflict ''no_free_device'' \<and> db' = db \<and> \<not> has \<and>
        (\<forall>d. \<not> free_of_kind db nid kind d)"
proof (cases "find (\<lambda>d. dev_InstanceID d = instanceID) (repo_node_devicesOn db nid)")
  case None
  then have no: "\<not> has" by (auto simp: has_def find_None_iff)
  from None call have "claim_loop nid kind instanceID (repo_node_devicesOn db nid) db = (r, db')"
    by (simp add: ClaimDevice_def Let_def)
  with claim_loop_spec [OF wf i, of "repo_node_devicesOn db nid" nid kind]
  have "case r of
      Inr a \<Rightarrow> device_claims db' = insert (nid, a, instanceID) (device_claims db) \<and>
        (\<forall>j. (nid, a, j) \<notin> device_claims db) \<and> (\<exists>d. free_of_kind db nid kind d \<and> dev_Address d = a)
    | Inl e \<Rightarrow> e = Conflict ''no_free_device'' \<and> db' = db \<and>
        (\<forall>d\<in>set (repo_node_devicesOn db nid). \<not> free_of_kind db nid kind d)"
    by (cases r) simp_all
  then show ?thesis using no by (cases r) (auto simp: free_of_kind_def)
next
  case (Some d)
  then have d: "d \<in> set (node_devices db)" "dev_NodeID d = nid" "dev_InstanceID d = instanceID"
    using find_SomeD [OF Some] by auto
  then have yes: "has" by (auto simp: has_def)
  from Some call have res: "r = Inr (dev_Address d)" "db' = db"
    by (simp_all add: ClaimDevice_def Let_def)
  have mine: "(nid, dev_Address d, instanceID) \<in> device_claims db"
    using d i by (auto simp: device_claims_def in_claims_of)
  have "\<forall>j. (nid, dev_Address d, j) \<in> device_claims db \<longrightarrow> j = instanceID"
    using wf mine unfolding device_claims_def node_db_wf_def by (blast intro: claims_unique)
  then show ?thesis using mine yes unfolding res sum.case if_P [OF yes] by blast
qed

abbreviation empty_node_db :: node_db where
  "empty_node_db \<equiv> \<lparr>nodes = [], node_labels = [], node_devices = []\<rparr>"

lemma reachable_node_wf: "node_step\<^sup>*\<^sup>* empty_node_db db \<Longrightarrow> node_db_wf db"
proof (induction rule: rtranclp_induct)
  case base
  show ?case by (simp add: node_db_wf_def)
qed (rule node_step_wf)

theorem ClaimDevice_exclusive_witness:
  "(let d = \<lparr>dev_NodeID = ''n1'', dev_Address = ''0000:01:00.0'', dev_Kind = ''gpu'', dev_Vendor = [],
             dev_Product = [], dev_Driver = ''vfio-pci'', dev_Ready = True, dev_InstanceID = []\<rparr>;
        db = \<lparr>nodes = [], node_labels = [], node_devices = [d]\<rparr>;
        db' = snd (ClaimDevice db ''n1'' ''gpu'' ''i1'')
    in node_db_wf db \<and> fst (ClaimDevice db ''n1'' ''gpu'' ''i1'') = Inr ''0000:01:00.0'' \<and>
       device_claims db' = insert (''n1'', ''0000:01:00.0'', ''i1'') (device_claims db))"
proof -
  define d where "d = \<lparr>dev_NodeID = ''n1'', dev_Address = ''0000:01:00.0'', dev_Kind = ''gpu'',
    dev_Vendor = [], dev_Product = [], dev_Driver = ''vfio-pci'', dev_Ready = True, dev_InstanceID = []\<rparr>"
  define db where "db = \<lparr>nodes = [], node_labels = [], node_devices = [d]\<rparr>"
  have wf: "node_db_wf db" by (simp add: node_db_wf_def db_def)
  have run: "fst (ClaimDevice db ''n1'' ''gpu'' ''i1'') = Inr ''0000:01:00.0''"
    by (simp add: db_def d_def ClaimDevice_def repo_node_devicesOn_def repo_node_claimDevice_def)
  then have "ClaimDevice db ''n1'' ''gpu'' ''i1'' =
      (Inr ''0000:01:00.0'', snd (ClaimDevice db ''n1'' ''gpu'' ''i1''))"
    by (metis prod.collapse)
  note claim = ClaimDevice_exclusive [OF wf _ this, unfolded sum.case]
  have "\<not> (\<exists>d\<in>set (node_devices db). dev_NodeID d = ''n1'' \<and> dev_InstanceID d = ''i1'')"
    by (simp add: db_def d_def)
  from claim [unfolded if_not_P [OF this]]
  have "device_claims (snd (ClaimDevice db ''n1'' ''gpu'' ''i1'')) = insert (''n1'', ''0000:01:00.0'', ''i1'') (device_claims db)"
    by blast
  with wf run show ?thesis unfolding Let_def d_def [symmetric] db_def [symmetric] by blast
qed

text \<open>
  Whatever sequence of calls the module has served, a device report that a
  node sends keeps every claim on every device exactly as it was, so no
  instance loses the device it was given and none gains one.
\<close>

lemma setDevices_keeps_claims:
  assumes "node_step\<^sup>*\<^sup>* empty_node_db db"
  shows "device_claims (snd (node_setDevices db nodeID held)) = device_claims db"
  using assms by (intro setDevices_claims reachable_node_wf)

theorem setDevices_keeps_claims_witness:
  "(let d = \<lparr>dev_NodeID = [], dev_Address = ''01'', dev_Kind = ''gpu'', dev_Vendor = [],
             dev_Product = [], dev_Driver = [], dev_Ready = True, dev_InstanceID = []\<rparr>;
        db = snd (ClaimDevice (snd (node_setDevices empty_node_db ''n1'' [d])) ''n1'' ''gpu'' ''i1'')
    in device_claims (snd (node_setDevices db ''n1'' [])) = {(''n1'', ''01'', ''i1'')})"
proof -
  define d where "d = \<lparr>dev_NodeID = [], dev_Address = ''01'', dev_Kind = ''gpu'', dev_Vendor = [],
    dev_Product = [], dev_Driver = [], dev_Ready = True, dev_InstanceID = []\<rparr>"
  define db0 where "db0 = snd (node_setDevices empty_node_db ''n1'' [d])"
  define db where "db = snd (ClaimDevice db0 ''n1'' ''gpu'' ''i1'')"
  have "node_step\<^sup>*\<^sup>* empty_node_db db0"
    unfolding db0_def by (rule r_into_rtranclp, rule node_step.devices)
  moreover have "node_step db0 db" unfolding db_def by (rule node_step.claim)
  ultimately have "node_step\<^sup>*\<^sup>* empty_node_db db" by simp
  note keep = setDevices_keeps_claims [OF this, of "''n1''" "[]"]
  have "device_claims db = {(''n1'', ''01'', ''i1'')}"
    unfolding db_def db0_def d_def by code_simp
  with keep show ?thesis
    unfolding Let_def d_def [symmetric] db0_def [symmetric] db_def [symmetric] by simp
qed

text \<open>
  Registering a node name that is known keeps the node's identity, its
  schedulable and draining flags and the set of nodes; a name that is not known
  adds exactly one node, schedulable and not draining, with the fresh id.
\<close>

lemma node_register_identity:
  assumes wf: "node_db_wf db" and ok: "node_register addr_ok new_id now db p = (Inr n, db')"
  shows "n_Name n = rp_Name p \<and> n_LastSeenAt n = now \<and>
    (case find (\<lambda>m. n_Name m = rp_Name p) (nodes db) of
       Some m \<Rightarrow> n_ID n = n_ID m \<and> n_Schedulable n = n_Schedulable m \<and> n_Draining n = n_Draining m \<and>
         map n_ID (nodes db') = map n_ID (nodes db)
     | None \<Rightarrow> n_ID n = new_id \<and> n_Schedulable n \<and> \<not> n_Draining n \<and> nodes db' = nodes db @ [n])"
  using ok
  by (auto simp: node_register_def repo_node_findByName_def repo_node_updateOnRegister_def
      repo_node_insert_def Let_def table_simps split: sum.splits option.splits if_splits
      dest!: find_SomeD)

theorem node_register_identity_witness:
  "(let p = \<lparr>rp_Name = ''mars-1'', rp_Zone = ''a'', rp_Address = [], rp_Arch = ''amd64'',
             rp_OS = ''linux'', rp_CPUs = 4, rp_MemoryMiB = 4096, rp_AgentVersion = ''1''\<rparr>;
        db1 = snd (node_register (\<lambda>_. True) ''n_1'' 10 empty_node_db p)
    in node_db_wf empty_node_db \<and> map n_ID (nodes db1) = [''n_1''])"
proof -
  define p where "p = \<lparr>rp_Name = ''mars-1'', rp_Zone = ''a'', rp_Address = [], rp_Arch = ''amd64'',
    rp_OS = ''linux'', rp_CPUs = 4, rp_MemoryMiB = 4096, rp_AgentVersion = ''1''\<rparr>"
  have "\<not> isl (fst (node_register (\<lambda>_. True) ''n_1'' 10 empty_node_db p))"
    unfolding p_def by code_simp
  then obtain n db' where run: "node_register (\<lambda>_. True) ''n_1'' 10 empty_node_db p = (Inr n, db')"
    by (metis isl_def prod.collapse sum.exhaust_sel)
  have wf: "node_db_wf empty_node_db" by (simp add: node_db_wf_def)
  from node_register_identity [OF wf run] run show ?thesis
    unfolding Let_def p_def [symmetric] by (simp add: node_db_wf_def)
qed

end
