(* ===== verification/Instances.thy ===== *)
theory Instances
  imports Kernel
begin

text \<open>
  The instance module, src/internal/platform/instance: the row of the instances
  table (types.go), the statements of repository.go, and the service operations
  of service.go, env.go and migrate.go. The state holds the table, the directory
  of parked disks and the events recorded. The modules an instance depends on
  (networks, quota, keys, volumes and so on) are optional arguments, functions on
  a world of the caller's choice, as they are optional interfaces in the code.
  Generated ids, the clock reading of a call and the sealing of secrets are
  arguments too.
\<close>

section \<open>Types\<close>

datatype desired_state = DesiredRunning | DesiredStopped
datatype observed_state = ObservedPending | ObservedRunning | ObservedStopped | ObservedFailed

definition AllIsolations :: "string list" where
  "AllIsolations = [''container'', ''vm'', ''microvm'', ''sandbox'']"

definition AllRestartPolicies :: "string list" where
  "AllRestartPolicies = [''never'', ''on-failure'', ''always'']"

definition observed_text :: "observed_state \<Rightarrow> string" where
  "observed_text st =
     (case st of ObservedPending \<Rightarrow> ''pending'' | ObservedRunning \<Rightarrow> ''running''
      | ObservedStopped \<Rightarrow> ''stopped'' | ObservedFailed \<Rightarrow> ''failed'')"

definition AllObservedStates :: "string list" where
  "AllObservedStates =
     map observed_text [ObservedPending, ObservedRunning, ObservedStopped, ObservedFailed]"

text \<open>The conversion \<open>ObservedState(observed)\<close> of a text that passed \<open>validate.OneOf\<close>.\<close>

definition observed_of :: "string \<Rightarrow> observed_state" where
  "observed_of s =
     (if s = ''running'' then ObservedRunning else if s = ''stopped'' then ObservedStopped
      else if s = ''failed'' then ObservedFailed else ObservedPending)"

abbreviation (input) MinVCPU :: int where "MinVCPU \<equiv> 1"
abbreviation (input) MaxVCPU :: int where "MaxVCPU \<equiv> 256"
abbreviation (input) MinMemoryMiB :: int where "MinMemoryMiB \<equiv> 128"
abbreviation (input) MaxMemoryMiB :: int where "MaxMemoryMiB \<equiv> 1048576"
abbreviation (input) MaxDiskGiB :: int where "MaxDiskGiB \<equiv> 2048"

type_synonym disk = "8 word list"

record instance_file =
  f_Path :: string
  f_Content :: string
  f_Mode :: string

record instance_row =
  i_ID :: string
  i_ProjectID :: string
  i_Name :: string
  i_Isolation :: string
  i_Image :: string
  i_ISO :: string
  i_Kernel :: string
  i_DiskGiB :: int
  i_FirewallID :: string
  i_Command :: "string list"
  i_NetworkID :: string
  i_VCPU :: int
  i_MemoryMiB :: int
  i_RestartPolicy :: string
  i_RestartCount :: int
  i_Desired :: desired_state
  i_Observed :: observed_state
  i_ObservedMessage :: string
  i_ExitCode :: "int option"
  i_Migrating :: bool
  i_DiskParked :: bool
  i_DiskFrom :: string
  i_Device :: string
  i_NodeID :: string
  i_Group :: string
  i_Strict :: bool
  i_NodeSelector :: "(string \<times> string) list"
  i_EnvSealed :: string
  i_SealKeyID :: string
  i_EnvNames :: "string list"
  i_FilesSealed :: string
  i_FilePaths :: "string list"
  i_ExtraNetworks :: "string list"
  i_SSHKeys :: "string list"
  i_CreatedAt :: go_time
  i_UpdatedAt :: go_time

record create_params =
  c_Device :: string
  c_ProjectID :: string
  c_Name :: string
  c_Group :: string
  c_Strict :: bool
  c_NodeSelector :: "(string \<times> string) list"
  c_Env :: "(string \<times> string) list"
  c_Files :: "instance_file list"
  c_ExtraNetworks :: "string list"
  c_Keys :: "string list"
  c_Isolation :: string
  c_Image :: string
  c_ISO :: string
  c_Kernel :: string
  c_DiskGiB :: int
  c_FirewallID :: string
  c_Command :: "string list"
  c_NetworkID :: string
  c_RestartPolicy :: string
  c_VCPU :: int
  c_MemoryMiB :: int

record footprint =
  fp_Instances :: int
  fp_VCPU :: int
  fp_MemoryMiB :: int

record inst_db =
  instances :: "instance_row list"
  parked :: "string \<rightharpoonup> disk"
  recorded :: "entry list"

section \<open>Repository\<close>

datatype inst_error = inst_errNotFound | inst_errNameTaken | inst_errAlreadyPlaced

definition inst_translate :: "inst_error \<Rightarrow> fault" where
  "inst_translate e =
     (case e of
        inst_errNotFound \<Rightarrow> NotFound ''instance_not_found''
      | inst_errNameTaken \<Rightarrow> Conflict ''instance_name_taken''
      | inst_errAlreadyPlaced \<Rightarrow> Conflict ''instance_already_placed'')"

text \<open>\<open>UPDATE instances SET ... WHERE\<close>, then \<open>expectOneRow\<close>.\<close>

definition update_expecting ::
    "inst_error \<Rightarrow> (instance_row \<Rightarrow> bool) \<Rightarrow> (instance_row \<Rightarrow> instance_row) \<Rightarrow> inst_db \<Rightarrow>
     (inst_error + unit) \<times> inst_db" where
  "update_expecting e P f db =
     (if list_ex P (instances db)
      then (Inr (), db\<lparr>instances := update_where P f (instances db)\<rparr>)
      else (Inl e, db))"

definition repo_inst_nameTaken :: "inst_db \<Rightarrow> string \<Rightarrow> string \<Rightarrow> bool" where
  "repo_inst_nameTaken db projectID name =
     list_ex (\<lambda>r. i_ProjectID r = projectID \<and> i_Name r = name) (instances db)"

text \<open>A repeated id violates the primary key, which the code reports as a taken name.\<close>

definition repo_inst_insert :: "inst_db \<Rightarrow> instance_row \<Rightarrow> (inst_error + unit) \<times> inst_db" where
  "repo_inst_insert db r =
     (if repo_inst_nameTaken db (i_ProjectID r) (i_Name r) then (Inl inst_errNameTaken, db)
      else if list_ex (\<lambda>q. i_ID q = i_ID r) (instances db) then (Inl inst_errNameTaken, db)
      else (Inr (), db\<lparr>instances := instances db @ [r]\<rparr>))"

definition repo_inst_byName :: "inst_db \<Rightarrow> string \<Rightarrow> string \<Rightarrow> inst_error + instance_row" where
  "repo_inst_byName db projectID name =
     (case find (\<lambda>r. i_ProjectID r = projectID \<and> i_Name r = name) (instances db) of
        None \<Rightarrow> Inl inst_errNotFound | Some r \<Rightarrow> Inr r)"

definition repo_inst_get :: "inst_db \<Rightarrow> string \<Rightarrow> inst_error + instance_row" where
  "repo_inst_get db iid =
     (case find (\<lambda>r. i_ID r = iid) (instances db) of
        None \<Rightarrow> Inl inst_errNotFound | Some r \<Rightarrow> Inr r)"

definition repo_inst_footprintIn :: "inst_db \<Rightarrow> string \<Rightarrow> footprint" where
  "repo_inst_footprintIn db projectID =
     (let rows = filter (\<lambda>r. i_ProjectID r = projectID) (instances db)
      in \<lparr>fp_Instances = int (length rows), fp_VCPU = sum_list (map i_VCPU rows),
          fp_MemoryMiB = sum_list (map i_MemoryMiB rows)\<rparr>)"

text \<open>\<open>ORDER BY created_at, id\<close>.\<close>

definition by_age :: "instance_row list \<Rightarrow> instance_row list" where
  "by_age rows = sort_key (\<lambda>r. (stamp_key (i_CreatedAt r), i_ID r)) rows"

definition repo_inst_list :: "inst_db \<Rightarrow> instance_row list" where
  "repo_inst_list db = by_age (instances db)"

definition repo_inst_listIn :: "inst_db \<Rightarrow> string \<Rightarrow> instance_row list" where
  "repo_inst_listIn db projectID = by_age (filter (\<lambda>r. i_ProjectID r = projectID) (instances db))"

definition repo_inst_listPendingPlacement :: "inst_db \<Rightarrow> instance_row list" where
  "repo_inst_listPendingPlacement db =
     by_age (filter (\<lambda>r. (i_Desired r = DesiredRunning \<or> i_Migrating r) \<and> i_NodeID r = [])
       (instances db))"

definition repo_inst_listByNode :: "inst_db \<Rightarrow> string \<Rightarrow> instance_row list" where
  "repo_inst_listByNode db nodeID = by_age (filter (\<lambda>r. i_NodeID r = nodeID) (instances db))"

definition repo_inst_listRunningOn :: "inst_db \<Rightarrow> string \<Rightarrow> instance_row list" where
  "repo_inst_listRunningOn db nodeID =
     by_age (filter (\<lambda>r. (i_Desired r = DesiredRunning \<or> i_Migrating r) \<and> i_NodeID r = nodeID)
       (instances db))"

definition repo_inst_setObserved ::
    "inst_db \<Rightarrow> string \<Rightarrow> string \<Rightarrow> observed_state \<Rightarrow> string \<Rightarrow> int \<Rightarrow> int option \<Rightarrow> go_time \<Rightarrow>
     (inst_error + unit) \<times> inst_db" where
  "repo_inst_setObserved db iid nodeID observed message restarts exitCode now =
     update_expecting inst_errNotFound (\<lambda>r. i_ID r = iid \<and> i_NodeID r = nodeID)
       (\<lambda>r. r\<lparr>i_Observed := observed, i_ObservedMessage := message, i_RestartCount := restarts,
              i_ExitCode := exitCode, i_UpdatedAt := now\<rparr>) db"

text \<open>\<open>SELECT node_id, COUNT(*) ... GROUP BY node_id\<close> into a Go map.\<close>

definition count_by_node :: "instance_row list \<Rightarrow> (string \<rightharpoonup> int)" where
  "count_by_node rows =
     (\<lambda>n. let c = length (filter (\<lambda>r. i_NodeID r = n) rows)
          in if n = [] \<or> c = 0 then None else Some (int c))"

definition repo_inst_assignedCounts :: "inst_db \<Rightarrow> (string \<rightharpoonup> int)" where
  "repo_inst_assignedCounts db = count_by_node (instances db)"

definition repo_inst_groupCounts :: "inst_db \<Rightarrow> string \<Rightarrow> (string \<rightharpoonup> int)" where
  "repo_inst_groupCounts db grp =
     count_by_node (filter (\<lambda>r. i_Group r = grp) (instances db))"

definition repo_inst_assign ::
    "inst_db \<Rightarrow> string \<Rightarrow> string \<Rightarrow> go_time \<Rightarrow> (inst_error + unit) \<times> inst_db" where
  "repo_inst_assign db iid nodeID now =
     update_expecting inst_errAlreadyPlaced (\<lambda>r. i_ID r = iid \<and> i_NodeID r = [])
       (\<lambda>r. r\<lparr>i_NodeID := nodeID, i_UpdatedAt := now\<rparr>) db"

definition repo_inst_setMigrating ::
    "inst_db \<Rightarrow> string \<Rightarrow> bool \<Rightarrow> bool \<Rightarrow> string \<Rightarrow> go_time \<Rightarrow> (inst_error + unit) \<times> inst_db" where
  "repo_inst_setMigrating db iid migrating park from now =
     update_expecting inst_errNotFound (\<lambda>r. i_ID r = iid)
       (\<lambda>r. r\<lparr>i_Migrating := migrating, i_DiskParked := park, i_DiskFrom := from,
              i_UpdatedAt := now\<rparr>) db"

definition repo_inst_releasePlacement ::
    "inst_db \<Rightarrow> string \<Rightarrow> string \<Rightarrow> go_time \<Rightarrow> (inst_error + unit) \<times> inst_db" where
  "repo_inst_releasePlacement db iid nodeID now =
     update_expecting inst_errNotFound (\<lambda>r. i_ID r = iid \<and> i_NodeID r = nodeID)
       (\<lambda>r. r\<lparr>i_NodeID := [], i_Observed := ObservedPending,
              i_ObservedMessage :=
                ''the node it ran on stopped reporting, so it is being placed again'',
              i_UpdatedAt := now\<rparr>) db"

definition repo_inst_setSize ::
    "inst_db \<Rightarrow> string \<Rightarrow> int \<Rightarrow> int \<Rightarrow> go_time \<Rightarrow> (inst_error + unit) \<times> inst_db" where
  "repo_inst_setSize db iid vcpu memoryMiB now =
     update_expecting inst_errNotFound (\<lambda>r. i_ID r = iid)
       (\<lambda>r. r\<lparr>i_VCPU := vcpu, i_MemoryMiB := memoryMiB, i_UpdatedAt := now\<rparr>) db"

definition repo_inst_setDesired ::
    "inst_db \<Rightarrow> string \<Rightarrow> desired_state \<Rightarrow> go_time \<Rightarrow> (inst_error + unit) \<times> inst_db" where
  "repo_inst_setDesired db iid desired now =
     update_expecting inst_errNotFound (\<lambda>r. i_ID r = iid)
       (\<lambda>r. r\<lparr>i_Desired := desired, i_UpdatedAt := now\<rparr>) db"

definition repo_inst_delete :: "inst_db \<Rightarrow> string \<Rightarrow> (inst_error + unit) \<times> inst_db" where
  "repo_inst_delete db iid =
     (if list_ex (\<lambda>r. i_ID r = iid) (instances db)
      then (Inr (), db\<lparr>instances := filter (\<lambda>r. i_ID r \<noteq> iid) (instances db)\<rparr>)
      else (Inl inst_errNotFound, db))"

definition repo_inst_setObservedMessage ::
    "inst_db \<Rightarrow> string \<Rightarrow> string \<Rightarrow> go_time \<Rightarrow> inst_db" where
  "repo_inst_setObservedMessage db iid message at =
     db\<lparr>instances := update_where (\<lambda>r. i_ID r = iid)
          (\<lambda>r. r\<lparr>i_ObservedMessage := message, i_UpdatedAt := at\<rparr>) (instances db)\<rparr>"

section \<open>Environment and files (env.go)\<close>

definition env_name_start :: "char \<Rightarrow> bool" where
  "env_name_start c \<longleftrightarrow> is_lower c \<or> is_upper c \<or> c = CHR ''_''"

text \<open>\<open>^[A-Za-z_][A-Za-z0-9_]*$\<close>\<close>

definition envNamePattern :: "string \<Rightarrow> bool" where
  "envNamePattern s =
     (case s of [] \<Rightarrow> False
      | c # rest \<Rightarrow> env_name_start c \<and> list_all (\<lambda>d. env_name_start d \<or> is_digit d) rest)"

fun validate_env_pairs :: "(string \<times> string) list \<Rightarrow> unit result" where
  "validate_env_pairs [] = Inr ()"
| "validate_env_pairs ((name, val) # rest) =
     (if \<not> envNamePattern name \<or> 128 < int (length name) then Inl (Invalid ''invalid_env'')
      else if 4096 < int (length val) then Inl (Invalid ''invalid_env'')
      else validate_env_pairs rest)"

definition validateEnv :: "(string \<times> string) list \<Rightarrow> unit result" where
  "validateEnv env =
     (if 64 < int (length env) then Inl (Invalid ''invalid_env'') else validate_env_pairs env)"

definition namesOf :: "(string \<times> string) list \<Rightarrow> string list" where
  "namesOf env = sort (map fst env)"

text \<open>
  \<open>path.Clean\<close> of a rooted path: empty and \<open>.\<close> elements vanish, \<open>..\<close> removes the
  element before it, and none of them climbs above the root.
\<close>

fun path_elements :: "string \<Rightarrow> string \<Rightarrow> string list" where
  "path_elements acc [] = [rev acc]"
| "path_elements acc (c # cs) =
     (if c = CHR ''/'' then rev acc # path_elements [] cs else path_elements (c # acc) cs)"

definition clean_push :: "string list \<Rightarrow> string \<Rightarrow> string list" where
  "clean_push stack e =
     (if e = [] \<or> e = ''.'' then stack
      else if e = ''..'' then tl stack
      else e # stack)"

definition path_clean_rooted :: "string \<Rightarrow> string" where
  "path_clean_rooted p =
     (case rev (foldl clean_push [] (path_elements [] p)) of
        [] \<Rightarrow> ''/'' | es \<Rightarrow> concat (map (\<lambda>e. CHR ''/'' # e) es))"

definition path_is_abs :: "string \<Rightarrow> bool" where
  "path_is_abs p \<longleftrightarrow> has_prefix p ''/''"

text \<open>
  \<open>base64.StdEncoding.DecodeString\<close>: carriage returns and newlines are skipped, the
  rest is groups of four with at most two pad characters at the end. Only the
  length of the decoded bytes matters to the caller.
\<close>

definition base64_char :: "char \<Rightarrow> bool" where
  "base64_char c \<longleftrightarrow> is_lower c \<or> is_upper c \<or> is_digit c \<or> c = CHR ''+'' \<or> c = CHR ''/''"

definition base64_pads :: "string \<Rightarrow> nat" where
  "base64_pads s =
     (case rev s of
        a # b # _ \<Rightarrow> if a = CHR ''='' then (if b = CHR ''='' then 2 else 1) else 0
      | _ \<Rightarrow> 0)"

definition base64_decoded_len :: "string \<Rightarrow> int option" where
  "base64_decoded_len content =
     (let s = filter (\<lambda>c. c \<noteq> CHR 0x0D \<and> c \<noteq> CHR 0x0A) content;
          pads = base64_pads s;
          body = take (length s - pads) s
      in if length s mod 4 = 0 \<and> list_all base64_char body
         then Some (3 * (int (length s) div 4) - int pads) else None)"

text \<open>\<open>strconv.ParseUint(mode, 8, 32)\<close>.\<close>

definition octal_char :: "char \<Rightarrow> bool" where
  "octal_char c \<longleftrightarrow> CHR ''0'' \<le> c \<and> c \<le> CHR ''7''"

definition octal_value :: "string \<Rightarrow> int" where
  "octal_value s = foldl (\<lambda>v c. 8 * v + (of_char c - 48)) 0 s"

definition parseMode :: "string \<Rightarrow> int result" where
  "parseMode mode =
     (if mode = [] then Inr 384
      else if \<not> list_all octal_char mode \<or> 511 < octal_value mode
      then Inl (Invalid ''invalid_files'')
      else Inr (octal_value mode))"

fun validate_file_list :: "string list \<Rightarrow> instance_file list \<Rightarrow> unit result" where
  "validate_file_list seen [] = Inr ()"
| "validate_file_list seen (f # rest) =
     (if \<not> path_is_abs (f_Path f) \<or> path_clean_rooted (f_Path f) \<noteq> f_Path f
      then Inl (Invalid ''invalid_files'')
      else if 4096 < int (length (f_Path f)) then Inl (Invalid ''invalid_files'')
      else if f_Path f \<in> set seen then Inl (Invalid ''invalid_files'')
      else (case base64_decoded_len (f_Content f) of
              None \<Rightarrow> Inl (Invalid ''invalid_files'')
            | Some n \<Rightarrow>
                if 131072 < n then Inl (Invalid ''invalid_files'')
                else bindR (parseMode (f_Mode f)) (\<lambda>_.
                       validate_file_list (f_Path f # seen) rest)))"

definition validateFiles :: "instance_file list \<Rightarrow> unit result" where
  "validateFiles files =
     (if 16 < int (length files) then Inl (Invalid ''invalid_files'')
      else validate_file_list [] files)"

definition pathsOf :: "instance_file list \<Rightarrow> string list" where
  "pathsOf files = sort (map f_Path files)"

datatype seal_error = ErrNoKey | ErrSealOther

record keyring =
  SealEnvJSON :: "(string \<times> string) list \<Rightarrow> seal_error + string \<times> string"
  SealFilesJSON :: "instance_file list \<Rightarrow> seal_error + string \<times> string"
  ActiveID :: string

definition sealEnv :: "keyring \<Rightarrow> (string \<times> string) list \<Rightarrow> (string \<times> string) result" where
  "sealEnv ring env =
     (if env = [] then Inr ([], [])
      else case SealEnvJSON ring env of
             Inl ErrNoKey \<Rightarrow> Inl (Conflict ''no_sealing_key'')
           | Inl ErrSealOther \<Rightarrow> Inl Internal
           | Inr (blob, keyID) \<Rightarrow> Inr (blob, keyID))"

definition sealFiles :: "keyring \<Rightarrow> instance_file list \<Rightarrow> string result" where
  "sealFiles ring files =
     (if files = [] then Inr []
      else case SealFilesJSON ring files of
             Inl ErrNoKey \<Rightarrow> Inl (Conflict ''no_sealing_key'')
           | Inl ErrSealOther \<Rightarrow> Inl Internal
           | Inr (blob, _) \<Rightarrow> Inr blob)"

section \<open>Admission of a request\<close>

definition checkDevice :: "string \<Rightarrow> string \<Rightarrow> string result" where
  "checkDevice raw isolation =
     (let kind = to_lower (trim_space raw)
      in if kind = [] then Inr []
         else if kind \<noteq> ''gpu'' \<and> kind \<noteq> ''accelerator'' then Inl (Invalid ''invalid_device'')
         else if isolation \<noteq> ''vm'' then Inl (Invalid ''device_needs_a_vm'')
         else Inr kind)"

text \<open>The map \<open>seen\<close> starts with the first network, when one is named.\<close>

fun named_twice :: "string list \<Rightarrow> string list \<Rightarrow> bool" where
  "named_twice seen [] = False"
| "named_twice seen (n # ns) = (n \<in> set seen \<or> named_twice (n # seen) ns)"

fun validate_selector_pairs :: "(string \<times> string) list \<Rightarrow> unit result" where
  "validate_selector_pairs [] = Inr ()"
| "validate_selector_pairs ((key, val) # rest) =
     bindR (validate_Name ''node_selector_key'' key) (\<lambda>_.
     bindR (validate_Name ''node_selector_value'' val) (\<lambda>_. validate_selector_pairs rest))"

definition check :: "bool \<Rightarrow> string \<Rightarrow> unit result" where
  "check bad code = (if bad then Inl (Invalid code) else Inr ())"

definition normalize :: "create_params \<Rightarrow> create_params result" where
  "normalize p =
     bindR (validate_Name ''name'' (c_Name p)) (\<lambda>_.
     bindR (validateEnv (c_Env p)) (\<lambda>_.
     bindR (validateFiles (c_Files p)) (\<lambda>_.
     bindR (check (3 < int (length (c_ExtraNetworks p))) ''invalid_networks'') (\<lambda>_.
     bindR (check (named_twice (if c_NetworkID p \<noteq> [] then [c_NetworkID p] else [])
                     (c_ExtraNetworks p)) ''invalid_networks'') (\<lambda>_.
     bindR (if c_Group p \<noteq> [] then validate_Name ''placement_group'' (c_Group p) else Inr ()) (\<lambda>_.
     bindR (check (c_Strict p \<and> c_Group p = []) ''invalid_placement'') (\<lambda>_.
     bindR (check (8 < int (length (c_NodeSelector p))) ''invalid_node_selector'') (\<lambda>_.
     bindR (validate_selector_pairs (c_NodeSelector p)) (\<lambda>_.
     bindR (validate_OneOf ''isolation'' (c_Isolation p) AllIsolations) (\<lambda>_.
     bindR (check (c_Image p = [] \<and> c_ISO p = []) ''invalid_image'') (\<lambda>_.
     bindR (check (c_ISO p \<noteq> [] \<and> c_Isolation p \<noteq> ''vm'') ''invalid_iso'') (\<lambda>_.
     bindR (check (c_Kernel p \<noteq> [] \<and> c_Isolation p \<noteq> ''microvm'' \<and> c_Isolation p \<noteq> ''sandbox'')
              ''invalid_kernel'') (\<lambda>_.
     bindR (check (c_DiskGiB p \<noteq> 0 \<and> c_Isolation p \<noteq> ''vm'') ''invalid_disk'') (\<lambda>_.
     bindR (checkDevice (c_Device p) (c_Isolation p)) (\<lambda>device.
     let p = p\<lparr>c_Device := device\<rparr>;
         p = (if c_Image p = [] \<and> c_DiskGiB p = 0 then p\<lparr>c_DiskGiB := 10\<rparr> else p)
     in bindR (check (c_DiskGiB p < 0 \<or> MaxDiskGiB < c_DiskGiB p) ''invalid_disk'') (\<lambda>_.
     let p = (if c_RestartPolicy p = [] then p\<lparr>c_RestartPolicy := ''always''\<rparr> else p)
     in bindR (validate_OneOf ''restart_policy'' (c_RestartPolicy p) AllRestartPolicies) (\<lambda>_.
     bindR (check (64 < int (length (c_Command p))) ''invalid_command'') (\<lambda>_.
     let p = (if c_VCPU p = 0 then p\<lparr>c_VCPU := 1\<rparr> else p);
         p = (if c_MemoryMiB p = 0 then p\<lparr>c_MemoryMiB := 512\<rparr> else p)
     in bindR (check (c_VCPU p < MinVCPU \<or> MaxVCPU < c_VCPU p) ''invalid_vcpu'') (\<lambda>_.
     bindR (check (c_MemoryMiB p < MinMemoryMiB \<or> MaxMemoryMiB < c_MemoryMiB p) ''invalid_memory'')
       (\<lambda>_. Inr p))))))))))))))))))))"

section \<open>The modules an instance depends on\<close>

type_synonym 'w release = "'w \<Rightarrow> string \<Rightarrow> unit result \<times> 'w"

record 'w networks_if =
  DefaultNetworkID :: "'w \<Rightarrow> string \<Rightarrow> string result \<times> 'w"
  Networks_ExistsIn :: "'w \<Rightarrow> string \<Rightarrow> string \<Rightarrow> bool result"
  ReleaseAddress :: "'w release"

record 'w quota_if =
  AdmitInstance :: "'w \<Rightarrow> inst_db \<Rightarrow> string \<Rightarrow> int \<Rightarrow> int \<Rightarrow> unit result"
  AdmitGrowth :: "'w \<Rightarrow> inst_db \<Rightarrow> string \<Rightarrow> int \<Rightarrow> int \<Rightarrow> unit result"

record 'w inst_deps =
  networks :: "'w networks_if option"
  keys :: "('w \<Rightarrow> string \<Rightarrow> string list \<Rightarrow> string list result) option"
  quota :: "'w quota_if option"
  volumes :: "'w release option"
  forwards :: "'w release option"
  balancers :: "'w release option"
  logs :: "'w release option"
  execs :: "'w release option"
  alerts :: "'w release option"
  devices :: "'w release option"
  firewalls :: "('w \<Rightarrow> string \<Rightarrow> string \<Rightarrow> bool result) option"
  sealing :: keyring
  records_events :: bool
  dataDir :: string

section \<open>Service\<close>

definition inst_get :: "inst_db \<Rightarrow> string \<Rightarrow> instance_row result" where
  "inst_get db iid =
     (case repo_inst_get db iid of Inl e \<Rightarrow> Inl (inst_translate e) | Inr r \<Rightarrow> Inr r)"

definition inst_getIn :: "inst_db \<Rightarrow> string \<Rightarrow> string \<Rightarrow> instance_row result" where
  "inst_getIn db ref projectID =
     (let byName = (case repo_inst_byName db projectID ref of
                      Inl _ \<Rightarrow> Inl (NotFound ''instance_not_found'') | Inr r \<Rightarrow> Inr r)
      in case repo_inst_get db ref of
           Inr r \<Rightarrow> if i_ProjectID r = projectID then Inr r else byName
         | Inl inst_errNotFound \<Rightarrow> byName
         | Inl e \<Rightarrow> Inl (inst_translate e))"

definition authorizedKeys ::
    "'w inst_deps \<Rightarrow> 'w \<Rightarrow> create_params \<Rightarrow> create_params \<Rightarrow> string list result" where
  "authorizedKeys d w params normalized =
     (if c_Keys params = [] then Inr []
      else if c_Isolation normalized \<noteq> ''vm'' then Inl (Invalid ''keys_unsupported'')
      else case keys d of
             None \<Rightarrow> Inl (Unavailable ''keys_unavailable'')
           | Some resolve \<Rightarrow> resolve w (c_ProjectID params) (c_Keys params))"

fun check_each_network ::
    "('w \<Rightarrow> string \<Rightarrow> string \<Rightarrow> bool result) \<Rightarrow> 'w \<Rightarrow> string \<Rightarrow> string list \<Rightarrow> unit result" where
  "check_each_network existsIn w projectID [] = Inr ()"
| "check_each_network existsIn w projectID (n # ns) =
     (if n = [] then check_each_network existsIn w projectID ns
      else bindR (existsIn w n projectID) (\<lambda>known.
             if \<not> known then Inl (Invalid ''unknown_network'')
             else check_each_network existsIn w projectID ns))"

definition checkNetworks ::
    "'w inst_deps \<Rightarrow> 'w \<Rightarrow> string \<Rightarrow> string \<Rightarrow> string list \<Rightarrow> unit result" where
  "checkNetworks d w projectID networkID extra =
     (case networks d of
        None \<Rightarrow> Inr ()
      | Some nets \<Rightarrow> check_each_network (Networks_ExistsIn nets) w projectID (networkID # extra))"

definition resolve_network ::
    "'w inst_deps \<Rightarrow> 'w \<Rightarrow> create_params \<Rightarrow> string \<Rightarrow> string result \<times> 'w" where
  "resolve_network d w params networkID =
     (case networks d of
        Some nets \<Rightarrow> if networkID = [] then DefaultNetworkID nets w (c_ProjectID params)
                      else (Inr networkID, w)
      | None \<Rightarrow> (Inr networkID, w))"

definition check_firewall :: "'w inst_deps \<Rightarrow> 'w \<Rightarrow> string \<Rightarrow> string \<Rightarrow> unit result" where
  "check_firewall d w firewallID projectID =
     (case firewalls d of
        Some existsIn \<Rightarrow>
          if firewallID = [] then Inr ()
          else bindR (existsIn w firewallID projectID) (\<lambda>known.
                 if known then Inr () else Inl (Invalid ''unknown_firewall''))
      | None \<Rightarrow> Inr ())"

definition new_instance ::
    "string \<Rightarrow> go_time \<Rightarrow> create_params \<Rightarrow> create_params \<Rightarrow> string list \<Rightarrow> string \<Rightarrow> string \<Rightarrow> string \<Rightarrow>
     string \<Rightarrow> instance_row" where
  "new_instance new_id now params n authorized networkID envSealed sealKeyID filesSealed =
     \<lparr>i_ID = new_id, i_ProjectID = c_ProjectID params, i_Name = c_Name n,
      i_Isolation = c_Isolation n, i_Image = c_Image n, i_ISO = c_ISO n, i_Kernel = c_Kernel n,
      i_DiskGiB = c_DiskGiB n, i_FirewallID = c_FirewallID n, i_Command = c_Command n,
      i_NetworkID = networkID, i_VCPU = c_VCPU n, i_MemoryMiB = c_MemoryMiB n,
      i_RestartPolicy = c_RestartPolicy n, i_RestartCount = 0, i_Desired = DesiredRunning,
      i_Observed = ObservedPending, i_ObservedMessage = [], i_ExitCode = None,
      i_Migrating = False, i_DiskParked = False, i_DiskFrom = [], i_Device = c_Device n,
      i_NodeID = [], i_Group = c_Group n, i_Strict = c_Strict params,
      i_NodeSelector = c_NodeSelector n, i_EnvSealed = envSealed, i_SealKeyID = sealKeyID,
      i_EnvNames = namesOf (c_Env n), i_FilesSealed = filesSealed,
      i_FilePaths = pathsOf (c_Files n), i_ExtraNetworks = c_ExtraNetworks n,
      i_SSHKeys = authorized, i_CreatedAt = now, i_UpdatedAt = now\<rparr>"

definition inst_create ::
    "'w inst_deps \<Rightarrow> string \<Rightarrow> go_time \<Rightarrow> inst_db \<Rightarrow> 'w \<Rightarrow> create_params \<Rightarrow>
     instance_row result \<times> inst_db \<times> 'w" where
  "inst_create d new_id now db w params =
     (case normalize params of Inl e \<Rightarrow> (Inl e, db, w) | Inr n \<Rightarrow>
      (case authorizedKeys d w params n of Inl e \<Rightarrow> (Inl e, db, w) | Inr authorized \<Rightarrow>
      (case (case quota d of
              None \<Rightarrow> Inr ()
            | Some q \<Rightarrow> AdmitInstance q w db (c_ProjectID params) (c_VCPU n) (c_MemoryMiB n)) of
        Inl e \<Rightarrow> (Inl e, db, w) | Inr _ \<Rightarrow>
      (case resolve_network d w params (c_NetworkID n) of
        (Inl e, w) \<Rightarrow> (Inl e, db, w) | (Inr networkID, w) \<Rightarrow>
      (case checkNetworks d w (c_ProjectID params) networkID (c_ExtraNetworks n) of
        Inl e \<Rightarrow> (Inl e, db, w) | Inr _ \<Rightarrow>
      (case check_firewall d w (c_FirewallID n) (c_ProjectID params) of
        Inl e \<Rightarrow> (Inl e, db, w) | Inr _ \<Rightarrow>
      (case sealEnv (sealing d) (c_Env n) of Inl e \<Rightarrow> (Inl e, db, w) | Inr (envSealed, envKey) \<Rightarrow>
      (case sealFiles (sealing d) (c_Files n) of Inl e \<Rightarrow> (Inl e, db, w) | Inr filesSealed \<Rightarrow>
      (let sealKeyID = (if filesSealed \<noteq> [] then ActiveID (sealing d) else envKey);
          r = new_instance new_id now params n authorized networkID envSealed sealKeyID filesSealed
      in (case repo_inst_insert db r of
           (Inl e, db) \<Rightarrow> (Inl (inst_translate e), db, w)
         | (Inr _, db) \<Rightarrow> (Inr r, db, w)))))))))))"

definition inst_setDesired ::
    "go_time \<Rightarrow> inst_db \<Rightarrow> string \<Rightarrow> string \<Rightarrow> desired_state \<Rightarrow> instance_row result \<times> inst_db" where
  "inst_setDesired now db ref projectID desired =
     (case inst_getIn db ref projectID of
        Inl e \<Rightarrow> (Inl e, db)
      | Inr r \<Rightarrow> (case repo_inst_setDesired db (i_ID r) desired now of
                   (Inl e, db') \<Rightarrow> (Inl (inst_translate e), db')
                 | (Inr _, db') \<Rightarrow> (inst_get db' (i_ID r), db')))"

definition inst_resize ::
    "'w inst_deps \<Rightarrow> go_time \<Rightarrow> inst_db \<Rightarrow> 'w \<Rightarrow> string \<Rightarrow> string \<Rightarrow> int \<Rightarrow> int \<Rightarrow>
     instance_row result \<times> inst_db" where
  "inst_resize d now db w ref projectID vcpu0 mem0 =
     (case inst_getIn db ref projectID of
        Inl e \<Rightarrow> (Inl e, db)
      | Inr r \<Rightarrow>
          (let vcpu = (if vcpu0 = 0 then i_VCPU r else vcpu0);
               mem = (if mem0 = 0 then i_MemoryMiB r else mem0)
           in if vcpu = i_VCPU r \<and> mem = i_MemoryMiB r then (Inr r, db)
              else if vcpu < MinVCPU \<or> MaxVCPU < vcpu then (Inl (Invalid ''invalid_vcpu''), db)
              else if mem < MinMemoryMiB \<or> MaxMemoryMiB < mem
              then (Inl (Invalid ''invalid_memory''), db)
              else case (case quota d of
                           None \<Rightarrow> Inr ()
                         | Some q \<Rightarrow> AdmitGrowth q w db projectID
                             (max (vcpu - i_VCPU r) 0) (max (mem - i_MemoryMiB r) 0)) of
                     Inl e \<Rightarrow> (Inl e, db)
                   | Inr _ \<Rightarrow>
                       (case repo_inst_setSize db (i_ID r) vcpu mem now of
                          (Inl e, db') \<Rightarrow> (Inl (inst_translate e), db')
                        | (Inr _, db') \<Rightarrow> (inst_get db' (i_ID r), db'))))"

text \<open>\<open>parkedName\<close> refuses an id that could leave the directory of parked disks.\<close>

definition parkedName :: "string \<Rightarrow> string option" where
  "parkedName iid =
     (if iid = [] \<or> list_ex (\<lambda>c. c = CHR ''/'' \<or> c = CHR ''.'') iid then None
      else Some (iid @ ''.qcow2''))"

definition forgetParked :: "'w inst_deps \<Rightarrow> inst_db \<Rightarrow> string \<Rightarrow> inst_db" where
  "forgetParked d db iid =
     (if dataDir d = [] then db
      else case parkedName iid of
             None \<Rightarrow> db
           | Some name \<Rightarrow> db\<lparr>parked := (parked db)(name := None)\<rparr>)"

text \<open>One optional release of \<open>delete\<close>: absent modules are skipped, a failure ends the call.\<close>

definition release_in :: "'w release option \<Rightarrow> string \<Rightarrow> 'w \<Rightarrow> unit result \<times> 'w" where
  "release_in dep iid w =
     (case dep of
        None \<Rightarrow> (Inr (), w)
      | Some f \<Rightarrow> (case f w iid of (Inl _, w') \<Rightarrow> (Inl Internal, w') | (Inr _, w') \<Rightarrow> (Inr (), w')))"

fun release_all :: "'w release option list \<Rightarrow> string \<Rightarrow> 'w \<Rightarrow> unit result \<times> 'w" where
  "release_all [] iid w = (Inr (), w)"
| "release_all (dep # rest) iid w =
     (case release_in dep iid w of (Inl e, w') \<Rightarrow> (Inl e, w') | (Inr _, w') \<Rightarrow> release_all rest iid w')"

definition inst_delete ::
    "'w inst_deps \<Rightarrow> inst_db \<Rightarrow> 'w \<Rightarrow> string \<Rightarrow> string \<Rightarrow> unit result \<times> inst_db \<times> 'w" where
  "inst_delete d db w ref projectID =
     (case inst_getIn db ref projectID of
        Inl e \<Rightarrow> (Inl e, db, w)
      | Inr found \<Rightarrow>
          (let iid = i_ID found
           in case repo_inst_delete db iid of
                (Inl e, db') \<Rightarrow> (Inl (inst_translate e), db', w)
              | (Inr _, db') \<Rightarrow>
                  (let db'' = forgetParked d db' iid
                   in case release_all [devices d, alerts d, execs d] iid w of
                        (Inl e, w') \<Rightarrow> (Inl e, db'', w')
                      | (Inr _, w') \<Rightarrow>
                          (case networks d of
                             None \<Rightarrow> (Inr (), db'', w')
                           | Some nets \<Rightarrow>
                               (case release_all [Some (ReleaseAddress nets), volumes d, forwards d,
                                       balancers d, logs d] iid w' of
                                  (res, w'') \<Rightarrow> (res, db'', w''))))))"

definition noteTransition ::
    "bool \<Rightarrow> instance_row \<Rightarrow> instance_row \<Rightarrow> entry list" where
  "noteTransition has_events before after =
     (let restarted = i_RestartCount before < i_RestartCount after
      in if \<not> has_events \<or> (i_Observed before = i_Observed after \<and> \<not> restarted) then []
         else (let (kind, sev, msg) =
                 (if restarted
                  then (''instance.restarted'', Warn,
                        ''restart '' @ itoa (i_RestartCount after) @ '': '' @ i_ObservedMessage after)
                  else case i_Observed after of
                         ObservedRunning \<Rightarrow> (''instance.running'', Info, i_ObservedMessage after)
                       | ObservedFailed \<Rightarrow> (''instance.failed'', SevError, i_ObservedMessage after)
                       | ObservedStopped \<Rightarrow> (''instance.stopped'', Info, i_ObservedMessage after)
                       | ObservedPending \<Rightarrow> (''instance.pending'', Warn, i_ObservedMessage after));
                   text = (if msg = []
                           then ''observed '' @ observed_text (i_Observed before) @ '' to '' @
                                observed_text (i_Observed after)
                           else msg)
               in [\<lparr>e_ProjectID = i_ProjectID after, e_Kind = kind, e_Subject = i_ID after,
                    e_NodeID = i_NodeID after, e_Message = text, e_Severity = sev\<rparr>]))"

definition inst_reportObserved ::
    "'w inst_deps \<Rightarrow> go_time \<Rightarrow> inst_db \<Rightarrow> string \<Rightarrow> string \<Rightarrow> string \<Rightarrow> string \<Rightarrow> int \<Rightarrow> int option \<Rightarrow>
     instance_row result \<times> inst_db" where
  "inst_reportObserved d now db nodeID iid observed message restarts exitCode =
     (case validate_OneOf ''observed_state'' observed AllObservedStates of
        Inl e \<Rightarrow> (Inl e, db)
      | Inr _ \<Rightarrow>
          if 512 < int (length message) then (Inl (Invalid ''invalid_message''), db)
          else if restarts < 0 then (Inl (Invalid ''invalid_restarts''), db)
          else (case repo_inst_setObserved db iid nodeID (observed_of observed) message restarts
                       exitCode now of
                  (Inl inst_errNotFound, db') \<Rightarrow> (Inl (NotFound ''instance_not_on_node''), db')
                | (Inl e, db') \<Rightarrow> (Inl (inst_translate e), db')
                | (Inr _, db') \<Rightarrow>
                    (case inst_get db' iid of
                       Inl e \<Rightarrow> (Inl e, db')
                     | Inr after \<Rightarrow>
                         (case repo_inst_get db iid of
                            Inl _ \<Rightarrow> (Inr after, db')
                          | Inr before \<Rightarrow>
                              (Inr after, db'\<lparr>recorded := recorded db' @
                                 noteTransition (records_events d) before after\<rparr>)))))"

definition inst_strandedOn :: "inst_db \<Rightarrow> string list \<Rightarrow> instance_row list" where
  "inst_strandedOn db nodeIDs = concat (map (repo_inst_listRunningOn db) nodeIDs)"

definition inst_releasePlacement ::
    "'w inst_deps \<Rightarrow> go_time \<Rightarrow> inst_db \<Rightarrow> 'w \<Rightarrow> string \<Rightarrow> string \<Rightarrow> unit result \<times> inst_db \<times> 'w" where
  "inst_releasePlacement d now db w iid nodeID =
     (case repo_inst_releasePlacement db iid nodeID now of
        (Inl e, db') \<Rightarrow> (Inl (inst_translate e), db', w)
      | (Inr _, db') \<Rightarrow>
          (case networks d of
             None \<Rightarrow> (Inr (), db', w)
           | Some nets \<Rightarrow> (case ReleaseAddress nets w iid of (res, w') \<Rightarrow> (res, db', w'))))"

definition inst_assign :: "go_time \<Rightarrow> inst_db \<Rightarrow> string \<Rightarrow> string \<Rightarrow> unit result \<times> inst_db" where
  "inst_assign now db iid nodeID =
     (case repo_inst_assign db iid nodeID now of
        (Inl e, db') \<Rightarrow> (Inl (inst_translate e), db') | (Inr _, db') \<Rightarrow> (Inr (), db'))"

definition inst_holdPlacement :: "go_time \<Rightarrow> inst_db \<Rightarrow> string \<Rightarrow> string \<Rightarrow> unit result \<times> inst_db" where
  "inst_holdPlacement now db iid reason =
     (Inr (), repo_inst_setObservedMessage db iid reason now)"

section \<open>Migration (migrate.go)\<close>

abbreviation (input) MaxParkedDiskBytes :: int where "MaxParkedDiskBytes \<equiv> 68719476736"

definition beginMigration :: "go_time \<Rightarrow> inst_db \<Rightarrow> string \<Rightarrow> string \<Rightarrow> unit result \<times> inst_db" where
  "beginMigration now db iid nodeID =
     (case repo_inst_get db iid of
        Inl e \<Rightarrow> (Inl (inst_translate e), db)
      | Inr r \<Rightarrow>
          if i_NodeID r \<noteq> nodeID then (Inl (Conflict ''instance_moved''), db)
          else if i_Migrating r then (Inr (), db)
          else (case repo_inst_setDesired db iid DesiredStopped now of
                  (Inl e, db') \<Rightarrow> (Inl (inst_translate e), db')
                | (Inr _, db') \<Rightarrow>
                    (case repo_inst_setMigrating db' iid True False [] now of
                       (Inl _, db'') \<Rightarrow> (Inl Internal, db'') | (Inr _, db'') \<Rightarrow> (Inr (), db''))))"

definition parkDisk ::
    "'w inst_deps \<Rightarrow> go_time \<Rightarrow> inst_db \<Rightarrow> string \<Rightarrow> string \<Rightarrow> disk \<Rightarrow> unit result \<times> inst_db" where
  "parkDisk d now db nodeID iid content =
     (case repo_inst_get db iid of
        Inl e \<Rightarrow> (Inl (inst_translate e), db)
      | Inr r \<Rightarrow>
          if i_NodeID r \<noteq> nodeID then (Inl (NotFound ''instance_not_on_node''), db)
          else if \<not> i_Migrating r then (Inl (Conflict ''not_migrating''), db)
          else if dataDir d = [] then (Inl Internal, db)
          else (case parkedName iid of
                  None \<Rightarrow> (Inl (Invalid ''invalid_instance''), db)
                | Some name \<Rightarrow>
                    if MaxParkedDiskBytes < int (length content)
                    then (Inl (Invalid ''disk_too_large''), db)
                    else (let db' = db\<lparr>parked := (parked db)(name \<mapsto> content)\<rparr>
                          in case repo_inst_setMigrating db' iid True True nodeID now of
                               (Inl _, db'') \<Rightarrow> (Inl Internal, db'')
                             | (Inr _, db'') \<Rightarrow> (Inr (), db''))))"

definition parkedDisk :: "'w inst_deps \<Rightarrow> inst_db \<Rightarrow> string \<Rightarrow> string \<Rightarrow> disk result" where
  "parkedDisk d db nodeID iid =
     (case repo_inst_get db iid of
        Inl e \<Rightarrow> Inl (inst_translate e)
      | Inr r \<Rightarrow>
          if i_NodeID r \<noteq> nodeID then Inl (NotFound ''instance_not_on_node'')
          else if \<not> i_Migrating r \<or> \<not> i_DiskParked r then Inl (NotFound ''no_parked_disk'')
          else if nodeID = i_DiskFrom r then Inl (Conflict ''disk_came_from_here'')
          else if dataDir d = [] then Inl Internal
          else (case parkedName iid of
                  None \<Rightarrow> Inl (Invalid ''invalid_instance'')
                | Some name \<Rightarrow> (case parked db name of
                                  None \<Rightarrow> Inl (NotFound ''no_parked_disk'')
                                | Some content \<Rightarrow> Inr content)))"

definition finishMigration ::
    "'w inst_deps \<Rightarrow> go_time \<Rightarrow> inst_db \<Rightarrow> string \<Rightarrow> string \<Rightarrow> instance_row result \<times> inst_db" where
  "finishMigration d now db nodeID iid =
     (case repo_inst_get db iid of
        Inl e \<Rightarrow> (Inl (inst_translate e), db)
      | Inr r \<Rightarrow>
          if i_NodeID r \<noteq> nodeID then (Inl (NotFound ''instance_not_on_node''), db)
          else if \<not> i_Migrating r then (Inr r, db)
          else (case repo_inst_setMigrating db iid False False [] now of
                  (Inl e, db') \<Rightarrow> (Inl (inst_translate e), db')
                | (Inr _, db') \<Rightarrow>
                    (case repo_inst_setDesired db' iid DesiredRunning now of
                       (Inl e, db'') \<Rightarrow> (Inl (inst_translate e), db'')
                     | (Inr _, db'') \<Rightarrow>
                         (let db3 = forgetParked d db'' iid in (inst_get db3 iid, db3)))))"

section \<open>What admission guarantees\<close>

lemma check_eq_Inr [simp]: "check bad code = Inr u \<longleftrightarrow> \<not> bad"
  by (simp add: check_def)

lemma check_False [simp]: "check False code = Inr ()"
  by (simp add: check_def)

lemma checkDevice_result:
  assumes "checkDevice raw isolation = Inr dev"
  shows "dev \<in> {[], ''gpu'', ''accelerator''} \<and> (dev \<noteq> [] \<longrightarrow> isolation = ''vm'')"
  using assms by (auto simp: checkDevice_def Let_def split: if_splits)

lemma checkDevice_again:
  assumes "checkDevice raw isolation = Inr dev"
  shows "checkDevice dev isolation = Inr dev"
proof -
  have "checkDevice [] i = Inr []" "checkDevice ''gpu'' ''vm'' = Inr ''gpu''"
    "checkDevice ''accelerator'' ''vm'' = Inr ''accelerator''" for i
    by (simp add: checkDevice_def trim_space_def to_lower_def) code_simp+
  with checkDevice_result [OF assms] show ?thesis by auto
qed

definition params_ok :: "create_params \<Rightarrow> bool" where
  "params_ok q \<longleftrightarrow>
     name_pattern (c_Name q) \<and>
     MinVCPU \<le> c_VCPU q \<and> c_VCPU q \<le> MaxVCPU \<and>
     MinMemoryMiB \<le> c_MemoryMiB q \<and> c_MemoryMiB q \<le> MaxMemoryMiB \<and>
     0 \<le> c_DiskGiB q \<and> c_DiskGiB q \<le> MaxDiskGiB \<and>
     c_Isolation q \<in> set AllIsolations \<and> c_RestartPolicy q \<in> set AllRestartPolicies \<and>
     (c_Strict q \<longrightarrow> c_Group q \<noteq> []) \<and> (c_Image q = [] \<longrightarrow> c_ISO q \<noteq> [] \<and> 0 < c_DiskGiB q) \<and>
     (c_Isolation q \<noteq> ''vm'' \<longrightarrow> c_ISO q = [] \<and> c_DiskGiB q = 0 \<and> c_Device q = []) \<and>
     (c_Kernel q \<noteq> [] \<longrightarrow> c_Isolation q \<in> {''microvm'', ''sandbox''}) \<and>
     distinct (c_ExtraNetworks q) \<and> (c_NetworkID q \<noteq> [] \<longrightarrow> c_NetworkID q \<notin> set (c_ExtraNetworks q))"

lemma not_named_twice: "\<not> named_twice seen ns \<Longrightarrow> distinct ns \<and> set ns \<inter> set seen = {}"
  by (induction seen ns rule: named_twice.induct) auto

text \<open>The request with its defaults filled in, and the conditions \<open>normalize\<close> checks on it.\<close>

definition filled :: "create_params \<Rightarrow> string \<Rightarrow> create_params" where
  "filled p device =
     p\<lparr>c_Device := device,
       c_DiskGiB := (if c_Image p = [] \<and> c_DiskGiB p = 0 then 10 else c_DiskGiB p),
       c_RestartPolicy := (if c_RestartPolicy p = [] then ''always'' else c_RestartPolicy p),
       c_VCPU := (if c_VCPU p = 0 then 1 else c_VCPU p),
       c_MemoryMiB := (if c_MemoryMiB p = 0 then 512 else c_MemoryMiB p)\<rparr>"

definition accepts :: "create_params \<Rightarrow> bool" where
  "accepts p \<longleftrightarrow>
     name_pattern (c_Name p) \<and> validateEnv (c_Env p) = Inr () \<and> validateFiles (c_Files p) = Inr () \<and>
     int (length (c_ExtraNetworks p)) \<le> 3 \<and>
     \<not> named_twice (if c_NetworkID p \<noteq> [] then [c_NetworkID p] else []) (c_ExtraNetworks p) \<and>
     (c_Group p \<noteq> [] \<longrightarrow> name_pattern (c_Group p)) \<and> (c_Strict p \<longrightarrow> c_Group p \<noteq> []) \<and>
     int (length (c_NodeSelector p)) \<le> 8 \<and> validate_selector_pairs (c_NodeSelector p) = Inr () \<and>
     c_Isolation p \<in> set AllIsolations \<and> (c_Image p = [] \<longrightarrow> c_ISO p \<noteq> []) \<and>
     (c_ISO p \<noteq> [] \<longrightarrow> c_Isolation p = ''vm'') \<and>
     (c_Kernel p \<noteq> [] \<longrightarrow> c_Isolation p \<in> {''microvm'', ''sandbox''}) \<and>
     (c_DiskGiB p \<noteq> 0 \<longrightarrow> c_Isolation p = ''vm'') \<and> int (length (c_Command p)) \<le> 64"

definition in_bounds :: "create_params \<Rightarrow> bool" where
  "in_bounds p \<longleftrightarrow>
     0 \<le> c_DiskGiB p \<and> c_DiskGiB p \<le> MaxDiskGiB \<and> c_RestartPolicy p \<in> set AllRestartPolicies \<and>
     MinVCPU \<le> c_VCPU p \<and> c_VCPU p \<le> MaxVCPU \<and>
     MinMemoryMiB \<le> c_MemoryMiB p \<and> c_MemoryMiB p \<le> MaxMemoryMiB"

lemma conditional_updates:
  "(if b then p\<lparr>c_DiskGiB := n\<rparr> else p) = p\<lparr>c_DiskGiB := if b then n else c_DiskGiB p\<rparr>"
  "(if b then p\<lparr>c_RestartPolicy := s\<rparr> else p) = p\<lparr>c_RestartPolicy := if b then s else c_RestartPolicy p\<rparr>"
  "(if b then p\<lparr>c_VCPU := n\<rparr> else p) = p\<lparr>c_VCPU := if b then n else c_VCPU p\<rparr>"
  "(if b then p\<lparr>c_MemoryMiB := n\<rparr> else p) = p\<lparr>c_MemoryMiB := if b then n else c_MemoryMiB p\<rparr>"
  by simp_all

lemma unit_Inr: "(\<exists>u. r = Inr u \<and> P u) \<longleftrightarrow> r = Inr () \<and> P ()" for r :: "'e + unit"
  by auto

lemma if_Inr: "(if b then r else Inr ()) = Inr () \<longleftrightarrow> (b \<longrightarrow> r = Inr ())" for r :: "'e + unit"
  by auto

lemma check_neg: "check bad code = Inr () \<longleftrightarrow> \<not> bad"
  by simp

lemma normalize_eq_Inr:
  "normalize p = Inr q \<longleftrightarrow> accepts p \<and>
     (\<exists>device. checkDevice (c_Device p) (c_Isolation p) = Inr device \<and> q = filled p device \<and> in_bounds q)"
  unfolding normalize_def Let_def conditional_updates bindR_eq_Inr unit_Inr check_neg if_Inr
    validate_Name_iff validate_OneOf_iff accepts_def in_bounds_def filled_def
  by (simp split del: if_split cong: if_cong add: not_less) (auto split del: if_split)

lemma normalize_ok:
  assumes "normalize p = Inr q"
  shows "params_ok q"
proof -
  from assms obtain dev where dev: "checkDevice (c_Device p) (c_Isolation p) = Inr dev"
    and q: "q = filled p dev" "in_bounds q" and p: "accepts p"
    unfolding normalize_eq_Inr by auto
  from p have "distinct (c_ExtraNetworks p)"
    and "c_NetworkID p \<noteq> [] \<longrightarrow> c_NetworkID p \<notin> set (c_ExtraNetworks p)"
    unfolding accepts_def
    using not_named_twice [of "if c_NetworkID p \<noteq> [] then [c_NetworkID p] else []" "c_ExtraNetworks p"]
    by auto
  moreover have "c_Name q = c_Name p" "c_Isolation q = c_Isolation p" "c_Strict q = c_Strict p"
    "c_Group q = c_Group p" "c_Image q = c_Image p" "c_ISO q = c_ISO p" "c_Kernel q = c_Kernel p"
    "c_ExtraNetworks q = c_ExtraNetworks p" "c_NetworkID q = c_NetworkID p" "c_Device q = dev"
    by (simp_all add: q(1) filled_def)
  moreover from p have "name_pattern (c_Name p)" "c_Isolation p \<in> set AllIsolations"
    "c_Strict p \<longrightarrow> c_Group p \<noteq> []" "c_Image p = [] \<longrightarrow> c_ISO p \<noteq> []"
    "c_Isolation p \<noteq> ''vm'' \<longrightarrow> c_ISO p = []"
    "c_Kernel p \<noteq> [] \<longrightarrow> c_Isolation p \<in> {''microvm'', ''sandbox''}"
    unfolding accepts_def by blast+
  moreover have "c_Image p = [] \<longrightarrow> 0 < c_DiskGiB q"
    using q(2) by (auto simp: q(1) filled_def in_bounds_def)
  moreover have "c_Isolation p \<noteq> ''vm'' \<longrightarrow> c_DiskGiB q = 0"
    using p by (auto simp: q(1) filled_def accepts_def)
  moreover from checkDevice_result [OF dev] have "c_Isolation p \<noteq> ''vm'' \<longrightarrow> dev = []" by blast
  ultimately show ?thesis
    using q(2) unfolding params_ok_def in_bounds_def by presburger
qed

lemma filled_again: "in_bounds (filled p dev) \<Longrightarrow> filled (filled p dev) dev = filled p dev"
  by (auto simp: filled_def in_bounds_def AllRestartPolicies_def)

lemma accepts_filled:
  assumes "accepts p"
  shows "accepts (filled p dev)"
  using assms unfolding accepts_def by (auto simp: filled_def)

lemma normalize_again:
  assumes "normalize p = Inr q"
  shows "normalize q = Inr q"
proof -
  from assms obtain dev where dev: "checkDevice (c_Device p) (c_Isolation p) = Inr dev"
    and q: "q = filled p dev" "in_bounds q" and p: "accepts p"
    unfolding normalize_eq_Inr by auto
  have "checkDevice (c_Device q) (c_Isolation q) = Inr dev"
    using checkDevice_again [OF dev] by (simp add: q(1) filled_def)
  with q filled_again [of p dev] accepts_filled [OF p] show ?thesis
    unfolding normalize_eq_Inr by auto
qed

lemma normalize_keeps:
  "normalize p = Inr q \<Longrightarrow> c_ProjectID q = c_ProjectID p \<and> c_Name q = c_Name p \<and> c_Strict q = c_Strict p"
  by (auto simp: normalize_eq_Inr filled_def)

section \<open>The invariant of the table\<close>

text \<open>
  A row is sized within the limits, and when it says its disk is parked, the row
  is migrating and the disk is in the directory.
\<close>

definition row_ok :: "(string \<rightharpoonup> disk) \<Rightarrow> instance_row \<Rightarrow> bool" where
  "row_ok files r \<longleftrightarrow>
     MinVCPU \<le> i_VCPU r \<and> i_VCPU r \<le> MaxVCPU \<and>
     MinMemoryMiB \<le> i_MemoryMiB r \<and> i_MemoryMiB r \<le> MaxMemoryMiB \<and>
     (i_DiskParked r \<longrightarrow> i_Migrating r \<and>
        (\<exists>name. parkedName (i_ID r) = Some name \<and> files name \<noteq> None)) \<and>
     (i_DiskFrom r \<noteq> [] \<longrightarrow> i_DiskParked r)"

definition inst_wf :: "inst_db \<Rightarrow> bool" where
  "inst_wf db \<longleftrightarrow>
     distinct (map i_ID (instances db)) \<and>
     distinct (map (\<lambda>r. (i_ProjectID r, i_Name r)) (instances db)) \<and>
     list_all (row_ok (parked db)) (instances db)"

lemma wf_update_expecting:
  assumes "inst_wf db"
    and "\<And>r. P r \<Longrightarrow> i_ID (f r) = i_ID r"
    and "\<And>r. P r \<Longrightarrow> i_ProjectID (f r) = i_ProjectID r \<and> i_Name (f r) = i_Name r"
    and "\<And>r. r \<in> set (instances db) \<Longrightarrow> P r \<Longrightarrow> row_ok (parked db) r \<Longrightarrow> row_ok (parked db) (f r)"
  shows "inst_wf (snd (update_expecting e P f db))"
proof -
  have "map i_ID (update_where P f (instances db)) = map i_ID (instances db)"
    using assms(2) by (rule map_update_where)
  moreover have "map (\<lambda>r. (i_ProjectID r, i_Name r)) (update_where P f (instances db)) =
      map (\<lambda>r. (i_ProjectID r, i_Name r)) (instances db)"
    using assms(3) by (intro map_update_where) simp
  moreover have "list_all (row_ok (parked db)) (update_where P f (instances db))"
    using assms(1,4) by (auto simp: list_all_iff Ball_update_where inst_wf_def)
  ultimately show ?thesis using assms(1) by (simp add: update_expecting_def inst_wf_def)
qed

lemma wf_insert:
  "inst_wf db \<Longrightarrow> row_ok (parked db) r \<Longrightarrow> inst_wf (snd (repo_inst_insert db r))"
  by (auto simp: inst_wf_def repo_inst_insert_def repo_inst_nameTaken_def list_ex_iff)

lemma wf_setObserved: "inst_wf db \<Longrightarrow> inst_wf (snd (repo_inst_setObserved db i n st m c x now))"
  unfolding repo_inst_setObserved_def by (rule wf_update_expecting) (auto simp: row_ok_def)

lemma wf_assign: "inst_wf db \<Longrightarrow> inst_wf (snd (repo_inst_assign db i n now))"
  unfolding repo_inst_assign_def by (rule wf_update_expecting) (auto simp: row_ok_def)

lemma wf_releasePlacement: "inst_wf db \<Longrightarrow> inst_wf (snd (repo_inst_releasePlacement db i n now))"
  unfolding repo_inst_releasePlacement_def by (rule wf_update_expecting) (auto simp: row_ok_def)

lemma wf_setDesired: "inst_wf db \<Longrightarrow> inst_wf (snd (repo_inst_setDesired db i st now))"
  unfolding repo_inst_setDesired_def by (rule wf_update_expecting) (auto simp: row_ok_def)

lemma wf_setSize:
  "inst_wf db \<Longrightarrow> MinVCPU \<le> v \<Longrightarrow> v \<le> MaxVCPU \<Longrightarrow> MinMemoryMiB \<le> m \<Longrightarrow> m \<le> MaxMemoryMiB \<Longrightarrow>
   inst_wf (snd (repo_inst_setSize db i v m now))"
  unfolding repo_inst_setSize_def by (rule wf_update_expecting) (auto simp: row_ok_def)

lemma wf_setMigrating:
  "inst_wf db \<Longrightarrow>
   (park \<Longrightarrow> mig \<and> (\<exists>name. parkedName i = Some name \<and> parked db name \<noteq> None)) \<Longrightarrow>
   (from \<noteq> [] \<Longrightarrow> park) \<Longrightarrow>
   inst_wf (snd (repo_inst_setMigrating db i mig park from now))"
  unfolding repo_inst_setMigrating_def by (rule wf_update_expecting) (auto simp: row_ok_def)

lemma wf_hold: "inst_wf db \<Longrightarrow> inst_wf (repo_inst_setObservedMessage db i m now)"
  unfolding repo_inst_setObservedMessage_def inst_wf_def
  by (auto simp: list_all_iff Ball_update_where row_ok_def map_update_where)

lemma parkedName_inj: "parkedName i = Some n \<Longrightarrow> parkedName j = Some n \<Longrightarrow> i = j"
  by (auto simp: parkedName_def split: if_splits)

text \<open>A disk may be forgotten once no row of that id claims it.\<close>

lemma wf_forgetParked:
  assumes "inst_wf db" and "\<And>r. r \<in> set (instances db) \<Longrightarrow> i_ID r = i \<Longrightarrow> \<not> i_DiskParked r"
  shows "inst_wf (forgetParked d db i)"
  using assms unfolding inst_wf_def forgetParked_def list_all_iff row_ok_def
  by (auto split: option.splits) (metis parkedName_inj)+

lemma wf_delete:
  assumes "inst_wf db"
  shows "inst_wf (snd (repo_inst_delete db i))"
  using assms by (auto simp: inst_wf_def repo_inst_delete_def list_all_iff distinct_map_filter)

lemma row_of_id:
  "inst_wf db \<Longrightarrow> r \<in> set (instances db) \<Longrightarrow> repo_inst_get db (i_ID r) = Inr r"
  by (simp add: repo_inst_get_def inst_wf_def find_key)

lemma getD: "repo_inst_get db i = Inr r \<Longrightarrow> r \<in> set (instances db) \<and> i_ID r = i"
  by (auto simp: repo_inst_get_def split: option.splits dest: find_SomeD)

lemma wf_create:
  assumes wf: "inst_wf db"
  shows "inst_wf (fst (snd (inst_create d new_id now db w p)))"
proof (cases "normalize p")
  case (Inr n)
  have ok: "row_ok (parked db) (new_instance new_id now p n a net e k f)" for a net e k f
    using normalize_ok [OF Inr] by (simp add: row_ok_def new_instance_def params_ok_def)
  have ins: "inst_wf db'" if "repo_inst_insert db (new_instance new_id now p n a net e k f) = (res, db')"
    for a net e k f res db'
    using wf_insert [OF wf ok] that by (metis snd_conv)
  show ?thesis
    using Inr wf
    by (auto simp: inst_create_def Let_def split: sum.splits prod.splits option.splits dest: ins)
qed (simp add: inst_create_def wf)

lemma wf_service_setDesired:
  "inst_wf db \<Longrightarrow> inst_wf (snd (inst_setDesired now db ref pid st))"
  using wf_setDesired [of db _ st now]
  by (auto simp: inst_setDesired_def split: sum.splits prod.splits) (metis snd_conv)+

lemma wf_service_resize:
  assumes wf: "inst_wf db"
  shows "inst_wf (snd (inst_resize d now db w ref pid v m))"
proof -
  have size: "inst_wf db'" if "repo_inst_setSize db i v' m' now = (res, db')"
    "\<not> v' < MinVCPU" "\<not> MaxVCPU < v'" "\<not> m' < MinMemoryMiB" "\<not> MaxMemoryMiB < m'" for i v' m' res db'
    using wf_setSize [OF wf, of v' m' i now] that by simp
  define v' where "v' r = (if v = 0 then i_VCPU r else v)" for r :: instance_row
  define m' where "m' r = (if m = 0 then i_MemoryMiB r else m)" for r :: instance_row
  show ?thesis
    unfolding inst_resize_def Let_def v'_def [symmetric] m'_def [symmetric]
    using wf by (auto split: sum.splits prod.splits dest: size)
qed

lemma wf_service_delete:
  assumes wf: "inst_wf db"
  shows "inst_wf (fst (snd (inst_delete d db w ref pid)))"
proof -
  have "inst_wf (forgetParked d db' i)" if "repo_inst_delete db i = (Inr u, db')" for i u db'
    using wf_delete [OF wf, of i] that
    by (intro wf_forgetParked) (auto simp: repo_inst_delete_def split: if_splits)
  moreover have "inst_wf db'" if "repo_inst_delete db i = (Inl e, db')" for i e db'
    using wf_delete [OF wf, of i] that by simp
  ultimately show ?thesis
    using wf by (auto simp: inst_delete_def Let_def split: sum.splits prod.splits option.splits)
qed

lemma wf_recorded: "inst_wf (db\<lparr>recorded := es\<rparr>) = inst_wf db"
  by (simp add: inst_wf_def)

lemma wf_service_reportObserved:
  assumes wf: "inst_wf db"
  shows "inst_wf (snd (inst_reportObserved d now db n i obs m r x))"
proof -
  have "inst_wf db'" if "repo_inst_setObserved db i n st m r x now = (res, db')" for st res db'
    using wf_setObserved [OF wf, of i n st m r x now] that by simp
  with wf show ?thesis
    by (auto simp: inst_reportObserved_def wf_recorded split: sum.splits prod.splits inst_error.splits)
qed

lemma wf_service_releasePlacement:
  assumes wf: "inst_wf db"
  shows "inst_wf (fst (snd (inst_releasePlacement d now db w i n)))"
  using wf_releasePlacement [OF wf, of i n now]
  by (auto simp: inst_releasePlacement_def split: sum.splits prod.splits option.splits)

lemma wf_service_assign: "inst_wf db \<Longrightarrow> inst_wf (snd (inst_assign now db i n))"
  using wf_assign [of db i n now] by (auto simp: inst_assign_def split: sum.splits prod.splits)

lemma wf_service_hold: "inst_wf db \<Longrightarrow> inst_wf (snd (inst_holdPlacement now db i m))"
  by (simp add: inst_holdPlacement_def wf_hold)

lemma wf_beginMigration:
  assumes wf: "inst_wf db"
  shows "inst_wf (snd (beginMigration now db i n))"
proof -
  have "inst_wf db'" if "repo_inst_setDesired db i DesiredStopped now = (res, db')" for res db'
    using wf_setDesired [OF wf, of i DesiredStopped now] that by simp
  moreover have "inst_wf db''" if "inst_wf db'" "repo_inst_setMigrating db' i True False [] now = (res, db'')"
    for res db' db''
    using wf_setMigrating [OF that(1), of False True i "[]" now] that by simp
  ultimately show ?thesis
    using wf by (auto simp: beginMigration_def split: sum.splits prod.splits)
qed

lemma wf_parkDisk:
  assumes wf: "inst_wf db"
  shows "inst_wf (snd (parkDisk d now db n i content))"
proof -
  have "row_ok files r \<Longrightarrow> row_ok (files(name \<mapsto> content)) r" for files r name
    by (cases "parkedName (i_ID r) = Some name") (auto simp: row_ok_def)
  with wf have more: "inst_wf (db\<lparr>parked := (parked db)(name \<mapsto> content)\<rparr>)" for name
    by (auto simp: inst_wf_def list_all_iff)
  have "inst_wf db'" if "parkedName i = Some name"
    "repo_inst_setMigrating (db\<lparr>parked := (parked db)(name \<mapsto> content)\<rparr>) i True True n now = (res, db')"
    for name res db'
    using wf_setMigrating [OF more [of name], of True True i n now] that by simp
  with wf show ?thesis
    by (auto simp: parkDisk_def Let_def split: sum.splits prod.splits option.splits)
qed

lemma wf_finishMigration:
  assumes wf: "inst_wf db"
  shows "inst_wf (snd (finishMigration d now db n i))"
proof -
  have a: "inst_wf db'" if "repo_inst_setMigrating db i False False [] now = (res, db')" for res db'
    using wf_setMigrating [OF wf, of False False i "[]" now] that by simp
  have b: "inst_wf db''" if "inst_wf db'" "repo_inst_setDesired db' i DesiredRunning now = (res, db'')"
    for res db' db''
    using wf_setDesired [OF that(1), of i DesiredRunning now] that by simp
  have c1: "\<forall>r\<in>set (instances db'). i_ID r = i \<longrightarrow> \<not> i_DiskParked r"
    if "repo_inst_setMigrating db i False False [] now = (res, db')" for res db'
    using that unfolding repo_inst_setMigrating_def update_expecting_def
    by (cases "list_ex (\<lambda>r. i_ID r = i) (instances db)")
      (auto simp: update_where_def list_ex_iff split: if_splits)
  have c2: "\<forall>r\<in>set (instances db''). i_ID r = i \<longrightarrow> \<not> i_DiskParked r"
    if "repo_inst_setDesired db' i DesiredRunning now = (res, db'')"
      "\<forall>r\<in>set (instances db'). i_ID r = i \<longrightarrow> \<not> i_DiskParked r" for res db' db''
  proof -
    have "\<forall>r\<in>set (update_where (\<lambda>r. i_ID r = i) (\<lambda>r. r\<lparr>i_Desired := DesiredRunning,
        i_UpdatedAt := now\<rparr>) (instances db')). i_ID r = i \<longrightarrow> \<not> i_DiskParked r"
      unfolding Ball_update_where using that(2) by auto
    with that show ?thesis
      by (auto simp: repo_inst_setDesired_def update_expecting_def split: if_splits)
  qed
  have "inst_wf (forgetParked d db'' i)"
    if "repo_inst_setMigrating db i False False [] now = (res, db')"
      "repo_inst_setDesired db' i DesiredRunning now = (res', db'')" for res res' db' db''
    using c2 [OF that(2) c1 [OF that(1)]]
    by (intro wf_forgetParked [OF b [OF a [OF that(1)] that(2)]]) blast
  with a b wf show ?thesis
    by (auto simp: finishMigration_def Let_def split: sum.splits prod.splits)
qed

text \<open>One call of the module by a handler, an agent or the scheduler.\<close>

inductive inst_step :: "'w inst_deps \<Rightarrow> inst_db \<Rightarrow> inst_db \<Rightarrow> bool" for d where
  create: "inst_step d db (fst (snd (inst_create d new_id now db w params)))"
| desired: "inst_step d db (snd (inst_setDesired now db ref projectID st))"
| resize: "inst_step d db (snd (inst_resize d now db w ref projectID vcpu mem))"
| delete: "inst_step d db (fst (snd (inst_delete d db w ref projectID)))"
| report: "inst_step d db (snd (inst_reportObserved d now db nodeID iid obs msg restarts exitCode))"
| release: "inst_step d db (fst (snd (inst_releasePlacement d now db w iid nodeID)))"
| assign: "inst_step d db (snd (inst_assign now db iid nodeID))"
| hold: "inst_step d db (snd (inst_holdPlacement now db iid reason))"
| begin_move: "inst_step d db (snd (beginMigration now db iid nodeID))"
| park: "inst_step d db (snd (parkDisk d now db nodeID iid content))"
| finish_move: "inst_step d db (snd (finishMigration d now db nodeID iid))"

inductive_cases inst_stepE: "inst_step d db db'"

lemma inst_step_wf: "inst_step d db db' \<Longrightarrow> inst_wf db \<Longrightarrow> inst_wf db'"
  by (erule inst_stepE)
    (simp_all add: wf_create wf_service_setDesired wf_service_resize wf_service_delete
      wf_service_reportObserved wf_service_releasePlacement wf_service_assign wf_service_hold
      wf_beginMigration wf_parkDisk wf_finishMigration)

abbreviation empty_inst_db :: inst_db where
  "empty_inst_db \<equiv> \<lparr>instances = [], parked = Map.empty, recorded = []\<rparr>"

lemma reachable_inst_wf: "(inst_step d)\<^sup>*\<^sup>* empty_inst_db db \<Longrightarrow> inst_wf db"
proof (induction rule: rtranclp_induct)
  case base
  show ?case by (simp add: inst_wf_def)
qed (rule inst_step_wf)

section \<open>Tenants\<close>

lemma getIn_project: "inst_getIn db ref pid = Inr r \<Longrightarrow> i_ProjectID r = pid \<and> r \<in> set (instances db)"
  by (auto simp: inst_getIn_def repo_inst_byName_def Let_def
      split: sum.splits if_splits inst_error.splits option.splits dest: getD find_SomeD)

text \<open>An update or a deletion by id leaves the rows of every other project alone.\<close>

lemma same_project:
  assumes "inst_wf db" "r \<in> set (instances db)" "q \<in> set (instances db)" "i_ID q = i_ID r"
  shows "i_ProjectID q = i_ProjectID r"
  using distinct_map_eq [of i_ID "instances db" q r] assms unfolding inst_wf_def by blast

lemma others_kept_update:
  assumes wf: "inst_wf db" and r: "r \<in> set (instances db)"
    and f: "\<And>q. i_ProjectID (f q) = i_ProjectID q"
  shows "filter (\<lambda>q. i_ProjectID q \<noteq> i_ProjectID r)
           (instances (snd (update_expecting e (\<lambda>q. i_ID q = i_ID r) f db))) =
         filter (\<lambda>q. i_ProjectID q \<noteq> i_ProjectID r) (instances db)"
proof -
  have "filter (\<lambda>q. i_ProjectID q \<noteq> i_ProjectID r) (update_where (\<lambda>q. i_ID q = i_ID r) f xs) =
      filter (\<lambda>q. i_ProjectID q \<noteq> i_ProjectID r) xs" if "set xs \<subseteq> set (instances db)" for xs
    using that
  proof (induction xs)
    case (Cons q xs)
    then show ?case using same_project [OF wf r, of q] by (simp add: update_where_def f)
  qed (simp add: update_where_def)
  then show ?thesis by (simp add: update_expecting_def)
qed

lemma others_kept_delete:
  assumes wf: "inst_wf db" and r: "r \<in> set (instances db)"
  shows "filter (\<lambda>q. i_ProjectID q \<noteq> i_ProjectID r) (instances (snd (repo_inst_delete db (i_ID r)))) =
         filter (\<lambda>q. i_ProjectID q \<noteq> i_ProjectID r) (instances db)"
proof -
  have "filter (\<lambda>q. i_ID q \<noteq> i_ID r \<and> i_ProjectID q \<noteq> i_ProjectID r) (instances db) =
      filter (\<lambda>q. i_ProjectID q \<noteq> i_ProjectID r) (instances db)"
    by (rule filter_cong [OF refl]) (use same_project [OF wf r] in blast)
  then show ?thesis by (simp add: repo_inst_delete_def)
qed

lemma instances_forgetParked [simp]: "instances (forgetParked d db i) = instances db"
  by (simp add: forgetParked_def split: option.splits)

text \<open>
  C10: every sequence of calls leaves the instance table with unique ids, unique
  names per project, sizes within the limits, and, for every row whose disk is
  said to be parked, a disk in the directory and a move under way.
\<close>

theorem instance_table_invariant:
  assumes "(inst_step d)\<^sup>*\<^sup>* empty_inst_db db"
  shows "inst_wf db"
  by (rule reachable_inst_wf [OF assms])

definition tiny_params :: create_params where
  "tiny_params = \<lparr>c_Device = [], c_ProjectID = ''p1'', c_Name = ''web'', c_Group = [], c_Strict = False,
     c_NodeSelector = [], c_Env = [], c_Files = [], c_ExtraNetworks = [], c_Keys = [],
     c_Isolation = ''vm'', c_Image = ''debian'', c_ISO = [], c_Kernel = [], c_DiskGiB = 0,
     c_FirewallID = [], c_Command = [], c_NetworkID = [], c_RestartPolicy = [], c_VCPU = 0,
     c_MemoryMiB = 0\<rparr>"

definition no_deps :: "unit inst_deps" where
  "no_deps = \<lparr>networks = None, keys = None, quota = None, volumes = None, forwards = None,
     balancers = None, logs = None, execs = None, alerts = None, devices = None, firewalls = None,
     sealing = \<lparr>SealEnvJSON = \<lambda>_. Inl ErrNoKey, SealFilesJSON = \<lambda>_. Inl ErrNoKey, ActiveID = []\<rparr>,
     records_events = True, dataDir = ''/var/lib/marstack''\<rparr>"

definition tiny_db :: inst_db where
  "tiny_db = fst (snd (inst_create no_deps ''i_1'' 5 empty_inst_db () tiny_params))"

lemma tiny_reachable: "(inst_step no_deps)\<^sup>*\<^sup>* empty_inst_db tiny_db"
  unfolding tiny_db_def by (rule r_into_rtranclp, rule inst_step.create)

theorem instance_table_invariant_witness: "inst_wf tiny_db \<and> map i_ID (instances tiny_db) = [''i_1'']"
proof
  show "inst_wf tiny_db" by (rule instance_table_invariant [OF tiny_reachable])
qed code_simp

text \<open>
  A request that \<open>normalize\<close> accepts comes out within every limit (sizes, disk,
  isolation, restart policy, strict only with a group, devices only for a vm, no
  network named twice), and normalising it again changes nothing.
\<close>

lemma normalize_bounds_idempotent:
  assumes "normalize p = Inr q"
  shows "params_ok q \<and> normalize q = Inr q"
  using assms normalize_ok normalize_again by blast

theorem normalize_bounds_idempotent_witness:
  "(case normalize tiny_params of
      Inr q \<Rightarrow> params_ok q \<and> normalize q = Inr q \<and> c_VCPU q = 1 \<and> c_MemoryMiB q = 512
    | Inl _ \<Rightarrow> False)"
proof -
  have "case normalize tiny_params of Inr q \<Rightarrow> c_VCPU q = 1 \<and> c_MemoryMiB q = 512 | Inl _ \<Rightarrow> False"
    by code_simp
  with normalize_bounds_idempotent [of tiny_params] show ?thesis
    by (auto split: sum.splits)
qed

definition rows_of_others :: "string \<Rightarrow> inst_db \<Rightarrow> instance_row list" where
  "rows_of_others projectID db = filter (\<lambda>q. i_ProjectID q \<noteq> projectID) (instances db)"

text \<open>
  C9: a project can start, stop, resize and delete only its own instances: each
  of these calls, whatever id or name it is given, leaves the rows of every
  other project untouched.
\<close>

theorem tenant_isolation:
  assumes wf: "inst_wf db"
  shows "rows_of_others projectID (snd (inst_setDesired now db ref projectID st)) =
           rows_of_others projectID db \<and>
         rows_of_others projectID (snd (inst_resize d now db w ref projectID vcpu mem)) =
           rows_of_others projectID db \<and>
         rows_of_others projectID (fst (snd (inst_delete d db w ref projectID))) =
           rows_of_others projectID db"
proof -
  have des: "rows_of_others projectID db' = rows_of_others projectID db"
    if "inst_getIn db ref projectID = Inr r" "repo_inst_setDesired db (i_ID r) st now = (res, db')"
    for r res db'
    using others_kept_update [OF wf, of r "\<lambda>r. r\<lparr>i_Desired := st, i_UpdatedAt := now\<rparr>"] that
      getIn_project [OF that(1)]
    by (auto simp: rows_of_others_def repo_inst_setDesired_def) (metis snd_conv)
  have siz: "rows_of_others projectID db' = rows_of_others projectID db"
    if "inst_getIn db ref projectID = Inr r" "repo_inst_setSize db (i_ID r) v m now = (res, db')"
    for r v m res db'
    using others_kept_update [OF wf, of r "\<lambda>r. r\<lparr>i_VCPU := v, i_MemoryMiB := m, i_UpdatedAt := now\<rparr>"] that
      getIn_project [OF that(1)]
    by (auto simp: rows_of_others_def repo_inst_setSize_def) (metis snd_conv)
  have del: "rows_of_others projectID db' = rows_of_others projectID db"
    if "inst_getIn db ref projectID = Inr r" "repo_inst_delete db (i_ID r) = (res, db')"
    for r res db'
    using others_kept_delete [OF wf, of r] that getIn_project [OF that(1)]
    by (auto simp: rows_of_others_def)
  have forget: "rows_of_others projectID (forgetParked d db' i) = rows_of_others projectID db'" for db' i
    by (simp add: rows_of_others_def)
  show ?thesis
  proof (intro conjI)
    show "rows_of_others projectID (snd (inst_setDesired now db ref projectID st)) =
        rows_of_others projectID db"
      by (auto simp: inst_setDesired_def split: sum.split prod.split dest: des)
    show "rows_of_others projectID (snd (inst_resize d now db w ref projectID vcpu mem)) =
        rows_of_others projectID db"
    proof (cases "inst_getIn db ref projectID")
      case (Inr r)
      note rest = siz [OF Inr]
      from Inr show ?thesis
        by (simp add: inst_resize_def Let_def split: sum.split prod.split) (blast dest: rest)
    qed (simp add: inst_resize_def)
    show "rows_of_others projectID (fst (snd (inst_delete d db w ref projectID))) =
        rows_of_others projectID db"
      by (auto simp: inst_delete_def Let_def forget split: sum.split prod.split option.split dest: del)
  qed
qed

theorem tenant_isolation_witness:
  "rows_of_others ''p2'' (fst (snd (inst_delete no_deps tiny_db () ''i_1'' ''p2''))) =
     rows_of_others ''p2'' tiny_db \<and> length (rows_of_others ''p2'' tiny_db) = 1"
proof
  show "rows_of_others ''p2'' (fst (snd (inst_delete no_deps tiny_db () ''i_1'' ''p2''))) =
      rows_of_others ''p2'' tiny_db"
    using tenant_isolation [OF reachable_inst_wf [OF tiny_reachable], of "''p2''" 0 "''i_1''"
        DesiredStopped no_deps "()" 0 0] by blast
qed code_simp

section \<open>Placement and migration\<close>

lemma get_update_expecting:
  assumes "\<And>r. P r \<Longrightarrow> i_ID (f r) = i_ID r" "repo_inst_get db i = Inr r"
  shows "repo_inst_get (snd (update_expecting e P f db)) i = Inr (if P r then f r else r)"
proof -
  have "find (\<lambda>r. i_ID r = i) (update_where P f (instances db)) =
      map_option (\<lambda>r. if P r then f r else r) (find (\<lambda>r. i_ID r = i) (instances db))"
    by (rule find_update_where) (rule assms(1))
  moreover have "\<not> P r" if "\<not> list_ex P (instances db)"
    using getD [OF assms(2)] that by (auto simp: list_ex_iff)
  ultimately show ?thesis
    using assms(2) by (auto simp: update_expecting_def repo_inst_get_def split: option.splits)
qed

lemma fst_update_expecting: "fst (update_expecting e P f db) = Inr () \<longleftrightarrow> list_ex P (instances db)"
  by (simp add: update_expecting_def)

lemma parked_update_expecting [simp]: "parked (snd (update_expecting e P f db)) = parked db"
  by (simp add: update_expecting_def)

lemma only_row:
  assumes "inst_wf db" "repo_inst_get db i = Inr r" "list_ex (\<lambda>q. i_ID q = i \<and> Q q) (instances db)"
  shows "Q r"
proof -
  from assms(3) obtain q where q: "q \<in> set (instances db)" "i_ID q = i" "Q q"
    by (auto simp: list_ex_iff)
  with row_of_id [OF assms(1), of q] assms(2) show ?thesis by simp
qed

text \<open>Reading back the row a conditional update was aimed at.\<close>

lemma update_expecting_Inr:
  assumes wf: "inst_wf db" and got: "repo_inst_get db i = Inr r"
    and call: "update_expecting e (\<lambda>q. i_ID q = i \<and> Q q) f db = (Inr u, db')"
    and f: "\<And>q. i_ID (f q) = i_ID q"
  shows "Q r \<and> repo_inst_get db' i = Inr (f r) \<and> parked db' = parked db"
proof -
  let ?P = "\<lambda>q. i_ID q = i \<and> Q q"
  from call have "list_ex ?P (instances db)" by (simp add: update_expecting_def split: if_splits)
  with only_row [OF wf got] have "Q r" by blast
  moreover have "repo_inst_get (snd (update_expecting e ?P f db)) i = Inr (if ?P r then f r else r)"
    using f got by (intro get_update_expecting) auto
  moreover from getD [OF got] have "i_ID r = i" by blast
  moreover have "parked (snd (update_expecting e ?P f db)) = parked db" by simp
  ultimately show ?thesis using call by simp
qed

lemma update_expecting_all:
  "update_expecting e (\<lambda>q. i_ID q = i) f db = update_expecting e (\<lambda>q. i_ID q = i \<and> True) f db"
  by simp

lemma assign_Inr:
  assumes "inst_wf db" "repo_inst_get db i = Inr r" "inst_assign now db i n = (Inr u, db')"
  shows "i_NodeID r = [] \<and> repo_inst_get db' i = Inr (r\<lparr>i_NodeID := n, i_UpdatedAt := now\<rparr>) \<and>
    parked db' = parked db"
proof -
  from assms(3) obtain v where "repo_inst_assign db i n now = (Inr v, db')"
    by (auto simp: inst_assign_def split: prod.splits sum.splits)
  from update_expecting_Inr [OF assms(1,2) this [unfolded repo_inst_assign_def]] show ?thesis by simp
qed

lemma release_Inr:
  assumes "inst_wf db" "repo_inst_get db i = Inr r" "repo_inst_releasePlacement db i n now = (Inr u, db')"
  shows "i_NodeID r = n \<and> parked db' = parked db \<and> (\<exists>r'. repo_inst_get db' i = Inr r' \<and>
    i_NodeID r' = [] \<and> i_Migrating r' = i_Migrating r \<and> i_DiskParked r' = i_DiskParked r \<and>
    i_DiskFrom r' = i_DiskFrom r)"
  using update_expecting_Inr [OF assms(1,2) assms(3) [unfolded repo_inst_releasePlacement_def]] by simp

lemma park_Inr:
  assumes wf: "inst_wf db" and call: "parkDisk d now db n i content = (Inr u, db')"
  shows "\<exists>r' name. repo_inst_get db' i = Inr r' \<and> i_NodeID r' = n \<and> i_Migrating r' \<and> i_DiskParked r' \<and>
    i_DiskFrom r' = n \<and> parkedName i = Some name \<and> parked db' name = Some content \<and> dataDir d \<noteq> []"
proof -
  from call obtain r name v where got: "repo_inst_get db i = Inr r" and r: "i_NodeID r = n"
    and d: "dataDir d \<noteq> []" and name: "parkedName i = Some name"
    and upd: "repo_inst_setMigrating (db\<lparr>parked := (parked db)(name \<mapsto> content)\<rparr>) i True True n now = (Inr v, db')"
    by (auto simp: parkDisk_def Let_def split: sum.splits if_splits option.splits prod.splits)
  let ?db = "db\<lparr>parked := (parked db)(name \<mapsto> content)\<rparr>"
  have got': "repo_inst_get ?db i = Inr r" using got by (simp add: repo_inst_get_def)
  from getD [OF got] have i: "i_ID r = i" by blast
  have "db' = snd (repo_inst_setMigrating ?db i True True n now)" using upd by simp
  moreover have "repo_inst_get (snd (repo_inst_setMigrating ?db i True True n now)) i =
      Inr (r\<lparr>i_Migrating := True, i_DiskParked := True, i_DiskFrom := n, i_UpdatedAt := now\<rparr>)"
    unfolding repo_inst_setMigrating_def
    using get_update_expecting [OF _ got', of "\<lambda>r. i_ID r = i"] i by simp
  moreover have "parked (snd (repo_inst_setMigrating ?db i True True n now)) name = Some content"
    by (simp add: repo_inst_setMigrating_def)
  ultimately show ?thesis using d name r by simp
qed

text \<open>
  C15: a disk that the old node parks is the disk the new node is given. After the
  old node parks it, the move releases the instance and places it on another
  node; that node then fetches exactly the bytes that were parked, while the
  node they came from is refused them.
\<close>

theorem migration_delivers_disk:
  assumes wf: "inst_wf db"
    and park: "parkDisk d t1 db old iid content = (Inr (), db1)"
    and release: "inst_releasePlacement d t2 db1 w iid old = (res, db2, w')"
    and assign: "inst_assign t3 db2 iid new = (Inr (), db3)"
    and moved: "new \<noteq> old"
  shows "parkedDisk d db3 new iid = Inr content \<and>
         parkedDisk d db1 old iid = Inl (Conflict ''disk_came_from_here'')"
proof -
  have wf1: "inst_wf db1" using wf_parkDisk [OF wf, of d t1 old iid content] park by simp
  from park_Inr [OF wf park] obtain r1 name where r1: "repo_inst_get db1 iid = Inr r1"
    "i_NodeID r1 = old" "i_Migrating r1" "i_DiskParked r1" "i_DiskFrom r1 = old"
    and disk: "parkedName iid = Some name" "parked db1 name = Some content" "dataDir d \<noteq> []" by blast
  have wf2: "inst_wf db2" using wf_service_releasePlacement [OF wf1, of d t2 w iid old] release by simp
  have "list_ex (\<lambda>r. i_ID r = iid \<and> i_NodeID r = old) (instances db1)"
    using getD [OF r1(1)] r1(2) by (auto simp: list_ex_iff)
  then obtain v where "repo_inst_releasePlacement db1 iid old t2 = (Inr v, db2)"
    using release by (auto simp: inst_releasePlacement_def repo_inst_releasePlacement_def
        update_expecting_def split: option.splits prod.splits)
  from release_Inr [OF wf1 r1(1) this] r1 obtain r2 where r2: "repo_inst_get db2 iid = Inr r2"
    "i_Migrating r2" "i_DiskParked r2" "i_DiskFrom r2 = old" and p2: "parked db2 = parked db1" by auto
  from assign_Inr [OF wf2 r2(1) assign] p2
  have r3: "repo_inst_get db3 iid = Inr (r2\<lparr>i_NodeID := new, i_UpdatedAt := t3\<rparr>)" "parked db3 = parked db1"
    by simp_all
  show ?thesis using r1 r2 r3 disk moved by (simp add: parkedDisk_def)
qed

theorem migration_delivers_disk_witness:
  "(let db0 = snd (inst_assign 6 tiny_db ''i_1'' ''n1'');
        db = snd (beginMigration 7 db0 ''i_1'' ''n1'');
        db1 = snd (parkDisk no_deps 8 db ''n1'' ''i_1'' [1, 2, 3]);
        db2 = fst (snd (inst_releasePlacement no_deps 9 db1 () ''i_1'' ''n1''));
        db3 = snd (inst_assign 10 db2 ''i_1'' ''n2'')
    in parkedDisk no_deps db3 ''n2'' ''i_1'' = Inr [1, 2, 3])"
proof -
  define db0 where "db0 = snd (inst_assign 6 tiny_db ''i_1'' ''n1'')"
  define db where "db = snd (beginMigration 7 db0 ''i_1'' ''n1'')"
  define db1 where "db1 = snd (parkDisk no_deps 8 db ''n1'' ''i_1'' [1, 2, 3])"
  define db2 where "db2 = fst (snd (inst_releasePlacement no_deps 9 db1 () ''i_1'' ''n1''))"
  define db3 where "db3 = snd (inst_assign 10 db2 ''i_1'' ''n2'')"
  have "inst_wf db" unfolding db_def db0_def
    by (intro wf_beginMigration wf_service_assign reachable_inst_wf [OF tiny_reachable])
  moreover have "fst (parkDisk no_deps 8 db ''n1'' ''i_1'' [1, 2, 3]) = Inr ()"
    unfolding db_def db0_def by code_simp
  then have "parkDisk no_deps 8 db ''n1'' ''i_1'' [1, 2, 3] = (Inr (), db1)"
    unfolding db1_def by (metis prod.collapse)
  moreover have "inst_releasePlacement no_deps 9 db1 () ''i_1'' ''n1'' =
      (fst (inst_releasePlacement no_deps 9 db1 () ''i_1'' ''n1''), db2, ())"
    unfolding db2_def by (simp add: prod_eq_iff)
  moreover have "fst (inst_assign 10 db2 ''i_1'' ''n2'') = Inr ()"
    unfolding db2_def db1_def db_def db0_def by code_simp
  then have "inst_assign 10 db2 ''i_1'' ''n2'' = (Inr (), db3)"
    unfolding db3_def by (metis prod.collapse)
  moreover have "''n2'' \<noteq> ''n1''" by simp
  ultimately have "parkedDisk no_deps db3 ''n2'' ''i_1'' = Inr [1, 2, 3]"
    using migration_delivers_disk [of db no_deps 8 "''n1''" "''i_1''" "[1, 2, 3]" db1 9 "()"
        "fst (inst_releasePlacement no_deps 9 db1 () ''i_1'' ''n1'')" db2 "()" 10 "''n2''" db3]
    by blast
  then show ?thesis
    unfolding Let_def db0_def [symmetric] db_def [symmetric] db1_def [symmetric] db2_def [symmetric]
      db3_def [symmetric] .
qed

text \<open>
  C23: placing an instance is a compare-and-set: once a call has placed it on a
  node, every further placement is refused as instance_already_placed and
  changes nothing, until something releases it.
\<close>

theorem assign_once:
  assumes wf: "inst_wf db" and first: "inst_assign t db iid n = (Inr (), db1)" and n: "n \<noteq> []"
  shows "inst_assign t' db1 iid n' = (Inl (Conflict ''instance_already_placed''), db1) \<and>
         (\<forall>r\<in>set (instances db1). i_ID r = iid \<longrightarrow> i_NodeID r = n)"
proof -
  from first have ex: "list_ex (\<lambda>r. i_ID r = iid \<and> i_NodeID r = []) (instances db)"
    and db1: "db1 = snd (repo_inst_assign db iid n t)"
    by (auto simp: inst_assign_def repo_inst_assign_def update_expecting_def split: if_splits)
  then obtain q where q: "q \<in> set (instances db)" "i_ID q = iid" by (auto simp: list_ex_iff)
  from row_of_id [OF wf q(1)] q have got: "repo_inst_get db iid = Inr q" by simp
  from assign_Inr [OF wf got first] have got1: "repo_inst_get db1 iid = Inr (q\<lparr>i_NodeID := n, i_UpdatedAt := t\<rparr>)"
    by blast
  have wf1: "inst_wf db1" using wf_service_assign [OF wf, of t iid n] first by simp
  have on: "\<forall>r\<in>set (instances db1). i_ID r = iid \<longrightarrow> i_NodeID r = n"
    using row_of_id [OF wf1] got1 by auto
  with n have "\<not> list_ex (\<lambda>r. i_ID r = iid \<and> i_NodeID r = []) (instances db1)"
    by (auto simp: list_ex_iff)
  with on show ?thesis
    by (simp add: inst_assign_def repo_inst_assign_def update_expecting_def inst_translate_def)
qed

theorem assign_once_witness:
  "inst_assign 8 (snd (inst_assign 6 tiny_db ''i_1'' ''n1'')) ''i_1'' ''n2'' =
     (Inl (Conflict ''instance_already_placed''), snd (inst_assign 6 tiny_db ''i_1'' ''n1''))"
proof -
  have "fst (inst_assign 6 tiny_db ''i_1'' ''n1'') = Inr ()" by code_simp
  then have "inst_assign 6 tiny_db ''i_1'' ''n1'' = (Inr (), snd (inst_assign 6 tiny_db ''i_1'' ''n1''))"
    by (metis prod.collapse)
  from assign_once [OF reachable_inst_wf [OF tiny_reachable] this, of 8 "''n2''"] show ?thesis by simp
qed

text \<open>
  C24: only the node an instance is placed on may report on it: a report from any
  other node is refused and changes neither the table nor the event log.
\<close>

theorem report_only_from_owner:
  assumes "\<forall>r\<in>set (instances db). i_ID r = iid \<longrightarrow> i_NodeID r \<noteq> nodeID"
  shows "snd (inst_reportObserved d now db nodeID iid observed message restarts exitCode) = db \<and>
         isl (fst (inst_reportObserved d now db nodeID iid observed message restarts exitCode))"
proof -
  from assms have "\<not> list_ex (\<lambda>r. i_ID r = iid \<and> i_NodeID r = nodeID) (instances db)"
    by (auto simp: list_ex_iff)
  then have "repo_inst_setObserved db iid nodeID st message restarts exitCode now = (Inl inst_errNotFound, db)" for st
    by (simp add: repo_inst_setObserved_def update_expecting_def)
  then show ?thesis by (auto simp: inst_reportObserved_def split: sum.splits)
qed

theorem report_only_from_owner_witness:
  "snd (inst_reportObserved no_deps 9 tiny_db ''n2'' ''i_1'' ''running'' [] 0 None) = tiny_db"
proof -
  have "list_all (\<lambda>r. i_ID r = ''i_1'' \<longrightarrow> i_NodeID r \<noteq> ''n2'') (instances tiny_db)" by code_simp
  then have "\<forall>r\<in>set (instances tiny_db). i_ID r = ''i_1'' \<longrightarrow> i_NodeID r \<noteq> ''n2''"
    by (simp add: list_all_iff)
  from report_only_from_owner [OF this] show ?thesis by blast
qed

end
