(* ===== verification/Ipam.thy ===== *)
theory Ipam
  imports Kernel
begin

text \<open>
  Address arithmetic of src/internal/platform/network/ipam.go, on the values of
  package net/netip: an address is its family and its number, a prefix is an
  address and a length. The texts of addresses and prefixes are their values
  here, since \<open>String\<close> is injective on valid ones. \<open>addPowerOfTwo\<close> works on bytes,
  as in the code, and is then shown to be addition.
\<close>

section \<open>Values of net/netip\<close>

datatype addr = Addr (addr_is4: bool) (addr_val: nat)
datatype prefix = Prefix (pfx_addr: addr) (pfx_bits: nat)

text \<open>\<open>Addr.BitLen\<close>.\<close>

definition bit_len :: "addr \<Rightarrow> nat" where
  "bit_len a = (if addr_is4 a then 32 else 128)"

definition addr_ok :: "addr \<Rightarrow> bool" where
  "addr_ok a \<longleftrightarrow> addr_val a < 2 ^ bit_len a"

text \<open>\<open>Addr.Next\<close> and \<open>Addr.Prev\<close>; the zero \<open>Addr\<close> they return at the ends is None.\<close>

definition addr_next :: "addr \<Rightarrow> addr option" where
  "addr_next a =
     (if addr_val a + 1 < 2 ^ bit_len a then Some (Addr (addr_is4 a) (addr_val a + 1)) else None)"

definition addr_prev :: "addr \<Rightarrow> addr option" where
  "addr_prev a = (if addr_val a = 0 then None else Some (Addr (addr_is4 a) (addr_val a - 1)))"

definition host_bits :: "prefix \<Rightarrow> nat" where
  "host_bits p = bit_len (pfx_addr p) - pfx_bits p"

definition prefix_ok :: "prefix \<Rightarrow> bool" where
  "prefix_ok p \<longleftrightarrow> addr_ok (pfx_addr p) \<and> pfx_bits p \<le> bit_len (pfx_addr p)"

definition masked :: "prefix \<Rightarrow> prefix" where
  "masked p =
     Prefix (Addr (addr_is4 (pfx_addr p))
        (addr_val (pfx_addr p) div 2 ^ host_bits p * 2 ^ host_bits p)) (pfx_bits p)"

definition contains :: "prefix \<Rightarrow> addr \<Rightarrow> bool" where
  "contains p a \<longleftrightarrow> addr_is4 a = addr_is4 (pfx_addr p) \<and>
     addr_val a div 2 ^ host_bits p = addr_val (pfx_addr p) div 2 ^ host_bits p"

definition overlaps :: "prefix \<Rightarrow> prefix \<Rightarrow> bool" where
  "overlaps p q \<longleftrightarrow> addr_is4 (pfx_addr p) = addr_is4 (pfx_addr q) \<and>
     (let k = bit_len (pfx_addr p) - min (pfx_bits p) (pfx_bits q)
      in addr_val (pfx_addr p) div 2 ^ k = addr_val (pfx_addr q) div 2 ^ k)"

text \<open>\<open>Addr.AsSlice\<close> and \<open>AddrFromSlice\<close>: big-endian bytes, four or sixteen of them.\<close>

fun to_bytes :: "nat \<Rightarrow> nat \<Rightarrow> 8 word list" where
  "to_bytes 0 v = []"
| "to_bytes (Suc n) v = to_bytes n (v div 256) @ [word_of_nat v]"

definition as_slice :: "addr \<Rightarrow> 8 word list" where
  "as_slice a = to_bytes (bit_len a div 8) (addr_val a)"

fun of_bytes :: "nat \<Rightarrow> 8 word list \<Rightarrow> nat" where
  "of_bytes v [] = v"
| "of_bytes v (b # bs) = of_bytes (256 * v + unat b) bs"

definition addr_from_slice :: "bool \<Rightarrow> 8 word list \<Rightarrow> addr" where
  "addr_from_slice is4 raw = Addr is4 (of_bytes 0 raw)"

section \<open>ipam.go\<close>

datatype ipam_error = TooSmall | SpaceExhausted | NoFreeSlice | NoFreeAddress | CannotHold | NoFreePrefix

text \<open>
  The loop of \<open>addPowerOfTwo\<close>, from byte i down to 0. The result is the bytes and
  the carry that is left.
\<close>

fun carry_loop :: "8 word list \<Rightarrow> 8 word \<Rightarrow> nat \<Rightarrow> 8 word list \<times> 8 word" where
  "carry_loop raw carry i =
     (let sum = raw ! i + carry; wrapped = sum < raw ! i; raw' = raw[i := sum]
      in if \<not> wrapped then (raw', 0)
         else case i of 0 \<Rightarrow> (raw', 1) | Suc j \<Rightarrow> carry_loop raw' 1 j)"

definition addPowerOfTwo :: "addr \<Rightarrow> nat \<Rightarrow> addr \<times> bool" where
  "addPowerOfTwo a e =
     (let raw = as_slice a
      in if length raw - 1 < e div 8 then (a, True)
         else (case carry_loop raw (push_bit (e mod 8) 1) (length raw - 1 - e div 8) of
                 (raw', carry) \<Rightarrow>
                   if carry \<noteq> 0 then (a, True) else (addr_from_slice (addr_is4 a) raw', False)))"

definition advance :: "prefix \<Rightarrow> ipam_error + prefix" where
  "advance p =
     (case addPowerOfTwo (pfx_addr p) (bit_len (pfx_addr p) - pfx_bits p) of
        (nxt, carried) \<Rightarrow> if carried then Inl SpaceExhausted else Inr (Prefix nxt (pfx_bits p)))"

definition gatewayOf :: "prefix \<Rightarrow> addr option" where
  "gatewayOf p = addr_next (pfx_addr p)"

definition sliceBitsFor :: "prefix \<Rightarrow> nat" where
  "sliceBitsFor p = (if addr_is4 (pfx_addr p) then 26 else 64)"

definition overlapsAny :: "prefix \<Rightarrow> prefix list \<Rightarrow> bool" where
  "overlapsAny candidate taken = list_ex (\<lambda>other. overlaps other candidate) taken"

section \<open>Bytes and numbers\<close>

lemma length_to_bytes [simp]: "length (to_bytes n v) = n"
  by (induction n v rule: to_bytes.induct) auto

lemma of_bytes_acc: "of_bytes v bs = v * 256 ^ length bs + of_bytes 0 bs"
proof (induction bs arbitrary: v)
  case (Cons b bs)
  show ?case using Cons [of "256 * v + unat b"] Cons [of "unat b"]
    by (simp add: algebra_simps)
qed simp

lemma of_bytes_snoc: "of_bytes v (bs @ [b]) = 256 * of_bytes v bs + unat b"
  by (induction v bs rule: of_bytes.induct) auto

lemma of_to_bytes: "of_bytes 0 (to_bytes n v) = v mod 256 ^ n"
proof (induction n v rule: to_bytes.induct)
  case (2 n v)
  have "unat (word_of_nat v :: 8 word) = v mod 256" by (simp add: unat_of_nat)
  then have "of_bytes 0 (to_bytes (Suc n) v) = 256 * ((v div 256) mod 256 ^ n) + v mod 256"
    using 2 by (simp add: of_bytes_snoc)
  then show ?case by (simp add: mod_mult2_eq)
qed simp

lemma byte_less: "unat b < 256" for b :: "8 word"
  using unsigned_less [of b] by simp

lemma of_bytes_less: "of_bytes 0 bs < 256 ^ length bs"
proof (induction bs rule: rev_induct)
  case (snoc b bs)
  with snoc byte_less [of b] show ?case by (simp add: of_bytes_snoc)
qed simp

lemma of_bytes_append: "of_bytes 0 (as @ bs) = of_bytes 0 as * 256 ^ length bs + of_bytes 0 bs"
proof (induction "as" arbitrary: bs rule: rev_induct)
  case (snoc a "as")
  show ?case using snoc [of "a # bs"] snoc [of "[a]"] of_bytes_acc [of "unat a" bs]
    by (simp add: algebra_simps)
qed simp

lemma of_bytes_update:
  assumes "i < length bs"
  shows "of_bytes 0 (bs[i := b]) + unat (bs ! i) * 256 ^ (length bs - 1 - i) =
         of_bytes 0 bs + unat b * 256 ^ (length bs - 1 - i)"
proof -
  define l where "l = take i bs"
  define r where "r = drop (Suc i) bs"
  have bs: "bs = l @ bs ! i # r" using assms by (simp add: l_def r_def id_take_nth_drop)
  have upd: "bs[i := b] = l @ b # r" using assms by (simp add: l_def r_def upd_conv_take_nth_drop)
  have len: "length bs - 1 - i = length r" by (simp add: r_def)
  have val: "of_bytes 0 (l @ c # r) = of_bytes 0 l * 256 ^ (Suc (length r)) + unat c * 256 ^ length r + of_bytes 0 r" for c
    using of_bytes_append [of l "c # r"] of_bytes_acc [of "unat c" r] by simp
  show ?thesis
    unfolding len upd using val [of b] val [of "bs ! i"] bs by simp
qed

lemma wrapped_iff: "(x + c < x) \<longleftrightarrow> 256 \<le> unat x + unat c" for x c :: "8 word"
  by (simp add: word_less_nat_alt unat_plus_if_size word_size) (use byte_less [of c] in auto)

lemma unat_sum: "unat (x + c) = (if 256 \<le> unat x + unat c then unat x + unat c - 256 else unat x + unat c)"
  for x c :: "8 word"
  by (auto simp: unat_plus_if_size word_size)

text \<open>One byte of the loop, as arithmetic on the whole number.\<close>

lemma carry_byte:
  assumes "i < length raw"
  shows "of_bytes 0 (raw[i := raw ! i + carry]) +
           (if raw ! i + carry < raw ! i then 256 * 256 ^ (length raw - 1 - i) else 0) =
         of_bytes 0 raw + unat carry * 256 ^ (length raw - 1 - i)"
proof -
  let ?x = "raw ! i" and ?K = "256 ^ (length raw - 1 - i) :: nat"
  define new where "new = of_bytes 0 (raw[i := ?x + carry])"
  have upd: "new + unat ?x * ?K = of_bytes 0 raw + unat (?x + carry) * ?K"
    unfolding new_def by (rule of_bytes_update [OF assms])
  show ?thesis
  proof (cases "256 \<le> unat ?x + unat carry")
    case True
    then have "unat (?x + carry) + 256 = unat ?x + unat carry" by (simp add: unat_sum)
    then have "unat (?x + carry) * ?K + 256 * ?K = unat ?x * ?K + unat carry * ?K"
      by (metis add_mult_distrib)
    with upd True show ?thesis by (simp add: wrapped_iff new_def)
  next
    case False
    then have "unat (?x + carry) = unat ?x + unat carry" by (simp add: unat_sum)
    then have "unat (?x + carry) * ?K = unat ?x * ?K + unat carry * ?K"
      by (metis add_mult_distrib)
    with upd False show ?thesis by (simp add: wrapped_iff new_def)
  qed
qed

declare carry_loop.simps [simp del]

lemma carry_loop_spec:
  assumes "i < length raw" "carry_loop raw carry i = (raw', c)"
  shows "length raw' = length raw \<and> (c = 0 \<or> c = 1) \<and>
    of_bytes 0 raw' + unat c * 256 ^ length raw =
    of_bytes 0 raw + unat carry * 256 ^ (length raw - 1 - i)"
  using assms
proof (induction i arbitrary: raw carry)
  case 0
  have p: "256 * 256 ^ (length raw - 1 - 0) = (256 ^ length raw :: nat)" using 0(1) by (cases raw) auto
  note byte = carry_byte [OF 0(1), of carry]
  show ?case
  proof (cases "raw ! 0 + carry < raw ! 0")
    case True
    with 0(2) have "raw' = raw[0 := raw ! 0 + carry]" "c = 1" by (auto simp: carry_loop.simps Let_def)
    with byte True p show ?thesis by simp
  next
    case False
    with 0(2) have "raw' = raw[0 := raw ! 0 + carry]" "c = 0" by (auto simp: carry_loop.simps Let_def)
    with byte False show ?thesis by simp
  qed
next
  case (Suc i)
  have p: "256 * 256 ^ (length raw - 1 - Suc i) = (256 ^ (length raw - 1 - i) :: nat)"
    using Suc.prems(1) by (metis Suc_diff_Suc less_diff_conv plus_1_eq_Suc add.commute power_Suc)
  note byte = carry_byte [OF Suc.prems(1), of carry]
  let ?raw = "raw[Suc i := raw ! Suc i + carry]"
  show ?case
  proof (cases "raw ! Suc i + carry < raw ! Suc i")
    case True
    with Suc.prems(2) have rest: "carry_loop ?raw 1 i = (raw', c)"
      by (subst (asm) carry_loop.simps) (simp add: Let_def)
    from Suc.IH [OF _ rest] Suc.prems(1) have "length raw' = length raw \<and> (c = 0 \<or> c = 1) \<and>
        of_bytes 0 raw' + unat c * 256 ^ length raw = of_bytes 0 ?raw + 256 ^ (length raw - 1 - i)"
      by simp
    with byte True p show ?thesis by simp
  next
    case False
    with Suc.prems(2) have "raw' = ?raw" "c = 0" by (subst (asm) carry_loop.simps, simp add: Let_def)+
    with byte False show ?thesis by simp
  qed
qed

lemma bit_len_cases: "bit_len a = 32 \<or> bit_len a = 128"
  by (simp add: bit_len_def)

lemma length_as_slice [simp]: "length (as_slice a) = bit_len a div 8"
  by (simp add: as_slice_def)

lemma bytes_of_width: "256 ^ (bit_len a div 8) = (2 ^ bit_len a :: nat)"
proof -
  have "(256::nat) = 2 ^ 8" by simp
  then have "256 ^ (bit_len a div 8) = (2 ^ (8 * (bit_len a div 8)) :: nat)" by (simp only: power_mult)
  also have "8 * (bit_len a div 8) = bit_len a" using bit_len_cases [of a] by auto
  finally show ?thesis .
qed

lemma of_as_slice: "addr_ok a \<Longrightarrow> of_bytes 0 (as_slice a) = addr_val a"
  by (simp add: as_slice_def of_to_bytes bytes_of_width addr_ok_def)

lemma unat_carry: "unat (2 ^ (e mod 8) :: 8 word) = 2 ^ (e mod 8)"
proof -
  have "list_all (\<lambda>k. unat (2 ^ k :: 8 word) = 2 ^ k) [0..<8]" by code_simp
  moreover have "e mod 8 < 8" by simp
  ultimately show ?thesis by (simp add: list_all_iff)
qed

lemma addPowerOfTwo_sum:
  assumes ok: "addr_ok a"
  shows "addPowerOfTwo a e =
    (if addr_val a + 2 ^ e < 2 ^ bit_len a then (Addr (addr_is4 a) (addr_val a + 2 ^ e), False)
     else (a, True))"
proof (cases "bit_len a div 8 - 1 < e div 8")
  case True
  then have "bit_len a \<le> e" using bit_len_cases [of a] by auto
  then have "(2::nat) ^ bit_len a \<le> 2 ^ e" by (rule power_increasing) simp
  then have "\<not> addr_val a + 2 ^ e < 2 ^ bit_len a" by linarith
  with True show ?thesis by (simp add: addPowerOfTwo_def Let_def)
next
  case False
  let ?L = "bit_len a div 8" and ?raw = "as_slice a"
  have L: "0 < ?L" using bit_len_cases [of a] by auto
  have len: "length ?raw = ?L" by simp
  obtain raw' c where loop: "carry_loop ?raw (push_bit (e mod 8) 1) (?L - 1 - e div 8) = (raw', c)"
    by fastforce
  have idx: "?L - 1 - (?L - 1 - e div 8) = e div 8" using False by simp
  have "(2::nat) ^ (e mod 8) * 256 ^ (e div 8) = 2 ^ (e mod 8) * (2 ^ 8) ^ (e div 8)" by simp
  also have "\<dots> = 2 ^ (e mod 8 + 8 * (e div 8))" by (simp only: power_add power_mult)
  also have "\<dots> = 2 ^ e" by simp
  finally have pow: "(2::nat) ^ (e mod 8) * 256 ^ (e div 8) = 2 ^ e" .
  from carry_loop_spec [OF _ loop] L len idx pow
  have res: "length raw' = ?L" "c = 0 \<or> c = 1"
    and sum: "of_bytes 0 raw' + unat c * 2 ^ bit_len a = addr_val a + 2 ^ e"
    by (simp_all add: unat_carry of_as_slice [OF ok] bytes_of_width)
  have lt: "of_bytes 0 raw' < 2 ^ bit_len a"
    using of_bytes_less [of raw'] res(1) by (simp add: bytes_of_width)
  show ?thesis
  proof (cases "c = 0")
    case True
    with sum lt loop False len show ?thesis
      by (simp add: addPowerOfTwo_def Let_def addr_from_slice_def)
  next
    case c1: False
    with res(2) sum have "\<not> addr_val a + 2 ^ e < 2 ^ bit_len a" by auto
    with c1 loop False len show ?thesis by (simp add: addPowerOfTwo_def Let_def)
  qed
qed

lemma addPowerOfTwo_ok:
  assumes "addPowerOfTwo a e = (b, False)"
  shows "addr_ok b \<and> addr_is4 b = addr_is4 a"
proof -
  let ?L = "bit_len a div 8"
  have L: "0 < ?L" using bit_len_cases [of a] by auto
  from assms obtain raw' c where
    loop: "carry_loop (as_slice a) (push_bit (e mod 8) 1) (?L - 1 - e div 8) = (raw', c)"
    and b: "b = Addr (addr_is4 a) (of_bytes 0 raw')"
    by (auto simp: addPowerOfTwo_def Let_def addr_from_slice_def split: if_splits prod.splits)
  from carry_loop_spec [OF _ loop] L have "length raw' = ?L" by simp
  with of_bytes_less [of raw'] have "of_bytes 0 raw' < 2 ^ bit_len a" by (simp add: bytes_of_width)
  with b show ?thesis by (simp add: addr_ok_def bit_len_def)
qed

lemma advance_step:
  assumes "advance p = Inr q"
  shows "addr_ok (pfx_addr q) \<and> addr_is4 (pfx_addr q) = addr_is4 (pfx_addr p) \<and>
    pfx_bits q = pfx_bits p \<and>
    (addr_ok (pfx_addr p) \<longrightarrow> addr_val (pfx_addr q) = addr_val (pfx_addr p) + 2 ^ host_bits p)"
  using assms addPowerOfTwo_ok addPowerOfTwo_sum
  by (auto simp: advance_def host_bits_def split: prod.splits if_splits)

section \<open>Scanning for a free range\<close>

text \<open>
  The loop that \<open>nextSlice\<close> and \<open>freePrefix\<close> share: while the candidate lies inside
  the range, take it if it is free, else advance. The addresses grow, so it ends.
\<close>

function scan :: "prefix \<Rightarrow> (prefix \<Rightarrow> bool) \<Rightarrow> ipam_error \<Rightarrow> prefix \<Rightarrow> ipam_error + prefix" where
  "scan net free none c =
     (if contains net (pfx_addr c)
      then (if free c then Inr c
            else case advance c of Inl e \<Rightarrow> Inl e | Inr c' \<Rightarrow> scan net free none c')
      else Inl none)"
  by pat_completeness auto
termination
proof (relation "measure (\<lambda>(net, free, none, c). let a = pfx_addr c in
    if addr_ok a then 2 ^ bit_len a - addr_val a else Suc (2 ^ bit_len a))", goal_cases)
  case (2 net free none c c')
  note adv = advance_step [OF 2(3)]
  then have w: "bit_len (pfx_addr c') = bit_len (pfx_addr c)" by (simp add: bit_len_def)
  have lt: "addr_val (pfx_addr c') < 2 ^ bit_len (pfx_addr c)" using adv w by (simp add: addr_ok_def)
  show ?case
  proof (cases "addr_ok (pfx_addr c)")
    case True
    with adv have "addr_val (pfx_addr c) < addr_val (pfx_addr c')" by simp
    with adv w lt True show ?thesis by (simp add: Let_def diff_less_mono2)
  next
    case False
    with adv w show ?thesis by (simp add: Let_def)
  qed
qed simp

declare scan.simps [simp del]

fun advance_times :: "nat \<Rightarrow> prefix \<Rightarrow> ipam_error + prefix" where
  "advance_times 0 c = Inr c"
| "advance_times (Suc n) c = bindR (advance c) (advance_times n)"

definition nextSlice :: "prefix \<Rightarrow> prefix list \<Rightarrow> ipam_error + prefix" where
  "nextSlice network taken =
     (let bits = sliceBitsFor network
      in if bits \<le> pfx_bits network then Inl TooSmall
         else bindR (advance_times 1 (masked (Prefix (pfx_addr network) bits)))
                (scan network (\<lambda>c. c \<notin> set taken) NoFreeSlice))"

definition freePrefix :: "prefix \<Rightarrow> nat \<Rightarrow> prefix list \<Rightarrow> ipam_error + prefix" where
  "freePrefix supernet bits taken =
     (if bits < pfx_bits supernet then Inl CannotHold
      else scan supernet (\<lambda>c. \<not> overlapsAny c taken) NoFreePrefix
             (masked (Prefix (pfx_addr supernet) bits)))"

definition isBroadcast :: "prefix \<Rightarrow> addr \<Rightarrow> bool" where
  "isBroadcast sl a =
     (if \<not> addr_is4 (pfx_addr sl) then False
      else case addPowerOfTwo (pfx_addr sl) (32 - pfx_bits sl) of
             (lst, carried) \<Rightarrow> if carried then False else Some a = addr_prev lst)"

function address_loop :: "prefix \<Rightarrow> addr list \<Rightarrow> addr option \<Rightarrow> ipam_error + addr" where
  "address_loop sl taken None = Inl NoFreeAddress"
| "address_loop sl taken (Some a) =
     (if contains sl a
      then (if isBroadcast sl a then Inl NoFreeAddress
            else if a \<notin> set taken then Inr a
            else address_loop sl taken (addr_next a))
      else Inl NoFreeAddress)"
  by pat_completeness auto
termination
proof (relation "measure (\<lambda>(sl, taken, c). case c of None \<Rightarrow> 0
    | Some a \<Rightarrow> Suc (2 ^ bit_len a - addr_val a))", goal_cases)
  case (2 sl taken a)
  show ?case
  proof (cases "addr_next a")
    case (Some b)
    then have "addr_val a + 1 < 2 ^ bit_len a" "addr_val b = addr_val a + 1" "bit_len b = bit_len a"
      by (auto simp: addr_next_def bit_len_def split: if_splits)
    with Some show ?thesis by simp
  qed simp
qed simp

declare address_loop.simps(2) [simp del]

definition nextAddress :: "prefix \<Rightarrow> addr list \<Rightarrow> ipam_error + addr" where
  "nextAddress sl taken = address_loop sl taken (addr_next (pfx_addr sl))"

section \<open>What the scan finds\<close>

definition shifted :: "prefix \<Rightarrow> nat \<Rightarrow> prefix" where
  "shifted c k = Prefix (Addr (addr_is4 (pfx_addr c)) (addr_val (pfx_addr c) + k * 2 ^ host_bits c)) (pfx_bits c)"

lemma shifted_0 [simp]: "shifted c 0 = c"
  by (cases c; cases "pfx_addr c") (simp add: shifted_def)

lemma shifted_simps [simp]:
  "addr_is4 (pfx_addr (shifted c k)) = addr_is4 (pfx_addr c)" "pfx_bits (shifted c k) = pfx_bits c"
  "addr_val (pfx_addr (shifted c k)) = addr_val (pfx_addr c) + k * 2 ^ host_bits c"
  "host_bits (shifted c k) = host_bits c" "bit_len (pfx_addr (shifted c k)) = bit_len (pfx_addr c)"
  by (simp_all add: shifted_def host_bits_def bit_len_def)

lemma shifted_shifted: "shifted (shifted c j) k = shifted c (j + k)"
  by (simp add: shifted_def host_bits_def bit_len_def algebra_simps)

lemma advance_eq:
  assumes "addr_ok (pfx_addr c)"
  shows "advance c = (if addr_ok (pfx_addr (shifted c 1)) then Inr (shifted c 1) else Inl SpaceExhausted)"
  using addPowerOfTwo_sum [OF assms]
  by (auto simp: advance_def host_bits_def shifted_def addr_ok_def bit_len_def)

text \<open>Whether a candidate has passed the end of the range.\<close>

definition not_below :: "prefix \<Rightarrow> prefix \<Rightarrow> bool" where
  "not_below net c \<longleftrightarrow> addr_is4 (pfx_addr c) = addr_is4 (pfx_addr net) \<and>
     addr_val (pfx_addr net) div 2 ^ host_bits net \<le> addr_val (pfx_addr c) div 2 ^ host_bits net"

lemma not_below_shifted: "not_below net c \<Longrightarrow> not_below net (shifted c k)"
  unfolding not_below_def using div_le_mono [of "addr_val (pfx_addr c)"
    "addr_val (pfx_addr c) + k * 2 ^ host_bits c" "2 ^ host_bits net"] by simp

lemma left_for_good:
  assumes "not_below net c" "\<not> contains net (pfx_addr c)"
  shows "\<not> contains net (pfx_addr (shifted c k))"
proof -
  have "addr_val (pfx_addr c) div 2 ^ host_bits net \<le> addr_val (pfx_addr (shifted c k)) div 2 ^ host_bits net"
    by (rule div_le_mono) simp
  with assms show ?thesis by (auto simp: not_below_def contains_def)
qed

lemma scan_sound:
  assumes "scan net free none c = Inr s" "addr_ok (pfx_addr c)"
  shows "free s \<and> contains net (pfx_addr s) \<and> (\<exists>k. s = shifted c k) \<and> addr_ok (pfx_addr s)"
  using assms
proof (induction net free none c rule: scan.induct)
  case (1 net free none c)
  then show ?case
  proof (cases "contains net (pfx_addr c) \<and> \<not> free c")
    case True
    with 1(2) obtain c' where adv: "advance c = Inr c'" and rest: "scan net free none c' = Inr s"
      by (auto simp: scan.simps [of net free none c] split: sum.splits)
    with advance_eq [OF 1(3)] have c': "c' = shifted c 1" "addr_ok (pfx_addr c')" by (auto split: if_splits)
    from 1(1) [OF _ _ adv rest c'(2)] True obtain k where "free s" "contains net (pfx_addr s)" "s = shifted c' k"
      "addr_ok (pfx_addr s)" by auto
    with c' shifted_shifted show ?thesis by blast
  next
    case False
    with 1(2,3) have "s = c" "free c" "contains net (pfx_addr c)"
      by (auto simp: scan.simps [of net free none c] split: if_splits sum.splits)
    with 1(3) show ?thesis by (metis shifted_0)
  qed
qed

text \<open>The scan goes upwards, so it passes over no free part.\<close>

lemma scan_first:
  assumes "scan net free none c = Inr s" "addr_ok (pfx_addr c)" "free (shifted c k)"
  shows "addr_val (pfx_addr s) \<le> addr_val (pfx_addr (shifted c k))"
  using assms
proof (induction net free none c arbitrary: k rule: scan.induct)
  case (1 net free none c)
  show ?case
  proof (cases "contains net (pfx_addr c) \<and> \<not> free c")
    case True
    with 1(2) obtain c' where adv: "advance c = Inr c'" and rest: "scan net free none c' = Inr s"
      by (auto simp: scan.simps [of net free none c] split: sum.splits)
    with advance_eq [OF 1(3)] have c': "c' = shifted c 1" "addr_ok (pfx_addr c')" by (auto split: if_splits)
    from True 1(4) obtain j where j: "k = Suc j" by (cases k) auto
    then have "shifted c k = shifted c' j" by (simp add: c' shifted_shifted)
    with 1(1) [OF _ _ adv rest c'(2), of j] True 1(4) show ?thesis by simp
  next
    case False
    with 1(2) have "s = c" by (auto simp: scan.simps [of net free none c] split: if_splits sum.splits)
    then show ?thesis by simp
  qed
qed

lemma scan_complete:
  assumes "scan net free none c = Inl e" "addr_ok (pfx_addr c)" "not_below net c"
    and "contains net (pfx_addr (shifted c k))" "addr_ok (pfx_addr (shifted c k))"
  shows "\<not> free (shifted c k)"
  using assms
proof (induction net free none c arbitrary: k rule: scan.induct)
  case (1 net free none c)
  have in_c: "contains net (pfx_addr c)" using left_for_good [OF 1(4)] 1(5) by blast
  with 1(2) have nf: "\<not> free c" by (auto simp: scan.simps [of net free none c])
  show ?case
  proof (cases k)
    case 0
    with nf show ?thesis by simp
  next
    case (Suc j)
    have "addr_val (pfx_addr (shifted c 1)) \<le> addr_val (pfx_addr (shifted c k))" using Suc by simp
    with 1(6) have ok1: "addr_ok (pfx_addr (shifted c 1))"
      unfolding addr_ok_def shifted_simps(5) by linarith
    then have adv: "advance c = Inr (shifted c 1)" using advance_eq [OF 1(3)] by simp
    with 1(2) in_c nf have rest: "scan net free none (shifted c 1) = Inl e"
      by (simp add: scan.simps [of net free none c])
    have "shifted c k = shifted (shifted c 1) j" using Suc by (simp add: shifted_shifted)
    with 1(1) [OF in_c nf adv rest ok1 not_below_shifted [OF 1(4)]] 1(5,6) show ?thesis by metis
  qed
qed

section \<open>Slices of a network\<close>

definition network_ok :: "prefix \<Rightarrow> bool" where
  "network_ok p \<longleftrightarrow> prefix_ok p \<and> masked p = p"

definition is_slice :: "prefix \<Rightarrow> prefix \<Rightarrow> bool" where
  "is_slice network s \<longleftrightarrow>
     addr_is4 (pfx_addr s) = addr_is4 (pfx_addr network) \<and> pfx_bits s = sliceBitsFor network \<and>
     network_ok s \<and> contains network (pfx_addr s) \<and> pfx_addr s \<noteq> pfx_addr network"

lemma masked_fix: "masked p = p \<longleftrightarrow> 2 ^ host_bits p dvd addr_val (pfx_addr p)"
proof -
  have "masked p = p \<longleftrightarrow>
      addr_val (pfx_addr p) div 2 ^ host_bits p * 2 ^ host_bits p = addr_val (pfx_addr p)"
    by (cases p; cases "pfx_addr p") (auto simp: masked_def)
  then show ?thesis by (metis dvd_div_mult_self dvd_triv_right)
qed

lemma host_bits_less:
  "prefix_ok p \<Longrightarrow> pfx_bits p \<le> b \<Longrightarrow> host_bits (Prefix (pfx_addr p) b) \<le> host_bits p"
  by (simp add: host_bits_def)

text \<open>Cutting a range into equal parts: every aligned part is a shift of the first.\<close>

lemma aligned_is_shift:
  assumes net: "network_ok net" and bits: "pfx_bits net \<le> b"
    and s: "addr_is4 (pfx_addr s) = addr_is4 (pfx_addr net)" "pfx_bits s = b" "masked s = s"
      "contains net (pfx_addr s)"
  shows "\<exists>k. s = shifted (Prefix (pfx_addr net) b) k"
proof -
  let ?c = "Prefix (pfx_addr net) b"
  have hb: "host_bits s = host_bits ?c" using s by (simp add: host_bits_def bit_len_def)
  have le: "host_bits ?c \<le> host_bits net" using bits by (simp add: host_bits_def)
  have dn: "2 ^ host_bits net dvd addr_val (pfx_addr net)" using net by (simp add: network_ok_def masked_fix)
  with le have dc: "2 ^ host_bits ?c dvd addr_val (pfx_addr net)" by (meson dvd_trans le_imp_power_dvd)
  have ds: "2 ^ host_bits ?c dvd addr_val (pfx_addr s)" using s(3) hb by (simp add: masked_fix)
  have "addr_val (pfx_addr net) = addr_val (pfx_addr net) div 2 ^ host_bits net * 2 ^ host_bits net"
    using dn by simp
  also have "\<dots> = addr_val (pfx_addr s) div 2 ^ host_bits net * 2 ^ host_bits net"
    using s(4) by (simp add: contains_def)
  also have "\<dots> \<le> addr_val (pfx_addr s)" by (rule div_times_less_eq_dividend)
  finally have le': "addr_val (pfx_addr net) \<le> addr_val (pfx_addr s)" .
  with dc ds have "2 ^ host_bits ?c dvd addr_val (pfx_addr s) - addr_val (pfx_addr net)"
    by (intro dvd_diff_nat)
  then obtain k where "addr_val (pfx_addr s) - addr_val (pfx_addr net) = k * 2 ^ host_bits ?c"
    by (metis dvd_def mult.commute)
  with le' s have "s = shifted ?c k"
    by (cases s; cases "pfx_addr s") (auto simp: shifted_def)
  then show ?thesis ..
qed

lemma shift_is_aligned:
  assumes "network_ok net" "pfx_bits net \<le> b"
  shows "masked (shifted (Prefix (pfx_addr net) b) k) = shifted (Prefix (pfx_addr net) b) k"
proof -
  let ?c = "Prefix (pfx_addr net) b"
  have "host_bits ?c \<le> host_bits net" using assms(2) by (simp add: host_bits_def)
  moreover have "2 ^ host_bits net dvd addr_val (pfx_addr net)" using assms(1) by (simp add: network_ok_def masked_fix)
  ultimately have "2 ^ host_bits ?c dvd addr_val (pfx_addr net)" by (meson dvd_trans le_imp_power_dvd)
  then show ?thesis by (simp add: masked_fix)
qed

lemma masked_network:
  assumes "network_ok net" "pfx_bits net \<le> b"
  shows "masked (Prefix (pfx_addr net) b) = Prefix (pfx_addr net) b"
  using shift_is_aligned [OF assms, of 0] by simp

lemma not_below_self: "not_below net (shifted (Prefix (pfx_addr net) b) k)"
  unfolding not_below_def by (simp add: div_le_mono)

lemma slice_bits_le: "sliceBitsFor net \<le> bit_len (pfx_addr net)"
  by (simp add: sliceBitsFor_def bit_len_def)

lemma slice_is_shift:
  assumes net: "network_ok net" and b: "pfx_bits net \<le> sliceBitsFor net" and s: "is_slice net s"
  shows "\<exists>k. s = shifted (shifted (Prefix (pfx_addr net) (sliceBitsFor net)) 1) k"
proof -
  from s aligned_is_shift [OF net b, of s] obtain k where k: "s = shifted (Prefix (pfx_addr net) (sliceBitsFor net)) k"
    by (auto simp: is_slice_def network_ok_def)
  with s have "k \<noteq> 0" by (cases "k = 0") (auto simp: is_slice_def)
  then obtain j where "k = 1 + j" by (metis One_nat_def Suc_eq_plus1_left not0_implies_Suc)
  with k show ?thesis by (auto simp: shifted_shifted)
qed

lemma nextSlice_run:
  assumes "network_ok net" "pfx_bits net < sliceBitsFor net"
  shows "nextSlice net taken =
    bindR (advance (Prefix (pfx_addr net) (sliceBitsFor net))) (scan net (\<lambda>c. c \<notin> set taken) NoFreeSlice)"
proof -
  let ?c = "Prefix (pfx_addr net) (sliceBitsFor net)"
  have "masked ?c = ?c" using assms by (intro masked_network) simp_all
  with assms(2) show ?thesis by (simp add: nextSlice_def Let_def) (cases "advance ?c"; simp)
qed

lemma nextSlice_lowest:
  assumes net: "network_ok net" and run: "nextSlice net taken = Inr s" and t: "is_slice net t" "t \<notin> set taken"
  shows "addr_val (pfx_addr s) \<le> addr_val (pfx_addr t)"
proof -
  let ?c = "Prefix (pfx_addr net) (sliceBitsFor net)"
  have bits: "pfx_bits net < sliceBitsFor net" using run by (auto simp: nextSlice_def Let_def split: if_splits)
  have okc: "addr_ok (pfx_addr ?c)" using net by (simp add: network_ok_def prefix_ok_def)
  from run nextSlice_run [OF net bits, of taken] advance_eq [OF okc]
  have scan: "scan net (\<lambda>c. c \<notin> set taken) NoFreeSlice (shifted ?c 1) = Inr s" "addr_ok (pfx_addr (shifted ?c 1))"
    by (auto simp: bindR_eq_Inr split: if_splits)
  from slice_is_shift [OF net _ t(1)] bits obtain k where "t = shifted (shifted ?c 1) k" by auto
  with scan_first [OF scan, of k] t(2) show ?thesis by simp
qed

lemma nextSlice_result:
  assumes net: "network_ok net"
  shows "case nextSlice net taken of
      Inr s \<Rightarrow> is_slice net s \<and> s \<notin> set taken
    | Inl e \<Rightarrow> sliceBitsFor net \<le> pfx_bits net \<or> (\<forall>s. is_slice net s \<longrightarrow> s \<in> set taken)"
proof (cases "sliceBitsFor net \<le> pfx_bits net")
  case True
  then show ?thesis by (simp add: nextSlice_def)
next
  case False
  let ?b = "sliceBitsFor net" and ?free = "\<lambda>c. c \<notin> set taken"
  let ?c = "Prefix (pfx_addr net) ?b"
  have b: "pfx_bits net \<le> ?b" using False by simp
  have okc: "addr_ok (pfx_addr ?c)" using net by (simp add: network_ok_def prefix_ok_def)
  have run: "nextSlice net taken = bindR (advance ?c) (scan net ?free NoFreeSlice)"
    using nextSlice_run [OF net] False by simp
  note slice_shift = slice_is_shift [OF net b]
  show ?thesis
  proof (cases "addr_ok (pfx_addr (shifted ?c 1))")
    case ok1: True
    then have eq: "nextSlice net taken = scan net ?free NoFreeSlice (shifted ?c 1)"
      using run advance_eq [OF okc] by simp
    have found: "is_slice net s \<and> s \<notin> set taken" if "scan net ?free NoFreeSlice (shifted ?c 1) = Inr s" for s
    proof -
      from scan_sound [OF that ok1] obtain k where s: "s \<notin> set taken" "contains net (pfx_addr s)"
        "s = shifted ?c (1 + k)" "addr_ok (pfx_addr s)" by (auto simp: shifted_shifted)
      from s(3) have "pfx_bits s = ?b" "addr_is4 (pfx_addr s) = addr_is4 (pfx_addr net)" by simp_all
      moreover from s(3) have "addr_val (pfx_addr net) < addr_val (pfx_addr s)" by simp
      then have "pfx_addr s \<noteq> pfx_addr net" by auto
      moreover have "network_ok s"
        using s(3,4) shift_is_aligned [OF net b] slice_bits_le [of net]
        by (simp add: network_ok_def prefix_ok_def bit_len_def)
      ultimately show ?thesis using s by (simp add: is_slice_def)
    qed
    have none: "s \<in> set taken" if "scan net ?free NoFreeSlice (shifted ?c 1) = Inl e" "is_slice net s" for s e
    proof -
      from slice_shift [OF that(2)] obtain k where k: "s = shifted (shifted ?c 1) k" by blast
      from that(2) have "contains net (pfx_addr s)" "addr_ok (pfx_addr s)"
        by (auto simp: is_slice_def network_ok_def prefix_ok_def)
      with scan_complete [OF that(1) ok1 not_below_self, of k] k show ?thesis by simp
    qed
    show ?thesis
    proof (cases "scan net ?free NoFreeSlice (shifted ?c 1)")
      case (Inl e)
      with none [OF Inl] show ?thesis unfolding eq by simp
    next
      case (Inr s)
      with found [OF Inr] show ?thesis unfolding eq by simp
    qed
  next
    case False
    have "\<not> is_slice net s" for s
    proof
      assume s: "is_slice net s"
      then obtain k where "s = shifted (shifted ?c 1) k" using slice_shift by blast
      with s have "addr_ok (pfx_addr (shifted (shifted ?c 1) k))"
        by (auto simp: is_slice_def network_ok_def prefix_ok_def)
      with False show False by (simp add: addr_ok_def)
    qed
    moreover have "nextSlice net taken = Inl SpaceExhausted"
      using run advance_eq [OF okc] False by simp
    ultimately show ?thesis by simp
  qed
qed

section \<open>Addresses of a slice\<close>

lemma contains_iff:
  assumes "network_ok p"
  shows "contains p a \<longleftrightarrow> addr_is4 a = addr_is4 (pfx_addr p) \<and> addr_val (pfx_addr p) \<le> addr_val a \<and>
    addr_val a < addr_val (pfx_addr p) + 2 ^ host_bits p"
proof -
  let ?H = "2 ^ host_bits p :: nat"
  have H: "0 < ?H" by simp
  from assms obtain k where k: "addr_val (pfx_addr p) = ?H * k"
    by (auto simp: network_ok_def masked_fix dvd_def)
  have "addr_val a div ?H = k \<longleftrightarrow> ?H * k \<le> addr_val a \<and> addr_val a < ?H * k + ?H"
    by (metis H add.commute div_less_iff_less_mult div_nat_eqI le_eq_less_or_eq less_eq_div_iff_mult_less_eq
        mult.commute mult_Suc_right not_less_eq_eq nat_less_le less_Suc_eq_le)
  with k H show ?thesis by (simp add: contains_def)
qed

text \<open>What the loop of \<open>nextAddress\<close> treats as an address to give away.\<close>

definition usable :: "prefix \<Rightarrow> addr \<Rightarrow> bool" where
  "usable sl a \<longleftrightarrow> addr_ok a \<and> contains sl a \<and> a \<noteq> pfx_addr sl \<and> \<not> isBroadcast sl a"

lemma isBroadcast_iff:
  assumes "network_ok sl" "addr_is4 a = addr_is4 (pfx_addr sl)"
  shows "isBroadcast sl a \<longleftrightarrow> addr_is4 (pfx_addr sl) \<and>
    addr_val (pfx_addr sl) + 2 ^ host_bits sl < 2 ^ 32 \<and>
    addr_val a = addr_val (pfx_addr sl) + 2 ^ host_bits sl - 1"
proof -
  have ok: "addr_ok (pfx_addr sl)" using assms(1) by (simp add: network_ok_def prefix_ok_def)
  have hb: "addr_is4 (pfx_addr sl) \<Longrightarrow> host_bits sl = 32 - pfx_bits sl" by (simp add: host_bits_def bit_len_def)
  show ?thesis
  proof (cases "addr_is4 (pfx_addr sl) \<and> addr_val (pfx_addr sl) + 2 ^ host_bits sl < 2 ^ 32")
    case True
    then have "isBroadcast sl a \<longleftrightarrow>
        Some a = addr_prev (Addr True (addr_val (pfx_addr sl) + 2 ^ host_bits sl))"
      using hb by (simp add: isBroadcast_def addPowerOfTwo_sum [OF ok] bit_len_def)
    also have "\<dots> \<longleftrightarrow> addr_val a = addr_val (pfx_addr sl) + 2 ^ host_bits sl - 1"
      using True assms(2) by (cases a) (simp add: addr_prev_def)
    finally show ?thesis using True by simp
  next
    case False
    then show ?thesis using hb by (auto simp: isBroadcast_def addPowerOfTwo_sum [OF ok] bit_len_def)
  qed
qed

lemma address_loop_result:
  assumes "network_ok sl" "addr_ok a" "addr_is4 a = addr_is4 (pfx_addr sl)"
    "addr_val (pfx_addr sl) < addr_val a"
  shows "case address_loop sl taken (Some a) of
      Inr r \<Rightarrow> usable sl r \<and> r \<notin> set taken
    | Inl e \<Rightarrow> \<forall>b. usable sl b \<and> addr_val a \<le> addr_val b \<longrightarrow> b \<in> set taken"
  using assms
proof (induction "2 ^ bit_len a - addr_val a" arbitrary: a rule: less_induct)
  case (less a)
  have same: "b = a" if "addr_val b = addr_val a" "contains sl b" for b
    using that less.prems(3) by (cases a; cases b) (auto simp: contains_def)
  consider (out) "\<not> contains sl a" | (bc) "contains sl a" "isBroadcast sl a"
    | (hit) "contains sl a" "\<not> isBroadcast sl a" "a \<notin> set taken"
    | (more) "contains sl a" "\<not> isBroadcast sl a" "a \<in> set taken" by blast
  then show ?case
  proof cases
    case out
    have "\<not> usable sl b" if "addr_val a \<le> addr_val b" for b
      using out that less.prems by (auto simp: usable_def contains_iff)
    with out show ?thesis by (auto simp: address_loop.simps(2))
  next
    case bc
    have "b \<in> set taken" if b: "usable sl b" "addr_val a \<le> addr_val b" for b
    proof -
      have "addr_val b \<le> addr_val (pfx_addr sl) + 2 ^ host_bits sl - 1"
        using b(1) less.prems(1) by (auto simp: usable_def contains_iff)
      moreover have "addr_val a = addr_val (pfx_addr sl) + 2 ^ host_bits sl - 1"
        using bc(2) isBroadcast_iff [OF less.prems(1,3)] by simp
      ultimately have "b = a" using b same by (auto simp: usable_def)
      with b(1) bc(2) show ?thesis by (simp add: usable_def)
    qed
    with bc show ?thesis by (auto simp: address_loop.simps(2))
  next
    case hit
    then show ?thesis using less.prems by (auto simp: address_loop.simps(2) usable_def)
  next
    case more
    have step: "address_loop sl taken (Some a) = address_loop sl taken (addr_next a)"
      using more by (simp add: address_loop.simps(2))
    show ?thesis
    proof (cases "addr_next a")
      case None
      then have "2 ^ bit_len a \<le> addr_val a + 1" by (auto simp: addr_next_def split: if_splits)
      moreover have "addr_val b < 2 ^ bit_len a" if "usable sl b" for b
        using that less.prems(3) by (auto simp: usable_def addr_ok_def contains_def bit_len_def)
      ultimately have "b \<in> set taken" if "usable sl b" "addr_val a \<le> addr_val b" for b
        using that same [of b] more(3) by (fastforce simp: usable_def)
      with step None show ?thesis by simp
    next
      case (Some c)
      then have c: "addr_val c = addr_val a + 1" "bit_len c = bit_len a" "addr_ok c" "addr_is4 c = addr_is4 a"
        by (auto simp: addr_next_def addr_ok_def bit_len_def split: if_splits)
      then have "2 ^ bit_len c - addr_val c < 2 ^ bit_len a - addr_val a" by (simp add: addr_ok_def)
      from less.hyps [OF this less.prems(1) c(3)] c less.prems
      have IH: "case address_loop sl taken (Some c) of
          Inr r \<Rightarrow> usable sl r \<and> r \<notin> set taken
        | Inl e \<Rightarrow> \<forall>b. usable sl b \<and> addr_val c \<le> addr_val b \<longrightarrow> b \<in> set taken" by simp
      have "b \<in> set taken" if "usable sl b" "addr_val a \<le> addr_val b"
        "\<forall>b. usable sl b \<and> addr_val c \<le> addr_val b \<longrightarrow> b \<in> set taken" for b
        using that same [of b] more(3) c(1) by (cases "addr_val b = addr_val a") (auto simp: usable_def)
      with IH step Some show ?thesis by (auto split: sum.splits)
    qed
  qed
qed

lemma address_loop_first:
  assumes "address_loop sl taken c = Inr r" "c = Some a" "addr_is4 b = addr_is4 a"
    "addr_val a \<le> addr_val b" "addr_val b < addr_val r"
  shows "b \<in> set taken"
  using assms
proof (induction sl taken c arbitrary: a rule: address_loop.induct)
  case (2 sl taken x)
  then have x: "x = a" by simp
  from "2.prems"(1) have here: "contains sl x" "\<not> isBroadcast sl x"
    and "if x \<notin> set taken then r = x else address_loop sl taken (addr_next x) = Inr r"
    by (auto simp: address_loop.simps(2) split: if_splits)
  then have held: "x \<in> set taken" and rest: "address_loop sl taken (addr_next x) = Inr r"
    using "2.prems"(4,5) x by (auto split: if_splits)
  then obtain y where y: "addr_next x = Some y" by (cases "addr_next x") auto
  then have "addr_val y = addr_val x + 1" "addr_is4 y = addr_is4 x" by (auto simp: addr_next_def split: if_splits)
  moreover have "b = x" if "addr_val b = addr_val a" using that "2.prems"(3) x by (intro addr.expand) simp
  ultimately show ?case using "2.IH" [OF here _ rest y] held "2.prems"(3,4,5) x
    by (cases "addr_val b = addr_val a") auto
qed simp

lemma nextAddress_lowest:
  assumes sl: "network_ok sl" and run: "nextAddress sl taken = Inr a" and b: "usable sl b" "b \<notin> set taken"
  shows "addr_val a \<le> addr_val b"
proof (rule ccontr)
  assume above: "\<not> addr_val a \<le> addr_val b"
  from run obtain c where c: "addr_next (pfx_addr sl) = Some c"
    by (cases "addr_next (pfx_addr sl)") (auto simp: nextAddress_def)
  then have "addr_val c = addr_val (pfx_addr sl) + 1" "addr_is4 c = addr_is4 (pfx_addr sl)"
    by (auto simp: addr_next_def split: if_splits)
  moreover have "addr_val (pfx_addr sl) < addr_val b" "addr_is4 b = addr_is4 (pfx_addr sl)"
    using b(1) sl by (cases b; cases "pfx_addr sl"; auto simp: usable_def contains_iff)+
  ultimately have "b \<in> set taken"
    using run above by (intro address_loop_first [of sl taken _ a c b]) (auto simp: nextAddress_def c)
  with b(2) show False by simp
qed

text \<open>
  The addresses of a slice that a machine can have: neither the address of the network
  nor, with IPv4, the last one, to which one broadcasts. The code agrees in every slice
  but the last one of the IPv4 space.
\<close>

definition host_address :: "prefix \<Rightarrow> addr \<Rightarrow> bool" where
  "host_address sl a \<longleftrightarrow> addr_ok a \<and> contains sl a \<and> a \<noteq> pfx_addr sl \<and>
     (addr_is4 a \<longrightarrow> addr_val a \<noteq> addr_val (pfx_addr sl) + 2 ^ host_bits sl - 1)"

lemma usable_host_address:
  assumes "network_ok sl" "addr_is4 (pfx_addr sl) \<longrightarrow> addr_val (pfx_addr sl) + 2 ^ host_bits sl < 2 ^ 32"
  shows "usable sl a \<longleftrightarrow> host_address sl a"
proof (cases "contains sl a")
  case True
  then have "addr_is4 a = addr_is4 (pfx_addr sl)" by (simp add: contains_def)
  with isBroadcast_iff [OF assms(1) this] assms(2) True show ?thesis
    by (auto simp: usable_def host_address_def)
qed (simp add: usable_def host_address_def)

lemma nextAddress_result:
  assumes sl: "network_ok sl"
  shows "case nextAddress sl taken of
      Inr a \<Rightarrow> usable sl a \<and> a \<notin> set taken
    | Inl e \<Rightarrow> \<forall>a. usable sl a \<longrightarrow> a \<in> set taken"
proof (cases "addr_next (pfx_addr sl)")
  case None
  then have "2 ^ bit_len (pfx_addr sl) \<le> addr_val (pfx_addr sl) + 1"
    by (auto simp: addr_next_def split: if_splits)
  then have "\<not> usable sl a" for a
    using sl by (cases a; cases "pfx_addr sl") (auto simp: usable_def contains_iff addr_ok_def bit_len_def)
  with None show ?thesis by (simp add: nextAddress_def)
next
  case (Some c)
  then have c: "addr_val c = addr_val (pfx_addr sl) + 1" "addr_ok c" "addr_is4 c = addr_is4 (pfx_addr sl)"
    by (auto simp: addr_next_def addr_ok_def bit_len_def split: if_splits)
  have "addr_val c \<le> addr_val a" if "usable sl a" for a
    using that sl c by (cases a; cases "pfx_addr sl") (auto simp: usable_def contains_iff)
  with address_loop_result [OF sl c(2,3), of taken] c Some show ?thesis
    by (auto simp: nextAddress_def split: sum.splits)
qed

section \<open>Free ranges of a supernet\<close>

definition is_part :: "prefix \<Rightarrow> nat \<Rightarrow> prefix \<Rightarrow> bool" where
  "is_part net bits p \<longleftrightarrow>
     addr_is4 (pfx_addr p) = addr_is4 (pfx_addr net) \<and> pfx_bits p = bits \<and> network_ok p \<and>
     contains net (pfx_addr p)"

lemma freePrefix_result:
  assumes net: "network_ok net" and b: "pfx_bits net \<le> bits" "bits \<le> bit_len (pfx_addr net)"
  shows "case freePrefix net bits taken of
      Inr p \<Rightarrow> is_part net bits p \<and> \<not> overlapsAny p taken
    | Inl e \<Rightarrow> \<forall>p. is_part net bits p \<longrightarrow> overlapsAny p taken"
proof -
  let ?c = "Prefix (pfx_addr net) bits" and ?free = "\<lambda>c. \<not> overlapsAny c taken"
  have okc: "addr_ok (pfx_addr ?c)" using net by (simp add: network_ok_def prefix_ok_def)
  have eq: "freePrefix net bits taken = scan net ?free NoFreePrefix ?c"
    using b masked_network [OF net b(1)] by (simp add: freePrefix_def)
  show ?thesis
  proof (cases "scan net ?free NoFreePrefix ?c")
    case (Inr p)
    from scan_sound [OF Inr okc] obtain k where p: "\<not> overlapsAny p taken" "contains net (pfx_addr p)"
      "p = shifted ?c k" "addr_ok (pfx_addr p)" by auto
    then have "is_part net bits p"
      using shift_is_aligned [OF net b(1), of k] b(2)
      by (simp add: is_part_def network_ok_def prefix_ok_def bit_len_def)
    with p Inr show ?thesis unfolding eq by simp
  next
    case (Inl e)
    have "overlapsAny p taken" if p: "is_part net bits p" for p
    proof -
      from p aligned_is_shift [OF net b(1), of p] obtain k where k: "p = shifted ?c k"
        by (auto simp: is_part_def network_ok_def)
      have "contains net (pfx_addr p)" "addr_ok (pfx_addr p)"
        using p by (auto simp: is_part_def network_ok_def prefix_ok_def)
      with scan_complete [OF Inl okc not_below_self [of net bits 0, simplified], of k] k
      show ?thesis by simp
    qed
    with Inl show ?thesis unfolding eq by simp
  qed
qed

section \<open>Overlap\<close>

text \<open>Two ranges overlap exactly when some address lies in both.\<close>

lemma overlaps_sym: "overlaps p q \<longleftrightarrow> overlaps q p"
  by (auto simp: overlaps_def Let_def min.commute bit_len_def)

lemma contains_shorter:
  assumes "contains p a" "addr_is4 (pfx_addr p) = addr_is4 (pfx_addr q)" "pfx_bits q \<le> pfx_bits p"
    "addr_val (pfx_addr p) div 2 ^ host_bits q = addr_val (pfx_addr q) div 2 ^ host_bits q"
  shows "contains q a"
proof -
  have "host_bits p \<le> host_bits q" using assms(2,3) by (simp add: host_bits_def bit_len_def)
  then obtain d where d: "host_bits q = host_bits p + d" using le_iff_add by blast
  have "addr_val a div 2 ^ host_bits q = addr_val a div 2 ^ host_bits p div 2 ^ d"
    by (simp add: d power_add div_mult2_eq)
  also have "\<dots> = addr_val (pfx_addr p) div 2 ^ host_bits p div 2 ^ d"
    using assms(1) by (simp add: contains_def)
  also have "\<dots> = addr_val (pfx_addr p) div 2 ^ host_bits q"
    by (simp add: d power_add div_mult2_eq)
  finally show ?thesis using assms by (simp add: contains_def)
qed

lemma contains_self: "contains p (pfx_addr p)"
  by (simp add: contains_def)

lemma overlaps_common:
  assumes "contains p a" "contains q a"
  shows "overlaps p q"
proof -
  have fam: "addr_is4 (pfx_addr p) = addr_is4 (pfx_addr q)" using assms by (simp add: contains_def)
  have key: "overlaps p q" if "contains p a" "contains q a" "pfx_bits q \<le> pfx_bits p"
    "addr_is4 (pfx_addr p) = addr_is4 (pfx_addr q)" for p q
  proof -
    have "host_bits p \<le> host_bits q" using that by (simp add: host_bits_def bit_len_def)
    then obtain d where d: "host_bits q = host_bits p + d" using le_iff_add by blast
    have "addr_val (pfx_addr p) div 2 ^ host_bits q = addr_val (pfx_addr p) div 2 ^ host_bits p div 2 ^ d"
      by (simp add: d power_add div_mult2_eq)
    also have "\<dots> = addr_val a div 2 ^ host_bits p div 2 ^ d" using that(1) by (simp add: contains_def)
    also have "\<dots> = addr_val a div 2 ^ host_bits q" by (simp add: d power_add div_mult2_eq)
    also have "\<dots> = addr_val (pfx_addr q) div 2 ^ host_bits q" using that(2) by (simp add: contains_def)
    finally show ?thesis
      using that by (simp add: overlaps_def Let_def host_bits_def bit_len_def min_def)
  qed
  show ?thesis
  proof (cases "pfx_bits q \<le> pfx_bits p")
    case True
    with key assms fam show ?thesis by blast
  next
    case False
    with key [of q p] assms fam overlaps_sym [of p q] show ?thesis by simp
  qed
qed

lemma is_slice_within:
  assumes "is_slice net s" "pfx_bits net \<le> sliceBitsFor net" "contains s a"
  shows "contains net a"
  using assms contains_shorter [of s a net] by (auto simp: is_slice_def contains_def)

text \<open>Two different slices of one network share no address.\<close>

lemma slices_disjoint:
  assumes "is_slice net s" "is_slice net t" "contains s a" "contains t a"
  shows "s = t"
proof -
  have hb: "host_bits s = host_bits t"
    using assms by (simp add: is_slice_def host_bits_def bit_len_def)
  have d: "2 ^ host_bits s dvd addr_val (pfx_addr s)" "2 ^ host_bits s dvd addr_val (pfx_addr t)"
    using assms hb by (auto simp: is_slice_def network_ok_def masked_fix)
  have "addr_val (pfx_addr s) div 2 ^ host_bits s = addr_val (pfx_addr t) div 2 ^ host_bits s"
    using assms hb by (simp add: contains_def)
  with d have "addr_val (pfx_addr s) = addr_val (pfx_addr t)" by (metis dvd_div_mult_self)
  with assms show ?thesis
    by (cases s; cases t; cases "pfx_addr s"; cases "pfx_addr t") (auto simp: is_slice_def)
qed

section \<open>Properties\<close>

text \<open>
  Adding a power of two byte by byte, with the carry rippling upwards, is
  addition: the address moves by 2 to the exponent when the sum still fits the
  family's width, and otherwise the carry is reported and the address returned.
\<close>

lemma addPowerOfTwo_adds:
  assumes "addr_ok a"
  shows "addPowerOfTwo a e =
    (if addr_val a + 2 ^ e < 2 ^ bit_len a then (Addr (addr_is4 a) (addr_val a + 2 ^ e), False)
     else (a, True))"
  using assms by (rule addPowerOfTwo_sum)

theorem addPowerOfTwo_adds_witness:
  "addr_ok (Addr True 4294967232) \<and> addPowerOfTwo (Addr True 4294967232) 6 = (Addr True 4294967232, True) \<and>
   addPowerOfTwo (Addr True 169082880) 6 = (Addr True 169082944, False)"
  using addPowerOfTwo_adds [of "Addr True 4294967232" 6] addPowerOfTwo_adds [of "Addr True 169082880" 6]
  by (simp add: addr_ok_def bit_len_def)

text \<open>
  C39: the slice that \<open>nextSlice\<close> returns is the lowest of the aligned slices of the
  network, without the reserved first one, that no node holds; it returns an error only
  when the network is no larger than a slice or every such slice is held.
\<close>

theorem nextSlice_exact:
  assumes net: "network_ok net"
  shows "case nextSlice net taken of
      Inr s \<Rightarrow> is_slice net s \<and> s \<notin> set taken \<and>
        (\<forall>t. is_slice net t \<and> t \<notin> set taken \<longrightarrow> addr_val (pfx_addr s) \<le> addr_val (pfx_addr t))
    | Inl e \<Rightarrow> sliceBitsFor net \<le> pfx_bits net \<or> (\<forall>s. is_slice net s \<longrightarrow> s \<in> set taken)"
  using nextSlice_result [OF net, of taken] nextSlice_lowest [OF net, of taken] by (cases "nextSlice net taken") auto

theorem nextSlice_exact_witness:
  "network_ok (Prefix (Addr True 169082880) 24) \<and>
   nextSlice (Prefix (Addr True 169082880) 24) [] = Inr (Prefix (Addr True 169082944) 26) \<and>
   is_slice (Prefix (Addr True 169082880) 24) (Prefix (Addr True 169082944) 26)"
proof -
  let ?net = "Prefix (Addr True 169082880) 24"
  have ok: "network_ok ?net"
    by (simp add: network_ok_def prefix_ok_def masked_def host_bits_def bit_len_def addr_ok_def)
  have adv: "advance (Prefix (Addr True 169082880) 26) = Inr (Prefix (Addr True 169082944) 26)"
    by (simp add: advance_def addPowerOfTwo_sum addr_ok_def bit_len_def)
  have "nextSlice ?net [] = Inr (Prefix (Addr True 169082944) 26)"
    by (simp add: nextSlice_def sliceBitsFor_def masked_def host_bits_def bit_len_def adv scan.simps contains_def)
  with ok nextSlice_exact [OF ok, of "[]"] show ?thesis by simp
qed

text \<open>
  C40: in a slice that is not the last one of the IPv4 space, the address that
  \<open>nextAddress\<close> returns is the lowest address of the slice that a machine can have (not
  the address of the network and, with IPv4, not the broadcast address) and that nobody
  holds; it reports exhaustion only when every such address is held.
\<close>

theorem nextAddress_exact:
  assumes sl: "network_ok sl" and inner: "addr_is4 (pfx_addr sl) \<longrightarrow> addr_val (pfx_addr sl) + 2 ^ host_bits sl < 2 ^ 32"
  shows "case nextAddress sl taken of
      Inr a \<Rightarrow> host_address sl a \<and> a \<notin> set taken \<and>
        (\<forall>b. host_address sl b \<and> b \<notin> set taken \<longrightarrow> addr_val a \<le> addr_val b)
    | Inl e \<Rightarrow> \<forall>a. host_address sl a \<longrightarrow> a \<in> set taken"
  using nextAddress_result [OF sl, of taken] nextAddress_lowest [OF sl, of taken]
  by (cases "nextAddress sl taken") (auto simp: usable_host_address [OF assms])

theorem nextAddress_exact_witness:
  "network_ok (Prefix (Addr True 169082944) 26) \<and>
   nextAddress (Prefix (Addr True 169082944) 26) [Addr True 169082945] = Inr (Addr True 169082946) \<and>
   host_address (Prefix (Addr True 169082944) 26) (Addr True 169082946)"
proof -
  let ?sl = "Prefix (Addr True 169082944) 26"
  have ok: "network_ok ?sl"
    by (simp add: network_ok_def prefix_ok_def masked_def host_bits_def bit_len_def addr_ok_def)
  have "\<not> isBroadcast ?sl (Addr True 169082945)" "\<not> isBroadcast ?sl (Addr True 169082946)"
    using isBroadcast_iff [OF ok, of "Addr True 169082945"] isBroadcast_iff [OF ok, of "Addr True 169082946"]
    by (simp_all add: host_bits_def bit_len_def)
  then have "nextAddress ?sl [Addr True 169082945] = Inr (Addr True 169082946)"
    by (simp add: nextAddress_def addr_next_def address_loop.simps(2) contains_def host_bits_def bit_len_def)
  with ok nextAddress_exact [OF ok, of "[Addr True 169082945]"] show ?thesis by (simp add: host_bits_def bit_len_def)
qed

text \<open>
  In the last slice of the IPv4 space the sum that \<open>isBroadcast\<close> forms carries,
  so the broadcast address of that slice is treated as any other and is handed
  out once the other addresses are held.
\<close>

lemma last_slice_hands_out_broadcast:
  "nextAddress (Prefix (Addr True 4294967232) 26) (map (Addr True) [4294967233..<4294967295]) =
     Inr (Addr True 4294967295)"
proof -
  let ?sl = "Prefix (Addr True 4294967232) 26" and ?taken = "map (Addr True) [4294967233..<4294967295]"
  have ok: "network_ok ?sl"
    by (simp add: network_ok_def prefix_ok_def masked_def host_bits_def bit_len_def addr_ok_def)
  have last: "usable ?sl (Addr True 4294967295)"
    using isBroadcast_iff [OF ok, of "Addr True 4294967295"]
    by (simp add: usable_def contains_def host_bits_def bit_len_def addr_ok_def)
  have free: "Addr True 4294967295 \<notin> set ?taken" by (simp add: image_iff)
  have only: "a = Addr True 4294967295" if "usable ?sl a" "a \<notin> set ?taken" for a
  proof (cases a)
    case (Addr f v)
    from that(1) Addr have "f" "4294967232 \<le> v" "v < 4294967296" "v \<noteq> 4294967232"
      using contains_iff [OF ok, of a] by (auto simp: usable_def host_bits_def bit_len_def)
    moreover have "Addr True v \<in> set ?taken" if "4294967233 \<le> v" "v < 4294967295"
      unfolding set_map set_upt by (rule imageI) (use that in simp)
    then have "\<not> (f \<and> 4294967233 \<le> v \<and> v < 4294967295)" using \<open>a \<notin> set ?taken\<close> Addr by metis
    ultimately show ?thesis using Addr by auto
  qed
  show ?thesis
  proof (cases "nextAddress ?sl ?taken")
    case (Inl e)
    with nextAddress_result [OF ok, of ?taken] last free show ?thesis unfolding Inl sum.case by blast
  next
    case (Inr a)
    with nextAddress_result [OF ok, of ?taken] only [of a] show ?thesis unfolding Inr sum.case by blast
  qed
qed

end
