(* ===== verification/Networks.thy ===== *)
theory Networks
  imports Ipam
begin

text \<open>
  The network module, src/internal/platform/network: the tables networks,
  node_slices and nics as one record, with the keys the schema declares, and the
  service operations over them. Ranges and addresses are values of net/netip (the
  theory Ipam) instead of texts; the text parser \<open>netip.ParsePrefix\<close>, generated
  ids and the random part of a MAC address are arguments. A failing database is
  not modelled.
\<close>

section \<open>Tables\<close>

abbreviation (input) DefaultCIDR :: prefix where "DefaultCIDR \<equiv> Prefix (Addr True 169082880) 16"
abbreviation (input) SupernetCIDR :: prefix where "SupernetCIDR \<equiv> Prefix (Addr True 167772160) 8"
abbreviation (input) MaxNICs :: int where "MaxNICs \<equiv> 4"

record network =
  nw_ID :: string
  nw_ProjectID :: string
  nw_Name :: string
  nw_CIDR :: prefix
  nw_Gateway :: "addr option"
  nw_CIDR6 :: "prefix option"
  nw_Gateway6 :: "addr option"
  nw_Bridge :: string
  nw_CreatedAt :: go_time

record node_slice =
  sl_NetworkID :: string
  sl_NodeID :: string
  sl_CIDR :: prefix
  sl_CIDR6 :: "prefix option"
  sl_CreatedAt :: go_time

record nic =
  nic_InstanceID :: string
  nic_NetworkID :: string
  nic_Device :: int
  nic_NodeID :: string
  nic_IP :: addr
  nic_IP6 :: "addr option"
  nic_MAC :: string
  nic_CreatedAt :: go_time

record network_params =
  np_ProjectID :: string
  np_Name :: string
  np_CIDR :: string
  np_CIDR6 :: string

record net_db =
  nw_rows :: "network list"
  slice_rows :: "node_slice list"
  nic_rows :: "nic list"

definition DualStack :: "network \<Rightarrow> bool" where
  "DualStack n \<longleftrightarrow> nw_CIDR6 n \<noteq> None"

section \<open>Repository\<close>

datatype net_error = net_errNotFound | net_errNameTaken | net_errCIDRTaken

definition net_translate :: "net_error \<Rightarrow> fault" where
  "net_translate e =
     (case e of
        net_errNotFound \<Rightarrow> NotFound ''network_not_found''
      | net_errNameTaken \<Rightarrow> Conflict ''network_name_taken''
      | net_errCIDRTaken \<Rightarrow> Conflict ''address_taken'')"

definition repo_insertNetwork :: "net_db \<Rightarrow> network \<Rightarrow> (net_error + unit) \<times> net_db" where
  "repo_insertNetwork db n =
     (if list_ex (\<lambda>m. nw_ID m = nw_ID n \<or> nw_CIDR m = nw_CIDR n \<or>
                      (nw_ProjectID m = nw_ProjectID n \<and> nw_Name m = nw_Name n)) (nw_rows db)
      then (Inl net_errNameTaken, db)
      else (Inr (), db\<lparr>nw_rows := nw_rows db @ [n]\<rparr>))"

definition repo_networkByName :: "net_db \<Rightarrow> string \<Rightarrow> string \<Rightarrow> net_error + network" where
  "repo_networkByName db projectID name =
     (case find (\<lambda>n. nw_ProjectID n = projectID \<and> nw_Name n = name) (nw_rows db) of
        None \<Rightarrow> Inl net_errNotFound | Some n \<Rightarrow> Inr n)"

definition repo_network :: "net_db \<Rightarrow> string \<Rightarrow> net_error + network" where
  "repo_network db nid =
     (case find (\<lambda>n. nw_ID n = nid) (nw_rows db) of
        None \<Rightarrow> Inl net_errNotFound | Some n \<Rightarrow> Inr n)"

definition repo_listNetworks :: "net_db \<Rightarrow> network list" where
  "repo_listNetworks db = sort_key nw_Name (nw_rows db)"

definition repo_listNetworksIn :: "net_db \<Rightarrow> string \<Rightarrow> network list" where
  "repo_listNetworksIn db projectID =
     sort_key nw_Name (filter (\<lambda>n. nw_ProjectID n = projectID) (nw_rows db))"

definition repo_slice :: "net_db \<Rightarrow> string \<Rightarrow> string \<Rightarrow> net_error + node_slice" where
  "repo_slice db networkID nodeID =
     (case find (\<lambda>s. sl_NetworkID s = networkID \<and> sl_NodeID s = nodeID) (slice_rows db) of
        None \<Rightarrow> Inl net_errNotFound | Some s \<Rightarrow> Inr s)"

definition repo_takenSlices :: "net_db \<Rightarrow> string \<Rightarrow> prefix list" where
  "repo_takenSlices db networkID =
     map sl_CIDR (filter (\<lambda>s. sl_NetworkID s = networkID) (slice_rows db))"

definition repo_takenSlices6 :: "net_db \<Rightarrow> string \<Rightarrow> prefix list" where
  "repo_takenSlices6 db networkID =
     List.map_filter sl_CIDR6 (filter (\<lambda>s. sl_NetworkID s = networkID) (slice_rows db))"

definition repo_insertSlice :: "net_db \<Rightarrow> node_slice \<Rightarrow> (net_error + unit) \<times> net_db" where
  "repo_insertSlice db s =
     (if list_ex (\<lambda>t. sl_NetworkID t = sl_NetworkID s \<and>
                      (sl_NodeID t = sl_NodeID s \<or> sl_CIDR t = sl_CIDR s)) (slice_rows db)
      then (Inl net_errCIDRTaken, db)
      else (Inr (), db\<lparr>slice_rows := slice_rows db @ [s]\<rparr>))"

definition repo_countNICs :: "net_db \<Rightarrow> string \<Rightarrow> int" where
  "repo_countNICs db networkID = int (length (filter (\<lambda>n. nic_NetworkID n = networkID) (nic_rows db)))"

definition repo_deleteNetwork :: "net_db \<Rightarrow> string \<Rightarrow> net_db" where
  "repo_deleteNetwork db nid =
     db\<lparr>slice_rows := filter (\<lambda>s. sl_NetworkID s \<noteq> nid) (slice_rows db),
        nw_rows := filter (\<lambda>n. nw_ID n \<noteq> nid) (nw_rows db)\<rparr>"

definition repo_takenAddresses :: "net_db \<Rightarrow> string \<Rightarrow> addr list" where
  "repo_takenAddresses db networkID =
     map nic_IP (filter (\<lambda>n. nic_NetworkID n = networkID) (nic_rows db))"

definition repo_takenAddresses6 :: "net_db \<Rightarrow> string \<Rightarrow> addr list" where
  "repo_takenAddresses6 db networkID =
     List.map_filter nic_IP6 (filter (\<lambda>n. nic_NetworkID n = networkID) (nic_rows db))"

definition repo_insertNIC :: "net_db \<Rightarrow> nic \<Rightarrow> (net_error + unit) \<times> net_db" where
  "repo_insertNIC db n =
     (if list_ex (\<lambda>m. (nic_InstanceID m = nic_InstanceID n \<and>
                        (nic_NetworkID m = nic_NetworkID n \<or> nic_Device m = nic_Device n)) \<or>
                      (nic_NetworkID m = nic_NetworkID n \<and> nic_IP m = nic_IP n)) (nic_rows db)
      then (Inl net_errCIDRTaken, db)
      else (Inr (), db\<lparr>nic_rows := nic_rows db @ [n]\<rparr>))"

definition repo_nicsOf :: "net_db \<Rightarrow> string \<Rightarrow> nic list" where
  "repo_nicsOf db instanceID =
     sort_key nic_Device (filter (\<lambda>n. nic_InstanceID n = instanceID) (nic_rows db))"

definition repo_nic :: "net_db \<Rightarrow> string \<Rightarrow> net_error + nic" where
  "repo_nic db instanceID =
     (case repo_nicsOf db instanceID of [] \<Rightarrow> Inl net_errNotFound | n # _ \<Rightarrow> Inr n)"

definition repo_deleteNIC :: "net_db \<Rightarrow> string \<Rightarrow> net_db" where
  "repo_deleteNIC db instanceID =
     db\<lparr>nic_rows := filter (\<lambda>n. nic_InstanceID n \<noteq> instanceID) (nic_rows db)\<rparr>"

section \<open>Service\<close>

text \<open>\<open>parsePrefix\<close>: an IPv4-mapped IPv6 range is refused, the rest is masked.\<close>

definition is4in6 :: "addr \<Rightarrow> bool" where
  "is4in6 a \<longleftrightarrow> \<not> addr_is4 a \<and> addr_val a div 2 ^ 32 = 65535"

definition parsePrefix :: "(string \<Rightarrow> prefix option) \<Rightarrow> string \<Rightarrow> prefix option" where
  "parsePrefix parse cidr =
     (case parse cidr of
        None \<Rightarrow> None
      | Some p \<Rightarrow> if is4in6 (pfx_addr p) then None else Some (masked p))"

text \<open>\<open>Addr.IsPrivate\<close> for an IPv6 address: fc00::/7.\<close>

definition is_private6 :: "addr \<Rightarrow> bool" where
  "is_private6 a \<longleftrightarrow> addr_val a div 2 ^ 121 = 126"

definition bridgeName :: "string \<Rightarrow> string" where
  "bridgeName networkID =
     (let suffix = (case dropWhile (\<lambda>c. c \<noteq> CHR ''-'') networkID of
                      [] \<Rightarrow> networkID | _ # rest \<Rightarrow> rest)
      in ''msbr-'' @ take 8 suffix)"

definition check_first :: "prefix option \<Rightarrow> prefix result" where
  "check_first parsed =
     (case parsed of
        None \<Rightarrow> Inl (Invalid ''invalid_cidr'')
      | Some p \<Rightarrow>
          if sliceBitsFor p \<le> pfx_bits p then Inl (Invalid ''invalid_cidr'')
          else if \<not> addr_is4 (pfx_addr p) \<and> \<not> is_private6 (pfx_addr p)
          then Inl (Invalid ''invalid_cidr'')
          else Inr p)"

definition check_second :: "prefix \<Rightarrow> prefix option option \<Rightarrow> prefix option result" where
  "check_second prefix given =
     (case given of
        None \<Rightarrow> Inr None
      | Some None \<Rightarrow> Inl (Invalid ''invalid_cidr6'')
      | Some (Some p) \<Rightarrow>
          if addr_is4 (pfx_addr p) = addr_is4 (pfx_addr prefix) then Inl (Invalid ''invalid_cidr6'')
          else if \<not> addr_is4 (pfx_addr p) \<and> \<not> is_private6 (pfx_addr p)
          then Inl (Invalid ''invalid_cidr6'')
          else if sliceBitsFor p \<le> pfx_bits p then Inl (Invalid ''invalid_cidr6'')
          else Inr (Some p))"

definition ranges :: "network \<Rightarrow> prefix list" where
  "ranges n = nw_CIDR n # (case nw_CIDR6 n of None \<Rightarrow> [] | Some p \<Rightarrow> [p])"

definition overlaps_existing :: "net_db \<Rightarrow> prefix \<Rightarrow> prefix option \<Rightarrow> bool" where
  "overlaps_existing db prefix snd6 =
     list_ex (\<lambda>other. list_ex (\<lambda>held. overlaps held prefix \<or>
        (case snd6 of None \<Rightarrow> False | Some p \<Rightarrow> overlaps held p)) (ranges other))
       (repo_listNetworks db)"

definition new_network ::
    "string \<Rightarrow> go_time \<Rightarrow> string \<Rightarrow> string \<Rightarrow> prefix \<Rightarrow> prefix option \<Rightarrow> network" where
  "new_network new_id now projectID name prefix snd6 =
     \<lparr>nw_ID = new_id, nw_ProjectID = projectID, nw_Name = name, nw_CIDR = prefix,
      nw_Gateway = gatewayOf prefix, nw_CIDR6 = snd6,
      nw_Gateway6 = (case snd6 of None \<Rightarrow> None | Some p \<Rightarrow> gatewayOf p),
      nw_Bridge = bridgeName new_id, nw_CreatedAt = now\<rparr>"

text \<open>\<open>create\<close>, given the outcome of parsing its two ranges; None stands for no second range.\<close>

definition network_create ::
    "string \<Rightarrow> go_time \<Rightarrow> net_db \<Rightarrow> string \<Rightarrow> string \<Rightarrow> prefix option \<Rightarrow> prefix option option \<Rightarrow>
     network result \<times> net_db" where
  "network_create new_id now db projectID name parsed parsed6 =
     (case bindR (validate_Name ''name'' name) (\<lambda>_.
           bindR (check_first parsed) (\<lambda>prefix.
           bindR (check_second prefix parsed6) (\<lambda>snd6.
           if overlaps_existing db prefix snd6 then Inl (Conflict ''network_overlaps'')
           else Inr (prefix, snd6)))) of
        Inl e \<Rightarrow> (Inl e, db)
      | Inr (prefix, snd6) \<Rightarrow>
          (let n = new_network new_id now projectID name prefix snd6
           in case repo_insertNetwork db n of
                (Inl e, db') \<Rightarrow> (Inl (net_translate e), db')
              | (Inr _, db') \<Rightarrow> (Inr n, db')))"

definition network_create_text ::
    "(string \<Rightarrow> prefix option) \<Rightarrow> string \<Rightarrow> go_time \<Rightarrow> net_db \<Rightarrow> network_params \<Rightarrow> network result \<times> net_db" where
  "network_create_text parse new_id now db p =
     network_create new_id now db (np_ProjectID p) (np_Name p)
       (if np_CIDR p = [] then Some DefaultCIDR else parsePrefix parse (np_CIDR p))
       (if np_CIDR6 p = [] then None else Some (parsePrefix parse (np_CIDR6 p)))"

definition network_existsIn :: "net_db \<Rightarrow> string \<Rightarrow> string \<Rightarrow> bool result" where
  "network_existsIn db nid projectID =
     (case repo_network db nid of Inl _ \<Rightarrow> Inr False | Inr n \<Rightarrow> Inr (nw_ProjectID n = projectID))"

definition network_get :: "net_db \<Rightarrow> string \<Rightarrow> network result" where
  "network_get db nid =
     (case repo_network db nid of Inl e \<Rightarrow> Inl (net_translate e) | Inr n \<Rightarrow> Inr n)"

definition network_getIn :: "net_db \<Rightarrow> string \<Rightarrow> string \<Rightarrow> network result" where
  "network_getIn db nid projectID =
     bindR (network_get db nid) (\<lambda>n.
       if nw_ProjectID n \<noteq> projectID then Inl (NotFound ''network_not_found'') else Inr n)"

definition network_remove :: "net_db \<Rightarrow> string \<Rightarrow> string \<Rightarrow> unit result \<times> net_db" where
  "network_remove db nid projectID =
     (case network_getIn db nid projectID of
        Inl e \<Rightarrow> (Inl e, db)
      | Inr _ \<Rightarrow>
          if 0 < repo_countNICs db nid then (Inl (Conflict ''network_in_use''), db)
          else (Inr (), repo_deleteNetwork db nid))"

definition freeDefaultCIDR :: "net_db \<Rightarrow> prefix result" where
  "freeDefaultCIDR db =
     (let taken = map nw_CIDR (repo_listNetworks db)
      in if \<not> overlapsAny DefaultCIDR taken then Inr DefaultCIDR
         else case freePrefix SupernetCIDR 16 taken of
                Inl _ \<Rightarrow> Inl (Conflict ''address_space_exhausted'')
              | Inr p \<Rightarrow> Inr p)"

definition ensureDefaultFor ::
    "string \<Rightarrow> go_time \<Rightarrow> net_db \<Rightarrow> string \<Rightarrow> network result \<times> net_db" where
  "ensureDefaultFor new_id now db projectID =
     (case repo_networkByName db projectID ''default'' of
        Inr n \<Rightarrow> (Inr n, db)
      | Inl net_errNotFound \<Rightarrow>
          (case freeDefaultCIDR db of
             Inl e \<Rightarrow> (Inl e, db)
           | Inr p \<Rightarrow> network_create new_id now db projectID ''default'' (Some p) None)
      | Inl e \<Rightarrow> (Inl (net_translate e), db))"

definition choose_slice :: "prefix \<Rightarrow> prefix list \<Rightarrow> prefix result" where
  "choose_slice rng taken =
     (case nextSlice rng taken of Inl _ \<Rightarrow> Inl (Conflict ''network_exhausted'') | Inr p \<Rightarrow> Inr p)"

definition ensureSlice ::
    "go_time \<Rightarrow> net_db \<Rightarrow> string \<Rightarrow> string \<Rightarrow> node_slice result \<times> net_db" where
  "ensureSlice now db networkID nodeID =
     (case repo_slice db networkID nodeID of
        Inr s \<Rightarrow> (Inr s, db)
      | Inl _ \<Rightarrow>
          (case bindR (network_get db networkID) (\<lambda>n.
                bindR (choose_slice (nw_CIDR n) (repo_takenSlices db networkID)) (\<lambda>c.
                bindR (case nw_CIDR6 n of
                         None \<Rightarrow> Inr None
                       | Some r \<Rightarrow> bindR (choose_slice r (repo_takenSlices6 db networkID)) (\<lambda>c6. Inr (Some c6)))
                  (\<lambda>snd6. Inr (c, snd6)))) of
             Inl e \<Rightarrow> (Inl e, db)
           | Inr (c, snd6) \<Rightarrow>
               (let s = \<lparr>sl_NetworkID = networkID, sl_NodeID = nodeID, sl_CIDR = c,
                         sl_CIDR6 = snd6, sl_CreatedAt = now\<rparr>
                in case repo_insertSlice db s of
                     (Inr _, db') \<Rightarrow> (Inr s, db')
                   | (Inl net_errCIDRTaken, db') \<Rightarrow>
                       (case repo_slice db' networkID nodeID of
                          Inl _ \<Rightarrow> (Inl Internal, db') | Inr t \<Rightarrow> (Inr t, db'))
                   | (Inl e, db') \<Rightarrow> (Inl (net_translate e), db'))))"

text \<open>The first loop of \<open>allocate\<close>: the interface already on the network, or the next device number.\<close>

fun next_device :: "string \<Rightarrow> int \<Rightarrow> nic list \<Rightarrow> nic + int" where
  "next_device networkID device [] = Inr device"
| "next_device networkID device (n # ns) =
     (if nic_NetworkID n = networkID then Inl n
      else next_device networkID (if device \<le> nic_Device n then nic_Device n + 1 else device) ns)"

definition choose_address :: "prefix \<Rightarrow> addr list \<Rightarrow> addr result" where
  "choose_address rng taken =
     (case nextAddress rng taken of Inl _ \<Rightarrow> Inl (Conflict ''slice_exhausted'') | Inr a \<Rightarrow> Inr a)"

definition network_allocate ::
    "string \<Rightarrow> go_time \<Rightarrow> net_db \<Rightarrow> string \<Rightarrow> string \<Rightarrow> string \<Rightarrow> nic result \<times> net_db" where
  "network_allocate mac now db instanceID networkID nodeID =
     (case next_device networkID 0 (repo_nicsOf db instanceID) of
        Inl n \<Rightarrow> (Inr n, db)
      | Inr device \<Rightarrow>
          if MaxNICs \<le> device then (Inl (Conflict ''too_many_nics''), db)
          else (case ensureSlice now db networkID nodeID of
                  (Inl e, db1) \<Rightarrow> (Inl e, db1)
                | (Inr s, db1) \<Rightarrow>
                    (case bindR (choose_address (sl_CIDR s) (repo_takenAddresses db1 networkID)) (\<lambda>a.
                          bindR (case sl_CIDR6 s of
                                   None \<Rightarrow> Inr None
                                 | Some r \<Rightarrow> bindR (choose_address r (repo_takenAddresses6 db1 networkID))
                                              (\<lambda>b. Inr (Some b)))
                            (\<lambda>snd6. Inr (a, snd6))) of
                       Inl e \<Rightarrow> (Inl e, db1)
                     | Inr (a, snd6) \<Rightarrow>
                         (let n = \<lparr>nic_InstanceID = instanceID, nic_NetworkID = networkID,
                                   nic_Device = device, nic_NodeID = nodeID, nic_IP = a,
                                   nic_IP6 = snd6, nic_MAC = mac, nic_CreatedAt = now\<rparr>
                          in case repo_insertNIC db1 n of
                               (Inl e, db2) \<Rightarrow> (Inl (net_translate e), db2)
                             | (Inr _, db2) \<Rightarrow> (Inr n, db2)))))"

definition network_release :: "net_db \<Rightarrow> string \<Rightarrow> unit result \<times> net_db" where
  "network_release db instanceID = (Inr (), repo_deleteNIC db instanceID)"

section \<open>Module\<close>

definition net_DefaultNetworkID ::
    "string \<Rightarrow> go_time \<Rightarrow> net_db \<Rightarrow> string \<Rightarrow> string result \<times> net_db" where
  "net_DefaultNetworkID new_id now db projectID =
     (case ensureDefaultFor new_id now db projectID of
        (Inl e, db') \<Rightarrow> (Inl e, db') | (Inr n, db') \<Rightarrow> (Inr (nw_ID n), db'))"

definition net_Allocate ::
    "string \<Rightarrow> go_time \<Rightarrow> net_db \<Rightarrow> string \<Rightarrow> string \<Rightarrow> string \<Rightarrow> unit result \<times> net_db" where
  "net_Allocate mac now db instanceID networkID nodeID =
     (case network_allocate mac now db instanceID networkID nodeID of
        (Inl e, db') \<Rightarrow> (Inl e, db') | (Inr _, db') \<Rightarrow> (Inr (), db'))"

section \<open>The invariant\<close>

definition apart :: "('a \<Rightarrow> 'a \<Rightarrow> bool) \<Rightarrow> 'a list \<Rightarrow> bool" where
  "apart R xs \<longleftrightarrow> distinct xs \<and> (\<forall>x\<in>set xs. \<forall>y\<in>set xs. x \<noteq> y \<longrightarrow> R x y)"

lemma apart_append:
  "apart R xs \<Longrightarrow> (\<And>x. x \<in> set xs \<Longrightarrow> x \<noteq> z \<and> R x z \<and> R z x) \<Longrightarrow> apart R (xs @ [z])"
  by (auto simp: apart_def)

lemma apart_filter: "apart R xs \<Longrightarrow> apart R (filter P xs)"
  by (auto simp: apart_def)

lemma apartD: "apart R xs \<Longrightarrow> x \<in> set xs \<Longrightarrow> y \<in> set xs \<Longrightarrow> x \<noteq> y \<Longrightarrow> R x y"
  by (simp add: apart_def)

text \<open>A range that a network may carry: masked, valid and larger than a slice.\<close>

definition range_ok :: "prefix \<Rightarrow> bool" where
  "range_ok p \<longleftrightarrow> network_ok p \<and> pfx_bits p < sliceBitsFor p"

definition network_row_ok :: "network \<Rightarrow> bool" where
  "network_row_ok n \<longleftrightarrow>
     range_ok (nw_CIDR n) \<and>
     (\<forall>p. nw_CIDR6 n = Some p \<longrightarrow> range_ok p \<and> addr_is4 (pfx_addr p) \<noteq> addr_is4 (pfx_addr (nw_CIDR n)))"

definition networks_apart :: "network \<Rightarrow> network \<Rightarrow> bool" where
  "networks_apart a b \<longleftrightarrow> nw_ID a \<noteq> nw_ID b \<and>
     (\<forall>p\<in>set (ranges a). \<forall>q\<in>set (ranges b). \<not> overlaps p q)"

definition slice_row_ok :: "network list \<Rightarrow> node_slice \<Rightarrow> bool" where
  "slice_row_ok ns s \<longleftrightarrow>
     (\<exists>n\<in>set ns. nw_ID n = sl_NetworkID s \<and> is_slice (nw_CIDR n) (sl_CIDR s) \<and>
        (\<forall>p. sl_CIDR6 s = Some p \<longrightarrow> (\<exists>r. nw_CIDR6 n = Some r \<and> is_slice r p)))"

definition slices_apart :: "node_slice \<Rightarrow> node_slice \<Rightarrow> bool" where
  "slices_apart s t \<longleftrightarrow> (sl_NetworkID s = sl_NetworkID t \<longrightarrow>
     sl_NodeID s \<noteq> sl_NodeID t \<and> sl_CIDR s \<noteq> sl_CIDR t \<and>
     (sl_CIDR6 s = sl_CIDR6 t \<longrightarrow> sl_CIDR6 s = None))"

definition nic_row_ok :: "node_slice list \<Rightarrow> nic \<Rightarrow> bool" where
  "nic_row_ok ss n \<longleftrightarrow>
     (\<exists>s\<in>set ss. sl_NetworkID s = nic_NetworkID n \<and> sl_NodeID s = nic_NodeID n \<and>
        usable (sl_CIDR s) (nic_IP n) \<and>
        (\<forall>a. nic_IP6 n = Some a \<longrightarrow> (\<exists>r. sl_CIDR6 s = Some r \<and> usable r a)))"

definition nics_apart :: "nic \<Rightarrow> nic \<Rightarrow> bool" where
  "nics_apart m n \<longleftrightarrow>
     (nic_InstanceID m = nic_InstanceID n \<longrightarrow>
        nic_NetworkID m \<noteq> nic_NetworkID n \<and> nic_Device m \<noteq> nic_Device n) \<and>
     (nic_NetworkID m = nic_NetworkID n \<longrightarrow>
        nic_IP m \<noteq> nic_IP n \<and> (nic_IP6 m = nic_IP6 n \<longrightarrow> nic_IP6 m = None))"

definition net_wf :: "net_db \<Rightarrow> bool" where
  "net_wf db \<longleftrightarrow>
     apart networks_apart (nw_rows db) \<and> list_all network_row_ok (nw_rows db) \<and>
     apart slices_apart (slice_rows db) \<and> list_all (slice_row_ok (nw_rows db)) (slice_rows db) \<and>
     apart nics_apart (nic_rows db) \<and> list_all (nic_row_ok (slice_rows db)) (nic_rows db)"

lemma network_of_id:
  "net_wf db \<Longrightarrow> a \<in> set (nw_rows db) \<Longrightarrow> b \<in> set (nw_rows db) \<Longrightarrow> nw_ID a = nw_ID b \<Longrightarrow> a = b"
  unfolding net_wf_def by (auto dest: apartD simp: networks_apart_def)

lemma repo_networkD: "repo_network db i = Inr n \<Longrightarrow> n \<in> set (nw_rows db) \<and> nw_ID n = i"
  by (auto simp: repo_network_def split: option.splits dest: find_SomeD)

section \<open>Creating and removing networks\<close>

lemma set_listNetworks [simp]: "set (repo_listNetworks db) = set (nw_rows db)"
  by (simp add: repo_listNetworks_def)

lemma not_overlaps_existing:
  assumes "\<not> overlaps_existing db p second6" "n \<in> set (nw_rows db)" "q \<in> set (ranges n)"
  shows "\<not> overlaps q p \<and> (\<forall>r. second6 = Some r \<longrightarrow> \<not> overlaps q r)"
  using assms by (auto simp: overlaps_existing_def list_ex_iff split: option.splits)

definition parsed_ok :: "prefix option \<Rightarrow> bool" where
  "parsed_ok r \<longleftrightarrow> (\<forall>p. r = Some p \<longrightarrow> network_ok p)"

lemma network_ok_masked: "prefix_ok p \<Longrightarrow> network_ok (masked p)"
proof -
  assume p: "prefix_ok p"
  have hb: "host_bits (masked p) = host_bits p" "bit_len (pfx_addr (masked p)) = bit_len (pfx_addr p)"
    by (simp_all add: masked_def host_bits_def bit_len_def)
  have "addr_val (pfx_addr (masked p)) \<le> addr_val (pfx_addr p)" by (simp add: masked_def)
  with p hb have "addr_ok (pfx_addr (masked p))" unfolding prefix_ok_def addr_ok_def by simp
  moreover have "pfx_bits (masked p) = pfx_bits p" by (simp add: masked_def)
  moreover have "2 ^ host_bits p dvd addr_val (pfx_addr (masked p))" by (simp add: masked_def)
  ultimately show ?thesis using p hb by (simp add: network_ok_def prefix_ok_def masked_fix)
qed

lemma wf_network_create:
  assumes wf: "net_wf db" and p: "parsed_ok parsed" "\<forall>q. parsed6 = Some q \<longrightarrow> parsed_ok q"
  shows "net_wf (snd (network_create new_id now db pid name parsed parsed6))"
proof (cases "snd (network_create new_id now db pid name parsed parsed6) = db")
  case True
  with wf show ?thesis by simp
next
  case False
  let ?db = "snd (network_create new_id now db pid name parsed parsed6)"
  from False obtain c c6 where ok: "check_first parsed = Inr c" "check_second c parsed6 = Inr c6"
    "\<not> overlaps_existing db c c6"
    and db1: "?db = snd (repo_insertNetwork db (new_network new_id now pid name c c6))"
    by (auto simp: network_create_def Let_def bindR_eq_Inr split: sum.splits if_splits prod.splits)
  note first = ok(1) and snd6 = ok(2) and free = ok(3)
  define n where "n = new_network new_id now pid name c c6"
  have n: "nw_ID n = new_id" "nw_CIDR n = c" "nw_CIDR6 n = c6" by (simp_all add: n_def new_network_def)
  from db1 False have db': "?db = db\<lparr>nw_rows := nw_rows db @ [n]\<rparr>"
    and fresh: "\<forall>m\<in>set (nw_rows db). nw_ID m \<noteq> nw_ID n"
    unfolding n_def [symmetric] by (auto simp: repo_insertNetwork_def list_ex_iff split: if_splits)
  have row: "network_row_ok n"
    using first snd6 p n
    by (auto simp: network_row_ok_def range_ok_def check_first_def check_second_def parsed_ok_def
        split: option.splits if_splits)
  have "networks_apart m n \<and> networks_apart n m" if m: "m \<in> set (nw_rows db)" for m
  proof -
    have one: "\<not> overlaps q r" if "q \<in> set (ranges m)" "r \<in> set (ranges n)" for q r
      using not_overlaps_existing [OF free m that(1)] that(2) n
      by (cases c6) (auto simp: ranges_def [of n])
    then have "\<not> overlaps r q" if "q \<in> set (ranges m)" "r \<in> set (ranges n)" for q r
      using that overlaps_sym by blast
    with one fresh m show ?thesis unfolding networks_apart_def by metis
  qed
  then have "apart networks_apart (nw_rows db @ [n])"
    using wf fresh by (intro apart_append) (auto simp: net_wf_def)
  moreover have "list_all (slice_row_ok (nw_rows db @ [n])) (slice_rows db)"
    using wf by (auto simp: net_wf_def list_all_iff slice_row_ok_def)
  ultimately show ?thesis using wf row unfolding db' by (simp add: net_wf_def)
qed

lemma wf_network_remove:
  assumes wf: "net_wf db"
  shows "net_wf (snd (network_remove db i pid))"
proof -
  have "net_wf (repo_deleteNetwork db i)" if "\<not> 0 < repo_countNICs db i"
  proof -
    have none: "nic_NetworkID n \<noteq> i" if "n \<in> set (nic_rows db)" for n
      using \<open>\<not> 0 < repo_countNICs db i\<close> that by (auto simp: repo_countNICs_def filter_empty_conv)
    have "list_all (nic_row_ok (filter (\<lambda>s. sl_NetworkID s \<noteq> i) (slice_rows db))) (nic_rows db)"
      using wf none by (fastforce simp: net_wf_def list_all_iff nic_row_ok_def)
    moreover have "list_all (slice_row_ok (filter (\<lambda>n. nw_ID n \<noteq> i) (nw_rows db)))
        (filter (\<lambda>s. sl_NetworkID s \<noteq> i) (slice_rows db))"
      using wf by (fastforce simp: net_wf_def list_all_iff slice_row_ok_def)
    ultimately show ?thesis
      using wf by (auto simp: net_wf_def repo_deleteNetwork_def list_all_iff apart_filter)
  qed
  with wf show ?thesis by (auto simp: network_remove_def split: sum.splits)
qed

lemma default_ranges_ok: "network_ok DefaultCIDR" "network_ok SupernetCIDR"
  by (simp_all add: network_ok_def prefix_ok_def masked_def host_bits_def bit_len_def addr_ok_def)

lemma freeDefaultCIDR_ok: "freeDefaultCIDR db = Inr p \<Longrightarrow> network_ok p"
  using freePrefix_result [OF default_ranges_ok(2), of 16 "map nw_CIDR (repo_listNetworks db)"]
  by (auto simp: freeDefaultCIDR_def Let_def is_part_def bit_len_def default_ranges_ok
      split: if_splits sum.splits)

lemma wf_ensureDefaultFor:
  assumes wf: "net_wf db"
  shows "net_wf (snd (ensureDefaultFor new_id now db pid))"
proof -
  have "net_wf (snd (network_create new_id now db pid name (Some p) None))" if "network_ok p" for name p
    by (rule wf_network_create [OF wf]) (use that in \<open>auto simp: parsed_ok_def\<close>)
  with wf freeDefaultCIDR_ok [of db] show ?thesis
    by (auto simp: ensureDefaultFor_def split: sum.splits net_error.splits)
qed

section \<open>Slices\<close>

lemma set_map_filter_iff: "y \<in> set (List.map_filter f xs) \<longleftrightarrow> (\<exists>x\<in>set xs. f x = Some y)"
  by (induction xs) (auto simp: List.map_filter_simps split: option.splits)

lemma choose_slice_ok:
  assumes "choose_slice rng taken = Inr s" "range_ok rng"
  shows "is_slice rng s \<and> s \<notin> set taken"
  using assms nextSlice_result [of rng taken]
  by (auto simp: choose_slice_def range_ok_def split: sum.splits)

definition chosen_slices :: "net_db \<Rightarrow> string \<Rightarrow> network \<Rightarrow> prefix \<Rightarrow> prefix option \<Rightarrow> bool" where
  "chosen_slices db networkID n c c6 \<longleftrightarrow>
     n \<in> set (nw_rows db) \<and> nw_ID n = networkID \<and>
     is_slice (nw_CIDR n) c \<and> c \<notin> set (repo_takenSlices db networkID) \<and>
     (\<forall>p. c6 = Some p \<longrightarrow> p \<notin> set (repo_takenSlices6 db networkID) \<and>
        (\<exists>r. nw_CIDR6 n = Some r \<and> is_slice r p))"

lemma wf_insert_slice:
  assumes wf: "net_wf db" and ch: "chosen_slices db i n c c6"
    and none: "\<forall>s\<in>set (slice_rows db). \<not> (sl_NetworkID s = i \<and> sl_NodeID s = node)"
  shows "net_wf (db\<lparr>slice_rows := slice_rows db @ [\<lparr>sl_NetworkID = i, sl_NodeID = node, sl_CIDR = c,
           sl_CIDR6 = c6, sl_CreatedAt = now\<rparr>]\<rparr>)" (is "net_wf (db\<lparr>slice_rows := _ @ [?s]\<rparr>)")
proof -
  have "slices_apart t ?s \<and> slices_apart ?s t \<and> t \<noteq> ?s" if t: "t \<in> set (slice_rows db)" for t
  proof (cases "sl_NetworkID t = i")
    case True
    have "sl_CIDR t \<noteq> c" using ch t True by (auto simp: chosen_slices_def repo_takenSlices_def)
    moreover have "sl_CIDR6 t \<noteq> c6 \<or> c6 = None"
      using ch t True by (cases c6) (auto simp: chosen_slices_def repo_takenSlices6_def set_map_filter_iff)
    moreover from \<open>sl_CIDR t \<noteq> c\<close> have "t \<noteq> ?s" by (metis node_slice.select_convs(3))
    ultimately show ?thesis using none t True by (auto simp: slices_apart_def)
  next
    case False
    then have "t \<noteq> ?s" by (metis node_slice.select_convs(1))
    with False show ?thesis by (auto simp: slices_apart_def)
  qed
  then have "apart slices_apart (slice_rows db @ [?s])"
    using wf by (intro apart_append) (auto simp: net_wf_def)
  moreover have "slice_row_ok (nw_rows db) ?s"
    using ch unfolding chosen_slices_def slice_row_ok_def by force
  moreover have "list_all (nic_row_ok (slice_rows db @ [?s])) (nic_rows db)"
    using wf by (auto simp: net_wf_def list_all_iff nic_row_ok_def)
  ultimately show ?thesis using wf by (simp add: net_wf_def)
qed

lemma ensureSlice_result:
  assumes wf: "net_wf db" and call: "ensureSlice now db i node = (r, db')"
  shows "net_wf db' \<and> nic_rows db' = nic_rows db \<and> nw_rows db' = nw_rows db \<and>
    (\<forall>s. r = Inr s \<longrightarrow> s \<in> set (slice_rows db') \<and> sl_NetworkID s = i \<and> sl_NodeID s = node)"
proof (cases "repo_slice db i node")
  case (Inr s)
  then have "s \<in> set (slice_rows db) \<and> sl_NetworkID s = i \<and> sl_NodeID s = node"
    by (auto simp: repo_slice_def split: option.splits dest: find_SomeD)
  with Inr call wf show ?thesis by (auto simp: ensureSlice_def)
next
  case (Inl e)
  then have none: "\<forall>s\<in>set (slice_rows db). \<not> (sl_NetworkID s = i \<and> sl_NodeID s = node)"
    by (auto simp: repo_slice_def find_None_iff split: option.splits)
  let ?pick = "bindR (network_get db i) (\<lambda>n.
      bindR (choose_slice (nw_CIDR n) (repo_takenSlices db i)) (\<lambda>c.
      bindR (case nw_CIDR6 n of None \<Rightarrow> Inr None
             | Some r \<Rightarrow> bindR (choose_slice r (repo_takenSlices6 db i)) (\<lambda>c6. Inr (Some c6)))
        (\<lambda>snd6. Inr (c, snd6))))"
  show ?thesis
  proof (cases ?pick)
    case (Inl e')
    with call wf \<open>repo_slice db i node = Inl e\<close> show ?thesis by (auto simp: ensureSlice_def)
  next
    case (Inr cc)
    obtain c c6 where cc: "cc = (c, c6)" by (cases cc)
    with Inr obtain n where n: "network_get db i = Inr n"
      and c: "choose_slice (nw_CIDR n) (repo_takenSlices db i) = Inr c"
      and c6: "(case nw_CIDR6 n of None \<Rightarrow> Inr None
             | Some r \<Rightarrow> bindR (choose_slice r (repo_takenSlices6 db i)) (\<lambda>c6. Inr (Some c6))) = Inr c6"
      by (auto simp: bindR_eq_Inr)
    from n have nin: "n \<in> set (nw_rows db)" "nw_ID n = i"
      by (auto simp: network_get_def split: sum.splits dest: repo_networkD)
    then have row: "network_row_ok n" using wf by (auto simp: net_wf_def list_all_iff)
    have "chosen_slices db i n c c6"
      using nin row choose_slice_ok [OF c] c6
      by (auto simp: chosen_slices_def network_row_ok_def bindR_eq_Inr split: option.splits
          dest: choose_slice_ok)
    note wf' = wf_insert_slice [OF wf this none, of now]
    let ?s = "\<lparr>sl_NetworkID = i, sl_NodeID = node, sl_CIDR = c, sl_CIDR6 = c6, sl_CreatedAt = now\<rparr>"
    have body: "ensureSlice now db i node =
        (case repo_insertSlice db ?s of
           (Inr _, db') \<Rightarrow> (Inr ?s, db')
         | (Inl net_errCIDRTaken, db') \<Rightarrow>
             (case repo_slice db' i node of Inl _ \<Rightarrow> (Inl Internal, db') | Inr t \<Rightarrow> (Inr t, db'))
         | (Inl e, db') \<Rightarrow> (Inl (net_translate e), db'))"
      unfolding ensureSlice_def \<open>repo_slice db i node = Inl e\<close> sum.case Inr cc Let_def by simp
    show ?thesis
    proof (cases "fst (repo_insertSlice db ?s)")
      case (Inl e2)
      then have "repo_insertSlice db ?s = (Inl net_errCIDRTaken, db)"
        by (auto simp: repo_insertSlice_def split: if_splits)
      with call body \<open>repo_slice db i node = Inl e\<close> have "r = Inl Internal" "db' = db" by simp_all
      with wf show ?thesis by simp
    next
      case (Inr u)
      then have "repo_insertSlice db ?s = (Inr (), db\<lparr>slice_rows := slice_rows db @ [?s]\<rparr>)"
        by (auto simp: repo_insertSlice_def split: if_splits)
      with call body wf' show ?thesis by auto
    qed
  qed
qed

section \<open>Interfaces\<close>

lemma choose_address_ok:
  assumes "choose_address rng taken = Inr a" "network_ok rng"
  shows "usable rng a \<and> a \<notin> set taken"
  using assms nextAddress_result [of rng taken] by (auto simp: choose_address_def split: sum.splits)

lemma next_device_bounds:
  "next_device i d ns = Inr k \<Longrightarrow> d \<le> k \<and> (\<forall>n\<in>set ns. nic_Device n < k \<and> nic_NetworkID n \<noteq> i)"
  by (induction i d ns rule: next_device.induct) (auto split: if_splits)

lemma next_device_held: "next_device i d ns = Inl n \<Longrightarrow> n \<in> set ns \<and> nic_NetworkID n = i"
  by (induction i d ns rule: next_device.induct) (auto split: if_splits)

lemma set_nicsOf [simp]: "set (repo_nicsOf db j) = {n \<in> set (nic_rows db). nic_InstanceID n = j}"
  by (auto simp: repo_nicsOf_def)

lemma slice_ranges_ok:
  assumes "net_wf db" "s \<in> set (slice_rows db)"
  shows "network_ok (sl_CIDR s) \<and> (\<forall>p. sl_CIDR6 s = Some p \<longrightarrow> network_ok p)"
  using assms by (fastforce simp: net_wf_def list_all_iff slice_row_ok_def is_slice_def)

lemma network_allocate_result:
  assumes wf: "net_wf db" and call: "network_allocate mac now db j i node = (r, db')"
  shows "net_wf db' \<and> nw_rows db' = nw_rows db \<and>
    (\<forall>n. r = Inr n \<longrightarrow> n \<in> set (nic_rows db') \<and> nic_InstanceID n = j \<and> nic_NetworkID n = i)"
proof (cases "next_device i 0 (repo_nicsOf db j)")
  case (Inl n)
  with next_device_held [OF Inl] call wf show ?thesis by (auto simp: network_allocate_def)
next
  case (Inr device)
  note dev = next_device_bounds [OF Inr]
  obtain sr db1 where sl: "ensureSlice now db i node = (sr, db1)" by fastforce
  note es = ensureSlice_result [OF wf sl]
  show ?thesis
  proof (cases "MaxNICs \<le> device \<or> isl sr")
    case True
    then have "network_allocate mac now db j i node =
        (if MaxNICs \<le> device then (Inl (Conflict ''too_many_nics''), db) else (Inl (projl sr), db1))"
      unfolding network_allocate_def Inr sum.case sl prod.case by (cases sr) auto
    with call es wf show ?thesis by (auto split: if_splits)
  next
    case False
    then obtain s where s: "sr = Inr s" by (cases sr) auto
    with es have sin: "s \<in> set (slice_rows db1)" "sl_NetworkID s = i" "sl_NodeID s = node"
      and wf1: "net_wf db1" and nics: "nic_rows db1 = nic_rows db" and nws: "nw_rows db1 = nw_rows db" by auto
    let ?pick = "bindR (choose_address (sl_CIDR s) (repo_takenAddresses db1 i)) (\<lambda>a.
        bindR (case sl_CIDR6 s of None \<Rightarrow> Inr None
               | Some r \<Rightarrow> bindR (choose_address r (repo_takenAddresses6 db1 i)) (\<lambda>b. Inr (Some b)))
          (\<lambda>snd6. Inr (a, snd6)))"
    show ?thesis
    proof (cases ?pick)
      case (Inl e)
      have "network_allocate mac now db j i node = (Inl e, db1)"
        unfolding network_allocate_def \<open>next_device i 0 _ = Inr device\<close> sum.case sl s prod.case Inl
        using False by simp
      with call wf1 nws show ?thesis by auto
    next
      case (Inr aa)
      obtain a b where aa: "aa = (a, b)" by (cases aa)
      with Inr have a: "choose_address (sl_CIDR s) (repo_takenAddresses db1 i) = Inr a"
        and b: "(case sl_CIDR6 s of None \<Rightarrow> Inr None
               | Some r \<Rightarrow> bindR (choose_address r (repo_takenAddresses6 db1 i)) (\<lambda>b. Inr (Some b))) = Inr b"
        by (auto simp: bindR_eq_Inr)
      note rng = slice_ranges_ok [OF wf1 sin(1)]
      have ua: "usable (sl_CIDR s) a" "a \<notin> set (repo_takenAddresses db1 i)"
        using choose_address_ok [OF a] rng by auto
      have ub: "\<forall>x. b = Some x \<longrightarrow> x \<notin> set (repo_takenAddresses6 db1 i) \<and>
          (\<exists>r. sl_CIDR6 s = Some r \<and> usable r x)"
        using b rng by (auto simp: bindR_eq_Inr split: option.splits dest: choose_address_ok)
      let ?n = "\<lparr>nic_InstanceID = j, nic_NetworkID = i, nic_Device = device, nic_NodeID = node, nic_IP = a,
        nic_IP6 = b, nic_MAC = mac, nic_CreatedAt = now\<rparr>"
      have "nics_apart m ?n \<and> nics_apart ?n m \<and> m \<noteq> ?n" if m: "m \<in> set (nic_rows db1)" for m
      proof -
        have inst: "nic_InstanceID m = j \<longrightarrow> nic_NetworkID m \<noteq> i \<and> nic_Device m \<noteq> device"
          using dev m nics by force
        have ip: "nic_NetworkID m = i \<longrightarrow> nic_IP m \<noteq> a"
          using ua(2) m by (auto simp: repo_takenAddresses_def)
        have ip6: "nic_NetworkID m = i \<longrightarrow> nic_IP6 m \<noteq> b \<or> b = None"
          using ub m by (cases b) (auto simp: repo_takenAddresses6_def set_map_filter_iff)
        have "m \<noteq> ?n" using inst by (metis nic.select_convs(1,2))
        with inst ip ip6 show ?thesis by (auto simp: nics_apart_def)
      qed
      then have "apart nics_apart (nic_rows db1 @ [?n])"
        using wf1 by (intro apart_append) (auto simp: net_wf_def)
      moreover have "nic_row_ok (slice_rows db1) ?n"
        using sin ua(1) ub unfolding nic_row_ok_def by force
      ultimately have wf2: "net_wf (db1\<lparr>nic_rows := nic_rows db1 @ [?n]\<rparr>)"
        using wf1 by (simp add: net_wf_def)
      have "network_allocate mac now db j i node =
          (case repo_insertNIC db1 ?n of
             (Inl e, db2) \<Rightarrow> (Inl (net_translate e), db2) | (Inr _, db2) \<Rightarrow> (Inr ?n, db2))"
        unfolding network_allocate_def \<open>next_device i 0 _ = Inr device\<close> sum.case sl s prod.case Inr aa Let_def
        using False by simp
      with call wf1 wf2 nws show ?thesis by (auto simp: repo_insertNIC_def split: if_splits)
    qed
  qed
qed

lemma wf_network_release: "net_wf db \<Longrightarrow> net_wf (snd (network_release db j))"
  by (auto simp: network_release_def repo_deleteNIC_def net_wf_def list_all_iff apart_filter)

text \<open>One call of the module; a text that parses gives a valid prefix.\<close>

inductive net_step :: "(string \<Rightarrow> prefix option) \<Rightarrow> net_db \<Rightarrow> net_db \<Rightarrow> bool" for parse where
  create: "net_step parse db (snd (network_create_text parse new_id now db params))"
| default: "net_step parse db (snd (ensureDefaultFor new_id now db projectID))"
| remove: "net_step parse db (snd (network_remove db networkID projectID))"
| slice_for: "net_step parse db (snd (ensureSlice now db networkID nodeID))"
| allocate: "net_step parse db (snd (network_allocate mac now db instanceID networkID nodeID))"
| release: "net_step parse db (snd (network_release db instanceID))"

inductive_cases net_stepE: "net_step parse db db'"

definition parses_valid :: "(string \<Rightarrow> prefix option) \<Rightarrow> bool" where
  "parses_valid parse \<longleftrightarrow> (\<forall>s p. parse s = Some p \<longrightarrow> prefix_ok p)"

lemma parsed_ok_parsePrefix: "parses_valid parse \<Longrightarrow> parsed_ok (parsePrefix parse s)"
  by (auto simp: parsed_ok_def parsePrefix_def parses_valid_def network_ok_masked
      split: option.splits if_splits)

lemma net_step_wf:
  assumes step: "net_step parse db db'" and wf: "net_wf db" and parse: "parses_valid parse"
  shows "net_wf db'"
  using step
proof cases
  case (create new_id now params)
  have "parsed_ok (Some DefaultCIDR)" using default_ranges_ok by (simp add: parsed_ok_def)
  then show ?thesis
    unfolding create network_create_text_def
    using parsed_ok_parsePrefix [OF parse] by (intro wf_network_create [OF wf]) auto
next
  case (slice_for now networkID nodeID)
  then show ?thesis using ensureSlice_result [OF wf] by (metis prod.collapse)
next
  case (allocate mac now instanceID networkID nodeID)
  then show ?thesis using network_allocate_result [OF wf] by (metis prod.collapse)
qed (simp_all add: wf wf_ensureDefaultFor wf_network_remove wf_network_release)

abbreviation empty_net_db :: net_db where
  "empty_net_db \<equiv> \<lparr>nw_rows = [], slice_rows = [], nic_rows = []\<rparr>"

lemma reachable_net_wf:
  assumes "(net_step parse)\<^sup>*\<^sup>* empty_net_db db" "parses_valid parse"
  shows "net_wf db"
  using assms
proof (induction rule: rtranclp_induct)
  case base
  show ?case by (simp add: net_wf_def apart_def)
next
  case (step y z)
  then show ?case using net_step_wf by blast
qed

section \<open>Addresses are unique\<close>

lemma nic_address_in_network:
  assumes wf: "net_wf db" and m: "m \<in> set (nic_rows db)" and a: "a = nic_IP m \<or> nic_IP6 m = Some a"
  shows "\<exists>n\<in>set (nw_rows db). nw_ID n = nic_NetworkID m \<and> (\<exists>r\<in>set (ranges n). contains r a)"
proof -
  from wf m obtain s where s: "s \<in> set (slice_rows db)" "sl_NetworkID s = nic_NetworkID m"
    "usable (sl_CIDR s) (nic_IP m)"
    "\<forall>a. nic_IP6 m = Some a \<longrightarrow> (\<exists>r. sl_CIDR6 s = Some r \<and> usable r a)"
    by (fastforce simp: net_wf_def list_all_iff nic_row_ok_def)
  from wf s(1) obtain n where n: "n \<in> set (nw_rows db)" "nw_ID n = sl_NetworkID s"
    "is_slice (nw_CIDR n) (sl_CIDR s)"
    "\<forall>p. sl_CIDR6 s = Some p \<longrightarrow> (\<exists>r. nw_CIDR6 n = Some r \<and> is_slice r p)"
    by (fastforce simp: net_wf_def list_all_iff slice_row_ok_def)
  have row: "network_row_ok n" using wf n(1) by (auto simp: net_wf_def list_all_iff)
  have "\<exists>r\<in>set (ranges n). contains r a"
  proof (cases "a = nic_IP m")
    case True
    with s(3) n(3) row is_slice_within [of "nw_CIDR n" "sl_CIDR s" a] show ?thesis
      by (auto simp: usable_def network_row_ok_def range_ok_def ranges_def)
  next
    case False
    with a s(4) n(4) obtain r p where "sl_CIDR6 s = Some p" "usable p a" "nw_CIDR6 n = Some r" "is_slice r p"
      by blast
    with row is_slice_within [of r p a] show ?thesis
      by (auto simp: usable_def network_row_ok_def range_ok_def ranges_def)
  qed
  with n s(2) show ?thesis by auto
qed

lemma nic_families:
  assumes wf: "net_wf db" and m: "m \<in> set (nic_rows db)" and b: "nic_IP6 m = Some b"
    and n: "n \<in> set (nic_rows db)" "nic_NetworkID n = nic_NetworkID m"
  shows "addr_is4 b \<noteq> addr_is4 (nic_IP n)"
proof -
  have fam: "\<exists>w\<in>set (nw_rows db). nw_ID w = nic_NetworkID x \<and>
      addr_is4 (nic_IP x) = addr_is4 (pfx_addr (nw_CIDR w)) \<and>
      (\<forall>a. nic_IP6 x = Some a \<longrightarrow> addr_is4 a \<noteq> addr_is4 (pfx_addr (nw_CIDR w)))"
    if x: "x \<in> set (nic_rows db)" for x
  proof -
    from wf x obtain s where s: "s \<in> set (slice_rows db)" "sl_NetworkID s = nic_NetworkID x"
      "usable (sl_CIDR s) (nic_IP x)"
      "\<forall>a. nic_IP6 x = Some a \<longrightarrow> (\<exists>r. sl_CIDR6 s = Some r \<and> usable r a)"
      by (fastforce simp: net_wf_def list_all_iff nic_row_ok_def)
    from wf s(1) obtain w where w: "w \<in> set (nw_rows db)" "nw_ID w = sl_NetworkID s"
      "is_slice (nw_CIDR w) (sl_CIDR s)"
      "\<forall>p. sl_CIDR6 s = Some p \<longrightarrow> (\<exists>r. nw_CIDR6 w = Some r \<and> is_slice r p)"
      by (fastforce simp: net_wf_def list_all_iff slice_row_ok_def)
    have "network_row_ok w" using wf w(1) by (auto simp: net_wf_def list_all_iff)
    then have "addr_is4 (nic_IP x) = addr_is4 (pfx_addr (nw_CIDR w))"
      "\<forall>a. nic_IP6 x = Some a \<longrightarrow> addr_is4 a \<noteq> addr_is4 (pfx_addr (nw_CIDR w))"
      using s w by (fastforce simp: usable_def contains_def is_slice_def network_row_ok_def)+
    with w s show ?thesis by auto
  qed
  from fam [OF m] fam [OF n(1)] network_of_id [OF wf] b n(2) show ?thesis by metis
qed

text \<open>
  C6: no two interfaces on the platform ever hold the same address, of either
  family and on whichever networks they are: after any sequence of creations,
  removals, allocations and releases, two different interfaces share no address.
\<close>

theorem addresses_unique:
  assumes reach: "(net_step parse)\<^sup>*\<^sup>* empty_net_db db" and parse: "parses_valid parse"
    and m: "m \<in> set (nic_rows db)" and n: "n \<in> set (nic_rows db)" and ne: "m \<noteq> n"
    and a: "a = nic_IP m \<or> nic_IP6 m = Some a" and b: "b = nic_IP n \<or> nic_IP6 n = Some b"
  shows "a \<noteq> b"
proof
  assume eq: "a = b"
  have wf: "net_wf db" by (rule reachable_net_wf [OF reach parse])
  have ap: "nics_apart m n" using wf m n ne apartD by (auto simp: net_wf_def)
  from nic_address_in_network [OF wf m a] obtain v r where v: "v \<in> set (nw_rows db)"
    "nw_ID v = nic_NetworkID m" "r \<in> set (ranges v)" "contains r a" by blast
  from nic_address_in_network [OF wf n b] obtain w q where w: "w \<in> set (nw_rows db)"
    "nw_ID w = nic_NetworkID n" "q \<in> set (ranges w)" "contains q b" by blast
  show False
  proof (cases "nic_NetworkID m = nic_NetworkID n")
    case True
    have "addr_is4 a \<noteq> addr_is4 (nic_IP n)" if "nic_IP6 m = Some a"
      using nic_families [OF wf m that n] True by simp
    moreover have "addr_is4 b \<noteq> addr_is4 (nic_IP m)" if "nic_IP6 n = Some b"
      using nic_families [OF wf n that m] True by simp
    ultimately show False using ap True a b eq by (auto simp: nics_apart_def)
  next
    case False
    with v w have "v \<noteq> w" by auto
    then have "networks_apart v w" using wf v(1) w(1) apartD by (auto simp: net_wf_def)
    with v w eq overlaps_common [of r a q] show False by (auto simp: networks_apart_def)
  qed
qed

text \<open>A platform with one network and two interfaces on one node.\<close>

definition demo0 :: net_db where
  "demo0 = snd (ensureDefaultFor ''nw-1'' 1 empty_net_db ''p1'')"
definition demo1 :: net_db where
  "demo1 = snd (network_allocate ''02:01'' 2 demo0 ''i_1'' ''nw-1'' ''n1'')"
definition demo2 :: net_db where
  "demo2 = snd (network_allocate ''02:02'' 3 demo1 ''i_2'' ''nw-1'' ''n1'')"

lemma demo0_eq:
  "demo0 = \<lparr>nw_rows = [new_network ''nw-1'' 1 ''p1'' ''default'' DefaultCIDR None], slice_rows = [], nic_rows = []\<rparr>"
proof -
  have "validate_Name ''name'' ''default'' = Inr ()" by code_simp
  then show ?thesis
    by (simp add: demo0_def ensureDefaultFor_def repo_networkByName_def freeDefaultCIDR_def
        repo_listNetworks_def overlapsAny_def network_create_def check_first_def sliceBitsFor_def
        check_second_def overlaps_existing_def repo_insertNetwork_def Let_def)
qed

lemma demo_slice: "nextSlice DefaultCIDR [] = Inr (Prefix (Addr True 169082944) 26)"
proof -
  have adv: "advance (Prefix (Addr True 169082880) 26) = Inr (Prefix (Addr True 169082944) 26)"
    by (simp add: advance_def addPowerOfTwo_sum addr_ok_def bit_len_def)
  show ?thesis
    by (simp add: nextSlice_def sliceBitsFor_def masked_def host_bits_def bit_len_def adv scan.simps contains_def)
qed

lemma demo_addresses:
  "nextAddress (Prefix (Addr True 169082944) 26) [] = Inr (Addr True 169082945)"
  "nextAddress (Prefix (Addr True 169082944) 26) [Addr True 169082945] = Inr (Addr True 169082946)"
proof -
  let ?sl = "Prefix (Addr True 169082944) 26"
  have ok: "network_ok ?sl"
    by (simp add: network_ok_def prefix_ok_def masked_def host_bits_def bit_len_def addr_ok_def)
  have "\<not> isBroadcast ?sl (Addr True 169082945)" "\<not> isBroadcast ?sl (Addr True 169082946)"
    using isBroadcast_iff [OF ok, of "Addr True 169082945"] isBroadcast_iff [OF ok, of "Addr True 169082946"]
    by (simp_all add: host_bits_def bit_len_def)
  then show "nextAddress ?sl [] = Inr (Addr True 169082945)"
    "nextAddress ?sl [Addr True 169082945] = Inr (Addr True 169082946)"
    by (simp_all add: nextAddress_def addr_next_def address_loop.simps(2) contains_def host_bits_def bit_len_def)
qed

lemmas demo_simps =
  network_allocate_def repo_nicsOf_def ensureSlice_def repo_slice_def network_get_def repo_network_def
  choose_slice_def repo_takenSlices_def demo_slice new_network_def repo_insertSlice_def choose_address_def
  repo_takenAddresses_def demo_addresses repo_insertNIC_def Let_def

lemma demo1_nics: "map nic_IP (nic_rows demo1) = [Addr True 169082945]"
  by (simp add: demo1_def demo0_eq demo_simps)

lemma demo2_nics: "map nic_IP (nic_rows demo2) = [Addr True 169082945, Addr True 169082946]"
  by (simp add: demo2_def demo1_def demo0_eq demo_simps)

theorem addresses_unique_witness:
  "length (nic_rows demo2) = 2 \<and> nic_IP (nic_rows demo2 ! 0) \<noteq> nic_IP (nic_rows demo2 ! 1)"
proof -
  let ?parse = "\<lambda>_. None"
  have len: "length (nic_rows demo2) = 2" using demo2_nics by (metis length_map length_Cons list.size(3) One_nat_def Suc_1)
  have "(net_step ?parse)\<^sup>*\<^sup>* empty_net_db demo0"
    unfolding demo0_def by (rule r_into_rtranclp, rule net_step.default)
  moreover have "net_step ?parse demo0 demo1" unfolding demo1_def by (rule net_step.allocate)
  moreover have "net_step ?parse demo1 demo2" unfolding demo2_def by (rule net_step.allocate)
  ultimately have reach: "(net_step ?parse)\<^sup>*\<^sup>* empty_net_db demo2" by simp
  have parse: "parses_valid ?parse" by (simp add: parses_valid_def)
  have ips: "nic_IP (nic_rows demo2 ! 0) = Addr True 169082945" "nic_IP (nic_rows demo2 ! 1) = Addr True 169082946"
    using demo2_nics len by (metis (no_types) nth_map nth_Cons_0 zero_less_numeral, 
        metis (no_types) One_nat_def Suc_1 lessI nth_Cons_0 nth_Cons_Suc nth_map)
  have ne: "nic_rows demo2 ! 0 \<noteq> nic_rows demo2 ! 1" using ips by auto
  have "nic_rows demo2 ! 0 \<in> set (nic_rows demo2)" "nic_rows demo2 ! 1 \<in> set (nic_rows demo2)"
    using len by simp_all
  from addresses_unique [OF reach parse this ne, of "nic_IP (nic_rows demo2 ! 0)" "nic_IP (nic_rows demo2 ! 1)"] len
  show ?thesis by simp
qed

definition v6_first :: network where
  "v6_first = new_network ''nw-9'' 1 ''p9'' ''mixed'' (Prefix (Addr False (253 * 2 ^ 120)) 48) (Some DefaultCIDR)"

text \<open>
  The search for a default range reads only the first range of each network.
  A network whose second range is the preferred IPv4 block makes the creation of
  another project's default network fail as overlapping, although a free block
  of the supernet exists.
\<close>

lemma default_range_ignores_second_ranges:
  "let db = \<lparr>nw_rows = [v6_first], slice_rows = [], nic_rows = []\<rparr>
   in fst (ensureDefaultFor ''nw-1'' 2 db ''p1'') = Inl (Conflict ''network_overlaps'') \<and>
      \<not> overlaps_existing db (Prefix (Addr True 167772160) 16) None"
proof -
  have "validate_Name ''name'' ''default'' = Inr ()" by code_simp
  then show ?thesis
    by (simp add: v6_first_def new_network_def Let_def ensureDefaultFor_def repo_networkByName_def
        freeDefaultCIDR_def repo_listNetworks_def overlapsAny_def overlaps_def network_create_def
        check_first_def sliceBitsFor_def check_second_def overlaps_existing_def ranges_def bit_len_def)
qed

end
