(* ===== verification/Wiring.thy ===== *)
theory Wiring
  imports Placement Nodes Instances Networks
begin

text \<open>
  How the control plane is put together, src/internal/app/app.go and
  src/internal/app/adapters.go: the scheduler reads and writes the node, instance
  and network modules through the adapters \<open>nodeSource\<close>, \<open>instanceSource\<close>,
  \<open>addressSource\<close> and \<open>nodeLoad\<close>, and the instance module releases addresses and
  devices through the network and node modules. The locales of the theory
  Placement are interpreted on the result, so that what a pass guarantees is a
  statement about the three tables.

  The clock reading of a call, the hardware address drawn for a new interface and
  the usage samples are arguments. The modules the scheduler does not reach
  (keys, quota, volumes and the like) are the argument \<open>d\<close>.
\<close>

section \<open>The platform\<close>

record surroundings =
  pf_nodes :: node_db
  pf_nets :: net_db

record platform =
  pf_inst :: inst_db
  pf_rest :: surroundings

definition ReleaseNIC :: "surroundings \<Rightarrow> string \<Rightarrow> unit result \<times> surroundings" where
  "ReleaseNIC w iid =
     (case network_release (pf_nets w) iid of (res, db) \<Rightarrow> (res, w\<lparr>pf_nets := db\<rparr>))"

definition ReleaseDevices :: "surroundings \<Rightarrow> string \<Rightarrow> unit result \<times> surroundings" where
  "ReleaseDevices w iid =
     (case ReleaseInstance (pf_nodes w) iid of (res, db) \<Rightarrow> (res, w\<lparr>pf_nodes := db\<rparr>))"

definition wired_deps ::
    "string \<Rightarrow> go_time \<Rightarrow> surroundings inst_deps \<Rightarrow> surroundings inst_deps" where
  "wired_deps new_id now d =
     d\<lparr>networks := Some
         \<lparr>DefaultNetworkID = (\<lambda>w pid. case net_DefaultNetworkID new_id now (pf_nets w) pid of
                                        (res, db) \<Rightarrow> (res, w\<lparr>pf_nets := db\<rparr>)),
          Networks_ExistsIn = (\<lambda>w nid pid. network_existsIn (pf_nets w) nid pid),
          ReleaseAddress = ReleaseNIC\<rparr>,
       devices := Some ReleaseDevices\<rparr>"

section \<open>Adapters\<close>

definition source_UnreachableNodes :: "go_time \<Rightarrow> platform \<Rightarrow> duration \<Rightarrow> string list result" where
  "source_UnreachableNodes now w grace =
     Inr (map n_ID (NodesUnreachableFor now grace (pf_nodes (pf_rest w))))"

definition source_DrainingNodes :: "platform \<Rightarrow> string list result" where
  "source_DrainingNodes w = Inr (map n_ID (DrainingNodes (pf_nodes (pf_rest w))))"

definition source_FinishDraining :: "platform \<Rightarrow> string \<Rightarrow> unit result \<times> platform" where
  "source_FinishDraining w nodeID =
     (case FinishDraining (pf_nodes (pf_rest w)) nodeID of
        (res, db) \<Rightarrow> (res, w\<lparr>pf_rest := (pf_rest w)\<lparr>pf_nodes := db\<rparr>\<rparr>))"

definition source_ReadyNodes :: "go_time \<Rightarrow> platform \<Rightarrow> candidate list result" where
  "source_ReadyNodes now w =
     Inr (map (\<lambda>n. \<lparr>cand_ID = n_ID n, cand_Name = n_Name n, cand_Zone = n_Zone n,
                    cand_Labels = n_Labels n\<rparr>)
            (ReadyNodes now (pf_nodes (pf_rest w))))"

definition source_PendingPlacement :: "platform \<Rightarrow> pending list result" where
  "source_PendingPlacement w =
     Inr (map (\<lambda>r. \<lparr>p_ID = i_ID r, p_ProjectID = i_ProjectID r, p_Name = i_Name r,
                    p_NetworkID = i_NetworkID r, p_Group = i_Group r, p_Strict = i_Strict r,
                    p_Selector = i_NodeSelector r, p_Extra = i_ExtraNetworks r,
                    p_Device = i_Device r\<rparr>)
            (repo_inst_listPendingPlacement (pf_inst w)))"

definition source_BeginMigration ::
    "go_time \<Rightarrow> platform \<Rightarrow> string \<Rightarrow> string \<Rightarrow> unit result \<times> platform" where
  "source_BeginMigration now w iid nodeID =
     (case beginMigration now (pf_inst w) iid nodeID of (res, db) \<Rightarrow> (res, w\<lparr>pf_inst := db\<rparr>))"

definition stranded_of :: "instance_row \<Rightarrow> stranded" where
  "stranded_of r =
     \<lparr>st_ID = i_ID r, st_ProjectID = i_ProjectID r, st_Name = i_Name r, st_NodeID = i_NodeID r,
      st_Isolation = i_Isolation r, st_Migrating = i_Migrating r, st_DiskParked = i_DiskParked r\<rparr>"

definition source_StrandedOn :: "platform \<Rightarrow> string list \<Rightarrow> stranded list result" where
  "source_StrandedOn w nodeIDs = Inr (map stranded_of (inst_strandedOn (pf_inst w) nodeIDs))"

definition source_ReleasePlacement ::
    "surroundings inst_deps \<Rightarrow> go_time \<Rightarrow> platform \<Rightarrow> string \<Rightarrow> string \<Rightarrow> unit result \<times> platform" where
  "source_ReleasePlacement d now w iid nodeID =
     (case inst_releasePlacement d now (pf_inst w) (pf_rest w) iid nodeID of
        (res, db, rest) \<Rightarrow> (res, \<lparr>pf_inst = db, pf_rest = rest\<rparr>))"

definition source_AssignedCounts :: "platform \<Rightarrow> counts result" where
  "source_AssignedCounts w = Inr (repo_inst_assignedCounts (pf_inst w))"

definition source_Assign ::
    "go_time \<Rightarrow> platform \<Rightarrow> string \<Rightarrow> string \<Rightarrow> unit result \<times> platform" where
  "source_Assign now w iid nodeID =
     (case inst_assign now (pf_inst w) iid nodeID of (res, db) \<Rightarrow> (res, w\<lparr>pf_inst := db\<rparr>))"

definition source_GroupCounts :: "platform \<Rightarrow> string \<Rightarrow> counts result" where
  "source_GroupCounts w grp = Inr (repo_inst_groupCounts (pf_inst w) grp)"

definition source_HoldPlacement ::
    "go_time \<Rightarrow> platform \<Rightarrow> string \<Rightarrow> string \<Rightarrow> unit result \<times> platform" where
  "source_HoldPlacement now w iid reason =
     (case inst_holdPlacement now (pf_inst w) iid reason of (res, db) \<Rightarrow> (res, w\<lparr>pf_inst := db\<rparr>))"

definition source_Allocate ::
    "(string \<Rightarrow> string \<Rightarrow> string) \<Rightarrow> go_time \<Rightarrow> platform \<Rightarrow> string \<Rightarrow> string \<Rightarrow> string \<Rightarrow>
     unit result \<times> platform" where
  "source_Allocate mac now w iid networkID nodeID =
     (case net_Allocate (mac iid networkID) now (pf_nets (pf_rest w)) iid networkID nodeID of
        (res, db) \<Rightarrow> (res, w\<lparr>pf_rest := (pf_rest w)\<lparr>pf_nets := db\<rparr>\<rparr>))"

definition source_FreeDevice :: "platform \<Rightarrow> string \<Rightarrow> string \<Rightarrow> (string \<times> bool) result" where
  "source_FreeDevice w nodeID kind = Inr (FreeDevice (pf_nodes (pf_rest w)) nodeID kind)"

definition source_ClaimDevice ::
    "platform \<Rightarrow> string \<Rightarrow> string \<Rightarrow> string \<Rightarrow> string result \<times> platform" where
  "source_ClaimDevice w nodeID kind iid =
     (case ClaimDevice (pf_nodes (pf_rest w)) nodeID kind iid of
        (res, db) \<Rightarrow> (res, w\<lparr>pf_rest := (pf_rest w)\<lparr>pf_nodes := db\<rparr>\<rparr>))"

abbreviation (input) staleLoad :: duration where "staleLoad \<equiv> 30000000000"

record node_sample =
  ns_NodeID :: string
  ns_MemoryUsedMiB :: int
  ns_MemoryMiB :: int
  ns_ReportedAt :: go_time

definition NodeLoad :: "go_time \<Rightarrow> node_sample list \<Rightarrow> (string \<rightharpoonup> load)" where
  "NodeLoad now samples =
     fold (\<lambda>x m. m(ns_NodeID x \<mapsto>
             \<lparr>MemoryFreeMiB = ns_MemoryMiB x - ns_MemoryUsedMiB x,
              Fresh = (time_sub now (ns_ReportedAt x) < staleLoad)\<rparr>)) samples Map.empty"

text \<open>What \<open>New\<close> hands to the scheduler.\<close>

definition wired_sources ::
    "surroundings inst_deps \<Rightarrow> string \<Rightarrow> (string \<Rightarrow> string \<Rightarrow> string) \<Rightarrow> go_time \<Rightarrow>
     node_sample list result \<Rightarrow> platform sources" where
  "wired_sources d new_id mac now samples =
     \<lparr>src_ReadyNodes = source_ReadyNodes now,
      src_UnreachableNodes = source_UnreachableNodes now,
      src_DrainingNodes = source_DrainingNodes,
      src_FinishDraining = source_FinishDraining,
      src_PendingPlacement = source_PendingPlacement,
      src_AssignedCounts = source_AssignedCounts,
      src_GroupCounts = source_GroupCounts,
      src_HoldPlacement = source_HoldPlacement now,
      src_Assign = source_Assign now,
      src_StrandedOn = source_StrandedOn,
      src_BeginMigration = source_BeginMigration now,
      src_ReleasePlacement = source_ReleasePlacement (wired_deps new_id now d) now,
      src_Allocate = Some (source_Allocate mac now),
      src_NodeLoad = Some (\<lambda>w. bindR samples (\<lambda>xs. Inr (NodeLoad now xs))),
      src_Devices = Some \<lparr>ds_FreeDevice = source_FreeDevice, ds_ClaimDevice = source_ClaimDevice\<rparr>,
      src_Events = True\<rparr>"

section \<open>What placement looks at\<close>

definition row_node :: "instance_row list \<Rightarrow> string \<Rightarrow> string" where
  "row_node rows i = (case find (\<lambda>r. i_ID r = i) rows of None \<Rightarrow> [] | Some r \<Rightarrow> i_NodeID r)"

definition row_attrs :: "instance_row list \<Rightarrow> string \<Rightarrow> attrs" where
  "row_attrs rows i =
     (case find (\<lambda>r. i_ID r = i) rows of
        None \<Rightarrow> ([], False, []) | Some r \<Rightarrow> (i_Group r, i_Strict r, i_Isolation r))"

definition row_members :: "instance_row list \<Rightarrow> string \<Rightarrow> string \<Rightarrow> int" where
  "row_members rows g n =
     (if n = [] then 0 else int (length (filter (\<lambda>r. i_Group r = g \<and> i_NodeID r = n) rows)))"

definition row_busy :: "instance_row list \<Rightarrow> string \<Rightarrow> bool" where
  "row_busy rows i =
     (case find (\<lambda>r. i_ID r = i) rows of
        None \<Rightarrow> False | Some r \<Rightarrow> i_Desired r = DesiredRunning \<or> i_Migrating r)"

definition instance_node :: "platform \<Rightarrow> string \<Rightarrow> string" where
  "instance_node w = row_node (instances (pf_inst w))"

definition instance_attrs :: "platform \<Rightarrow> string \<Rightarrow> attrs" where
  "instance_attrs w = row_attrs (instances (pf_inst w))"

definition group_members :: "platform \<Rightarrow> string \<Rightarrow> string \<Rightarrow> int" where
  "group_members w = row_members (instances (pf_inst w))"

definition instance_busy :: "platform \<Rightarrow> string \<Rightarrow> bool" where
  "instance_busy w = row_busy (instances (pf_inst w))"

definition draining_nodes :: "platform \<Rightarrow> string set" where
  "draining_nodes w = n_ID ` {n \<in> set (nodes (pf_nodes (pf_rest w))). n_Draining n}"

definition platform_wf :: "platform \<Rightarrow> bool" where
  "platform_wf w \<longleftrightarrow>
     inst_wf (pf_inst w) \<and> node_db_wf (pf_nodes (pf_rest w)) \<and> net_wf (pf_nets (pf_rest w)) \<and>
     [] \<notin> n_ID ` set (nodes (pf_nodes (pf_rest w)))"

lemmas view_defs = instance_node_def instance_attrs_def group_members_def instance_busy_def

lemma row_attrs_update:
  assumes "\<And>r. P r \<Longrightarrow> i_ID (f r) = i_ID r \<and> i_Group (f r) = i_Group r \<and> i_Strict (f r) = i_Strict r \<and>
    i_Isolation (f r) = i_Isolation r"
  shows "row_attrs (update_where P f rows) = row_attrs rows"
  unfolding row_attrs_def using assms
  by (subst find_update_where) (auto split: option.splits)

lemma row_node_update_keep:
  assumes "\<And>r. P r \<Longrightarrow> i_ID (f r) = i_ID r \<and> i_NodeID (f r) = i_NodeID r"
  shows "row_node (update_where P f rows) = row_node rows"
  unfolding row_node_def using assms
  by (subst find_update_where) (auto split: option.splits)

lemma row_members_update_keep:
  assumes "\<And>r. P r \<Longrightarrow> i_Group (f r) = i_Group r \<and> i_NodeID (f r) = i_NodeID r"
  shows "row_members (update_where P f rows) = row_members rows"
proof -
  have "length (filter (\<lambda>r. i_Group r = g \<and> i_NodeID r = n) (update_where P f rows)) =
      length (filter (\<lambda>r. i_Group r = g \<and> i_NodeID r = n) rows)" for g n
    using assms by (induction rows) (auto simp: update_where_def)
  then show ?thesis by (auto simp: row_members_def fun_eq_iff)
qed

lemma row_busy_update_keep:
  assumes "\<And>r. P r \<Longrightarrow> i_ID (f r) = i_ID r \<and> i_Desired (f r) = i_Desired r \<and> i_Migrating (f r) = i_Migrating r"
  shows "row_busy (update_where P f rows) = row_busy rows"
  unfolding row_busy_def using assms
  by (subst find_update_where) (auto split: option.splits)

lemma row_members_move:
  assumes "distinct (map i_ID rows)" "r \<in> set rows" "i_ID r = i" "\<And>q. i_Group (f q) = i_Group q" "n \<noteq> []"
  shows "row_members (update_where (\<lambda>q. i_ID q = i) f rows) g n =
    row_members rows g n - (if g = i_Group r \<and> i_NodeID r = n then 1 else 0)
      + (if g = i_Group r \<and> i_NodeID (f r) = n then 1 else 0)"
  using assms
proof (induction rows)
  case (Cons q rows)
  show ?case
  proof (cases "i_ID q = i")
    case True
    with Cons.prems have "q = r" by (auto simp: image_iff)
    moreover from Cons.prems True have "update_where (\<lambda>q. i_ID q = i) f rows = rows"
      by (intro update_where_none) (auto simp: image_iff)
    ultimately show ?thesis using True Cons.prems by (auto simp: row_members_def update_where_def)
  next
    case False
    with Cons show ?thesis by (auto simp: row_members_def update_where_def)
  qed
qed simp

lemma update_where_key:
  assumes "distinct (map key xs)" "r \<in> set xs" "key r = k" "P r"
  shows "update_where (\<lambda>q. key q = k \<and> P q) f xs = update_where (\<lambda>q. key q = k) f xs"
proof -
  have "q = r" if "q \<in> set xs" "key q = k" for q
    using that assms(1,2,3) by (auto dest: distinct_map_eq)
  with assms(4) show ?thesis by (auto simp: update_where_def)
qed

lemma find_row:
  "inst_wf db \<Longrightarrow> r \<in> set (instances db) \<Longrightarrow> find (\<lambda>q. i_ID q = i_ID r) (instances db) = Some r"
  by (simp add: inst_wf_def find_key)

text \<open>A conditional update of one row, seen through the views.\<close>

lemma update_expecting_one:
  assumes wf: "inst_wf db" and call: "update_expecting e (\<lambda>q. i_ID q = i \<and> P q) f db = (Inr u, db')"
  shows "\<exists>r. r \<in> set (instances db) \<and> i_ID r = i \<and> P r \<and>
    instances db' = update_where (\<lambda>q. i_ID q = i) f (instances db)"
proof -
  from call obtain r where r: "r \<in> set (instances db)" "i_ID r = i" "P r"
    by (auto simp: update_expecting_def list_ex_iff split: if_splits)
  with wf call show ?thesis
    by (auto simp: update_expecting_def inst_wf_def update_where_key [of i_ID] split: if_splits)
qed

lemma update_expecting_Inl: "update_expecting e P f db = (Inl e', db') \<Longrightarrow> db' = db"
  by (auto simp: update_expecting_def split: if_splits)

lemma row_node_set:
  assumes wf: "inst_wf db" and r: "r \<in> set (instances db)" "i_ID r = i"
    and f: "\<And>q. i_ID (f q) = i_ID q" "\<And>q. i_NodeID (f q) = n"
  shows "row_node (update_where (\<lambda>q. i_ID q = i) f (instances db)) = (row_node (instances db))(i := n)"
proof
  fix j
  from find_row [OF wf r(1)] r(2) have "find (\<lambda>q. i_ID q = i) (instances db) = Some r" by simp
  then show "row_node (update_where (\<lambda>q. i_ID q = i) f (instances db)) j = ((row_node (instances db))(i := n)) j"
    unfolding row_node_def using f r(2)
    by (subst find_update_where) (auto split: option.splits dest: find_SomeD)
qed

lemma row_at: "inst_wf db \<Longrightarrow> r \<in> set (instances db) \<Longrightarrow> i_ID r = i \<Longrightarrow>
  row_node (instances db) i = i_NodeID r \<and> row_attrs (instances db) i = (i_Group r, i_Strict r, i_Isolation r) \<and>
  row_busy (instances db) i = (i_Desired r = DesiredRunning \<or> i_Migrating r)"
  using find_row by (fastforce simp: row_node_def row_attrs_def row_busy_def)

lemma row_members_empty [simp]: "row_members rows g [] = 0"
  by (simp add: row_members_def)

lemma assign_rows:
  assumes wf: "inst_wf db" and call: "inst_assign now db i n = (Inr u, db')" and n: "n \<noteq> []"
  shows "row_attrs (instances db') = row_attrs (instances db) \<and> row_node (instances db) i = [] \<and>
    row_node (instances db') = (row_node (instances db))(i := n) \<and>
    row_members (instances db') = (\<lambda>g m. row_members (instances db) g m +
      (if g = fst (row_attrs (instances db) i) \<and> m = n then 1 else 0))"
proof -
  let ?f = "\<lambda>r. r\<lparr>i_NodeID := n, i_UpdatedAt := now\<rparr>"
  from call obtain v where "update_expecting inst_errAlreadyPlaced (\<lambda>r. i_ID r = i \<and> i_NodeID r = []) ?f db = (Inr v, db')"
    by (auto simp: inst_assign_def repo_inst_assign_def split: prod.splits sum.splits)
  from update_expecting_one [OF wf this] obtain r where r: "r \<in> set (instances db)" "i_ID r = i" "i_NodeID r = []"
    and db': "instances db' = update_where (\<lambda>q. i_ID q = i) ?f (instances db)" by blast
  have "row_members (instances db') g m = row_members (instances db) g m +
      (if g = i_Group r \<and> m = n then 1 else 0)" for g m
    unfolding db' using row_members_move [of "instances db" r i ?f m g] r n wf
    by (cases "m = []") (auto simp: inst_wf_def)
  moreover have "row_attrs (instances db') = row_attrs (instances db)"
    unfolding db' by (rule row_attrs_update) simp
  moreover have "row_node (instances db') = (row_node (instances db))(i := n)"
    unfolding db' using row_node_set [OF wf r(1,2)] by simp
  ultimately show ?thesis using row_at [OF wf r(1,2)] r(3) by (auto simp: fun_eq_iff)
qed

lemma release_rows:
  assumes wf: "inst_wf db" and call: "repo_inst_releasePlacement db i n now = (r, db')"
  shows "row_attrs (instances db') = row_attrs (instances db) \<and> row_busy (instances db') = row_busy (instances db) \<and>
    (\<forall>j. row_node (instances db') j = row_node (instances db) j \<or>
       (j = i \<and> row_node (instances db) j = n \<and> row_node (instances db') j = [])) \<and>
    (\<forall>g m. row_members (instances db') g m \<le> row_members (instances db) g m) \<and>
    (\<forall>u. r = Inr u \<longrightarrow> row_node (instances db') i = [])"
proof (cases r)
  case (Inl e)
  with call have "db' = db" by (auto simp: repo_inst_releasePlacement_def dest: update_expecting_Inl)
  with Inl show ?thesis by simp
next
  case (Inr u)
  let ?f = "\<lambda>r. r\<lparr>i_NodeID := [], i_Observed := ObservedPending, i_ObservedMessage :=
    ''the node it ran on stopped reporting, so it is being placed again'', i_UpdatedAt := now\<rparr>"
  from update_expecting_one [OF wf call [unfolded repo_inst_releasePlacement_def Inr]]
  obtain q where q: "q \<in> set (instances db)" "i_ID q = i" "i_NodeID q = n"
    and db': "instances db' = update_where (\<lambda>q. i_ID q = i) ?f (instances db)" by blast
  have "row_members (instances db') g m \<le> row_members (instances db) g m" for g m
    unfolding db' using row_members_move [of "instances db" q i ?f m g] q wf
    by (cases "m = []") (auto simp: inst_wf_def)
  moreover have "row_attrs (instances db') = row_attrs (instances db)"
    unfolding db' by (rule row_attrs_update) simp
  moreover have "row_busy (instances db') = row_busy (instances db)"
    unfolding db' by (rule row_busy_update_keep) simp
  moreover have "row_node (instances db') = (row_node (instances db))(i := [])"
    unfolding db' using row_node_set [OF wf q(1,2)] by simp
  moreover have "row_node (instances db) i = n" using row_at [OF wf q(1,2)] q(3) by simp
  ultimately show ?thesis by auto
qed

lemma hold_rows:
  "row_attrs (instances (repo_inst_setObservedMessage db i m now)) = row_attrs (instances db)"
  "row_node (instances (repo_inst_setObservedMessage db i m now)) = row_node (instances db)"
  "row_members (instances (repo_inst_setObservedMessage db i m now)) = row_members (instances db)"
  unfolding repo_inst_setObservedMessage_def
  by (simp_all add: row_attrs_update row_node_update_keep row_members_update_keep)

lemma update_expecting_views:
  assumes "\<And>r. P r \<Longrightarrow> i_ID r = i"
    and "\<And>r. i_ID (f r) = i_ID r \<and> i_Group (f r) = i_Group r \<and> i_Strict (f r) = i_Strict r \<and>
      i_Isolation (f r) = i_Isolation r \<and> i_NodeID (f r) = i_NodeID r"
    and "update_expecting e P f db = (r, db')"
  shows "row_attrs (instances db') = row_attrs (instances db) \<and> row_node (instances db') = row_node (instances db) \<and>
    row_members (instances db') = row_members (instances db) \<and>
    (\<forall>j. j \<noteq> i \<longrightarrow> row_busy (instances db') j = row_busy (instances db) j)"
proof (cases "list_ex P (instances db)")
  case True
  with assms(3) have db': "instances db' = update_where P f (instances db)"
    by (auto simp: update_expecting_def)
  have "row_busy (update_where P f (instances db)) j = row_busy (instances db) j" if "j \<noteq> i" for j
    unfolding row_busy_def using assms(1,2) that
    by (subst find_update_where) (auto split: option.splits dest: find_SomeD)
  then show ?thesis unfolding db' using assms(2)
    by (simp add: row_attrs_update row_node_update_keep row_members_update_keep)
next
  case False
  with assms(3) show ?thesis by (auto simp: update_expecting_def)
qed

lemma begin_rows:
  "beginMigration now db i n = (r, db') \<Longrightarrow>
   row_attrs (instances db') = row_attrs (instances db) \<and> row_node (instances db') = row_node (instances db) \<and>
   row_members (instances db') = row_members (instances db) \<and>
   (\<forall>j. j \<noteq> i \<longrightarrow> row_busy (instances db') j = row_busy (instances db) j)"
proof -
  assume call: "beginMigration now db i n = (r, db')"
  note set_desired = update_expecting_views [of "\<lambda>r. i_ID r = i" i
    "\<lambda>r. r\<lparr>i_Desired := DesiredStopped, i_UpdatedAt := now\<rparr>" inst_errNotFound,
    folded repo_inst_setDesired_def, simplified]
  note set_migrating = update_expecting_views [of "\<lambda>r. i_ID r = i" i
    "\<lambda>r. r\<lparr>i_Migrating := True, i_DiskParked := False, i_DiskFrom := [], i_UpdatedAt := now\<rparr>"
    inst_errNotFound, folded repo_inst_setMigrating_def, simplified]
  from call consider "db' = db" | d1 where "repo_inst_setDesired db i DesiredStopped now = (Inl d1, db')"
    | u d1 e where "repo_inst_setDesired db i DesiredStopped now = (Inr u, d1)"
      "repo_inst_setMigrating d1 i True False [] now = (e, db')"
    by (auto simp: beginMigration_def split: sum.splits if_splits prod.splits)
  then show ?thesis
  proof cases
    case 3
    with set_desired [OF 3(1)] set_migrating [OF 3(2)] show ?thesis by simp
  qed (use set_desired in auto)
qed

section \<open>What the node and network modules keep\<close>

lemma nodes_claim_loop: "nodes (snd (claim_loop nid kind i ds db)) = nodes db"
  by (induction nid kind i ds db rule: claim_loop.induct)
    (auto simp: repo_node_claimDevice_def Let_def split: prod.splits bool.splits if_splits)

lemma nodes_ClaimDevice: "nodes (snd (ClaimDevice db nid kind i)) = nodes db"
  by (auto simp: ClaimDevice_def Let_def nodes_claim_loop split: option.splits)

lemma finish_nodes:
  "nodes (snd (FinishDraining db n)) = update_where (\<lambda>m. n_ID m = n) (\<lambda>m. m\<lparr>n_Draining := False\<rparr>) (nodes db)"
  by (simp add: FinishDraining_def repo_node_setDraining_def)

lemma finish_ids: "n_ID ` set (nodes (snd (FinishDraining db n))) = n_ID ` set (nodes db)"
proof -
  have "map n_ID (nodes (snd (FinishDraining db n))) = map n_ID (nodes db)"
    unfolding finish_nodes by (rule map_update_where) simp
  then show ?thesis by (metis list.set_map)
qed

lemma wf_net_Allocate: "net_wf db \<Longrightarrow> net_wf (snd (net_Allocate mac now db i nid n))"
proof -
  assume wf: "net_wf db"
  obtain r db' where call: "network_allocate mac now db i nid n = (r, db')" by fastforce
  from network_allocate_result [OF wf call] have "net_wf db'" by blast
  with call show ?thesis by (cases r) (simp_all add: net_Allocate_def)
qed

lemma set_node_list:
  "set (node_list db) = (\<lambda>n. n\<lparr>n_Labels := repo_node_labelsFor db (n_ID n)\<rparr>) ` set (nodes db)"
  by (simp add: node_list_def repo_node_list_def)

lemma set_ReadyNodes:
  "set (ReadyNodes now db) = (\<lambda>n. n\<lparr>n_Labels := repo_node_labelsFor db (n_ID n)\<rparr>) `
     {n \<in> set (nodes db). StatusAt n now = StatusReady \<and> n_Schedulable n}"
  by (auto simp: ReadyNodes_def set_node_list StatusAt_def image_iff split: if_splits)

lemma set_DrainingNodes: "n_ID ` set (DrainingNodes db) = n_ID ` {n \<in> set (nodes db). n_Draining n}"
proof -
  have "set (DrainingNodes db) = (\<lambda>n. n\<lparr>n_Labels := repo_node_labelsFor db (n_ID n)\<rparr>) `
      {n \<in> set (nodes db). n_Draining n}"
    by (auto simp: DrainingNodes_def set_node_list image_iff)
  then show ?thesis by (simp add: image_image)
qed

section \<open>The contracts hold for the wired modules\<close>

lemma count_by_node_eq: "n \<noteq> [] \<Longrightarrow> get_or 0 (count_by_node rows) n = int (length (filter (\<lambda>r. i_NodeID r = n) rows))"
  by (simp add: count_by_node_def get_or_def Let_def)

lemma set_by_age [simp]: "set (by_age rows) = set rows"
  by (simp add: by_age_def)

lemma row_attrs_of:
  "inst_wf db \<Longrightarrow> r \<in> set (instances db) \<Longrightarrow>
   row_attrs (instances db) (i_ID r) = (i_Group r, i_Strict r, i_Isolation r)"
  using row_at by blast

lemma wf_claim: "node_db_wf db \<Longrightarrow> node_db_wf (snd (ClaimDevice db n kind i))"
  using node_step.claim node_step_wf by blast

lemma wf_finish: "node_db_wf db \<Longrightarrow> node_db_wf (snd (FinishDraining db n))"
  using node_step.finish node_step_wf by blast

lemmas wired_simps = wired_sources_def

interpretation wired: placement_world "wired_sources d new_id mac now samples" platform_wf
  instance_node instance_attrs group_members
  for d new_id mac now samples
proof (unfold_locales, goal_cases)
  case (1 w i n e w')
  then have "w' = w"
    by (auto simp: wired_simps source_Assign_def inst_assign_def repo_inst_assign_def
        dest!: update_expecting_Inl split: prod.splits sum.splits)
  with 1 show ?case by simp
next
  case (2 w n i u w')
  then obtain db' where call: "inst_assign now (pf_inst w) i n = (Inr u, db')" and w': "w' = w\<lparr>pf_inst := db'\<rparr>"
    by (auto simp: wired_simps source_Assign_def split: prod.splits)
  from 2(1) have wf: "inst_wf (pf_inst w)" by (simp add: platform_wf_def)
  from wf_service_assign [OF wf, of now i n] call have "inst_wf db'" by simp
  with assign_rows [OF wf call 2(2)] 2(1) show ?case by (simp add: w' platform_wf_def view_defs)
next
  case (3 w w' i reason)
  then show ?case
    using wf_service_hold [of "pf_inst w" now i reason]
    by (auto simp: wired_simps source_HoldPlacement_def platform_wf_def view_defs inst_holdPlacement_def hold_rows)
next
  case (4 w ds w' n kind i)
  then have w': "w' = w\<lparr>pf_rest := (pf_rest w)\<lparr>pf_nodes := snd (ClaimDevice (pf_nodes (pf_rest w)) n kind i)\<rparr>\<rparr>"
    by (auto simp: wired_simps source_ClaimDevice_def split: prod.splits)
  with 4(1) wf_claim show ?case by (auto simp: platform_wf_def view_defs nodes_ClaimDevice)
next
  case (5 w alloc w' i net n)
  then have w': "w' = w\<lparr>pf_rest := (pf_rest w)\<lparr>pf_nets :=
      snd (net_Allocate (mac i net) now (pf_nets (pf_rest w)) i net n)\<rparr>\<rparr>"
    by (auto simp: wired_simps source_Allocate_def split: prod.splits)
  with 5(1) wf_net_Allocate show ?case by (auto simp: platform_wf_def view_defs)
next
  case (6 w g m n)
  then show ?case
    by (auto simp: wired_simps source_GroupCounts_def repo_inst_groupCounts_def count_by_node_eq
        group_members_def row_members_def conj_commute)
next
  case (7 w ps p)
  then show ?case
    by (auto simp: wired_simps source_PendingPlacement_def repo_inst_listPendingPlacement_def
        instance_attrs_def row_attrs_of platform_wf_def)
next
  case (8 w cs c)
  then show ?case
    by (auto simp: wired_simps source_ReadyNodes_def set_ReadyNodes platform_wf_def) (metis imageI)
qed

lemma set_strandedOn:
  "set (inst_strandedOn db ns) =
     {r \<in> set (instances db). i_NodeID r \<in> set ns \<and> (i_Desired r = DesiredRunning \<or> i_Migrating r)}"
  by (auto simp: inst_strandedOn_def repo_inst_listRunningOn_def)

lemma stranded_of_fields [simp]:
  "st_ID (stranded_of r) = i_ID r" "st_NodeID (stranded_of r) = i_NodeID r"
  "st_Isolation (stranded_of r) = i_Isolation r"
  by (simp_all add: stranded_of_def)

lemma stranded_busy:
  assumes "inst_wf db" "n \<noteq> []"
  shows "(\<exists>r\<in>set (instances db). i_ID r = i \<and> i_NodeID r = n \<and> (i_Desired r = DesiredRunning \<or> i_Migrating r)) \<longleftrightarrow>
    row_busy (instances db) i \<and> row_node (instances db) i = n" (is "?row \<longleftrightarrow> ?view")
proof
  assume ?row
  then show ?view using row_at [OF assms(1)] by blast
next
  assume ?view
  then obtain r where "find (\<lambda>q. i_ID q = i) (instances db) = Some r"
    "i_NodeID r = n" "i_Desired r = DesiredRunning \<or> i_Migrating r"
    by (auto simp: row_busy_def row_node_def split: option.splits)
  then show ?row by (auto dest: find_SomeD)
qed

lemma release_platform:
  assumes "source_ReleasePlacement (wired_deps new_id now d) now w i n = (r, w')"
  shows "\<exists>e db'. repo_inst_releasePlacement (pf_inst w) i n now = (e, db') \<and> pf_inst w' = db' \<and>
    pf_nodes (pf_rest w') = pf_nodes (pf_rest w) \<and>
    (pf_nets (pf_rest w') = pf_nets (pf_rest w) \<or>
     pf_nets (pf_rest w') = snd (network_release (pf_nets (pf_rest w)) i)) \<and>
    (\<forall>u. r = Inr u \<longrightarrow> (\<exists>v. e = Inr v))"
  using assms
  by (auto simp: source_ReleasePlacement_def inst_releasePlacement_def wired_deps_def ReleaseNIC_def
      split: prod.splits sum.splits)

interpretation wired: drain_world "wired_sources d new_id mac now samples" platform_wf
  instance_node instance_attrs group_members instance_busy draining_nodes
  for d new_id mac now samples
proof (unfold_locales, goal_cases)
  case (1 w i n r w')
  then have "source_ReleasePlacement (wired_deps new_id now d) now w i n = (r, w')" by (simp add: wired_simps)
  from release_platform [OF this] obtain e db' where
    rel: "repo_inst_releasePlacement (pf_inst w) i n now = (e, db')" and db': "pf_inst w' = db'"
    and keep: "pf_nodes (pf_rest w') = pf_nodes (pf_rest w)"
      "pf_nets (pf_rest w') = pf_nets (pf_rest w) \<or> pf_nets (pf_rest w') = snd (network_release (pf_nets (pf_rest w)) i)"
    by auto
  from 1(1) have wf: "inst_wf (pf_inst w)" "net_wf (pf_nets (pf_rest w))" by (simp_all add: platform_wf_def)
  from keep(2) wf(2) wf_network_release have "net_wf (pf_nets (pf_rest w'))" by metis
  moreover have "inst_wf db'" using wf_releasePlacement [OF wf(1), of i n now] rel by simp
  ultimately show ?case
    using release_rows [OF wf(1) rel] 1(1) keep(1) db'
    by (simp add: platform_wf_def view_defs draining_nodes_def)
next
  case (2 w i n u w')
  then have "source_ReleasePlacement (wired_deps new_id now d) now w i n = (Inr u, w')" by (simp add: wired_simps)
  from release_platform [OF this] obtain v db' where
    rel: "repo_inst_releasePlacement (pf_inst w) i n now = (Inr v, db')" and db': "pf_inst w' = db'"
    by (elim exE conjE) simp
  from 2(1) have wf: "inst_wf (pf_inst w)" by (simp add: platform_wf_def)
  from release_rows [OF wf rel] db' show ?case by (simp add: view_defs)
next
  case (3 w w' i n)
  obtain r db' where call: "beginMigration now (pf_inst w) i n = (r, db')" by fastforce
  with 3(2) have w': "w' = w\<lparr>pf_inst := db'\<rparr>" by (simp add: wired_simps source_BeginMigration_def)
  from 3(1) have wf: "inst_wf (pf_inst w)" by (simp add: platform_wf_def)
  from wf_beginMigration [OF wf, of now i n] call have "inst_wf db'" by simp
  with begin_rows [OF call] 3(1) show ?case
    by (auto simp: w' platform_wf_def view_defs draining_nodes_def)
next
  case (4 w w' n)
  then have w': "w' = w\<lparr>pf_rest := (pf_rest w)\<lparr>pf_nodes := snd (FinishDraining (pf_nodes (pf_rest w)) n)\<rparr>\<rparr>"
    by (auto simp: wired_simps source_FinishDraining_def split: prod.splits)
  from 4(1) have wf: "node_db_wf (pf_nodes (pf_rest w))" by (simp add: platform_wf_def)
  have "draining_nodes w - {n} \<subseteq> draining_nodes w'"
    by (auto simp: draining_nodes_def w' finish_nodes set_update_where)
  with 4(1) wf_finish [OF wf] finish_ids show ?case by (simp add: w' platform_wf_def view_defs)
next
  case (5 w ns)
  then show ?case
    using set_DrainingNodes [of "pf_nodes (pf_rest w)"]
    by (auto simp: wired_simps source_DrainingNodes_def draining_nodes_def)
next
  case (6 w ns xs n)
  then have wf: "inst_wf (pf_inst w)" by (simp add: platform_wf_def)
  from 6 have "xs = map stranded_of (inst_strandedOn (pf_inst w) ns)"
    by (simp add: wired_simps source_StrandedOn_def)
  then have "i \<in> {st_ID x |x. x \<in> set xs \<and> st_NodeID x = n} \<longleftrightarrow>
      (\<exists>r\<in>set (instances (pf_inst w)). i_ID r = i \<and> i_NodeID r = n \<and>
         (i_Desired r = DesiredRunning \<or> i_Migrating r))" for i
    using 6(3) by (force simp: set_strandedOn)
  then show ?case using stranded_busy [OF wf 6(4)] by (auto simp: view_defs)
next
  case (7 w ns xs x)
  then show ?case
    by (auto simp: wired_simps source_StrandedOn_def set_strandedOn instance_attrs_def row_attrs_of platform_wf_def)
next
  case (8 w ns xs x)
  then show ?case by (auto simp: wired_simps source_StrandedOn_def set_strandedOn)
next
  case (9 w ns xs x)
  then have wf: "inst_wf (pf_inst w)" by (simp add: platform_wf_def)
  from 9 row_at [OF wf] show ?case
    by (auto simp: wired_simps source_StrandedOn_def set_strandedOn instance_busy_def)
qed

section \<open>What a pass of the wired scheduler guarantees\<close>

definition demo_row :: "string \<Rightarrow> string \<Rightarrow> instance_row" where
  "demo_row i node =
     \<lparr>i_ID = i, i_ProjectID = ''p'', i_Name = i, i_Isolation = ''container'', i_Image = ''img'', i_ISO = [],
      i_Kernel = [], i_DiskGiB = 0, i_FirewallID = [], i_Command = [], i_NetworkID = [], i_VCPU = 1,
      i_MemoryMiB = 128, i_RestartPolicy = ''always'', i_RestartCount = 0, i_Desired = DesiredRunning,
      i_Observed = ObservedPending, i_ObservedMessage = [], i_ExitCode = None, i_Migrating = False,
      i_DiskParked = False, i_DiskFrom = [], i_Device = [], i_NodeID = node, i_Group = ''g'', i_Strict = True,
      i_NodeSelector = [], i_EnvSealed = [], i_SealKeyID = [], i_EnvNames = [], i_FilesSealed = [],
      i_FilePaths = [], i_ExtraNetworks = [], i_SSHKeys = [], i_CreatedAt = 0, i_UpdatedAt = 0\<rparr>"

definition demo_node :: "string \<Rightarrow> bool \<Rightarrow> bool \<Rightarrow> go_time \<Rightarrow> node" where
  "demo_node n sched drain seen =
     \<lparr>n_ID = n, n_Schedulable = sched, n_Draining = drain, n_Name = n, n_Zone = [], n_Address = [],
      n_Arch = [], n_OS = [], n_CPUs = 1, n_MemoryMiB = 1, n_AgentVersion = [], n_Labels = [],
      n_RegisteredAt = 0, n_LastSeenAt = seen\<rparr>"

definition demo_sched :: "instance_row list \<Rightarrow> node list \<Rightarrow> platform sched" where
  "demo_sched rows ns =
     \<lparr>world = \<lparr>pf_inst = \<lparr>instances = rows, parked = Map.empty, recorded = []\<rparr>,
               pf_rest = \<lparr>pf_nodes = \<lparr>nodes = ns, node_labels = [], node_devices = []\<rparr>,
                          pf_nets = empty_net_db\<rparr>\<rparr>,
      strandedIDs = {}, stuckDraining = {}, noted = []\<rparr>"

definition demo_deps :: "surroundings inst_deps" where
  "demo_deps =
     \<lparr>networks = None, keys = None, quota = None, volumes = None, forwards = None, balancers = None,
      logs = None, execs = None, alerts = None, devices = None, firewalls = None,
      sealing = \<lparr>SealEnvJSON = (\<lambda>_. Inl ErrNoKey), SealFilesJSON = (\<lambda>_. Inl ErrNoKey), ActiveID = []\<rparr>,
      records_events = True, dataDir = []\<rparr>"

lemma net_wf_empty: "net_wf empty_net_db"
  using reachable_net_wf [of "\<lambda>_. None" empty_net_db] by (simp add: parses_valid_def)

text \<open>
  C4: a pass of the scheduler keeps every table well formed and never puts a second
  member of a strict placement group on a node: where all members of a group are
  strict, a node holds at most one after the pass, unless it held more before it,
  and then it holds no more than it did.
\<close>

theorem strict_group_spread:
  assumes "platform_wf (world s)"
    and "Tick (wired_sources d new_id mac now samples) grace s = (r, s')"
    and "g \<noteq> []"
    and "\<forall>i. fst (instance_attrs (world s) i) = g \<longrightarrow> fst (snd (instance_attrs (world s) i))"
  shows "platform_wf (world s') \<and>
    group_members (world s') g n \<le> max 1 (group_members (world s) g n)"
  using wired.Tick_view [OF assms(1,2)] assms(3,4) by blast

definition demo_two :: "platform sched" where
  "demo_two = demo_sched [demo_row ''i1'' [], demo_row ''i2'' []] [demo_node ''n1'' True False 0]"

definition demo_sources :: "go_time \<Rightarrow> platform sources" where
  "demo_sources now = wired_sources demo_deps ''net'' (\<lambda>_ _. ''mac'') now (Inr [])"

lemma demo_rows_wf:
  "inst_wf \<lparr>instances = [demo_row ''i1'' a, demo_row ''i2'' b], parked = Map.empty, recorded = []\<rparr>"
  by (simp add: inst_wf_def demo_row_def row_ok_def)

lemma demo_two_wf: "platform_wf (world demo_two)"
  by (simp add: platform_wf_def demo_two_def demo_sched_def demo_rows_wf node_db_wf_def net_wf_empty demo_node_def)

theorem strict_group_spread_witness:
  "(let s' = snd (Tick (demo_sources 5) DefaultStrandedGrace demo_two)
    in group_members (world s') ''g'' ''n1'' \<le> 1 \<and>
       instance_node (world s') ''i1'' = ''n1'' \<and> instance_node (world s') ''i2'' = [])"
proof -
  have "group_members (world demo_two) ''g'' ''n1'' \<le> 1" by code_simp
  moreover have "\<forall>i. fst (instance_attrs (world demo_two) i) = ''g'' \<longrightarrow> fst (snd (instance_attrs (world demo_two) i))"
    by (auto simp: instance_attrs_def demo_two_def demo_sched_def row_attrs_def demo_row_def)
  moreover obtain r s' where run: "Tick (demo_sources 5) DefaultStrandedGrace demo_two = (r, s')" by fastforce
  ultimately have "group_members (world s') ''g'' ''n1'' \<le> 1"
    using strict_group_spread [OF demo_two_wf run [unfolded demo_sources_def], of "''g''" "''n1''"] by simp
  moreover have "instance_node (world (snd (Tick (demo_sources 5) DefaultStrandedGrace demo_two))) ''i1'' = ''n1''"
    by code_simp
  moreover have "instance_node (world (snd (Tick (demo_sources 5) DefaultStrandedGrace demo_two))) ''i2'' = []"
    by code_simp
  ultimately show ?thesis by (simp add: run)
qed

lemma ready_candidate:
  assumes "source_ReadyNodes now w = Inr cs" "c \<in> set cs"
  shows "\<exists>m\<in>set (nodes (pf_nodes (pf_rest w))). n_ID m = cand_ID c \<and> StatusAt m now = StatusReady \<and>
    n_Schedulable m \<and> cand_Labels c = repo_node_labelsFor (pf_nodes (pf_rest w)) (n_ID m)"
  using assms by (auto simp: source_ReadyNodes_def set_ReadyNodes) blast

lemma pending_row:
  assumes "source_PendingPlacement w = Inr ps" "p \<in> set ps"
  shows "\<exists>r\<in>set (instances (pf_inst w)). i_ID r = p_ID p \<and> i_NodeSelector r = p_Selector p \<and>
    (i_Desired r = DesiredRunning \<or> i_Migrating r)"
  using assms by (auto simp: source_PendingPlacement_def repo_inst_listPendingPlacement_def) blast+

text \<open>
  C8: the placement phase moves an instance only from no node to a node, and only
  one that asks to run or is moving; the node it goes to is in the node table,
  reported within the ready window, is schedulable, and carries every label the
  instance selects.
\<close>

theorem placed_on_ready_matching_node:
  assumes wf: "platform_wf (world s)"
    and call: "place_pending (wired_sources d new_id mac now samples) s = (r, s')"
    and moved: "instance_node (world s') j \<noteq> instance_node (world s) j"
  shows "instance_node (world s) j = [] \<and>
    (\<exists>row\<in>set (instances (pf_inst (world s))). i_ID row = j \<and>
      (i_Desired row = DesiredRunning \<or> i_Migrating row) \<and>
      (\<exists>m\<in>set (nodes (pf_nodes (pf_rest (world s)))).
         n_ID m = instance_node (world s') j \<and> StatusAt m now = StatusReady \<and> n_Schedulable m \<and>
         (\<forall>(key, want)\<in>set (i_NodeSelector row).
            get_or [] (map_of (repo_node_labelsFor (pf_nodes (pf_rest (world s))) (n_ID m))) key = want)))"
proof -
  from wired.place_pending_view [OF wf call] moved obtain ps cs p c where
    before: "instance_node (world s) j = []"
    and ps: "source_PendingPlacement (world s) = Inr ps" "p \<in> set ps" "p_ID p = j"
    and cs: "source_ReadyNodes now (world s) = Inr cs" "c \<in> set cs" "cand_ID c = instance_node (world s') j"
    and match: "cand_matches c (p_Selector p)"
    unfolding wired_simps by fastforce
  from pending_row [OF ps(1,2)] ready_candidate [OF cs(1,2)] ps(3) cs(3) match before
  show ?thesis by (fastforce simp: cand_matches_def list_all_iff)
qed

theorem placed_on_ready_matching_node_witness:
  "(let s' = snd (place_pending (demo_sources 5) demo_two)
    in instance_node (world s') ''i1'' = ''n1'' \<and>
       (\<exists>m\<in>set (nodes (pf_nodes (pf_rest (world demo_two)))). n_ID m = ''n1'' \<and> StatusAt m 5 = StatusReady))"
proof -
  obtain r s' where run: "place_pending (demo_sources 5) demo_two = (r, s')" by fastforce
  have "instance_node (world (snd (place_pending (demo_sources 5) demo_two))) ''i1'' = ''n1''"
    "instance_node (world demo_two) ''i1'' = []" by code_simp+
  with run have after: "instance_node (world s') ''i1'' = ''n1''"
    and moved: "instance_node (world s') ''i1'' \<noteq> instance_node (world demo_two) ''i1''" by simp_all
  from placed_on_ready_matching_node [OF demo_two_wf run [unfolded demo_sources_def] moved] after
  show ?thesis by (auto simp: run)
qed

lemma stranded_release_cause:
  assumes wf: "platform_wf (world s)"
    and call: "releaseStranded (wired_sources d new_id mac now samples) grace s = (r, s')"
    and moved: "instance_node (world s') j \<noteq> instance_node (world s) j"
  shows "instance_node (world s') j = [] \<and> snd (snd (instance_attrs (world s) j)) = ''container'' \<and>
    (\<exists>m\<in>set (nodes (pf_nodes (pf_rest (world s)))). n_ID m = instance_node (world s) j \<and>
       StatusAt m now \<noteq> StatusReady \<and> grace \<le> time_sub now (n_LastSeenAt m))"
proof -
  from wired.releaseStranded_view [OF wf call] moved obtain lost where
    v: "instance_node (world s') j = []" "snd (snd (instance_attrs (world s) j)) = ''container''"
    and lost: "source_UnreachableNodes now (world s) grace = Inr lost" "instance_node (world s) j \<in> set lost"
    unfolding wired_simps by fastforce
  from lost have "instance_node (world s) j \<in> n_ID ` set (NodesUnreachableFor now grace (pf_nodes (pf_rest (world s))))"
    by (auto simp: source_UnreachableNodes_def)
  with v show ?thesis
    by (auto simp: NodesUnreachableFor_def set_node_list StatusAt_def split: if_splits)
qed

text \<open>
  C21: when nodes are lost, only containers are taken off them. An instance whose
  placement the release phase changes has isolation container, sat on a node of
  the table that has been silent for at least the grace period and is not ready,
  and is left without a node.
\<close>

theorem only_containers_leave_lost_nodes:
  assumes wf: "platform_wf (world s)"
    and call: "releaseStranded (wired_sources d new_id mac now samples) grace s = (r, s')"
    and moved: "instance_node (world s') j \<noteq> instance_node (world s) j"
  shows "instance_node (world s') j = [] \<and> snd (snd (instance_attrs (world s) j)) = ''container'' \<and>
    (\<exists>m\<in>set (nodes (pf_nodes (pf_rest (world s)))). n_ID m = instance_node (world s) j \<and>
       StatusAt m now \<noteq> StatusReady \<and> grace \<le> time_sub now (n_LastSeenAt m))"
  by (rule stranded_release_cause [OF wf call moved])

definition demo_lost :: "platform sched" where
  "demo_lost = demo_sched [demo_row ''i1'' ''n1'', demo_row ''i2'' []] [demo_node ''n1'' True False 0]"

theorem only_containers_leave_lost_nodes_witness:
  "(let s' = snd (releaseStranded (demo_sources 200000000000) DefaultStrandedGrace demo_lost)
    in instance_node (world s') ''i1'' = [] \<and> instance_node (world demo_lost) ''i1'' = ''n1'' \<and>
       snd (snd (instance_attrs (world demo_lost) ''i1'')) = ''container'')"
proof -
  have wf: "platform_wf (world demo_lost)"
    by (simp add: platform_wf_def demo_lost_def demo_sched_def demo_rows_wf node_db_wf_def net_wf_empty demo_node_def)
  obtain r s' where run: "releaseStranded (demo_sources 200000000000) DefaultStrandedGrace demo_lost = (r, s')"
    by fastforce
  have "instance_node (world (snd (releaseStranded (demo_sources 200000000000) DefaultStrandedGrace demo_lost))) ''i1'' = []"
    "instance_node (world demo_lost) ''i1'' = ''n1''" by code_simp+
  with run have before: "instance_node (world demo_lost) ''i1'' = ''n1''"
    and moved: "instance_node (world s') ''i1'' \<noteq> instance_node (world demo_lost) ''i1''" by simp_all
  from only_containers_leave_lost_nodes [OF wf run [unfolded demo_sources_def] moved] before
  show ?thesis by (simp add: run)
qed

text \<open>
  C22: a node whose drain the pass marks as finished is empty: no instance that is
  to run or is moving is placed on it any more.
\<close>

theorem finished_drain_is_empty:
  assumes wf: "platform_wf (world s)"
    and call: "emptyDraining (wired_sources d new_id mac now samples) s = (r, s')"
    and n: "n \<in> draining_nodes (world s)" "n \<notin> draining_nodes (world s')"
  shows "\<not> (instance_busy (world s') i \<and> instance_node (world s') i = n)"
proof -
  from n(1) wf have "n \<noteq> []" by (auto simp: draining_nodes_def platform_wf_def) (metis imageI)
  with wired.emptyDraining_view [OF wf call] n show ?thesis by blast
qed

definition demo_drain :: "platform sched" where
  "demo_drain = demo_sched [demo_row ''i1'' ''n1'', demo_row ''i2'' []] [demo_node ''n1'' False True 0]"

theorem finished_drain_is_empty_witness:
  "(let s' = snd (emptyDraining (demo_sources 5) demo_drain)
    in ''n1'' \<in> draining_nodes (world demo_drain) \<and> ''n1'' \<notin> draining_nodes (world s') \<and>
       \<not> (instance_busy (world s') ''i1'' \<and> instance_node (world s') ''i1'' = ''n1''))"
proof -
  have wf: "platform_wf (world demo_drain)"
    by (simp add: platform_wf_def demo_drain_def demo_sched_def demo_rows_wf node_db_wf_def net_wf_empty demo_node_def)
  obtain r s' where run: "emptyDraining (demo_sources 5) demo_drain = (r, s')" by fastforce
  have n: "''n1'' \<in> draining_nodes (world demo_drain)"
    by (force simp: draining_nodes_def demo_drain_def demo_sched_def demo_node_def)
  have "list_all (\<lambda>n. \<not> n_Draining n) (nodes (pf_nodes (pf_rest (world (snd (emptyDraining (demo_sources 5) demo_drain))))))"
    by code_simp
  with run have n': "''n1'' \<notin> draining_nodes (world s')" by (auto simp: draining_nodes_def list_all_iff)
  from finished_drain_is_empty [OF wf run [unfolded demo_sources_def] n n', of "''i1''"] n n'
  show ?thesis by (simp add: run)
qed

end
