(* ===== verification/NodeView.thy ===== *)
theory NodeView
  imports Networks
begin

text \<open>
  What a node's agent is told about its networks, \<open>nodeView\<close> of
  src/internal/platform/network/service.go, and the address tables of the module.
  The rows come back in the order of the address texts, so the text of an address
  and of a prefix is an argument. The properties are about routing: the slice a
  node owns and the slices of its peers never claim a common address, so a packet
  has one destination.
\<close>

record node_network =
  nn_Network :: network
  nn_Slice :: node_slice
  nn_NICs :: "nic list"
  nn_Peers :: "node_slice list"

definition repo_nicsOnNode :: "(addr \<Rightarrow> string) \<Rightarrow> net_db \<Rightarrow> string \<Rightarrow> nic list" where
  "repo_nicsOnNode show_addr db nodeID =
     sort_key (\<lambda>n. show_addr (nic_IP n)) (filter (\<lambda>n. nic_NodeID n = nodeID) (nic_rows db))"

definition repo_slicesExcept ::
    "(prefix \<Rightarrow> string) \<Rightarrow> net_db \<Rightarrow> string \<Rightarrow> string \<Rightarrow> node_slice list" where
  "repo_slicesExcept show_prefix db networkID nodeID =
     sort_key (\<lambda>s. show_prefix (sl_CIDR s))
       (filter (\<lambda>s. sl_NetworkID s = networkID \<and> sl_NodeID s \<noteq> nodeID) (slice_rows db))"

text \<open>The grouping loop: the map of interfaces per network, and the order networks appear in.\<close>

fun group_nics :: "nic list \<Rightarrow> string list \<Rightarrow> (string \<rightharpoonup> nic list) \<Rightarrow> string list \<times> (string \<rightharpoonup> nic list)"
  where
  "group_nics [] order m = (order, m)"
| "group_nics (n # ns) order m =
     group_nics ns (if m (nic_NetworkID n) = None then order @ [nic_NetworkID n] else order)
       (m(nic_NetworkID n \<mapsto> get_or [] m (nic_NetworkID n) @ [n]))"

fun view_loop ::
    "(prefix \<Rightarrow> string) \<Rightarrow> go_time \<Rightarrow> string \<Rightarrow> (string \<rightharpoonup> nic list) \<Rightarrow> string list \<Rightarrow> net_db \<Rightarrow>
     node_network list result \<times> net_db" where
  "view_loop show_prefix now nodeID m [] db = (Inr [], db)"
| "view_loop show_prefix now nodeID m (i # is) db =
     (case network_get db i of
        Inl e \<Rightarrow> (Inl e, db)
      | Inr n \<Rightarrow>
          (case ensureSlice now db i nodeID of
             (Inl e, db1) \<Rightarrow> (Inl e, db1)
           | (Inr s, db1) \<Rightarrow>
               (let v = \<lparr>nn_Network = n, nn_Slice = s, nn_NICs = get_or [] m i,
                         nn_Peers = repo_slicesExcept show_prefix db1 i nodeID\<rparr>
                in case view_loop show_prefix now nodeID m is db1 of
                     (Inl e, db2) \<Rightarrow> (Inl e, db2)
                   | (Inr vs, db2) \<Rightarrow> (Inr (v # vs), db2))))"

definition nodeView ::
    "(addr \<Rightarrow> string) \<Rightarrow> (prefix \<Rightarrow> string) \<Rightarrow> go_time \<Rightarrow> net_db \<Rightarrow> string \<Rightarrow>
     node_network list result \<times> net_db" where
  "nodeView show_addr show_prefix now db nodeID =
     (case group_nics (repo_nicsOnNode show_addr db nodeID) [] Map.empty of
        (order, m) \<Rightarrow> view_loop show_prefix now nodeID m order db)"

definition repo_allAddresses :: "net_db \<Rightarrow> (string \<rightharpoonup> addr)" where
  "repo_allAddresses db = fold (\<lambda>n m. m(nic_InstanceID n \<mapsto> nic_IP n)) (nic_rows db) Map.empty"

definition repo_allAddresses6 :: "net_db \<Rightarrow> (string \<rightharpoonup> addr)" where
  "repo_allAddresses6 db =
     fold (\<lambda>n m. if nic_InstanceID n \<in> dom m then m else m(nic_InstanceID n := nic_IP6 n))
       (sort_key nic_Device (filter (\<lambda>n. nic_IP6 n \<noteq> None) (nic_rows db))) Map.empty"

definition NetworkNames :: "net_db \<Rightarrow> (string \<rightharpoonup> string)" where
  "NetworkNames db = fold (\<lambda>n m. m(nw_ID n \<mapsto> nw_Name n)) (repo_listNetworks db) Map.empty"

section \<open>Grouping\<close>

lemma group_nics_spec:
  assumes "group_nics ns order m = (order', m')" "set order = dom m" "distinct order"
  shows "distinct order' \<and> set order' = dom m' \<and> dom m' = dom m \<union> nic_NetworkID ` set ns \<and>
    (\<forall>i. get_or [] m' i = get_or [] m i @ filter (\<lambda>n. nic_NetworkID n = i) ns)"
  using assms
proof (induction ns arbitrary: order m)
  case (Cons n ns)
  let ?i = "nic_NetworkID n"
  let ?m = "m(?i \<mapsto> get_or [] m ?i @ [n])" and ?o = "if m ?i = None then order @ [?i] else order"
  have inv: "set ?o = dom ?m" "distinct ?o" using Cons.prems(2,3) by auto
  have step: "group_nics ns ?o ?m = (order', m')" using Cons.prems(1) by simp
  have IH: "distinct order' \<and> set order' = dom m' \<and>
      dom m' = dom ?m \<union> nic_NetworkID ` set ns \<and>
      (\<forall>i. get_or [] m' i = get_or [] ?m i @ filter (\<lambda>n. nic_NetworkID n = i) ns)"
    by (rule Cons.IH [OF step inv])
  then show ?case by auto
qed auto

lemma mset_grouped:
  "distinct is \<Longrightarrow>
   mset (concat (map (\<lambda>i. filter (\<lambda>n. f n = i) xs) is)) = filter_mset (\<lambda>n. f n \<in> set is) (mset xs)"
proof (induction "is")
  case (Cons i "is")
  then show ?case by (auto intro!: multiset_eqI)
qed simp

section \<open>Slices and peers\<close>

text \<open>The ranges of a slice, one per family.\<close>

definition slice_ranges :: "node_slice \<Rightarrow> prefix list" where
  "slice_ranges s = sl_CIDR s # (case sl_CIDR6 s of None \<Rightarrow> [] | Some p \<Rightarrow> [p])"

lemma in_slice_ranges: "p \<in> set (slice_ranges s) \<longleftrightarrow> p = sl_CIDR s \<or> sl_CIDR6 s = Some p"
  by (auto simp: slice_ranges_def split: option.splits)

lemma in_ranges: "p \<in> set (ranges n) \<longleftrightarrow> p = nw_CIDR n \<or> nw_CIDR6 n = Some p"
  by (auto simp: ranges_def split: option.splits)

lemma network_of_slice:
  assumes "net_wf db" "s \<in> set (slice_rows db)"
  shows "\<exists>n\<in>set (nw_rows db). nw_ID n = sl_NetworkID s \<and> network_row_ok n \<and> is_slice (nw_CIDR n) (sl_CIDR s) \<and>
    (\<forall>p. sl_CIDR6 s = Some p \<longrightarrow> (\<exists>r. nw_CIDR6 n = Some r \<and> is_slice r p))"
  using assms by (fastforce simp: net_wf_def list_all_iff slice_row_ok_def)

lemma range_of_slice:
  assumes wf: "net_wf db" and s: "s \<in> set (slice_rows db)" "p \<in> set (slice_ranges s)"
    and n: "n \<in> set (nw_rows db)" "nw_ID n = sl_NetworkID s"
  shows "\<exists>r\<in>set (ranges n). range_ok r \<and> is_slice r p \<and> addr_is4 (pfx_addr r) = addr_is4 (pfx_addr p) \<and>
    (r = nw_CIDR n \<longleftrightarrow> p = sl_CIDR s)"
proof -
  from network_of_slice [OF wf s(1)] n network_of_id [OF wf] have ok: "network_row_ok n" "is_slice (nw_CIDR n) (sl_CIDR s)"
    "\<forall>p. sl_CIDR6 s = Some p \<longrightarrow> (\<exists>r. nw_CIDR6 n = Some r \<and> is_slice r p)" by metis+
  show ?thesis
  proof (cases "p = sl_CIDR s")
    case True
    with ok show ?thesis by (intro bexI [of _ "nw_CIDR n"]) (auto simp: in_ranges network_row_ok_def is_slice_def)
  next
    case False
    with s(2) ok(3) obtain r where r: "nw_CIDR6 n = Some r" "is_slice r p" by (auto simp: in_slice_ranges)
    with ok(1) have "range_ok r" "r \<noteq> nw_CIDR n" by (auto simp: network_row_ok_def)
    with r False show ?thesis by (intro bexI [of _ r]) (auto simp: in_ranges is_slice_def)
  qed
qed

lemma family_of_range:
  assumes "network_row_ok n" "r \<in> set (ranges n)" "q \<in> set (ranges n)" "addr_is4 (pfx_addr r) = addr_is4 (pfx_addr q)"
  shows "r = q"
  using assms by (auto simp: network_row_ok_def in_ranges)

lemma slices_share_nothing:
  assumes wf: "net_wf db" and s: "s \<in> set (slice_rows db)" and t: "t \<in> set (slice_rows db)" and ne: "s \<noteq> t"
    and p: "p \<in> set (slice_ranges s)" and q: "q \<in> set (slice_ranges t)"
  shows "\<not> (contains p a \<and> contains q a)"
proof
  assume both: "contains p a \<and> contains q a"
  from network_of_slice [OF wf s] obtain v where v: "v \<in> set (nw_rows db)" "nw_ID v = sl_NetworkID s" "network_row_ok v" by blast
  from network_of_slice [OF wf t] obtain w where w: "w \<in> set (nw_rows db)" "nw_ID w = sl_NetworkID t" "network_row_ok w" by blast
  from range_of_slice [OF wf s p v(1,2)] obtain r where r: "r \<in> set (ranges v)" "range_ok r" "is_slice r p"
    "addr_is4 (pfx_addr r) = addr_is4 (pfx_addr p)" "r = nw_CIDR v \<longleftrightarrow> p = sl_CIDR s" by blast
  from range_of_slice [OF wf t q w(1,2)] obtain k where k: "k \<in> set (ranges w)" "range_ok k" "is_slice k q"
    "addr_is4 (pfx_addr k) = addr_is4 (pfx_addr q)" "k = nw_CIDR w \<longleftrightarrow> q = sl_CIDR t" by blast
  show False
  proof (cases "v = w")
    case True
    have "r = k" using both r k True by (intro family_of_range [OF v(3)]) (auto simp: contains_def)
    with slices_disjoint [OF r(3), of q a] k both have "p = q" by blast
    moreover have "slices_apart s t" using wf s t ne by (auto simp: net_wf_def intro: apartD)
    moreover have "p = sl_CIDR s \<longleftrightarrow> q = sl_CIDR t" using r(5) k(5) \<open>r = k\<close> True by simp
    ultimately show False using p q v(2) w(2) True by (auto simp: slices_apart_def in_slice_ranges)
  next
    case False
    then have "networks_apart v w" using wf v(1) w(1) by (auto simp: net_wf_def intro: apartD)
    moreover have "contains r a" using r both by (auto intro: is_slice_within simp: range_ok_def)
    moreover have "contains k a" using k both by (auto intro: is_slice_within simp: range_ok_def)
    ultimately show False using r(1) k(1) overlaps_common [of r a k] by (auto simp: networks_apart_def)
  qed
qed

section \<open>The view\<close>

abbreviation (input) foreign_slices :: "string \<Rightarrow> net_db \<Rightarrow> node_slice list" where
  "foreign_slices node db \<equiv> filter (\<lambda>s. sl_NodeID s \<noteq> node) (slice_rows db)"

lemma slicesExcept_foreign:
  assumes "foreign_slices node d = foreign_slices node db"
  shows "repo_slicesExcept show_prefix d i node = repo_slicesExcept show_prefix db i node"
proof -
  have "filter (\<lambda>s. sl_NetworkID s = i \<and> sl_NodeID s \<noteq> node) (slice_rows e) =
      filter (\<lambda>s. sl_NetworkID s = i) (foreign_slices node e)" for e by (simp add: conj_commute)
  then show ?thesis unfolding repo_slicesExcept_def by (simp only: assms)
qed

lemma ensureSlice_slices:
  assumes "ensureSlice now db i node = (r, db')"
  shows "set (slice_rows db) \<subseteq> set (slice_rows db') \<and> foreign_slices node db' = foreign_slices node db"
  using assms
  by (auto simp: ensureSlice_def repo_insertSlice_def Let_def split: sum.splits prod.splits if_splits net_error.splits)

lemma view_loop_spec:
  assumes "net_wf db" "view_loop show_prefix now nodeID m is db = (r, db')"
  shows "net_wf db' \<and> nw_rows db' = nw_rows db \<and> nic_rows db' = nic_rows db \<and>
    set (slice_rows db) \<subseteq> set (slice_rows db') \<and> foreign_slices nodeID db' = foreign_slices nodeID db \<and>
    (\<forall>vs. r = Inr vs \<longrightarrow> map (\<lambda>v. nw_ID (nn_Network v)) vs = is \<and>
      (\<forall>v\<in>set vs. nn_Network v \<in> set (nw_rows db) \<and> nn_NICs v = get_or [] m (nw_ID (nn_Network v)) \<and>
         nn_Slice v \<in> set (slice_rows db') \<and>
         sl_NetworkID (nn_Slice v) = nw_ID (nn_Network v) \<and> sl_NodeID (nn_Slice v) = nodeID \<and>
         nn_Peers v = repo_slicesExcept show_prefix db (nw_ID (nn_Network v)) nodeID))"
  using assms
proof (induction "is" arbitrary: db r db')
  case (Cons i "is")
  show ?case
  proof (cases "network_get db i")
    case (Inl e)
    with Cons.prems show ?thesis by auto
  next
    case (Inr n)
    then have n: "n \<in> set (nw_rows db)" "nw_ID n = i"
      by (auto simp: network_get_def split: sum.splits dest: repo_networkD)
    obtain sr db1 where sl: "ensureSlice now db i nodeID = (sr, db1)" by fastforce
    note es = ensureSlice_result [OF Cons.prems(1) sl] and grow = ensureSlice_slices [OF sl]
    show ?thesis
    proof (cases sr)
      case (Inl e)
      with Cons.prems Inr sl es grow show ?thesis by auto
    next
      case (Inr s)
      obtain r2 db2 where rest: "view_loop show_prefix now nodeID m is db1 = (r2, db2)" by fastforce
      from es have wf1: "net_wf db1" by blast
      note IH = Cons.IH [OF wf1 rest]
      let ?v = "\<lparr>nn_Network = n, nn_Slice = s, nn_NICs = get_or [] m i,
        nn_Peers = repo_slicesExcept show_prefix db1 i nodeID\<rparr>"
      have out: "db' = db2" "r = (case r2 of Inl e \<Rightarrow> Inl e | Inr vs \<Rightarrow> Inr (?v # vs))"
        using Cons.prems(2) \<open>network_get db i = Inr n\<close> sl Inr rest by (auto simp: Let_def split: sum.splits)
      have keep: "nw_rows db1 = nw_rows db" "nic_rows db1 = nic_rows db" using es by simp_all
      have here: "s \<in> set (slice_rows db1)" "sl_NetworkID s = i" "sl_NodeID s = nodeID" using es Inr by simp_all
      have peers: "repo_slicesExcept show_prefix db1 j nodeID = repo_slicesExcept show_prefix db j nodeID" for j
        using grow by (intro slicesExcept_foreign) simp
      show ?thesis
      proof (cases r2)
        case (Inl e)
        with IH out keep grow show ?thesis by auto
      next
        case (Inr vs)
        with IH out keep n here wf1 grow show ?thesis by (auto simp: peers)
      qed
    qed
  qed
qed auto

lemma set_slicesExcept [simp]:
  "set (repo_slicesExcept show_prefix db i nodeID) =
     {s \<in> set (slice_rows db). sl_NetworkID s = i \<and> sl_NodeID s \<noteq> nodeID}"
  by (simp add: repo_slicesExcept_def)

lemma nodeView_spec:
  assumes wf: "net_wf db" and call: "nodeView show_addr show_prefix now db nodeID = (Inr vs, db')"
  shows "net_wf db' \<and> set (slice_rows db) \<subseteq> set (slice_rows db') \<and>
    distinct (map (\<lambda>v. nw_ID (nn_Network v)) vs) \<and>
    mset (concat (map nn_NICs vs)) = mset (filter (\<lambda>n. nic_NodeID n = nodeID) (nic_rows db)) \<and>
    (\<forall>v\<in>set vs. nn_Network v \<in> set (nw_rows db) \<and>
       (\<forall>n\<in>set (nn_NICs v). nic_NetworkID n = nw_ID (nn_Network v)) \<and>
       nn_Slice v \<in> set (slice_rows db') \<and>
       sl_NetworkID (nn_Slice v) = nw_ID (nn_Network v) \<and> sl_NodeID (nn_Slice v) = nodeID \<and>
       nn_Peers v = repo_slicesExcept show_prefix db (nw_ID (nn_Network v)) nodeID)"
proof -
  let ?nics = "repo_nicsOnNode show_addr db nodeID" and ?id = "\<lambda>v. nw_ID (nn_Network v)"
  obtain order m where g: "group_nics ?nics [] Map.empty = (order, m)" by fastforce
  with call have loop: "view_loop show_prefix now nodeID m order db = (Inr vs, db')" by (simp add: nodeView_def)
  note vl = view_loop_spec [OF wf loop]
  from group_nics_spec [OF g] have gs: "distinct order" "set order = nic_NetworkID ` set ?nics"
    "get_or [] m i = filter (\<lambda>n. nic_NetworkID n = i) ?nics" for i by (simp_all add: get_or_def)
  from vl have ids: "map ?id vs = order" by simp
  have nics: "nn_NICs v = filter (\<lambda>n. nic_NetworkID n = ?id v) ?nics" if "v \<in> set vs" for v
    using that vl gs(3) by simp
  have "map nn_NICs vs = map (\<lambda>v. filter (\<lambda>n. nic_NetworkID n = ?id v) ?nics) vs"
    using nics by (intro map_cong) simp_all
  also have "\<dots> = map (\<lambda>i. filter (\<lambda>n. nic_NetworkID n = i) ?nics) order"
    unfolding ids [symmetric] by simp
  finally have "mset (concat (map nn_NICs vs)) = filter_mset (\<lambda>n. nic_NetworkID n \<in> set order) (mset ?nics)"
    using mset_grouped [OF gs(1), of nic_NetworkID ?nics] by simp
  also have "\<dots> = mset ?nics" unfolding gs(2) by (simp add: filter_mset_eq_conv)
  also have "\<dots> = mset (filter (\<lambda>n. nic_NodeID n = nodeID) (nic_rows db))" by (simp add: repo_nicsOnNode_def)
  finally have once: "mset (concat (map nn_NICs vs)) = mset (filter (\<lambda>n. nic_NodeID n = nodeID) (nic_rows db))" .
  have "\<forall>v\<in>set vs. \<forall>n\<in>set (nn_NICs v). nic_NetworkID n = ?id v" using nics by simp
  with vl ids gs(1) once show ?thesis by blast
qed

text \<open>
  C37: the view a node is given is complete and its routes are unambiguous. Every
  interface on the node is shown exactly once, under its network. Each entry carries the
  slice of this node and, as peers, all slices other nodes have of the network. For any
  two entries, of the same network or of different ones, no address of either family
  lies both in a range the node owns and in a range of a peer.
\<close>

theorem nodeView_routes_unambiguous:
  assumes wf: "net_wf db" and call: "nodeView show_addr show_prefix now db nodeID = (Inr vs, db')"
  shows "mset (concat (map nn_NICs vs)) = mset (filter (\<lambda>n. nic_NodeID n = nodeID) (nic_rows db)) \<and>
    (\<forall>v\<in>set vs. (\<forall>n\<in>set (nn_NICs v). nic_NetworkID n = nw_ID (nn_Network v)) \<and>
       sl_NetworkID (nn_Slice v) = nw_ID (nn_Network v) \<and> sl_NodeID (nn_Slice v) = nodeID \<and>
       set (nn_Peers v) = {s \<in> set (slice_rows db). sl_NetworkID s = nw_ID (nn_Network v) \<and> sl_NodeID s \<noteq> nodeID}) \<and>
    (\<forall>v\<in>set vs. \<forall>u\<in>set vs. \<forall>t\<in>set (nn_Peers u). \<forall>p\<in>set (slice_ranges (nn_Slice v)). \<forall>q\<in>set (slice_ranges t).
       \<forall>a. \<not> (contains p a \<and> contains q a))"
proof -
  note vs = nodeView_spec [OF wf call]
  then have wf': "net_wf db'" by blast
  have "\<not> (contains p a \<and> contains q a)"
    if v: "v \<in> set vs" and u: "u \<in> set vs" and t: "t \<in> set (nn_Peers u)"
      and p: "p \<in> set (slice_ranges (nn_Slice v))" and q: "q \<in> set (slice_ranges t)" for v u t p q a
  proof (rule slices_share_nothing [OF wf' _ _ _ p q])
    show "nn_Slice v \<in> set (slice_rows db')" using vs v by blast
    from vs u t have "t \<in> set (slice_rows db)" "sl_NodeID t \<noteq> nodeID" by auto
    then show "t \<in> set (slice_rows db')" "nn_Slice v \<noteq> t" using vs v by auto
  qed
  then show ?thesis using vs by auto
qed

definition view_db :: net_db where
  "view_db =
     \<lparr>nw_rows = [new_network ''nw-1'' 1 ''p1'' ''default'' DefaultCIDR None],
      slice_rows =
        [\<lparr>sl_NetworkID = ''nw-1'', sl_NodeID = ''n1'', sl_CIDR = Prefix (Addr True 169082944) 26,
          sl_CIDR6 = None, sl_CreatedAt = 2\<rparr>,
         \<lparr>sl_NetworkID = ''nw-1'', sl_NodeID = ''n2'', sl_CIDR = Prefix (Addr True 169083008) 26,
          sl_CIDR6 = None, sl_CreatedAt = 3\<rparr>],
      nic_rows =
        [\<lparr>nic_InstanceID = ''i1'', nic_NetworkID = ''nw-1'', nic_Device = 0, nic_NodeID = ''n1'',
          nic_IP = Addr True 169082945, nic_IP6 = None, nic_MAC = ''mac'', nic_CreatedAt = 4\<rparr>]\<rparr>"

lemma view_db_wf: "net_wf view_db"
  by (simp add: view_db_def net_wf_def apart_def network_row_ok_def new_network_def range_ok_def network_ok_def
      prefix_ok_def addr_ok_def masked_def host_bits_def bit_len_def sliceBitsFor_def slice_row_ok_def is_slice_def
      contains_def slices_apart_def nic_row_ok_def usable_def isBroadcast_def addPowerOfTwo_sum addr_prev_def)

theorem nodeView_routes_unambiguous_witness:
  "(case nodeView (\<lambda>_. []) (\<lambda>_. []) 9 view_db ''n1'' of
      (Inr [v], db') \<Rightarrow>
        map sl_NodeID (nn_Peers v) = [''n2''] \<and> map nic_InstanceID (nn_NICs v) = [''i1''] \<and>
        \<not> (contains (sl_CIDR (nn_Slice v)) (Addr True 169083009) \<and>
           contains (sl_CIDR (hd (nn_Peers v))) (Addr True 169083009))
    | _ \<Rightarrow> False)"
proof -
  obtain v db' where run: "nodeView (\<lambda>_. []) (\<lambda>_. []) 9 view_db ''n1'' = (Inr [v], db')"
    and peers: "map sl_NodeID (nn_Peers v) = [''n2'']" and nics: "map nic_InstanceID (nn_NICs v) = [''i1'']"
    by (simp add: nodeView_def repo_nicsOnNode_def view_db_def network_get_def repo_network_def
        new_network_def ensureSlice_def repo_slice_def repo_slicesExcept_def)
  then have "hd (nn_Peers v) \<in> set (nn_Peers v)" by (cases "nn_Peers v") auto
  moreover have "v \<in> set [v]" "sl_CIDR x \<in> set (slice_ranges x)" for x by (simp_all add: in_slice_ranges)
  ultimately have "\<not> (contains (sl_CIDR (nn_Slice v)) (Addr True 169083009) \<and>
      contains (sl_CIDR (hd (nn_Peers v))) (Addr True 169083009))"
    using nodeView_routes_unambiguous [OF view_db_wf run] by blast
  with run peers nics show ?thesis by simp
qed

end
