(* ===== verification/Replicas.thy ===== *)
theory Replicas
  imports Instances
begin

text \<open>
  Replicated services, src/internal/platform/service: the tables services and
  service_members, the requests on them, and the reconcile pass that keeps the
  replicas of each service. The workloads a service makes are an interface, as in
  the code (\<open>Workloads\<close>), on a world that its calls change; the theory
  ReplicaWiring puts the instance module behind it. Sealing and opening of
  templates, the random part of a replica's name and the text of an error are
  arguments.
\<close>

section \<open>Types\<close>

abbreviation (input) MaxReplicas :: int where "MaxReplicas \<equiv> 32"
abbreviation (input) svc_MaxNameLength :: int where "svc_MaxNameLength \<equiv> 40"
abbreviation (input) SuffixLength :: nat where "SuffixLength \<equiv> 6"
abbreviation (input) MaxCreatePerPass :: int where "MaxCreatePerPass \<equiv> 4"
abbreviation (input) MaxReplacePerPass :: int where "MaxReplacePerPass \<equiv> 1"
abbreviation (input) MaxReapAttempts :: int where "MaxReapAttempts \<equiv> 3"
abbreviation (input) StateRunning :: string where "StateRunning \<equiv> ''running''"
abbreviation (input) StateFailed :: string where "StateFailed \<equiv> ''failed''"
abbreviation (input) MaxNodeSelector :: int where "MaxNodeSelector \<equiv> 8"
abbreviation (input) MaxEnv :: int where "MaxEnv \<equiv> 64"
abbreviation (input) svc_MaxExtraNetworks :: int where "svc_MaxExtraNetworks \<equiv> 3"
abbreviation (input) svc_MaxFiles :: int where "svc_MaxFiles \<equiv> 16"

record svc_template =
  t_Isolation :: string
  t_Image :: string
  t_ISO :: string
  t_Kernel :: string
  t_DiskGiB :: int
  t_FirewallID :: string
  t_Command :: "string list"
  t_NetworkID :: string
  t_RestartPolicy :: string
  t_VCPU :: int
  t_MemoryMiB :: int
  t_Group :: string
  t_Strict :: bool
  t_NodeSelector :: "(string \<times> string) list"
  t_ExtraNetworks :: "string list"
  t_Env :: "(string \<times> string) list"
  t_EnvSealed :: string
  t_EnvKeyID :: string
  t_EnvNames :: "string list"
  t_Files :: "instance_file list"
  t_FilesSealed :: string
  t_FilePaths :: "string list"
  t_Keys :: "string list"

record svc_member =
  m_InstanceID :: string
  m_Revision :: int
  m_State :: string
  m_CreatedAt :: go_time

record service =
  s_ID :: string
  s_ProjectID :: string
  s_Name :: string
  s_Replicas :: int
  s_Revision :: int
  s_Template :: svc_template
  s_Members :: "svc_member list"
  s_Reaped :: int
  s_Blocked :: string
  s_CreatedAt :: go_time
  s_UpdatedAt :: go_time

record svc_create_params =
  sp_ProjectID :: string
  sp_Name :: string
  sp_Replicas :: int
  sp_Template :: svc_template

record workload =
  wk_ProjectID :: string
  wk_Name :: string
  wk_Template :: svc_template
  wk_Env :: "(string \<times> string) list"
  wk_Files :: "instance_file list"

record svc_db =
  services :: "service list"
  service_members :: "(string \<times> svc_member) list"

record 'w workloads_if =
  wl_Create :: "'w \<Rightarrow> workload \<Rightarrow> string result \<times> 'w"
  wl_Delete :: "'w \<Rightarrow> string \<Rightarrow> string \<Rightarrow> unit result \<times> 'w"
  wl_StatesOf :: "'w \<Rightarrow> string list \<Rightarrow> (string \<rightharpoonup> string) result"

datatype open_error = ErrKeyMissing | ErrOpenOther

record 'w svc_deps =
  workloads :: "'w workloads_if option"
  svc_networks :: "('w \<Rightarrow> string \<Rightarrow> string \<Rightarrow> bool result) option"
  svc_firewalls :: "('w \<Rightarrow> string \<Rightarrow> string \<Rightarrow> bool result) option"
  svc_events :: bool
  svc_sealing :: keyring
  OpenEnvJSON :: "string \<Rightarrow> string \<Rightarrow> open_error + (string \<times> string) list"
  OpenFilesJSON :: "string \<Rightarrow> string \<Rightarrow> open_error + instance_file list"
  err_text :: "fault \<Rightarrow> string"

record 'w svc_state =
  sv_db :: svc_db
  sv_world :: 'w
  sv_recorded :: "entry list"

section \<open>Repository\<close>

datatype svc_error = svc_errNotFound | svc_errNameUsed | svc_errOther

definition svc_translate :: "svc_error \<Rightarrow> fault" where
  "svc_translate e =
     (case e of
        svc_errNotFound \<Rightarrow> NotFound ''service_not_found''
      | svc_errNameUsed \<Rightarrow> Conflict ''service_name_taken''
      | svc_errOther \<Rightarrow> Internal)"

definition repo_svc_insert :: "svc_db \<Rightarrow> service \<Rightarrow> (svc_error + unit) \<times> svc_db" where
  "repo_svc_insert db s =
     (if list_ex (\<lambda>q. s_ID q = s_ID s \<or> (s_ProjectID q = s_ProjectID s \<and> s_Name q = s_Name s))
           (services db)
      then (Inl svc_errNameUsed, db)
      else (Inr (), db\<lparr>services := services db @ [s\<lparr>s_Members := []\<rparr>]\<rparr>))"

definition svc_update_where ::
    "string \<Rightarrow> (service \<Rightarrow> service) \<Rightarrow> svc_db \<Rightarrow> (svc_error + unit) \<times> svc_db" where
  "svc_update_where sid f db =
     (if list_ex (\<lambda>q. s_ID q = sid) (services db)
      then (Inr (), db\<lparr>services := update_where (\<lambda>q. s_ID q = sid) f (services db)\<rparr>)
      else (Inl svc_errNotFound, db))"

definition repo_svc_setReplicas ::
    "svc_db \<Rightarrow> string \<Rightarrow> int \<Rightarrow> go_time \<Rightarrow> (svc_error + unit) \<times> svc_db" where
  "repo_svc_setReplicas db sid replicas at =
     svc_update_where sid (\<lambda>q. q\<lparr>s_Replicas := replicas, s_UpdatedAt := at\<rparr>) db"

definition repo_svc_setTemplate ::
    "svc_db \<Rightarrow> string \<Rightarrow> svc_template \<Rightarrow> int \<Rightarrow> go_time \<Rightarrow> (svc_error + unit) \<times> svc_db" where
  "repo_svc_setTemplate db sid t revision at =
     svc_update_where sid (\<lambda>q. q\<lparr>s_Revision := revision, s_Template := t, s_UpdatedAt := at\<rparr>) db"

definition repo_svc_setReaped :: "svc_db \<Rightarrow> string \<Rightarrow> int \<Rightarrow> svc_db" where
  "repo_svc_setReaped db sid reaped =
     db\<lparr>services := update_where (\<lambda>q. s_ID q = sid) (\<lambda>q. q\<lparr>s_Reaped := reaped\<rparr>) (services db)\<rparr>"

definition repo_svc_setBlocked :: "svc_db \<Rightarrow> string \<Rightarrow> string \<Rightarrow> go_time \<Rightarrow> svc_db" where
  "repo_svc_setBlocked db sid reason at =
     db\<lparr>services := update_where (\<lambda>q. s_ID q = sid)
          (\<lambda>q. q\<lparr>s_Blocked := reason, s_UpdatedAt := at\<rparr>) (services db)\<rparr>"

text \<open>The state of a member is not stored; it is empty until \<open>withStates\<close> fills it.\<close>

definition repo_svc_membersOf :: "svc_db \<Rightarrow> string \<Rightarrow> svc_member list" where
  "repo_svc_membersOf db sid =
     sort_key (\<lambda>m. (stamp_key (m_CreatedAt m), m_InstanceID m))
       (map snd (filter (\<lambda>(i, _). i = sid) (service_members db)))"

definition repo_svc_load :: "svc_db \<Rightarrow> service list \<Rightarrow> service list" where
  "repo_svc_load db rows = map (\<lambda>q. q\<lparr>s_Members := repo_svc_membersOf db (s_ID q)\<rparr>) rows"

definition repo_svc_listIn :: "svc_db \<Rightarrow> string \<Rightarrow> service list" where
  "repo_svc_listIn db projectID =
     repo_svc_load db (sort_key s_Name (filter (\<lambda>q. s_ProjectID q = projectID) (services db)))"

definition repo_svc_all :: "svc_db \<Rightarrow> service list" where
  "repo_svc_all db = repo_svc_load db (sort_key s_ID (services db))"

definition repo_svc_byID :: "svc_db \<Rightarrow> string \<Rightarrow> string \<Rightarrow> svc_error + service" where
  "repo_svc_byID db projectID sid =
     (case repo_svc_load db (filter (\<lambda>q. s_ProjectID q = projectID \<and> s_ID q = sid) (services db)) of
        [] \<Rightarrow> Inl svc_errNotFound | q # _ \<Rightarrow> Inr q)"

definition repo_svc_byName :: "svc_db \<Rightarrow> string \<Rightarrow> string \<Rightarrow> svc_error + service" where
  "repo_svc_byName db projectID name =
     (case repo_svc_load db (filter (\<lambda>q. s_ProjectID q = projectID \<and> s_Name q = name) (services db)) of
        [] \<Rightarrow> Inl svc_errNotFound | q # _ \<Rightarrow> Inr q)"

definition repo_svc_addMember ::
    "svc_db \<Rightarrow> string \<Rightarrow> string \<Rightarrow> int \<Rightarrow> go_time \<Rightarrow> (svc_error + unit) \<times> svc_db" where
  "repo_svc_addMember db sid iid revision at =
     (if list_ex (\<lambda>(s, m). s = sid \<and> m_InstanceID m = iid) (service_members db)
      then (Inl svc_errOther, db)
      else (Inr (), db\<lparr>service_members := service_members db @
              [(sid, \<lparr>m_InstanceID = iid, m_Revision = revision, m_State = [], m_CreatedAt = at\<rparr>)]\<rparr>))"

definition repo_svc_removeMember :: "svc_db \<Rightarrow> string \<Rightarrow> string \<Rightarrow> svc_db" where
  "repo_svc_removeMember db sid iid =
     db\<lparr>service_members := filter (\<lambda>(s, m). \<not> (s = sid \<and> m_InstanceID m = iid)) (service_members db)\<rparr>"

text \<open>The transaction is rolled back when there is no such service.\<close>

definition repo_svc_delete :: "svc_db \<Rightarrow> string \<Rightarrow> (svc_error + unit) \<times> svc_db" where
  "repo_svc_delete db sid =
     (if list_ex (\<lambda>q. s_ID q = sid) (services db)
      then (Inr (), \<lparr>services = filter (\<lambda>q. s_ID q \<noteq> sid) (services db),
                     service_members = filter (\<lambda>(s, _). s \<noteq> sid) (service_members db)\<rparr>)
      else (Inl svc_errNotFound, db))"

section \<open>Checks and sealing (env.go, service.go)\<close>

definition svc_checkEnv :: "(string \<times> string) list \<Rightarrow> unit result" where
  "svc_checkEnv env =
     (if MaxEnv < int (length env) then Inl (Invalid ''invalid_env'')
      else if list_ex (\<lambda>(name, _). \<not> envNamePattern name) env then Inl (Invalid ''invalid_env'')
      else Inr ())"

definition svc_namesOf :: "(string \<times> string) list \<Rightarrow> string list" where
  "svc_namesOf env = sort (map fst env)"

definition svc_pathsOf :: "instance_file list \<Rightarrow> string list" where
  "svc_pathsOf files = sort (map f_Path files)"

definition svc_sealFiles :: "keyring \<Rightarrow> instance_file list \<Rightarrow> string result" where
  "svc_sealFiles ring files =
     (if files = [] then Inr []
      else case SealFilesJSON ring files of
             Inl ErrNoKey \<Rightarrow> Inl (Conflict ''no_sealing_key'')
           | Inl ErrSealOther \<Rightarrow> Inl Internal
           | Inr (blob, _) \<Rightarrow> Inr blob)"

definition openFiles :: "'w svc_deps \<Rightarrow> string \<Rightarrow> string \<Rightarrow> instance_file list result" where
  "openFiles d blob keyID =
     (if blob = [] then Inr []
      else case OpenFilesJSON d blob keyID of
             Inl ErrKeyMissing \<Rightarrow> Inl (Conflict ''seal_key_missing'')
           | Inl ErrOpenOther \<Rightarrow> Inl Internal
           | Inr files \<Rightarrow> Inr files)"

definition svc_sealEnv :: "keyring \<Rightarrow> (string \<times> string) list \<Rightarrow> (string \<times> string) result" where
  "svc_sealEnv ring env =
     (if env = [] then Inr ([], [])
      else case SealEnvJSON ring env of
             Inl ErrNoKey \<Rightarrow> Inl (Conflict ''no_sealing_key'')
           | Inl ErrSealOther \<Rightarrow> Inl Internal
           | Inr (blob, keyID) \<Rightarrow> Inr (blob, keyID))"

definition openEnv :: "'w svc_deps \<Rightarrow> string \<Rightarrow> string \<Rightarrow> (string \<times> string) list result" where
  "openEnv d blob keyID =
     (if blob = [] then Inr []
      else case OpenEnvJSON d blob keyID of
             Inl ErrKeyMissing \<Rightarrow> Inl (Conflict ''env_key_missing'')
           | Inl ErrOpenOther \<Rightarrow> Inl Internal
           | Inr env \<Rightarrow> Inr env)"

fun check_selector_pairs :: "(string \<times> string) list \<Rightarrow> unit result" where
  "check_selector_pairs [] = Inr ()"
| "check_selector_pairs ((key, val) # rest) =
     bindR (validate_Name ''node_selector_key'' key) (\<lambda>_.
     bindR (validate_Name ''node_selector_value'' val) (\<lambda>_. check_selector_pairs rest))"

definition checkSelector :: "(string \<times> string) list \<Rightarrow> unit result" where
  "checkSelector selector =
     (if MaxNodeSelector < int (length selector) then Inl (Invalid ''invalid_node_selector'')
      else check_selector_pairs selector)"

fun check_ids ::
    "('w \<Rightarrow> string \<Rightarrow> string \<Rightarrow> bool result) \<Rightarrow> 'w \<Rightarrow> string \<Rightarrow> string list \<Rightarrow> unit result" where
  "check_ids exists w pid [] = Inr ()"
| "check_ids exists w pid (i # is) =
     (if i = [] then check_ids exists w pid is
      else bindR (exists w i pid) (\<lambda>known.
             if known then check_ids exists w pid is else Inl (Invalid ''unknown_reference'')))"

definition checkReferences :: "'w svc_deps \<Rightarrow> 'w \<Rightarrow> string \<Rightarrow> svc_template \<Rightarrow> unit result" where
  "checkReferences d w pid t =
     bindR (case svc_networks d of
              None \<Rightarrow> Inr () | Some ex \<Rightarrow> check_ids ex w pid (t_NetworkID t # t_ExtraNetworks t)) (\<lambda>_.
     case svc_firewalls d of
       None \<Rightarrow> Inr () | Some ex \<Rightarrow> check_ids ex w pid [t_FirewallID t])"

definition checkTemplate :: "svc_template \<Rightarrow> unit result" where
  "checkTemplate t =
     bindR (checkSelector (t_NodeSelector t)) (\<lambda>_.
     bindR (svc_checkEnv (t_Env t)) (\<lambda>_.
       if svc_MaxExtraNetworks < int (length (t_ExtraNetworks t)) then Inl (Invalid ''invalid_networks'')
       else if svc_MaxFiles < int (length (t_Files t)) then Inl (Invalid ''invalid_files'')
       else if t_Image t = [] \<and> t_ISO t = [] then Inl (Invalid ''invalid_template'')
       else Inr ()))"

definition sealTemplate :: "'w svc_deps \<Rightarrow> svc_template \<Rightarrow> svc_template result" where
  "sealTemplate d t =
     bindR (svc_sealEnv (svc_sealing d) (t_Env t)) (\<lambda>(envSealed, envKey).
     bindR (svc_sealFiles (svc_sealing d) (t_Files t)) (\<lambda>filesSealed.
       let envKeyID = (if filesSealed \<noteq> [] \<and> envKey = [] then ActiveID (svc_sealing d) else envKey)
       in Inr (t\<lparr>t_EnvSealed := envSealed, t_EnvKeyID := envKeyID, t_EnvNames := svc_namesOf (t_Env t),
                 t_Env := [], t_FilesSealed := filesSealed, t_FilePaths := svc_pathsOf (t_Files t),
                 t_Files := []\<rparr>)))"

definition checkReplicas :: "int \<Rightarrow> unit result" where
  "checkReplicas replicas =
     (if replicas < 0 \<or> MaxReplicas < replicas then Inl (Invalid ''invalid_replicas'') else Inr ())"

section \<open>Requests\<close>

definition svc_note :: "'w svc_deps \<Rightarrow> service \<Rightarrow> entry \<Rightarrow> 'w svc_state \<Rightarrow> 'w svc_state" where
  "svc_note d svc e st =
     (if svc_events d
      then st\<lparr>sv_recorded := sv_recorded st @ [e\<lparr>e_ProjectID := s_ProjectID svc\<rparr>]\<rparr> else st)"

abbreviation svc_entry :: "string \<Rightarrow> string \<Rightarrow> string \<Rightarrow> severity \<Rightarrow> entry" where
  "svc_entry kind subject message sev \<equiv>
     \<lparr>e_ProjectID = [], e_Kind = kind, e_Subject = subject, e_NodeID = [], e_Message = message,
      e_Severity = sev\<rparr>"

definition fill_states :: "(string \<rightharpoonup> string) \<Rightarrow> service \<Rightarrow> service" where
  "fill_states states svc =
     svc\<lparr>s_Members := map (\<lambda>m. m\<lparr>m_State := get_or [] states (m_InstanceID m)\<rparr>) (s_Members svc)\<rparr>"

fun withStates_each :: "'w workloads_if \<Rightarrow> 'w \<Rightarrow> service list \<Rightarrow> service list result" where
  "withStates_each W w [] = Inr []"
| "withStates_each W w (svc # rest) =
     bindR (if s_Members svc = [] then Inr svc
            else bindR (wl_StatesOf W w (map m_InstanceID (s_Members svc)))
                   (\<lambda>states. Inr (fill_states states svc))) (\<lambda>svc'.
     bindR (withStates_each W w rest) (\<lambda>rest'. Inr (svc' # rest')))"

definition withStates :: "'w svc_deps \<Rightarrow> 'w \<Rightarrow> service list \<Rightarrow> service list result" where
  "withStates d w svcs =
     (case workloads d of None \<Rightarrow> Inr svcs | Some W \<Rightarrow> withStates_each W w svcs)"

definition svc_find :: "'w svc_deps \<Rightarrow> 'w svc_state \<Rightarrow> string \<Rightarrow> string \<Rightarrow> service result" where
  "svc_find d st pid sid =
     (case (case repo_svc_byID (sv_db st) pid sid of
              Inl svc_errNotFound \<Rightarrow> repo_svc_byName (sv_db st) pid sid | res \<Rightarrow> res) of
        Inl e \<Rightarrow> Inl (svc_translate e)
      | Inr svc \<Rightarrow> bindR (withStates d (sv_world st) [svc]) (\<lambda>found. Inr (hd found)))"

definition svc_membersOf :: "'w svc_deps \<Rightarrow> 'w svc_state \<Rightarrow> string \<Rightarrow> string \<Rightarrow> string list result" where
  "svc_membersOf d st pid sid =
     bindR (svc_find d st pid sid) (\<lambda>svc. Inr (map m_InstanceID (s_Members svc)))"

definition svc_listIn :: "'w svc_deps \<Rightarrow> 'w svc_state \<Rightarrow> string \<Rightarrow> service list result" where
  "svc_listIn d st pid = withStates d (sv_world st) (repo_svc_listIn (sv_db st) pid)"

definition svc_create ::
    "'w svc_deps \<Rightarrow> string \<Rightarrow> go_time \<Rightarrow> 'w svc_state \<Rightarrow> svc_create_params \<Rightarrow> service result \<times> 'w svc_state" where
  "svc_create d new_id now st p =
     (case bindR (validate_Name ''name'' (sp_Name p)) (\<lambda>_.
           bindR (if svc_MaxNameLength < int (length (sp_Name p)) then Inl (Invalid ''invalid_name'')
                  else Inr ()) (\<lambda>_.
           bindR (checkReplicas (sp_Replicas p)) (\<lambda>_.
           bindR (checkTemplate (sp_Template p)) (\<lambda>_.
           bindR (checkReferences d (sv_world st) (sp_ProjectID p) (sp_Template p)) (\<lambda>_.
             sealTemplate d (sp_Template p)))))) of
        Inl e \<Rightarrow> (Inl e, st)
      | Inr t \<Rightarrow>
          (let svc = \<lparr>s_ID = new_id, s_ProjectID = sp_ProjectID p, s_Name = sp_Name p,
                      s_Replicas = sp_Replicas p, s_Revision = 1, s_Template = t, s_Members = [],
                      s_Reaped = 0, s_Blocked = [], s_CreatedAt = now, s_UpdatedAt = now\<rparr>
           in case repo_svc_insert (sv_db st) svc of
                (Inl e, db) \<Rightarrow> (Inl (svc_translate e), st\<lparr>sv_db := db\<rparr>)
              | (Inr _, db) \<Rightarrow> (Inr svc, st\<lparr>sv_db := db\<rparr>)))"

definition svc_update ::
    "'w svc_deps \<Rightarrow> go_time \<Rightarrow> 'w svc_state \<Rightarrow> string \<Rightarrow> string \<Rightarrow> svc_template \<Rightarrow>
     service result \<times> 'w svc_state" where
  "svc_update d now st pid sid t0 =
     (case bindR (checkTemplate t0) (\<lambda>_.
           bindR (svc_find d st pid sid) (\<lambda>svc.
           bindR (checkReferences d (sv_world st) pid t0) (\<lambda>_.
           bindR (sealTemplate d t0) (\<lambda>t. Inr (svc, t))))) of
        Inl e \<Rightarrow> (Inl e, st)
      | Inr (svc, t) \<Rightarrow>
          (case repo_svc_setTemplate (sv_db st) (s_ID svc) t (s_Revision svc + 1) now of
             (Inl e, db) \<Rightarrow> (Inl (svc_translate e), st\<lparr>sv_db := db\<rparr>)
           | (Inr _, db) \<Rightarrow>
               (let st1 = svc_note d svc (svc_entry ''service.revision_published'' (s_ID svc)
                            (s_Name svc @ '' is now on revision '' @ itoa (s_Revision svc + 1) @
                             '', and replicas will be replaced one at a time'') Info)
                            (st\<lparr>sv_db := repo_svc_setReaped db (s_ID svc) 0\<rparr>)
                in (svc_find d st1 pid (s_ID svc), st1))))"

definition svc_scale ::
    "'w svc_deps \<Rightarrow> go_time \<Rightarrow> 'w svc_state \<Rightarrow> string \<Rightarrow> string \<Rightarrow> int \<Rightarrow> service result \<times> 'w svc_state" where
  "svc_scale d now st pid sid replicas =
     (case bindR (checkReplicas replicas) (\<lambda>_. svc_find d st pid sid) of
        Inl e \<Rightarrow> (Inl e, st)
      | Inr svc \<Rightarrow>
          (case repo_svc_setReplicas (sv_db st) (s_ID svc) replicas now of
             (Inl e, db) \<Rightarrow> (Inl (svc_translate e), st\<lparr>sv_db := db\<rparr>)
           | (Inr _, db) \<Rightarrow>
               (let st1 = st\<lparr>sv_db := db\<rparr> in (svc_find d st1 pid (s_ID svc), st1))))"

fun delete_members ::
    "'w workloads_if \<Rightarrow> string \<Rightarrow> svc_member list \<Rightarrow> 'w \<Rightarrow> unit result \<times> 'w" where
  "delete_members W pid [] w = (Inr (), w)"
| "delete_members W pid (m # ms) w =
     (case wl_Delete W w pid (m_InstanceID m) of
        (Inl _, w') \<Rightarrow> (Inl Internal, w')
      | (Inr _, w') \<Rightarrow> delete_members W pid ms w')"

definition svc_remove ::
    "'w svc_deps \<Rightarrow> 'w svc_state \<Rightarrow> string \<Rightarrow> string \<Rightarrow> unit result \<times> 'w svc_state" where
  "svc_remove d st pid sid =
     (case svc_find d st pid sid of
        Inl e \<Rightarrow> (Inl e, st)
      | Inr svc \<Rightarrow>
          (case (case workloads d of
                   None \<Rightarrow> (Inr (), sv_world st)
                 | Some W \<Rightarrow> delete_members W (s_ProjectID svc) (s_Members svc) (sv_world st)) of
             (Inl e, w) \<Rightarrow> (Inl e, st\<lparr>sv_world := w\<rparr>)
           | (Inr _, w) \<Rightarrow>
               (case repo_svc_delete (sv_db st) (s_ID svc) of
                  (Inl e, db) \<Rightarrow> (Inl (svc_translate e), st\<lparr>sv_db := db, sv_world := w\<rparr>)
                | (Inr _, db) \<Rightarrow> (Inr (), st\<lparr>sv_db := db, sv_world := w\<rparr>))))"

section \<open>The reconcile pass\<close>

definition clip :: "string \<Rightarrow> nat \<Rightarrow> string" where
  "clip value limit = (if length value \<le> limit then value else take limit value)"

definition replicaName :: "string \<Rightarrow> string \<Rightarrow> string" where
  "replicaName name suffix =
     name @ ''-'' @ (if SuffixLength + 2 < length suffix then drop (length suffix - SuffixLength) suffix
                     else suffix)"

definition block :: "'w svc_deps \<Rightarrow> go_time \<Rightarrow> service \<Rightarrow> string \<Rightarrow> 'w svc_state \<Rightarrow> 'w svc_state" where
  "block d now svc reason0 st =
     (let reason = clip reason0 320
      in if s_Blocked svc = reason then st
         else svc_note d svc (svc_entry ''service.blocked'' (s_ID svc)
                (s_Name svc @ '' cannot reach '' @ itoa (s_Replicas svc) @ '' replicas: '' @ reason) SevError)
                (st\<lparr>sv_db := repo_svc_setBlocked (sv_db st) (s_ID svc) reason now\<rparr>))"

definition clearBlocked :: "go_time \<Rightarrow> service \<Rightarrow> 'w svc_state \<Rightarrow> 'w svc_state" where
  "clearBlocked now svc st =
     (if s_Blocked svc = [] then st
      else st\<lparr>sv_db := repo_svc_setBlocked (sv_db st) (s_ID svc) [] now\<rparr>)"

definition allRunning :: "svc_member list \<Rightarrow> bool" where
  "allRunning present \<longleftrightarrow> list_all (\<lambda>m. m_State m = StateRunning) present \<and> present \<noteq> []"

definition settle :: "go_time \<Rightarrow> service \<Rightarrow> svc_member list \<Rightarrow> 'w svc_state \<Rightarrow> 'w svc_state" where
  "settle now svc present st =
     (let st1 = clearBlocked now svc st
      in if s_Reaped svc = 0 \<or> \<not> allRunning present then st1
         else st1\<lparr>sv_db := repo_svc_setReaped (sv_db st1) (s_ID svc) 0\<rparr>)"

definition partition :: "svc_member list \<Rightarrow> int \<Rightarrow> bool \<Rightarrow> svc_member list" where
  "partition present revision staleFirst =
     (let fresh = filter (\<lambda>m. m_Revision m = revision) present;
          stale = filter (\<lambda>m. m_Revision m \<noteq> revision) present
      in if stale = [] then present else if staleFirst then stale @ fresh else fresh @ stale)"

definition forget_member :: "service \<Rightarrow> svc_member \<Rightarrow> 'w svc_state \<Rightarrow> 'w svc_state" where
  "forget_member svc m st = st\<lparr>sv_db := repo_svc_removeMember (sv_db st) (s_ID svc) (m_InstanceID m)\<rparr>"

fun living_loop :: "'w svc_deps \<Rightarrow> service \<Rightarrow> svc_member list \<Rightarrow> 'w svc_state \<Rightarrow> 'w svc_state" where
  "living_loop d svc [] st = st"
| "living_loop d svc (m # ms) st =
     (if m_State m \<noteq> [] then living_loop d svc ms st
      else living_loop d svc ms
             (svc_note d svc (svc_entry ''service.replica_lost'' (m_InstanceID m)
                (''replica of '' @ s_Name svc @ '' no longer exists, making a replacement'') Warn)
                (forget_member svc m st)))"

definition livingMembers :: "'w svc_deps \<Rightarrow> service \<Rightarrow> 'w svc_state \<Rightarrow> svc_member list \<times> 'w svc_state" where
  "livingMembers d svc st =
     (filter (\<lambda>m. m_State m \<noteq> []) (s_Members svc), living_loop d svc (s_Members svc) st)"

fun reap_loop ::
    "'w svc_deps \<Rightarrow> 'w workloads_if \<Rightarrow> service \<Rightarrow> svc_member list \<Rightarrow> int \<Rightarrow> 'w svc_state \<Rightarrow> int \<times> 'w svc_state"
  where
  "reap_loop d W svc [] reaped st = (reaped, st)"
| "reap_loop d W svc (m # ms) reaped st =
     (if reaped = MaxReplacePerPass then (reaped, st)
      else case wl_Delete W (sv_world st) (s_ProjectID svc) (m_InstanceID m) of
             (Inl _, w) \<Rightarrow> (reaped, st\<lparr>sv_world := w\<rparr>)
           | (Inr _, w) \<Rightarrow>
               reap_loop d W svc ms (reaped + 1)
                 (svc_note d svc (svc_entry ''service.replica_failed'' (m_InstanceID m)
                    (s_Name svc @ '' replaced a replica that had failed, attempt '' @
                     itoa (s_Reaped svc + (reaped + 1)) @ '' of '' @ itoa MaxReapAttempts) Warn)
                    (forget_member svc m (st\<lparr>sv_world := w\<rparr>))))"

definition reapFailed ::
    "'w svc_deps \<Rightarrow> 'w workloads_if \<Rightarrow> go_time \<Rightarrow> service \<Rightarrow> svc_member list \<Rightarrow> 'w svc_state \<Rightarrow>
     svc_member list \<times> int \<times> bool \<times> 'w svc_state" where
  "reapFailed d W now svc present st =
     (let failed = filter (\<lambda>m. m_State m = StateFailed) present;
          kept = filter (\<lambda>m. m_State m \<noteq> StateFailed) present
      in if failed = [] then (present, 0, False, st)
         else if MaxReapAttempts \<le> s_Reaped svc
         then (present, 0, True, block d now svc (''replaced '' @ itoa (s_Reaped svc) @
                '' replicas and they keep failing, so the rest are left alone until the template or the image is fixed'') st)
         else (case reap_loop d W svc failed 0 st of
                 (reaped, st1) \<Rightarrow>
                   if reaped = 0 then (present, 0, False, st1)
                   else (kept @ drop (nat reaped) failed, reaped, False,
                         st1\<lparr>sv_db := repo_svc_setReaped (sv_db st1) (s_ID svc) (s_Reaped svc + reaped)\<rparr>)))"

fun retire_loop ::
    "'w svc_deps \<Rightarrow> 'w workloads_if \<Rightarrow> service \<Rightarrow> svc_member list \<Rightarrow> int \<Rightarrow> 'w svc_state \<Rightarrow> int \<times> 'w svc_state"
  where
  "retire_loop d W svc [] retired st = (retired, st)"
| "retire_loop d W svc (m # ms) retired st =
     (if retired = MaxReplacePerPass then (retired, st)
      else if m_Revision m = s_Revision svc then (retired, st)
      else case wl_Delete W (sv_world st) (s_ProjectID svc) (m_InstanceID m) of
             (Inl _, w) \<Rightarrow> (retired, st\<lparr>sv_world := w\<rparr>)
           | (Inr _, w) \<Rightarrow>
               retire_loop d W svc ms (retired + 1)
                 (svc_note d svc (svc_entry ''service.replica_retired'' (m_InstanceID m)
                    (s_Name svc @ '' retired a replica on revision '' @ itoa (m_Revision m) @
                     '' to make room for revision '' @ itoa (s_Revision svc)) Info)
                    (forget_member svc m (st\<lparr>sv_world := w\<rparr>))))"

definition retireStale ::
    "'w svc_deps \<Rightarrow> 'w workloads_if \<Rightarrow> service \<Rightarrow> svc_member list \<Rightarrow> 'w svc_state \<Rightarrow>
     svc_member list \<times> int \<times> 'w svc_state" where
  "retireStale d W svc present st =
     (let ordered = partition present (s_Revision svc) True
      in case retire_loop d W svc ordered 0 st of
           (retired, st1) \<Rightarrow>
             if retired = 0 then (present, 0, st1) else (drop (nat retired) ordered, retired, st1))"

text \<open>
  The creation loop runs once per replica still wanted. The result is the number
  created and whether the loop ran to its end; a failing creation blocks the
  service and ends it, a failing insert is an error.
\<close>

fun grow_loop ::
    "'w svc_deps \<Rightarrow> 'w workloads_if \<Rightarrow> (int \<Rightarrow> string) \<Rightarrow> go_time \<Rightarrow> service \<Rightarrow> int \<Rightarrow>
     (string \<times> string) list \<Rightarrow> instance_file list \<Rightarrow> nat \<Rightarrow> int \<Rightarrow> 'w svc_state \<Rightarrow>
     (int \<times> bool) result \<times> 'w svc_state" where
  "grow_loop d W draw now svc had env files 0 created st = (Inr (created, True), st)"
| "grow_loop d W draw now svc had env files (Suc n) created st =
     (case wl_Create W (sv_world st)
             \<lparr>wk_ProjectID = s_ProjectID svc, wk_Name = replicaName (s_Name svc) (draw created),
              wk_Template = s_Template svc, wk_Env = env, wk_Files = files\<rparr> of
        (Inl e, w) \<Rightarrow> (Inr (created, False), block d now svc (err_text d e) (st\<lparr>sv_world := w\<rparr>))
      | (Inr iid, w) \<Rightarrow>
          (case repo_svc_addMember (sv_db st) (s_ID svc) iid (s_Revision svc) now of
             (Inl e, db) \<Rightarrow> (Inl (svc_translate e), st\<lparr>sv_db := db, sv_world := w\<rparr>)
           | (Inr _, db) \<Rightarrow>
               grow_loop d W draw now svc had env files n (created + 1)
                 (svc_note d svc (svc_entry ''service.replica_added'' iid
                    (s_Name svc @ '' grew to '' @ itoa (had + (created + 1)) @ '' of '' @
                     itoa (s_Replicas svc)) Info) (st\<lparr>sv_db := db, sv_world := w\<rparr>))))"

definition growTo ::
    "'w svc_deps \<Rightarrow> 'w workloads_if \<Rightarrow> (int \<Rightarrow> string) \<Rightarrow> go_time \<Rightarrow> service \<Rightarrow> svc_member list \<Rightarrow>
     'w svc_state \<Rightarrow> int result \<times> 'w svc_state" where
  "growTo d W draw now svc present st =
     (let had = int (length present); wanted = min (s_Replicas svc - had) MaxCreatePerPass;
          t = s_Template svc
      in case openEnv d (t_EnvSealed t) (t_EnvKeyID t) of
           Inl e \<Rightarrow> (Inr 0, block d now svc (err_text d e) st)
         | Inr env \<Rightarrow>
             (case openFiles d (t_FilesSealed t) (t_EnvKeyID t) of
                Inl e \<Rightarrow> (Inr 0, block d now svc (err_text d e) st)
              | Inr files \<Rightarrow>
                  (case grow_loop d W draw now svc had env files (nat wanted) 0 st of
                     (Inl e, st1) \<Rightarrow> (Inl e, st1)
                   | (Inr (created, ended), st1) \<Rightarrow>
                       (Inr created, if ended then clearBlocked now svc st1 else st1))))"

fun shrink_loop ::
    "'w svc_deps \<Rightarrow> 'w workloads_if \<Rightarrow> service \<Rightarrow> int \<Rightarrow> svc_member list \<Rightarrow> int \<Rightarrow> 'w svc_state \<Rightarrow>
     int \<times> 'w svc_state" where
  "shrink_loop d W svc had [] removed st = (removed, st)"
| "shrink_loop d W svc had (m # ms) removed st =
     (case wl_Delete W (sv_world st) (s_ProjectID svc) (m_InstanceID m) of
        (Inl _, w) \<Rightarrow> shrink_loop d W svc had ms removed (st\<lparr>sv_world := w\<rparr>)
      | (Inr _, w) \<Rightarrow>
          shrink_loop d W svc had ms (removed + 1)
            (svc_note d svc (svc_entry ''service.replica_removed'' (m_InstanceID m)
               (s_Name svc @ '' shrank to '' @ itoa (had - (removed + 1)) @ '' of '' @
                itoa (s_Replicas svc)) Info)
               (forget_member svc m (st\<lparr>sv_world := w\<rparr>))))"

definition shrinkTo ::
    "'w svc_deps \<Rightarrow> 'w workloads_if \<Rightarrow> go_time \<Rightarrow> service \<Rightarrow> svc_member list \<Rightarrow> 'w svc_state \<Rightarrow>
     int \<times> 'w svc_state" where
  "shrinkTo d W now svc present st =
     (let ordered = partition present (s_Revision svc) False
      in case shrink_loop d W svc (int (length present)) (rev (drop (nat (s_Replicas svc)) ordered)) 0 st of
           (removed, st1) \<Rightarrow> (removed, clearBlocked now svc st1))"

definition reconcileOne ::
    "'w svc_deps \<Rightarrow> 'w workloads_if \<Rightarrow> (int \<Rightarrow> string) \<Rightarrow> go_time \<Rightarrow> service \<Rightarrow> 'w svc_state \<Rightarrow>
     (int \<times> int) result \<times> 'w svc_state" where
  "reconcileOne d W draw now svc st0 =
     (case livingMembers d svc st0 of (present, st) \<Rightarrow>
      if s_Replicas svc < int (length present)
      then (case shrinkTo d W now svc present st of (removed, st1) \<Rightarrow> (Inr (0, removed), st1))
      else case reapFailed d W now svc present st of (present1, reaped, gaveUp, st1) \<Rightarrow>
      if gaveUp then (Inr (0, reaped), st1)
      else case (if int (length present1) = s_Replicas svc then retireStale d W svc present1 st1
                 else (present1, 0, st1)) of (present2, retired, st2) \<Rightarrow>
      if int (length present2) < s_Replicas svc
      then (case growTo d W draw now svc present2 st2 of
              (Inl e, st3) \<Rightarrow> (Inl e, st3)
            | (Inr created, st3) \<Rightarrow> (Inr (created, retired + reaped), st3))
      else (Inr (0, retired + reaped), settle now svc present2 st2))"

fun reconcile_each ::
    "'w svc_deps \<Rightarrow> 'w workloads_if \<Rightarrow> (string \<Rightarrow> int \<Rightarrow> string) \<Rightarrow> go_time \<Rightarrow> service list \<Rightarrow> int \<times> int \<Rightarrow>
     'w svc_state \<Rightarrow> (int \<times> int) \<times> 'w svc_state" where
  "reconcile_each d W draw now [] totals st = (totals, st)"
| "reconcile_each d W draw now (svc # rest) totals st =
     (case reconcileOne d W (draw (s_ID svc)) now svc st of
        (Inl _, st1) \<Rightarrow> reconcile_each d W draw now rest totals st1
      | (Inr (up, down), st1) \<Rightarrow>
          reconcile_each d W draw now rest (fst totals + up, snd totals + down) st1)"

definition svc_reconcile ::
    "'w svc_deps \<Rightarrow> (string \<Rightarrow> int \<Rightarrow> string) \<Rightarrow> go_time \<Rightarrow> 'w svc_state \<Rightarrow>
     (int \<times> int) result \<times> 'w svc_state" where
  "svc_reconcile d draw now st =
     (case workloads d of
        None \<Rightarrow> (Inr (0, 0), st)
      | Some W \<Rightarrow>
          (case withStates d (sv_world st) (repo_svc_all (sv_db st)) of
             Inl e \<Rightarrow> (Inl e, st)
           | Inr svcs \<Rightarrow>
               (case reconcile_each d W draw now svcs (0, 0) st of (totals, st1) \<Rightarrow> (Inr totals, st1))))"

section \<open>The members a service holds\<close>

definition held :: "'w svc_state \<Rightarrow> string \<Rightarrow> string list" where
  "held st sid = map (m_InstanceID \<circ> snd) (filter (\<lambda>r. fst r = sid) (service_members (sv_db st)))"

definition members_wf :: "svc_db \<Rightarrow> bool" where
  "members_wf db \<longleftrightarrow> distinct (map (\<lambda>r. (fst r, m_InstanceID (snd r))) (service_members db))"

lemma held_note [simp]: "held (svc_note d svc e st) sid = held st sid"
  by (simp add: svc_note_def held_def)

lemma held_world [simp]: "held (st\<lparr>sv_world := w\<rparr>) sid = held st sid"
  by (simp add: held_def)

lemma held_rows: "service_members (sv_db st) = service_members (sv_db st') \<Longrightarrow> held st = held st'"
  by (simp add: held_def fun_eq_iff)

lemma members_block [simp]: "service_members (sv_db (block d now svc r st)) = service_members (sv_db st)"
  by (simp add: block_def svc_note_def repo_svc_setBlocked_def Let_def)

lemma members_clear [simp]: "service_members (sv_db (clearBlocked now svc st)) = service_members (sv_db st)"
  by (simp add: clearBlocked_def repo_svc_setBlocked_def)

lemma members_note [simp]: "service_members (sv_db (svc_note d svc e st)) = service_members (sv_db st)"
  by (simp add: svc_note_def)

lemma members_settle [simp]: "service_members (sv_db (settle now svc present st)) = service_members (sv_db st)"
  by (simp add: settle_def repo_svc_setReaped_def Let_def)

lemma held_block [simp]: "held (block d now svc r st) sid = held st sid"
  by (simp add: held_def)

lemma held_clear [simp]: "held (clearBlocked now svc st) sid = held st sid"
  by (simp add: held_def)

lemma held_settle [simp]: "held (settle now svc present st) sid = held st sid"
  by (simp add: held_def)

lemma held_reaped [simp]: "held (st\<lparr>sv_db := repo_svc_setReaped (sv_db st) i n\<rparr>) sid = held st sid"
  by (simp add: held_def repo_svc_setReaped_def)

lemma held_forget [simp]: "held (forget_member svc m st) (s_ID svc) = filter (\<lambda>i. i \<noteq> m_InstanceID m) (held st (s_ID svc))"
proof -
  have "map (m_InstanceID \<circ> snd) (filter (\<lambda>r. fst r = sid) (filter (\<lambda>(s, m). \<not> (s = sid \<and> m_InstanceID m = i)) rows)) =
      filter (\<lambda>j. j \<noteq> i) (map (m_InstanceID \<circ> snd) (filter (\<lambda>r. fst r = sid) rows))" for sid i rows
    by (induction rows) auto
  then show ?thesis by (simp add: held_def forget_member_def repo_svc_removeMember_def)
qed

definition ids_of :: "svc_member list \<Rightarrow> string set" where
  "ids_of ms = m_InstanceID ` set ms"

lemma ids_of_simps [simp]: "ids_of [] = {}" "ids_of (m # ms) = insert (m_InstanceID m) (ids_of ms)"
  "ids_of (a @ b) = ids_of a \<union> ids_of b" "ids_of (rev a) = ids_of a"
  by (auto simp: ids_of_def)

text \<open>Each loop removes exactly the ids it went through.\<close>

lemma living_loop_held:
  "held (living_loop d svc ms st) (s_ID svc) =
     filter (\<lambda>i. i \<notin> ids_of (filter (\<lambda>m. m_State m = []) ms)) (held st (s_ID svc))"
  by (induction d svc ms st rule: living_loop.induct) (auto intro: filter_cong)

lemma living_loop_world: "sv_world (living_loop d svc ms st) = sv_world st"
  by (induction d svc ms st rule: living_loop.induct) (auto simp: svc_note_def forget_member_def)

lemma reap_loop_held:
  assumes "reap_loop d W svc ms 0 st = (n, st')"
  shows "\<exists>k. n = int k \<and> k \<le> 1 \<and> k \<le> length ms \<and>
    held st' (s_ID svc) = filter (\<lambda>i. i \<notin> ids_of (take k ms)) (held st (s_ID svc))"
proof (cases ms)
  case Nil
  with assms show ?thesis by (intro exI [of _ 0]) simp
next
  case (Cons m rest)
  show ?thesis
  proof (cases "wl_Delete W (sv_world st) (s_ProjectID svc) (m_InstanceID m)")
    case (Pair r w)
    show ?thesis
    proof (cases r)
      case (Inl e)
      with assms Cons Pair show ?thesis by (intro exI [of _ 0]) auto
    next
      case (Inr u)
      with assms Cons Pair show ?thesis by (intro exI [of _ 1]) (cases rest; auto)
    qed
  qed
qed

lemma retire_loop_held:
  assumes "retire_loop d W svc ms 0 st = (n, st')"
  shows "\<exists>k. n = int k \<and> k \<le> 1 \<and> k \<le> length ms \<and>
    (\<forall>m\<in>set (take k ms). m_Revision m \<noteq> s_Revision svc) \<and>
    held st' (s_ID svc) = filter (\<lambda>i. i \<notin> ids_of (take k ms)) (held st (s_ID svc))"
proof (cases ms)
  case Nil
  with assms show ?thesis by (intro exI [of _ 0]) simp
next
  case (Cons m rest)
  show ?thesis
  proof (cases "m_Revision m = s_Revision svc")
    case True
    with assms Cons show ?thesis by (intro exI [of _ 0]) auto
  next
    case False
    show ?thesis
    proof (cases "wl_Delete W (sv_world st) (s_ProjectID svc) (m_InstanceID m)")
      case (Pair r w)
      show ?thesis
      proof (cases r)
        case (Inl e)
        with assms Cons Pair False show ?thesis by (intro exI [of _ 0]) auto
      next
        case (Inr u)
        with assms Cons Pair False show ?thesis by (intro exI [of _ 1]) (cases rest; auto)
      qed
    qed
  qed
qed

lemma shrink_loop_held:
  assumes "shrink_loop d W svc had ms n st = (n', st')"
  shows "\<exists>gone. set gone \<subseteq> set ms \<and> n' = n + int (length gone) \<and> length gone \<le> length ms \<and>
    (distinct (map m_InstanceID ms) \<longrightarrow> distinct (map m_InstanceID gone)) \<and>
    held st' (s_ID svc) = filter (\<lambda>i. i \<notin> ids_of gone) (held st (s_ID svc))"
  using assms
proof (induction ms arbitrary: n st)
  case Nil
  then show ?case by (intro exI [of _ "[]"]) simp
next
  case (Cons m ms)
  obtain r w where del: "wl_Delete W (sv_world st) (s_ProjectID svc) (m_InstanceID m) = (r, w)" by fastforce
  show ?case
  proof (cases r)
    case (Inl e)
    with Cons.prems del have "shrink_loop d W svc had ms n (st\<lparr>sv_world := w\<rparr>) = (n', st')" by simp
    from Cons.IH [OF this] obtain gone where "set gone \<subseteq> set ms" "n' = n + int (length gone)" "length gone \<le> length ms"
      "distinct (map m_InstanceID ms) \<longrightarrow> distinct (map m_InstanceID gone)"
      "held st' (s_ID svc) = filter (\<lambda>i. i \<notin> ids_of gone) (held st (s_ID svc))" by auto
    then show ?thesis by (intro exI [of _ gone]) auto
  next
    case (Inr u)
    let ?st = "svc_note d svc (svc_entry ''service.replica_removed'' (m_InstanceID m)
               (s_Name svc @ '' shrank to '' @ itoa (had - (n + 1)) @ '' of '' @
                itoa (s_Replicas svc)) Info) (forget_member svc m (st\<lparr>sv_world := w\<rparr>))"
    from Inr Cons.prems del have "shrink_loop d W svc had ms (n + 1) ?st = (n', st')" by simp
    from Cons.IH [OF this] obtain gone where g: "set gone \<subseteq> set ms" "n' = n + 1 + int (length gone)" "length gone \<le> length ms"
      "distinct (map m_InstanceID ms) \<longrightarrow> distinct (map m_InstanceID gone)"
      "held st' (s_ID svc) = filter (\<lambda>i. i \<notin> ids_of gone) (held ?st (s_ID svc))" by blast
    then have "held st' (s_ID svc) = filter (\<lambda>i. i \<notin> ids_of (m # gone)) (held st (s_ID svc))"
      by (auto intro: filter_cong)
    with g show ?thesis by (intro exI [of _ "m # gone"]) auto
  qed
qed

text \<open>The creation loop only adds ids.\<close>

lemma grow_loop_held:
  assumes "grow_loop d W draw now svc had env files n created st = (r, st')"
  shows "\<exists>new. held st' (s_ID svc) = held st (s_ID svc) @ new \<and> length new \<le> n \<and>
    (\<forall>c b. r = Inr (c, b) \<longrightarrow> c = created + int (length new))"
  using assms
proof (induction n arbitrary: created st)
  case 0
  then show ?case by auto
next
  case (Suc n)
  obtain cr w where cre: "wl_Create W (sv_world st)
      \<lparr>wk_ProjectID = s_ProjectID svc, wk_Name = replicaName (s_Name svc) (draw created),
       wk_Template = s_Template svc, wk_Env = env, wk_Files = files\<rparr> = (cr, w)" by fastforce
  show ?case
  proof (cases cr)
    case (Inl e)
    with Suc.prems cre show ?thesis by (intro exI [of _ "[]"]) auto
  next
    case (Inr iid)
    show ?thesis
    proof (cases "list_ex (\<lambda>(s, m). s = s_ID svc \<and> m_InstanceID m = iid) (service_members (sv_db st))")
      case True
      with Inr Suc.prems cre show ?thesis
        by (intro exI [of _ "[]"]) (auto simp: repo_svc_addMember_def held_def)
    next
      case False
      let ?db = "(sv_db st)\<lparr>service_members := service_members (sv_db st) @
        [(s_ID svc, \<lparr>m_InstanceID = iid, m_Revision = s_Revision svc, m_State = [], m_CreatedAt = now\<rparr>)]\<rparr>"
      let ?st = "svc_note d svc (svc_entry ''service.replica_added'' iid
         (s_Name svc @ '' grew to '' @ itoa (had + (created + 1)) @ '' of '' @ itoa (s_Replicas svc)) Info)
         (st\<lparr>sv_db := ?db, sv_world := w\<rparr>)"
      from False Inr Suc.prems cre have "grow_loop d W draw now svc had env files n (created + 1) ?st = (r, st')"
        by (simp add: repo_svc_addMember_def)
      from Suc.IH [OF this] obtain new where "held st' (s_ID svc) = held ?st (s_ID svc) @ new" "length new \<le> n"
        "\<forall>c b. r = Inr (c, b) \<longrightarrow> c = created + 1 + int (length new)" by blast
      moreover have "held ?st (s_ID svc) = held st (s_ID svc) @ [iid]" by (simp add: held_def svc_note_def)
      ultimately show ?thesis by (intro exI [of _ "iid # new"]) auto
    qed
  qed
qed

lemma growTo_held:
  assumes "growTo d W draw now svc present st = (r, st')" "int (length present) < s_Replicas svc"
  shows "\<exists>new. held st' (s_ID svc) = held st (s_ID svc) @ new \<and>
    int (length new) \<le> min (s_Replicas svc - int (length present)) MaxCreatePerPass \<and>
    (\<forall>c. r = Inr c \<longrightarrow> c = int (length new))"
proof -
  let ?t = "s_Template svc"
  consider (stuck) "held st' (s_ID svc) = held st (s_ID svc)" "r = Inr 0"
    | (ran) env files g st1 where
      "grow_loop d W draw now svc (int (length present)) env files
         (nat (min (s_Replicas svc - int (length present)) MaxCreatePerPass)) 0 st = (g, st1)"
      "held st' (s_ID svc) = held st1 (s_ID svc)" "\<forall>c. r = Inr c \<longrightarrow> (\<exists>b. g = Inr (c, b))"
    using assms(1) by (auto simp: growTo_def Let_def split: sum.splits prod.splits)
  then show ?thesis
  proof cases
    case stuck
    then show ?thesis using assms(2) by (intro exI [of _ "[]"]) auto
  next
    case ran
    from grow_loop_held [OF ran(1)] obtain new where "held st1 (s_ID svc) = held st (s_ID svc) @ new"
      "length new \<le> nat (min (s_Replicas svc - int (length present)) MaxCreatePerPass)"
      "\<forall>c b. g = Inr (c, b) \<longrightarrow> c = int (length new)" by auto
    with ran assms(2) show ?thesis by (intro exI [of _ new]) auto
  qed
qed

lemma partition_perm: "mset (partition present n b) = mset present"
proof -
  have "mset (filter P present) + mset (filter (\<lambda>x. \<not> P x) present) = mset present" for P
    by (simp add: multiset_partition [symmetric])
  then show ?thesis by (auto simp: partition_def Let_def add.commute)
qed

lemma set_partition: "set (partition present n b) = set present"
  using partition_perm by (metis set_mset_mset)

lemma length_partition: "length (partition present n b) = length present"
  using partition_perm by (metis size_mset)

lemma length_kept_failed:
  "length (filter P xs) + length (filter (\<lambda>x. \<not> P x) xs) = length xs"
  by (rule sum_length_filter_compl)

lemma reapFailed_spec:
  assumes "reapFailed d W now svc present st = (present', reaped, gaveUp, st')"
  shows "\<exists>gone. length gone \<le> 1 \<and> reaped = int (length gone) \<and> set gone \<subseteq> set present \<and>
    (\<forall>m\<in>set gone. m_State m = StateFailed) \<and> set present' \<subseteq> set present \<and>
    length present' + length gone = length present \<and>
    held st' (s_ID svc) = filter (\<lambda>i. i \<notin> ids_of gone) (held st (s_ID svc))"
proof -
  let ?failed = "filter (\<lambda>m. m_State m = StateFailed) present"
  let ?kept = "filter (\<lambda>m. m_State m \<noteq> StateFailed) present"
  obtain n st1 where loop: "reap_loop d W svc ?failed 0 st = (n, st1)" by fastforce
  from reap_loop_held [OF loop] obtain k where k: "n = int k" "k \<le> 1" "k \<le> length ?failed"
    "held st1 (s_ID svc) = filter (\<lambda>i. i \<notin> ids_of (take k ?failed)) (held st (s_ID svc))" by blast
  show ?thesis
  proof (cases "?failed = [] \<or> MaxReapAttempts \<le> s_Reaped svc \<or> k = 0")
    case True
    with assms loop k show ?thesis
      by (intro exI [of _ "[]"]) (auto simp: reapFailed_def Let_def split: if_splits)
  next
    case False
    with assms loop k(1) have out: "present' = ?kept @ drop k ?failed" "reaped = int k"
      "st' = st1\<lparr>sv_db := repo_svc_setReaped (sv_db st1) (s_ID svc) (s_Reaped svc + int k)\<rparr>"
      by (auto simp: reapFailed_def Let_def split: if_splits)
    have sub: "set (take k ?failed) \<subseteq> {m \<in> set present. m_State m = StateFailed}"
      "set (drop k ?failed) \<subseteq> set present"
      by (auto dest: in_set_takeD in_set_dropD)
    moreover have "length present' + length (take k ?failed) = length present"
      using length_kept_failed [of "\<lambda>m. m_State m = StateFailed" present] k(3) out(1) by simp
    ultimately show ?thesis
      using k out by (intro exI [of _ "take k ?failed"]) auto
  qed
qed

lemma retireStale_spec:
  assumes "retireStale d W svc present st = (present', retired, st')"
  shows "\<exists>gone. length gone \<le> 1 \<and> retired = int (length gone) \<and> set gone \<subseteq> set present \<and>
    (\<forall>m\<in>set gone. m_Revision m \<noteq> s_Revision svc) \<and>
    length present' + length gone = length present \<and>
    held st' (s_ID svc) = filter (\<lambda>i. i \<notin> ids_of gone) (held st (s_ID svc))"
proof -
  let ?ord = "partition present (s_Revision svc) True"
  obtain n st1 where loop: "retire_loop d W svc ?ord 0 st = (n, st1)" by fastforce
  from retire_loop_held [OF loop] obtain k where k: "n = int k" "k \<le> 1" "k \<le> length ?ord"
    "\<forall>m\<in>set (take k ?ord). m_Revision m \<noteq> s_Revision svc"
    "held st1 (s_ID svc) = filter (\<lambda>i. i \<notin> ids_of (take k ?ord)) (held st (s_ID svc))" by blast
  from assms loop k(1) have out: "present' = (if k = 0 then present else drop k ?ord)" "retired = int k" "st' = st1"
    by (auto simp: retireStale_def Let_def split: if_splits)
  have "set (take k ?ord) \<subseteq> set present" by (metis set_partition set_take_subset)
  then show ?thesis
    using k out length_partition [of present "s_Revision svc" True]
    by (intro exI [of _ "take k ?ord"]) auto
qed

text \<open>A pass that is not scaling down.\<close>

definition lost :: "service \<Rightarrow> string set" where
  "lost svc = ids_of (filter (\<lambda>m. m_State m = []) (s_Members svc))"

definition alive :: "service \<Rightarrow> svc_member list" where
  "alive svc = filter (\<lambda>m. m_State m \<noteq> []) (s_Members svc)"

lemma held_living: "held (snd (livingMembers d svc st)) (s_ID svc) = filter (\<lambda>i. i \<notin> lost svc) (held st (s_ID svc))"
  by (simp add: livingMembers_def living_loop_held lost_def)

lemma fst_living: "fst (livingMembers d svc st) = alive svc"
  by (simp add: livingMembers_def alive_def)

lemma reconcile_calm:
  assumes call: "reconcileOne d W draw now svc st = (r, st')"
    and calm: "int (length (alive svc)) \<le> s_Replicas svc"
  shows "\<exists>gone new. length gone \<le> 1 \<and> set gone \<subseteq> set (alive svc) \<and>
    (\<forall>m\<in>set gone. m_State m = StateFailed \<or> m_Revision m \<noteq> s_Revision svc) \<and>
    held st' (s_ID svc) = filter (\<lambda>i. i \<notin> lost svc \<union> ids_of gone) (held st (s_ID svc)) @ new \<and>
    int (length new) \<le> MaxCreatePerPass \<and>
    int (length (alive svc)) - int (length gone) + int (length new) \<le> s_Replicas svc \<and>
    (\<forall>up down. r = Inr (up, down) \<longrightarrow> up = int (length new) \<and> down = int (length gone))"
proof -
  obtain st0 where st0: "livingMembers d svc st = (alive svc, st0)" by (metis fst_living prod.collapse)
  obtain p1 reaped gave st1 where re: "reapFailed d W now svc (alive svc) st0 = (p1, reaped, gave, st1)"
    by (metis prod_cases4)
  from reapFailed_spec [OF re] obtain g1 where g1: "length g1 \<le> 1" "reaped = int (length g1)"
    "set g1 \<subseteq> set (alive svc)" "\<forall>m\<in>set g1. m_State m = StateFailed" "set p1 \<subseteq> set (alive svc)"
    "length p1 + length g1 = length (alive svc)"
    "held st1 (s_ID svc) = filter (\<lambda>i. i \<notin> ids_of g1) (held st0 (s_ID svc))" by blast
  have h0: "held st0 (s_ID svc) = filter (\<lambda>i. i \<notin> lost svc) (held st (s_ID svc))"
    using held_living [of d svc st] st0 by simp
  have h1: "held st1 (s_ID svc) = filter (\<lambda>i. i \<notin> lost svc \<union> ids_of g1) (held st (s_ID svc))"
    unfolding g1(7) h0 by (auto intro: filter_cong)
  show ?thesis
  proof (cases gave)
    case True
    with call st0 re calm g1(2) have "st' = st1" "r = Inr (0, int (length g1))" by (simp_all add: reconcileOne_def)
    with g1 h1 calm show ?thesis by (intro exI [of _ g1] exI [of _ "[]"]) auto
  next
    case False
    obtain p2 retired st2 where mid: "(if int (length p1) = s_Replicas svc then retireStale d W svc p1 st1
        else (p1, 0, st1)) = (p2, retired, st2)" by (metis prod_cases3)
    have "\<exists>g. length g \<le> 1 \<and> reaped + retired = int (length g) \<and> set g \<subseteq> set (alive svc) \<and>
      (\<forall>m\<in>set g. m_State m = StateFailed \<or> m_Revision m \<noteq> s_Revision svc) \<and>
      length p2 + length g = length (alive svc) \<and>
      held st2 (s_ID svc) = filter (\<lambda>i. i \<notin> lost svc \<union> ids_of g) (held st (s_ID svc))"
    proof (cases "int (length p1) = s_Replicas svc")
      case True
      with calm g1(6) have nil: "g1 = []" by (cases g1) auto
      from True mid have "retireStale d W svc p1 st1 = (p2, retired, st2)" by simp
      from retireStale_spec [OF this] obtain g2 where g2: "length g2 \<le> 1" "retired = int (length g2)"
        "set g2 \<subseteq> set p1" "\<forall>m\<in>set g2. m_Revision m \<noteq> s_Revision svc" "length p2 + length g2 = length p1"
        "held st2 (s_ID svc) = filter (\<lambda>i. i \<notin> ids_of g2) (held st1 (s_ID svc))" by blast
      have "held st2 (s_ID svc) = filter (\<lambda>i. i \<notin> lost svc \<union> ids_of g2) (held st (s_ID svc))"
        unfolding g2(6) h1 nil by (auto intro: filter_cong)
      with g1 g2 nil show ?thesis by (intro exI [of _ g2]) auto
    next
      case False
      with mid g1 h1 show ?thesis by (intro exI [of _ g1]) auto
    qed
    then obtain g where g: "length g \<le> 1" "reaped + retired = int (length g)" "set g \<subseteq> set (alive svc)"
      "\<forall>m\<in>set g. m_State m = StateFailed \<or> m_Revision m \<noteq> s_Revision svc"
      "length p2 + length g = length (alive svc)"
      "held st2 (s_ID svc) = filter (\<lambda>i. i \<notin> lost svc \<union> ids_of g) (held st (s_ID svc))" by blast
    have body: "reconcileOne d W draw now svc st =
      (if int (length p2) < s_Replicas svc
       then (case growTo d W draw now svc p2 st2 of
               (Inl e, st3) \<Rightarrow> (Inl e, st3)
             | (Inr created, st3) \<Rightarrow> (Inr (created, retired + reaped), st3))
       else (Inr (0, retired + reaped), settle now svc p2 st2))"
      using st0 re calm False mid by (simp add: reconcileOne_def)
    show ?thesis
    proof (cases "int (length p2) < s_Replicas svc")
      case True
      obtain gr st3 where grow: "growTo d W draw now svc p2 st2 = (gr, st3)" by fastforce
      from growTo_held [OF grow True] obtain new where new:
        "held st3 (s_ID svc) = held st2 (s_ID svc) @ new"
        "int (length new) \<le> min (s_Replicas svc - int (length p2)) MaxCreatePerPass"
        "\<forall>c. gr = Inr c \<longrightarrow> c = int (length new)" by blast
      have "st' = st3" "\<forall>up down. r = Inr (up, down) \<longrightarrow> gr = Inr up \<and> down = retired + reaped"
        using call body True grow by (auto split: sum.splits)
      with g new show ?thesis by (intro exI [of _ g] exI [of _ new]) auto
    next
      case False
      with call body have "st' = settle now svc p2 st2" "r = Inr (0, retired + reaped)" by simp_all
      with g calm show ?thesis by (intro exI [of _ g] exI [of _ "[]"]) auto
    qed
  qed
qed

section \<open>What a pass guarantees\<close>

text \<open>
  C7: a pass that is not scaling a service down takes at most one living replica
  away, and only one that has failed or is on an older revision. Every other id
  that leaves the service belonged to an instance that no longer exists.
\<close>

theorem reconcile_keeps_healthy_replicas:
  assumes "reconcileOne d W draw now svc st = (r, st')"
    and "int (length (alive svc)) \<le> s_Replicas svc"
  shows "\<exists>gone. length gone \<le> 1 \<and> set gone \<subseteq> set (alive svc) \<and>
    (\<forall>m\<in>set gone. m_State m = StateFailed \<or> m_Revision m \<noteq> s_Revision svc) \<and>
    (\<forall>i\<in>set (held st (s_ID svc)). i \<notin> set (held st' (s_ID svc)) \<longrightarrow> i \<in> lost svc \<or> i \<in> ids_of gone)"
  using reconcile_calm [OF assms] by (elim exE conjE) (rule exI, auto)

text \<open>Counting ids: the members a pass works on are the rows of the service.\<close>

definition loaded :: "service \<Rightarrow> 'w svc_state \<Rightarrow> bool" where
  "loaded svc st \<longleftrightarrow>
     mset (map m_InstanceID (s_Members svc)) = mset (held st (s_ID svc)) \<and> distinct (held st (s_ID svc))"

lemma loaded_distinct: "loaded svc st \<Longrightarrow> distinct (map m_InstanceID (s_Members svc))"
  by (metis loaded_def mset_eq_imp_distinct_iff)

lemma left_over:
  assumes ld: "loaded svc st" and gone: "set gone \<subseteq> set (alive svc)" "distinct (map m_InstanceID gone)"
  shows "length (filter (\<lambda>i. i \<notin> lost svc \<union> ids_of gone) (held st (s_ID svc))) + length gone = length (alive svc)"
proof -
  let ?P = "\<lambda>i. i \<notin> lost svc \<union> ids_of gone" and ?ids = "map m_InstanceID (s_Members svc)"
  have dist: "distinct ?ids" by (rule loaded_distinct [OF ld])
  have set_eq: "set ?ids = set (held st (s_ID svc))" using ld by (metis loaded_def mset_eq_setD)
  have dg: "distinct (held st (s_ID svc))" using ld by (simp add: loaded_def)
  have "length (filter ?P (held st (s_ID svc))) = card {i \<in> set ?ids. ?P i}"
    using dg set_eq by (metis distinct_card distinct_filter set_filter)
  also have "{i \<in> set ?ids. ?P i} = ids_of (alive svc) - ids_of gone"
    using distinct_map_eq [OF dist] by (auto simp: lost_def alive_def ids_of_def)
  also have "card \<dots> = card (ids_of (alive svc)) - card (ids_of gone)"
    using gone(1) by (intro card_Diff_subset) (auto simp: ids_of_def)
  also have "card (ids_of (alive svc)) = length (alive svc)"
    using distinct_map_filter [OF dist] by (metis alive_def distinct_card ids_of_def length_map list.set_map)
  also have "card (ids_of gone) = length gone"
    using gone(2) by (metis distinct_card ids_of_def length_map list.set_map)
  finally have "length (filter ?P (held st (s_ID svc))) = length (alive svc) - length gone" .
  moreover have "length gone \<le> length (alive svc)"
    using gone by (metis card_length card_mono distinct_card distinct_map le_trans List.finite_set)
  ultimately show ?thesis by simp
qed

lemma distinct_short: "length xs \<le> 1 \<Longrightarrow> distinct (map f xs)"
  by (cases xs) auto

lemma shrink_ids:
  assumes call: "shrinkTo d W now svc (alive svc) st = (removed, st')" and ld: "loaded svc st0"
  shows "\<exists>gone. set gone \<subseteq> set (alive svc) \<and> distinct (map m_InstanceID gone) \<and> removed = int (length gone) \<and>
    length gone \<le> length (alive svc) - nat (s_Replicas svc) \<and>
    held st' (s_ID svc) = filter (\<lambda>i. i \<notin> ids_of gone) (held st (s_ID svc))"
proof -
  let ?ord = "partition (alive svc) (s_Revision svc) False"
  let ?tail = "rev (drop (nat (s_Replicas svc)) ?ord)"
  obtain n st1 where loop: "shrink_loop d W svc (int (length (alive svc))) ?tail 0 st = (n, st1)" by fastforce
  with call have out: "removed = n" "st' = clearBlocked now svc st1" by (simp_all add: shrinkTo_def Let_def)
  have "mset (map m_InstanceID ?ord) = mset (map m_InstanceID (alive svc))" by (simp add: partition_perm)
  moreover have "distinct (map m_InstanceID (alive svc))"
    using distinct_map_filter [OF loaded_distinct [OF ld]] by (simp add: alive_def)
  ultimately have "distinct (map m_InstanceID ?ord)" by (metis mset_eq_imp_distinct_iff)
  then have dt: "distinct (map m_InstanceID ?tail)" by (metis distinct_drop distinct_rev drop_map rev_map)
  have sub: "set ?tail \<subseteq> set (alive svc)" by (metis set_drop_subset set_partition set_rev)
  from shrink_loop_held [OF loop] obtain gone where "set gone \<subseteq> set ?tail" "n = int (length gone)"
    "length gone \<le> length ?tail" "distinct (map m_InstanceID ?tail) \<longrightarrow> distinct (map m_InstanceID gone)"
    "held st1 (s_ID svc) = filter (\<lambda>i. i \<notin> ids_of gone) (held st (s_ID svc))" by (elim exE conjE) simp
  with dt sub have "set gone \<subseteq> set (alive svc)" "n = int (length gone)" "length gone \<le> length ?tail"
    "distinct (map m_InstanceID gone)"
    "held st1 (s_ID svc) = filter (\<lambda>i. i \<notin> ids_of gone) (held st (s_ID svc))" by blast+
  with out length_partition [of "alive svc" "s_Revision svc" False] show ?thesis by (intro exI [of _ gone]) auto
qed

text \<open>
  C26: the numbers a pass reports account for the replicas: afterwards the service
  holds the living replicas it started with, plus those created, minus those
  removed, and never more than the larger of what it wants and what was alive; a pass creates at most
  four and, unless it is scaling down, removes at most one. When it is scaling
  down it creates none and never goes below the number wanted.
\<close>

theorem reconcile_accounts:
  assumes ld: "loaded svc st" and call: "reconcileOne d W draw now svc st = (Inr (up, down), st')"
    and nonneg: "0 \<le> s_Replicas svc"
  shows "int (length (held st' (s_ID svc))) = int (length (alive svc)) + up - down \<and>
    int (length (held st' (s_ID svc))) \<le> max (s_Replicas svc) (int (length (alive svc))) \<and>
    0 \<le> up \<and> up \<le> MaxCreatePerPass \<and> 0 \<le> down \<and>
    (if s_Replicas svc < int (length (alive svc))
     then up = 0 \<and> s_Replicas svc \<le> int (length (held st' (s_ID svc))) else down \<le> 1)"
proof (cases "s_Replicas svc < int (length (alive svc))")
  case False
  then have calm: "int (length (alive svc)) \<le> s_Replicas svc" by simp
  from reconcile_calm [OF call calm] obtain gone new where g: "length gone \<le> 1" "set gone \<subseteq> set (alive svc)"
    "held st' (s_ID svc) = filter (\<lambda>i. i \<notin> lost svc \<union> ids_of gone) (held st (s_ID svc)) @ new"
    "int (length new) \<le> MaxCreatePerPass"
    "int (length (alive svc)) - int (length gone) + int (length new) \<le> s_Replicas svc"
    "up = int (length new)" "down = int (length gone)" by blast
  from left_over [OF ld g(2) distinct_short [OF g(1)]] g False show ?thesis by auto
next
  case True
  obtain st0 where st0: "livingMembers d svc st = (alive svc, st0)" by (metis fst_living prod.collapse)
  obtain n st1 where sh: "shrinkTo d W now svc (alive svc) st0 = (n, st1)" by fastforce
  with call st0 True have out: "up = 0" "down = n" "st' = st1" by (simp_all add: reconcileOne_def)
  have h0: "held st0 (s_ID svc) = filter (\<lambda>i. i \<notin> lost svc) (held st (s_ID svc))"
    using held_living [of d svc st] st0 by simp
  from shrink_ids [OF sh ld] obtain gone where g: "set gone \<subseteq> set (alive svc)" "distinct (map m_InstanceID gone)"
    "n = int (length gone)" "length gone \<le> length (alive svc) - nat (s_Replicas svc)"
    "held st1 (s_ID svc) = filter (\<lambda>i. i \<notin> ids_of gone) (held st0 (s_ID svc))" by blast
  have "held st' (s_ID svc) = filter (\<lambda>i. i \<notin> lost svc \<union> ids_of gone) (held st (s_ID svc))"
    unfolding out g(5) h0 by (auto intro: filter_cong)
  with left_over [OF ld g(1,2)] g out True nonneg show ?thesis by auto
qed

section \<open>Progress\<close>

lemma note_world [simp]: "sv_world (svc_note d svc e st) = sv_world st"
  by (simp add: svc_note_def)

lemma forget_world [simp]: "sv_world (forget_member svc m st) = sv_world st"
  by (simp add: forget_member_def)

lemma clear_keeps_world [simp]: "sv_world (clearBlocked now svc st) = sv_world st"
  by (simp add: clearBlocked_def)

lemma settle_keeps_world [simp]: "sv_world (settle now svc present st) = sv_world st"
  by (simp add: settle_def Let_def)

text \<open>
  What a pass asks of its workloads: the requests for new replicas, and the ids and the
  world they give when all of them succeed, one after the other.
\<close>

definition replica_request ::
    "service \<Rightarrow> (string \<times> string) list \<Rightarrow> instance_file list \<Rightarrow> string \<Rightarrow> workload" where
  "replica_request svc env files suffix =
     \<lparr>wk_ProjectID = s_ProjectID svc, wk_Name = replicaName (s_Name svc) suffix, wk_Template = s_Template svc,
      wk_Env = env, wk_Files = files\<rparr>"

fun creates_all :: "'w workloads_if \<Rightarrow> 'w \<Rightarrow> workload list \<Rightarrow> (string list \<times> 'w) option" where
  "creates_all W w [] = Some ([], w)"
| "creates_all W w (x # xs) =
     (case wl_Create W w x of
        (Inl _, _) \<Rightarrow> None
      | (Inr i, w1) \<Rightarrow> map_option (\<lambda>(ids, w2). (i # ids, w2)) (creates_all W w1 xs))"

definition new_member :: "service \<Rightarrow> go_time \<Rightarrow> string \<Rightarrow> string \<times> svc_member" where
  "new_member svc now i = (s_ID svc, \<lparr>m_InstanceID = i, m_Revision = s_Revision svc, m_State = [], m_CreatedAt = now\<rparr>)"

lemma creates_all_length: "creates_all W w xs = Some (ids, w') \<Longrightarrow> length ids = length xs"
  by (induction xs arbitrary: w ids) (auto split: prod.splits sum.splits)

lemma grow_loop_exact:
  assumes "creates_all W (sv_world st) (map (\<lambda>k. replica_request svc env files (draw (created + int k))) [0..<n]) = Some (ids, w)"
    and "distinct ids" "set ids \<inter> set (held st (s_ID svc)) = {}"
  shows "\<exists>st'. grow_loop d W draw now svc had env files n created st = (Inr (created + int n, True), st') \<and>
    sv_world st' = w \<and> service_members (sv_db st') = service_members (sv_db st) @ map (new_member svc now) ids"
  using assms
proof (induction n arbitrary: created st ids)
  case (Suc n)
  have reqs: "map (\<lambda>k. replica_request svc env files (draw (created + int k))) [0..<Suc n] =
      replica_request svc env files (draw created) #
      map (\<lambda>k. replica_request svc env files (draw (created + 1 + int k))) [0..<n]"
    by (simp add: upt_conv_Cons map_Suc_upt [symmetric] del: upt_Suc) (simp add: add.assoc)
  from Suc.prems(1) obtain i rs w1 where cre: "wl_Create W (sv_world st) (replica_request svc env files (draw created)) = (Inr i, w1)"
    and rest: "creates_all W w1 (map (\<lambda>k. replica_request svc env files (draw (created + 1 + int k))) [0..<n]) = Some (rs, w)"
    and ids: "ids = i # rs"
    unfolding reqs by (auto split: prod.splits sum.splits)
  have new: "\<not> list_ex (\<lambda>(s, m). s = s_ID svc \<and> m_InstanceID m = i) (service_members (sv_db st))"
    using Suc.prems(3) ids by (force simp: list_ex_iff held_def)
  let ?st = "svc_note d svc (svc_entry ''service.replica_added'' i
     (s_Name svc @ '' grew to '' @ itoa (had + (created + 1)) @ '' of '' @ itoa (s_Replicas svc)) Info)
     (st\<lparr>sv_db := (sv_db st)\<lparr>service_members := service_members (sv_db st) @ [new_member svc now i]\<rparr>, sv_world := w1\<rparr>)"
  have run: "grow_loop d W draw now svc had env files (Suc n) created st =
      grow_loop d W draw now svc had env files n (created + 1) ?st"
    using cre new by (simp add: repo_svc_addMember_def replica_request_def new_member_def)
  have h: "held ?st (s_ID svc) = held st (s_ID svc) @ [i]" by (simp add: held_def svc_note_def new_member_def)
  have "distinct rs" "set rs \<inter> set (held ?st (s_ID svc)) = {}" using Suc.prems(2,3) unfolding h ids by auto
  with Suc.IH [of ?st "created + 1" rs] rest run ids show ?case by (simp add: add.assoc)
qed simp

lemma held_new_members:
  assumes "service_members (sv_db st') = service_members (sv_db st) @ map (new_member svc now) ids"
  shows "held st' (s_ID svc) = held st (s_ID svc) @ ids"
  using assms by (simp add: held_def new_member_def filter_map comp_def)

lemma growTo_exact:
  assumes env: "openEnv d (t_EnvSealed (s_Template svc)) (t_EnvKeyID (s_Template svc)) = Inr env"
    and files: "openFiles d (t_FilesSealed (s_Template svc)) (t_EnvKeyID (s_Template svc)) = Inr files"
    and n: "n = nat (min (s_Replicas svc - int (length present)) MaxCreatePerPass)" "int (length present) \<le> s_Replicas svc"
    and cre: "creates_all W (sv_world st) (map (\<lambda>k. replica_request svc env files (draw (int k))) [0..<n]) = Some (ids, w)"
    and new: "distinct ids" "set ids \<inter> set (held st (s_ID svc)) = {}"
  shows "\<exists>st'. growTo d W draw now svc present st = (Inr (int n), st') \<and> sv_world st' = w \<and>
    service_members (sv_db st') = service_members (sv_db st) @ map (new_member svc now) ids"
proof -
  have "creates_all W (sv_world st) (map (\<lambda>k. replica_request svc env files (draw (0 + int k))) [0..<n]) = Some (ids, w)"
    using cre by simp
  from grow_loop_exact [OF this new, of d now "int (length present)"] obtain st1 where
    st1: "grow_loop d W draw now svc (int (length present)) env files n 0 st = (Inr (int n, True), st1)"
      "sv_world st1 = w" "service_members (sv_db st1) = service_members (sv_db st) @ map (new_member svc now) ids"
    unfolding add_0 by blast
  then have "growTo d W draw now svc present st = (Inr (int n), clearBlocked now svc st1)"
    using env files n by (simp add: growTo_def Let_def)
  with st1 show ?thesis by simp
qed

text \<open>The replica a pass replaces: with the right number alive, the first one on an older revision.\<close>

definition next_stale :: "service \<Rightarrow> svc_member list" where
  "next_stale svc =
     (if int (length (alive svc)) = s_Replicas svc
      then take 1 (filter (\<lambda>m. m_Revision m \<noteq> s_Revision svc) (alive svc)) else [])"

lemma retire_exact:
  assumes eq: "int (length (alive svc)) = s_Replicas svc"
    and del: "case next_stale svc of [] \<Rightarrow> w = sv_world st
      | m # _ \<Rightarrow> wl_Delete W (sv_world st) (s_ProjectID svc) (m_InstanceID m) = (Inr (), w)"
  shows "\<exists>present st'. retireStale d W svc (alive svc) st = (present, int (length (next_stale svc)), st') \<and>
    int (length present) = s_Replicas svc - int (length (next_stale svc)) \<and> sv_world st' = w \<and>
    held st' (s_ID svc) = filter (\<lambda>i. i \<notin> ids_of (next_stale svc)) (held st (s_ID svc))"
proof (cases "filter (\<lambda>m. m_Revision m \<noteq> s_Revision svc) (alive svc)")
  case Nil
  then have none: "next_stale svc = []" by (simp add: next_stale_def)
  have "partition (alive svc) (s_Revision svc) True = alive svc" using Nil by (simp add: partition_def)
  moreover have "retire_loop d W svc (alive svc) 0 st = (0, st)"
    using Nil by (cases "alive svc") (auto split: if_splits)
  ultimately show ?thesis using none eq del by (simp add: retireStale_def Let_def)
next
  case (Cons m ms)
  then have m: "next_stale svc = [m]" using eq by (simp add: next_stale_def)
  have "m \<in> set (filter (\<lambda>m. m_Revision m \<noteq> s_Revision svc) (alive svc))" by (simp add: Cons)
  then have mrev: "m_Revision m \<noteq> s_Revision svc" by simp
  obtain rest where ord: "partition (alive svc) (s_Revision svc) True = m # rest"
    using Cons by (simp add: partition_def Let_def)
  define st1 where "st1 = svc_note d svc (svc_entry ''service.replica_retired'' (m_InstanceID m)
    (s_Name svc @ '' retired a replica on revision '' @ itoa (m_Revision m) @
     '' to make room for revision '' @ itoa (s_Revision svc)) Info) (forget_member svc m (st\<lparr>sv_world := w\<rparr>))"
  have "retire_loop d W svc (m # rest) 0 st = (1, st1)"
    using mrev del m by (cases rest) (simp_all add: st1_def)
  then have "retireStale d W svc (alive svc) st = (rest, 1, st1)" by (simp add: retireStale_def Let_def ord)
  moreover have "int (length rest) = s_Replicas svc - 1"
    using length_partition [of "alive svc" "s_Revision svc" True] ord eq by simp
  ultimately show ?thesis using m by (simp add: st1_def)
qed

text \<open>
  C27: a service makes progress. Take a pass over a service of which nothing failed and
  not too many replicas are alive, and let the template open, the deletion of the replica
  to replace (the first on an older revision, when the number is right) succeed, and then
  the creations of the missing replicas, four at most. The pass does exactly these
  deletions and creations and reports them; the service then holds the replicas that
  were alive, less the replaced one, and those created, on the current revision.
\<close>

theorem reconcile_progress:
  assumes env: "openEnv d (t_EnvSealed (s_Template svc)) (t_EnvKeyID (s_Template svc)) = Inr env"
    and files: "openFiles d (t_FilesSealed (s_Template svc)) (t_EnvKeyID (s_Template svc)) = Inr files"
    and fine: "list_all (\<lambda>m. m_State m \<noteq> StateFailed) (alive svc)"
    and small: "int (length (alive svc)) \<le> s_Replicas svc"
    and del: "case next_stale svc of [] \<Rightarrow> w1 = sv_world st
      | m # _ \<Rightarrow> wl_Delete W (sv_world st) (s_ProjectID svc) (m_InstanceID m) = (Inr (), w1)"
    and n: "n = nat (min (s_Replicas svc - int (length (alive svc)) + int (length (next_stale svc))) MaxCreatePerPass)"
    and cre: "creates_all W w1 (map (\<lambda>k. replica_request svc env files (draw (int k))) [0..<n]) = Some (ids, w2)"
    and new: "distinct ids" "set ids \<inter> set (held st (s_ID svc)) = {}"
  shows "\<exists>st'. reconcileOne d W draw now svc st = (Inr (int n, int (length (next_stale svc))), st') \<and>
    sv_world st' = w2 \<and>
    held st' (s_ID svc) = filter (\<lambda>i. i \<notin> lost svc \<union> ids_of (next_stale svc)) (held st (s_ID svc)) @ ids \<and>
    set (map (new_member svc now) ids) \<subseteq> set (service_members (sv_db st'))"
proof -
  obtain st0 where st0: "livingMembers d svc st = (alive svc, st0)" by (metis fst_living prod.collapse)
  have w0: "sv_world st0 = sv_world st" using st0 living_loop_world by (auto simp: livingMembers_def)
  have h0: "held st0 (s_ID svc) = filter (\<lambda>i. i \<notin> lost svc) (held st (s_ID svc))"
    using held_living [of d svc st] st0 by simp
  have re: "reapFailed d W now svc (alive svc) st0 = (alive svc, 0, False, st0)"
    using fine by (simp add: reapFailed_def Let_def filter_empty_conv list_all_iff)
  let ?mid = "if int (length (alive svc)) = s_Replicas svc then retireStale d W svc (alive svc) st0 else (alive svc, 0, st0)"
  have "\<exists>present st1. ?mid = (present, int (length (next_stale svc)), st1) \<and>
      int (length present) = int (length (alive svc)) - int (length (next_stale svc)) \<and> sv_world st1 = w1 \<and>
      held st1 (s_ID svc) = filter (\<lambda>i. i \<notin> ids_of (next_stale svc)) (held st0 (s_ID svc))"
  proof (cases "int (length (alive svc)) = s_Replicas svc")
    case True
    with retire_exact [OF True, of w1 st0 W d] del show ?thesis unfolding w0 by simp
  next
    case False
    then have "next_stale svc = []" by (simp add: next_stale_def)
    with False del show ?thesis by (simp add: w0)
  qed
  then obtain present st1 where mid: "?mid = (present, int (length (next_stale svc)), st1)"
    "int (length present) = int (length (alive svc)) - int (length (next_stale svc))" "sv_world st1 = w1"
    "held st1 (s_ID svc) = filter (\<lambda>i. i \<notin> lost svc \<union> ids_of (next_stale svc)) (held st (s_ID svc))"
    by (auto simp: h0 conj_commute)
  have n': "n = nat (min (s_Replicas svc - int (length present)) MaxCreatePerPass)"
    unfolding n mid(2) by (simp add: algebra_simps)
  show ?thesis
  proof (cases "int (length present) < s_Replicas svc")
    case True
    have "set ids \<inter> set (held st1 (s_ID svc)) = {}" using new(2) by (auto simp: mid(4))
    with growTo_exact [OF env files n' _ _ new(1), of W st1 draw w2 now] True cre mid(3) obtain st2 where
      g: "growTo d W draw now svc present st1 = (Inr (int n), st2)" "sv_world st2 = w2"
        "service_members (sv_db st2) = service_members (sv_db st1) @ map (new_member svc now) ids" by auto
    have "reconcileOne d W draw now svc st = (Inr (int n, int (length (next_stale svc))), st2)"
      using st0 small re mid(1) True g(1) by (simp add: reconcileOne_def)
    with g held_new_members [OF g(3)] mid(4) show ?thesis by simp
  next
    case False
    then have "n = 0" using n' by simp
    then have "ids = []" "w2 = w1" using cre by simp_all
    moreover have "reconcileOne d W draw now svc st = (Inr (0, int (length (next_stale svc))), settle now svc present st1)"
      using st0 small re mid(1) False by (simp add: reconcileOne_def)
    ultimately show ?thesis using \<open>n = 0\<close> mid by simp
  qed
qed

lemma living_services: "services (sv_db (living_loop d svc ms st)) = services (sv_db st)"
  by (induction ms arbitrary: st) (simp_all add: svc_note_def forget_member_def repo_svc_removeMember_def)

text \<open>
  C28: a service whose replacements keep failing is left alone. After three
  replacements, a pass that sees a failed replica deletes and creates nothing; it
  drops the ids of instances that are gone and records why it stopped: the row of the
  service carries the reason afterwards, and when it is a new reason and events are
  on, the last event says so.
\<close>

theorem reconcile_gives_up:
  assumes three: "MaxReapAttempts \<le> s_Reaped svc"
    and failed: "\<exists>m\<in>set (alive svc). m_State m = StateFailed"
    and small: "int (length (alive svc)) \<le> s_Replicas svc"
    and row: "\<forall>q\<in>set (services (sv_db st)). s_ID q = s_ID svc \<longrightarrow> s_Blocked q = s_Blocked svc"
    and call: "reconcileOne d W draw now svc st = (r, st')"
  defines "reason \<equiv> clip (''replaced '' @ itoa (s_Reaped svc) @
      '' replicas and they keep failing, so the rest are left alone until the template or the image is fixed'') 320"
  shows "r = Inr (0, 0) \<and> sv_world st' = sv_world st \<and>
    held st' (s_ID svc) = filter (\<lambda>i. i \<notin> lost svc) (held st (s_ID svc)) \<and>
    (\<forall>q\<in>set (services (sv_db st')). s_ID q = s_ID svc \<longrightarrow> s_Blocked q = reason) \<and>
    (svc_events d \<and> s_Blocked svc \<noteq> reason \<longrightarrow>
       (\<exists>before. sv_recorded st' = before @
          [\<lparr>e_ProjectID = s_ProjectID svc, e_Kind = ''service.blocked'', e_Subject = s_ID svc, e_NodeID = [],
            e_Message = s_Name svc @ '' cannot reach '' @ itoa (s_Replicas svc) @ '' replicas: '' @ reason,
            e_Severity = SevError\<rparr>]))"
proof -
  let ?text = "''replaced '' @ itoa (s_Reaped svc) @
    '' replicas and they keep failing, so the rest are left alone until the template or the image is fixed''"
  obtain st0 where st0: "livingMembers d svc st = (alive svc, st0)" by (metis fst_living prod.collapse)
  have h0: "held st0 (s_ID svc) = filter (\<lambda>i. i \<notin> lost svc) (held st (s_ID svc))"
    using held_living [of d svc st] st0 by simp
  have w0: "sv_world st0 = sv_world st" using st0 living_loop_world by (auto simp: livingMembers_def)
  have s0: "services (sv_db st0) = services (sv_db st)" using st0 living_services by (auto simp: livingMembers_def)
  from failed have "filter (\<lambda>m. m_State m = StateFailed) (alive svc) \<noteq> []" by (auto simp: filter_empty_conv)
  with three have "reapFailed d W now svc (alive svc) st0 = (alive svc, 0, True, block d now svc ?text st0)"
    by (simp add: reapFailed_def Let_def)
  with small call st0 have out: "r = Inr (0, 0)" "st' = block d now svc ?text st0" by (simp_all add: reconcileOne_def)
  have bl: "block d now svc ?text st0 = (if s_Blocked svc = reason then st0
      else svc_note d svc (svc_entry ''service.blocked'' (s_ID svc)
             (s_Name svc @ '' cannot reach '' @ itoa (s_Replicas svc) @ '' replicas: '' @ reason) SevError)
             (st0\<lparr>sv_db := repo_svc_setBlocked (sv_db st0) (s_ID svc) reason now\<rparr>))"
    by (simp add: block_def Let_def reason_def)
  have "sv_world st' = sv_world st" unfolding out bl by (simp add: w0)
  moreover have "held st' (s_ID svc) = filter (\<lambda>i. i \<notin> lost svc) (held st (s_ID svc))" unfolding out(2) held_block h0 ..
  moreover have "\<forall>q\<in>set (services (sv_db st')). s_ID q = s_ID svc \<longrightarrow> s_Blocked q = reason"
    using row s0 unfolding out(2) bl by (auto simp: svc_note_def repo_svc_setBlocked_def update_where_def split: if_splits)
  moreover have "\<exists>before. sv_recorded st' = before @
      [\<lparr>e_ProjectID = s_ProjectID svc, e_Kind = ''service.blocked'', e_Subject = s_ID svc, e_NodeID = [],
        e_Message = s_Name svc @ '' cannot reach '' @ itoa (s_Replicas svc) @ '' replicas: '' @ reason,
        e_Severity = SevError\<rparr>]" if "svc_events d" "s_Blocked svc \<noteq> reason"
    using that unfolding out(2) bl by (simp only: if_False svc_note_def if_True) simp
  ultimately show ?thesis using out(1) by blast
qed

section \<open>Concrete passes\<close>

text \<open>Workloads on a list of ids: a creation takes an id longer than all of them.\<close>

definition list_workloads :: "string list workloads_if" where
  "list_workloads =
     \<lparr>wl_Create = (\<lambda>w _. (Inr (CHR ''x'' # concat w), (CHR ''x'' # concat w) # w)),
      wl_Delete = (\<lambda>w _ _. (Inr (), w)),
      wl_StatesOf = (\<lambda>w ids. Inr (\<lambda>i. if i \<in> set ids then Some ''running'' else None))\<rparr>"

definition list_deps :: "string list svc_deps" where
  "list_deps =
     \<lparr>workloads = Some list_workloads, svc_networks = None, svc_firewalls = None, svc_events = True,
      svc_sealing = \<lparr>SealEnvJSON = (\<lambda>_. Inl ErrNoKey), SealFilesJSON = (\<lambda>_. Inl ErrNoKey), ActiveID = []\<rparr>,
      OpenEnvJSON = (\<lambda>_ _. Inl ErrKeyMissing), OpenFilesJSON = (\<lambda>_ _. Inl ErrKeyMissing),
      err_text = (\<lambda>_. ''failed'')\<rparr>"

definition plain_template :: svc_template where
  "plain_template =
     \<lparr>t_Isolation = ''container'', t_Image = ''img'', t_ISO = [], t_Kernel = [], t_DiskGiB = 0, t_FirewallID = [],
      t_Command = [], t_NetworkID = [], t_RestartPolicy = [], t_VCPU = 1, t_MemoryMiB = 128, t_Group = [],
      t_Strict = False, t_NodeSelector = [], t_ExtraNetworks = [], t_Env = [], t_EnvSealed = [], t_EnvKeyID = [],
      t_EnvNames = [], t_Files = [], t_FilesSealed = [], t_FilePaths = [], t_Keys = []\<rparr>"

definition web_member :: "string \<Rightarrow> int \<Rightarrow> string \<Rightarrow> svc_member" where
  "web_member i rv state = \<lparr>m_InstanceID = i, m_Revision = rv, m_State = state, m_CreatedAt = 1\<rparr>"

definition web_service :: "int \<Rightarrow> int \<Rightarrow> svc_member list \<Rightarrow> service" where
  "web_service replicas reaped ms =
     \<lparr>s_ID = ''svc-1'', s_ProjectID = ''p'', s_Name = ''web'', s_Replicas = replicas, s_Revision = 2,
      s_Template = plain_template, s_Members = ms, s_Reaped = reaped, s_Blocked = [],
      s_CreatedAt = 1, s_UpdatedAt = 1\<rparr>"

definition web_state :: "service \<Rightarrow> string list svc_state" where
  "web_state svc =
     \<lparr>sv_db = \<lparr>services = [svc\<lparr>s_Members := []\<rparr>], service_members = map (\<lambda>m. (s_ID svc, m)) (s_Members svc)\<rparr>,
      sv_world = map m_InstanceID (s_Members svc), sv_recorded = []\<rparr>"

definition two_old :: service where
  "two_old = web_service 2 0 [web_member ''a'' 1 ''running'', web_member ''b'' 2 ''running'']"

definition one_failed :: service where
  "one_failed = web_service 2 3 [web_member ''a'' 2 ''failed'', web_member ''b'' 2 ''running'']"

lemma held_web: "held (web_state svc) (s_ID svc) = map m_InstanceID (s_Members svc)"
  by (simp add: held_def web_state_def comp_def)

abbreviation web_pass :: "service \<Rightarrow> (int \<times> int) result \<times> string list svc_state" where
  "web_pass svc \<equiv> reconcileOne list_deps list_workloads (\<lambda>_. ''r-000000000'') 9 svc (web_state svc)"

theorem reconcile_keeps_healthy_replicas_witness:
  "\<exists>gone. length gone \<le> 1 \<and> (\<forall>m\<in>set gone. m_Revision m \<noteq> 2) \<and>
     held (snd (web_pass two_old)) ''svc-1'' = [''b'', ''xab''] \<and> ids_of gone = {''a''}"
proof -
  have alive: "alive two_old = s_Members two_old" by (simp add: alive_def two_old_def web_service_def web_member_def)
  have lost: "lost two_old = {}" by (simp add: lost_def two_old_def web_service_def web_member_def)
  obtain r st' where run: "web_pass two_old = (r, st')" by fastforce
  have small: "int (length (alive two_old)) \<le> s_Replicas two_old"
    by (simp add: alive_def two_old_def web_service_def web_member_def)
  have hold: "held (snd (web_pass two_old)) ''svc-1'' = [''b'', ''xab'']" by code_simp
  have sid: "s_ID two_old = ''svc-1''" by (simp add: two_old_def web_service_def)
  have before: "held (web_state two_old) ''svc-1'' = [''a'', ''b'']" by code_simp
  from reconcile_keeps_healthy_replicas [OF run small] obtain gone where g: "length gone \<le> 1"
    "set gone \<subseteq> set (alive two_old)"
    "\<forall>m\<in>set gone. m_State m = ''failed'' \<or> m_Revision m \<noteq> s_Revision two_old"
    "\<forall>i\<in>set (held (web_state two_old) (s_ID two_old)). i \<notin> set (held st' (s_ID two_old)) \<longrightarrow>
       i \<in> lost two_old \<or> i \<in> ids_of gone" by blast
  from g(4) sid before hold run lost have a: "''a'' \<in> ids_of gone" by simp
  with g(1) have "ids_of gone = {''a''}" by (cases gone) (auto simp: ids_of_def)
  moreover have "m_Revision m \<noteq> 2" if "m \<in> set gone" for m
  proof -
    from that g(2) alive have "m_State m = ''running''"
      by (auto simp: two_old_def web_service_def web_member_def)
    with that g(3) show ?thesis by (auto simp: two_old_def web_service_def)
  qed
  ultimately show ?thesis using g(1) hold by blast
qed

theorem reconcile_accounts_witness:
  "fst (web_pass two_old) = Inr (1, 1) \<and> int (length (held (snd (web_pass two_old)) ''svc-1'')) = 2 + 1 - 1"
proof -
  have res: "fst (web_pass two_old) = Inr (1, 1)" by code_simp
  then obtain st' where run: "web_pass two_old = (Inr (1, 1), st')" by (metis prod.collapse)
  have sid: "s_ID two_old = ''svc-1''" by (simp add: two_old_def web_service_def)
  have "loaded two_old (web_state two_old)"
    unfolding loaded_def held_web by (simp add: two_old_def web_service_def web_member_def)
  from reconcile_accounts [OF this run] res run sid show ?thesis
    by (simp add: two_old_def web_service_def web_member_def alive_def)
qed

theorem reconcile_gives_up_witness:
  "fst (web_pass one_failed) = Inr (0, 0) \<and> held (snd (web_pass one_failed)) ''svc-1'' = [''a'', ''b''] \<and>
   map (\<lambda>q. take 8 (s_Blocked q)) (services (sv_db (snd (web_pass one_failed)))) = [''replaced'']"
proof -
  obtain r st' where run: "web_pass one_failed = (r, st')" by fastforce
  have h: "3 \<le> s_Reaped one_failed" "\<exists>m\<in>set (alive one_failed). m_State m = ''failed''"
    "int (length (alive one_failed)) \<le> s_Replicas one_failed"
    by (simp_all add: alive_def one_failed_def web_service_def web_member_def)
  have "held (web_state one_failed) (s_ID one_failed) = [''a'', ''b'']"
    unfolding held_web by (simp add: one_failed_def web_service_def web_member_def)
  moreover have "lost one_failed = {}" "s_ID one_failed = ''svc-1''"
    by (simp_all add: lost_def one_failed_def web_service_def web_member_def)
  moreover have "\<forall>q\<in>set (services (sv_db (web_state one_failed))). s_ID q = s_ID one_failed \<longrightarrow> s_Blocked q = s_Blocked one_failed"
    by (simp add: web_state_def)
  note gives = reconcile_gives_up [OF h this run]
  moreover have "map (\<lambda>q. take 8 (s_Blocked q)) (services (sv_db (snd (web_pass one_failed)))) = [''replaced'']" by code_simp
  ultimately show ?thesis by (simp add: run)
qed

end
