(* ===== verification/ReplicaWiring.thy ===== *)
theory ReplicaWiring
  imports Replicas Wiring
begin

text \<open>
  Services on top of instances: the adapter \<open>serviceWorkloads\<close> of
  src/internal/app/adapters.go, which makes and deletes replicas through the
  instance module. The locale \<open>workload_contract\<close> states what a service needs of
  its workloads to keep a property of the world, and is interpreted on the adapter
  with the property that the instances of other projects are untouched.
\<close>

section \<open>The adapter\<close>

definition instanceFiles :: "instance_file list \<Rightarrow> instance_file list" where
  "instanceFiles files = map (\<lambda>f. \<lparr>f_Path = f_Path f, f_Content = f_Content f, f_Mode = f_Mode f\<rparr>) files"

definition params_of :: "workload \<Rightarrow> create_params" where
  "params_of x =
     (let t = wk_Template x
      in \<lparr>c_Device = [], c_ProjectID = wk_ProjectID x, c_Name = wk_Name x, c_Group = t_Group t,
          c_Strict = t_Strict t, c_NodeSelector = t_NodeSelector t, c_Env = wk_Env x,
          c_Files = instanceFiles (wk_Files x), c_ExtraNetworks = t_ExtraNetworks t, c_Keys = t_Keys t,
          c_Isolation = t_Isolation t, c_Image = t_Image t, c_ISO = t_ISO t, c_Kernel = t_Kernel t,
          c_DiskGiB = t_DiskGiB t, c_FirewallID = t_FirewallID t, c_Command = t_Command t,
          c_NetworkID = t_NetworkID t, c_RestartPolicy = t_RestartPolicy t, c_VCPU = t_VCPU t,
          c_MemoryMiB = t_MemoryMiB t\<rparr>)"

definition workloads_Create ::
    "surroundings inst_deps \<Rightarrow> (string \<Rightarrow> string) \<Rightarrow> go_time \<Rightarrow> platform \<Rightarrow> workload \<Rightarrow> string result \<times> platform" where
  "workloads_Create d new_id now w x =
     (case inst_create d (new_id (wk_Name x)) now (pf_inst w) (pf_rest w) (params_of x) of
        (Inl e, db, rest) \<Rightarrow> (Inl e, \<lparr>pf_inst = db, pf_rest = rest\<rparr>)
      | (Inr r, db, rest) \<Rightarrow> (Inr (i_ID r), \<lparr>pf_inst = db, pf_rest = rest\<rparr>))"

definition workloads_Delete ::
    "surroundings inst_deps \<Rightarrow> platform \<Rightarrow> string \<Rightarrow> string \<Rightarrow> unit result \<times> platform" where
  "workloads_Delete d w pid iid =
     (case inst_delete d (pf_inst w) (pf_rest w) iid pid of
        (res, db, rest) \<Rightarrow> (res, \<lparr>pf_inst = db, pf_rest = rest\<rparr>))"

definition workloads_StatesOf :: "platform \<Rightarrow> string list \<Rightarrow> (string \<rightharpoonup> string) result" where
  "workloads_StatesOf w ids =
     Inr (fold (\<lambda>i m. case inst_get (pf_inst w) i of
                        Inl _ \<Rightarrow> m | Inr r \<Rightarrow> m(i \<mapsto> observed_text (i_Observed r))) ids Map.empty)"

definition wired_workloads ::
    "surroundings inst_deps \<Rightarrow> (string \<Rightarrow> string) \<Rightarrow> go_time \<Rightarrow> platform workloads_if" where
  "wired_workloads d new_id now =
     \<lparr>wl_Create = workloads_Create d new_id now, wl_Delete = workloads_Delete d,
      wl_StatesOf = workloads_StatesOf\<rparr>"

section \<open>What a service needs of its workloads\<close>

locale workload_contract =
  fixes W :: "'w workloads_if" and I :: "'w \<Rightarrow> bool" and pid :: string
  assumes Create_keeps: "I w \<Longrightarrow> wk_ProjectID x = pid \<Longrightarrow> I (snd (wl_Create W w x))"
    and Delete_keeps: "I w \<Longrightarrow> I (snd (wl_Delete W w pid i))"
begin

lemma Create_run: "I w \<Longrightarrow> wk_ProjectID x = pid \<Longrightarrow> wl_Create W w x = (r, w') \<Longrightarrow> I w'"
  using Create_keeps by (metis snd_conv)

lemma Delete_run: "I w \<Longrightarrow> wl_Delete W w pid i = (r, w') \<Longrightarrow> I w'"
  using Delete_keeps by (metis snd_conv)

lemma reap_loop_keeps:
  "s_ProjectID svc = pid \<Longrightarrow> I (sv_world st) \<Longrightarrow> I (sv_world (snd (reap_loop d W svc ms n st)))"
  by (induction ms arbitrary: n st) (auto split: prod.splits sum.splits dest: Delete_run)

lemma retire_loop_keeps:
  "s_ProjectID svc = pid \<Longrightarrow> I (sv_world st) \<Longrightarrow> I (sv_world (snd (retire_loop d W svc ms n st)))"
  by (induction ms arbitrary: n st) (auto split: prod.splits sum.splits dest: Delete_run)

lemma shrink_loop_keeps:
  "s_ProjectID svc = pid \<Longrightarrow> I (sv_world st) \<Longrightarrow> I (sv_world (snd (shrink_loop d W svc had ms n st)))"
  by (induction ms arbitrary: n st) (auto split: prod.splits sum.splits dest: Delete_run)

lemma block_world: "sv_world (block d now svc r st) = sv_world st"
  by (simp add: block_def Let_def)

lemma clear_world: "sv_world (clearBlocked now svc st) = sv_world st"
  by (simp add: clearBlocked_def)

lemma settle_world: "sv_world (settle now svc present st) = sv_world st"
  by (simp add: settle_def Let_def clear_world)

lemma grow_loop_keeps:
  "s_ProjectID svc = pid \<Longrightarrow> I (sv_world st) \<Longrightarrow>
   I (sv_world (snd (grow_loop d W draw now svc had env files n created st)))"
proof (induction n arbitrary: created st)
  case (Suc n)
  have "I w" if "wl_Create W (sv_world st)
      \<lparr>wk_ProjectID = s_ProjectID svc, wk_Name = replicaName (s_Name svc) (draw created),
       wk_Template = s_Template svc, wk_Env = env, wk_Files = files\<rparr> = (r, w)" for r w
    using Create_run [OF Suc.prems(2) _ that] Suc.prems(1) by simp
  with Suc show ?case by (auto simp: block_world split: prod.splits sum.splits)
qed simp

lemma growTo_keeps:
  assumes "s_ProjectID svc = pid" "I (sv_world st)"
  shows "I (sv_world (snd (growTo d W draw now svc present st)))"
  using grow_loop_keeps [OF assms] assms(2)
  by (auto simp: growTo_def Let_def block_world clear_world split: sum.splits prod.splits) (metis snd_conv)+

text \<open>A whole pass over one service keeps the property.\<close>

lemma reapFailed_keeps:
  assumes "s_ProjectID svc = pid" "I (sv_world st)"
  shows "I (sv_world (snd (snd (snd (reapFailed d W now svc present st)))))"
  using reap_loop_keeps [OF assms] assms(2)
  by (auto simp: reapFailed_def Let_def block_world split: prod.splits) (metis snd_conv)+

lemma retireStale_keeps:
  assumes "s_ProjectID svc = pid" "I (sv_world st)"
  shows "I (sv_world (snd (snd (retireStale d W svc present st))))"
  using retire_loop_keeps [OF assms] by (auto simp: retireStale_def Let_def split: prod.splits) (metis snd_conv)+

lemma reconcileOne_keeps:
  assumes pid: "s_ProjectID svc = pid" and I: "I (sv_world st)"
  shows "I (sv_world (snd (reconcileOne d W draw now svc st)))"
proof -
  obtain st0 where st0: "livingMembers d svc st = (alive svc, st0)" by (metis fst_living prod.collapse)
  have i0: "I (sv_world st0)" using st0 I by (auto simp: livingMembers_def living_loop_world)
  obtain n st1 where sh: "shrink_loop d W svc (int (length (alive svc)))
      (rev (drop (nat (s_Replicas svc)) (partition (alive svc) (s_Revision svc) False))) 0 st0 = (n, st1)" by fastforce
  have i1: "I (sv_world st1)" using shrink_loop_keeps [OF pid i0] sh by (metis snd_conv)
  obtain p2 reaped gave st2 where re: "reapFailed d W now svc (alive svc) st0 = (p2, reaped, gave, st2)"
    by (metis prod_cases4)
  have i2: "I (sv_world st2)" using reapFailed_keeps [OF pid i0] re by (metis snd_conv)
  obtain p3 retired st3 where mid: "(if int (length p2) = s_Replicas svc then retireStale d W svc p2 st2
      else (p2, 0, st2)) = (p3, retired, st3)" by (metis prod_cases3)
  have i3: "I (sv_world st3)" using retireStale_keeps [OF pid i2] i2 mid by (metis snd_conv)
  have i4: "I (sv_world (snd (growTo d W draw now svc p3 st3)))" by (rule growTo_keeps [OF pid i3])
  show ?thesis
    using i1 i2 i3 i4 sh
    by (auto simp: reconcileOne_def st0 re mid shrinkTo_def Let_def settle_world clear_world split: sum.splits prod.splits)
qed

end

section \<open>The instance module behind it\<close>

lemma create_others:
  assumes "c_ProjectID p = pid"
  shows "rows_of_others pid (fst (snd (inst_create d new_id now db w p))) = rows_of_others pid db"
proof -
  have "rows_of_others pid db' = rows_of_others pid db"
    if "repo_inst_insert db (new_instance new_id now p n a net e k f) = (res, db')" for n a net e k f res db'
    using that assms by (auto simp: repo_inst_insert_def rows_of_others_def new_instance_def split: if_splits)
  then show ?thesis
    by (auto simp: inst_create_def Let_def split: sum.splits prod.splits option.splits)
qed

lemma delete_others:
  assumes wf: "inst_wf db"
  shows "rows_of_others pid (fst (snd (inst_delete d db w ref pid))) = rows_of_others pid db"
proof -
  have "rows_of_others pid db' = rows_of_others pid db"
    if "inst_getIn db ref pid = Inr r" "repo_inst_delete db (i_ID r) = (res, db')" for r res db'
    using others_kept_delete [OF wf, of r] that getIn_project [OF that(1)] by (auto simp: rows_of_others_def)
  moreover have "rows_of_others pid (forgetParked d db' i) = rows_of_others pid db'" for db' i
    by (simp add: rows_of_others_def)
  ultimately show ?thesis
    by (auto simp: inst_delete_def Let_def split: sum.splits prod.splits option.splits)
qed

interpretation replicas: workload_contract "wired_workloads d new_id now"
  "\<lambda>w. inst_wf (pf_inst w) \<and> rows_of_others pid (pf_inst w) = others" pid
  for d new_id now pid others
proof (unfold_locales, goal_cases)
  case (1 w x)
  have p: "c_ProjectID (params_of x) = pid" using 1 by (simp add: params_of_def Let_def)
  obtain r db rest where run: "inst_create d (new_id (wk_Name x)) now (pf_inst w) (pf_rest w) (params_of x) = (r, db, rest)"
    by (metis prod_cases3)
  have "pf_inst (snd (wl_Create (wired_workloads d new_id now) w x)) = db"
    using run by (cases r) (simp_all add: wired_workloads_def workloads_Create_def)
  moreover have "inst_wf db" "rows_of_others pid db = rows_of_others pid (pf_inst w)"
    using wf_create [of "pf_inst w" d "new_id (wk_Name x)" now "pf_rest w" "params_of x"] 1
      create_others [OF p, of d "new_id (wk_Name x)" now "pf_inst w" "pf_rest w"] run by simp_all
  ultimately show ?case using 1 by simp
next
  case (2 w i)
  obtain r db rest where run: "inst_delete d (pf_inst w) (pf_rest w) i pid = (r, db, rest)" by (metis prod_cases3)
  then have "pf_inst (snd (wl_Delete (wired_workloads d new_id now) w pid i)) = db"
    by (simp add: wired_workloads_def workloads_Delete_def)
  moreover have "inst_wf db" "rows_of_others pid db = rows_of_others pid (pf_inst w)"
    using wf_service_delete [of "pf_inst w" d "pf_rest w" i pid] 2
      delete_others [of "pf_inst w" pid d "pf_rest w" i] run by simp_all
  ultimately show ?case using 2 by simp
qed

text \<open>
  C29: reconciling a service touches only its own project. A pass over one service,
  creating and deleting replicas through the instance module, keeps the instance
  table well formed and leaves the instances of every other project as they were.
\<close>

theorem service_pass_isolated:
  assumes "inst_wf (pf_inst (sv_world st))"
    and "reconcileOne d (wired_workloads deps new_id now) draw now svc st = (r, st')"
  shows "inst_wf (pf_inst (sv_world st')) \<and>
    rows_of_others (s_ProjectID svc) (pf_inst (sv_world st')) =
      rows_of_others (s_ProjectID svc) (pf_inst (sv_world st))"
  using replicas.reconcileOne_keeps [of svc "s_ProjectID svc" st
      "rows_of_others (s_ProjectID svc) (pf_inst (sv_world st))" d deps new_id now draw now] assms by simp

definition other_project :: platform where
  "other_project = (world demo_two)\<lparr>pf_inst := \<lparr>instances = [(demo_row ''i1'' [])\<lparr>i_ProjectID := ''q''\<rparr>],
     parked = Map.empty, recorded = []\<rparr>\<rparr>"

definition platform_deps :: "platform svc_deps" where
  "platform_deps =
     \<lparr>workloads = None, svc_networks = None, svc_firewalls = None, svc_events = True,
      svc_sealing = \<lparr>SealEnvJSON = (\<lambda>_. Inl ErrNoKey), SealFilesJSON = (\<lambda>_. Inl ErrNoKey), ActiveID = []\<rparr>,
      OpenEnvJSON = (\<lambda>_ _. Inl ErrKeyMissing), OpenFilesJSON = (\<lambda>_ _. Inl ErrKeyMissing),
      err_text = (\<lambda>_. ''failed'')\<rparr>"

definition empty_web :: "platform svc_state" where
  "empty_web =
     \<lparr>sv_db = \<lparr>services = [web_service 1 0 []], service_members = []\<rparr>, sv_world = other_project,
      sv_recorded = []\<rparr>"

abbreviation wired_pass :: "(int \<times> int) result \<times> platform svc_state" where
  "wired_pass \<equiv> reconcileOne platform_deps (wired_workloads demo_deps (\<lambda>_. ''i9'') 9) (\<lambda>_. ''r-1'') 9
     (web_service 1 0 []) empty_web"

theorem service_pass_isolated_witness:
  "map i_ID (instances (pf_inst (sv_world (snd wired_pass)))) = [''i1'', ''i9''] \<and>
   rows_of_others ''p'' (pf_inst (sv_world (snd wired_pass))) =
     rows_of_others ''p'' (pf_inst (sv_world empty_web))"
proof -
  obtain r st' where run: "wired_pass = (r, st')" by fastforce
  have wf: "inst_wf (pf_inst (sv_world empty_web))"
    by (simp add: empty_web_def other_project_def inst_wf_def demo_row_def row_ok_def)
  have "map i_ID (instances (pf_inst (sv_world (snd wired_pass)))) = [''i1'', ''i9'']" by code_simp
  moreover have "s_ProjectID (web_service 1 0 []) = ''p''" by (simp add: web_service_def)
  ultimately show ?thesis using service_pass_isolated [OF wf run] by (simp add: run)
qed

text \<open>Six replicas wanted and none there: the first pass makes four instances.\<close>

abbreviation six_web :: service where
  "six_web \<equiv> web_service 6 0 []"

abbreviation named_workloads :: "platform workloads_if" where
  "named_workloads \<equiv> wired_workloads demo_deps (\<lambda>name. name) 9"

theorem reconcile_progress_witness:
  "\<exists>st'. reconcileOne platform_deps named_workloads (\<lambda>k. itoa k) 9 six_web empty_web = (Inr (4, 0), st') \<and>
     held st' ''svc-1'' = [''web-0'', ''web-1'', ''web-2'', ''web-3''] \<and>
     map i_ID (instances (pf_inst (sv_world st'))) = [''i1'', ''web-0'', ''web-1'', ''web-2'', ''web-3'']"
proof -
  let ?run = "creates_all named_workloads (sv_world empty_web)
    (map (\<lambda>k. replica_request six_web [] [] (itoa (int k))) [0..<4])"
  have alive: "alive six_web = []" "lost six_web = {}" "next_stale six_web = []" "s_ID six_web = ''svc-1''"
    "s_Replicas six_web = 6"
    by (simp_all add: alive_def lost_def next_stale_def web_service_def)
  have opens: "openEnv platform_deps (t_EnvSealed (s_Template six_web)) (t_EnvKeyID (s_Template six_web)) = Inr []"
    "openFiles platform_deps (t_FilesSealed (s_Template six_web)) (t_EnvKeyID (s_Template six_web)) = Inr []"
    by (simp_all add: openEnv_def openFiles_def web_service_def plain_template_def)
  have held: "held empty_web i = []" for i by (simp add: held_def empty_web_def)
  have made: "map_option (\<lambda>(ids, w). (ids, map i_ID (instances (pf_inst w)))) ?run =
      Some ([''web-0'', ''web-1'', ''web-2'', ''web-3''], [''i1'', ''web-0'', ''web-1'', ''web-2'', ''web-3''])"
    by code_simp
  then obtain w where cre: "?run = Some ([''web-0'', ''web-1'', ''web-2'', ''web-3''], w)"
    and rows: "map i_ID (instances (pf_inst w)) = [''i1'', ''web-0'', ''web-1'', ''web-2'', ''web-3'']" by auto
  have "\<exists>st'. reconcileOne platform_deps named_workloads (\<lambda>k. itoa k) 9 six_web empty_web =
      (Inr (int 4, int (length (next_stale six_web))), st') \<and> sv_world st' = w \<and>
      held st' (s_ID six_web) = filter (\<lambda>i. i \<notin> lost six_web \<union> ids_of (next_stale six_web)) (held empty_web (s_ID six_web)) @
        [''web-0'', ''web-1'', ''web-2'', ''web-3''] \<and>
      set (map (new_member six_web 9) [''web-0'', ''web-1'', ''web-2'', ''web-3'']) \<subseteq> set (service_members (sv_db st'))"
    by (rule reconcile_progress [OF opens _ _ _ _ cre]) (simp_all add: alive held)
  then show ?thesis using rows by (auto simp: alive held)
qed

end
