(* ===== verification/Interval.thy ===== *)
theory Interval
  imports Kernel
begin

text \<open>
  Intervals as text, src/internal/kernel/interval/interval.go. Durations are
  64-bit nanosecond counts; the product of a count and a unit wraps.
  \<open>time.ParseDuration\<close>, which reads every other form, is an argument.
\<close>

section \<open>Library functions\<close>

text \<open>\<open>strconv.Atoi\<close>: an optional sign and digits, within the range of int64.\<close>

definition digits_value :: "string \<Rightarrow> int" where
  "digits_value ds = foldl (\<lambda>n c. 10 * n + (of_char c - 48)) 0 ds"

definition atoi :: "string \<Rightarrow> int option" where
  "atoi s =
     (let neg = (s \<noteq> [] \<and> hd s = CHR ''-'');
          ds = (if s \<noteq> [] \<and> (hd s = CHR ''-'' \<or> hd s = CHR ''+'') then tl s else s);
          v = (if neg then - digits_value ds else digits_value ds)
      in if ds = [] \<or> \<not> list_all is_digit ds then None
         else if v < min_duration \<or> max_duration < v then None
         else Some v)"

definition wrap64 :: "int \<Rightarrow> int" where
  "wrap64 x = (x + 9223372036854775808) mod 18446744073709551616 - 9223372036854775808"

definition has_suffix :: "string \<Rightarrow> string \<Rightarrow> bool" where
  "has_suffix s x \<longleftrightarrow> length x \<le> length s \<and> drop (length s - length x) s = x"

section \<open>Parse and Human\<close>

abbreviation (input) hour :: duration where "hour \<equiv> 3600000000000"
abbreviation (input) day :: duration where "day \<equiv> 86400000000000"
abbreviation (input) week :: duration where "week \<equiv> 604800000000000"

definition interval_Parse :: "(string \<Rightarrow> duration option) \<Rightarrow> string \<Rightarrow> duration option" where
  "interval_Parse ParseDuration text0 =
     (let txt = trim_space text0;
          multiplier = (if has_suffix txt ''d'' then day
                        else if has_suffix txt ''w'' then week else 0)
      in if txt = [] then Some 0
         else if 0 < multiplier
         then map_option (\<lambda>cnt. wrap64 (cnt * multiplier)) (atoi (trim_space (butlast txt)))
         else ParseDuration txt)"

definition plural :: "int \<Rightarrow> string \<Rightarrow> string" where
  "plural cnt unit =
     (if cnt = 1 then ''1 '' @ unit else itoa cnt @ '' '' @ unit @ ''s'')"

text \<open>Division truncates towards zero; \<open>d\<close> is not negative here unless its negation wrapped.\<close>

definition go_div :: "int \<Rightarrow> int \<Rightarrow> int" where
  "go_div a b = (if a < 0 then - (- a div b) else a div b)"

definition Human :: "duration \<Rightarrow> string" where
  "Human d0 =
     (let d = (if d0 < 0 then wrap64 (- d0) else d0)
      in if d < minute then plural (go_div d second) ''second''
         else if d < hour then plural (go_div d minute) ''minute''
         else if d < day then plural (go_div d hour) ''hour''
         else plural (go_div d day) ''day'')"

section \<open>Numbers as text\<close>

lemma wrap64_id: "min_duration \<le> x \<Longrightarrow> x \<le> max_duration \<Longrightarrow> wrap64 x = x"
  by (simp add: wrap64_def)

lemma digit_char: "n < 10 \<Longrightarrow> is_digit (char_of (48 + n))" for n :: nat
proof -
  have "\<forall>n\<in>set [0..<10]. is_digit (char_of (48 + n :: nat))" by code_simp
  then show "n < 10 \<Longrightarrow> is_digit (char_of (48 + n))" by simp
qed

lemma digit_value: "n < 10 \<Longrightarrow> of_char (char_of (48 + n) :: char) = (48 + int n)" for n :: nat
proof -
  have "\<forall>n\<in>set [0..<10]. of_char (char_of (48 + n :: nat) :: char) = (48 + int n)" by code_simp
  then show "n < 10 \<Longrightarrow> of_char (char_of (48 + n) :: char) = (48 + int n)" by simp
qed

lemma digits_of_digits: "list_all is_digit (digits_of n) \<and> digits_of n \<noteq> []"
proof (induction n rule: digits_of.induct)
  case (1 n)
  show ?case
    using 1 by (cases "n < 10") (subst digits_of.simps, simp add: digit_char)+
qed

lemma digits_value_snoc: "digits_value (ds @ [c]) = 10 * digits_value ds + (of_char c - 48)"
  by (simp add: digits_value_def)

lemma digits_value_of: "digits_value (digits_of n) = int n"
proof (induction n rule: digits_of.induct)
  case (1 n)
  show ?case
  proof (cases "n < 10")
    case True
    then show ?thesis by (subst digits_of.simps) (simp add: digits_value_def digit_value)
  next
    case False
    have "of_char (char_of (48 + n mod 10) :: char) = 48 + int (n mod 10)" by (rule digit_value) simp
    moreover have "10 * int (n div 10) + int (n mod 10) = int n" using mult_div_mod_eq [of 10 n] by linarith
    ultimately show ?thesis
      using 1 False by (subst digits_of.simps) (simp add: digits_value_snoc)
  qed
qed

lemma digit_not_sign: "is_digit c \<Longrightarrow> c \<noteq> CHR ''-'' \<and> c \<noteq> CHR ''+'' \<and> \<not> is_space c"
proof -
  have "\<forall>c\<in>set [CHR ''-'', CHR ''+'', CHR '' '', CHR 0x09, CHR 0x0A, CHR 0x0B, CHR 0x0C, CHR 0x0D]. \<not> is_digit c"
    by code_simp
  then show "is_digit c \<Longrightarrow> c \<noteq> CHR ''-'' \<and> c \<noteq> CHR ''+'' \<and> \<not> is_space c"
    by (auto simp: is_space_def)
qed

lemma itoa_shape:
  "\<exists>pre ds. itoa i = pre @ ds \<and> list_all is_digit ds \<and> ds \<noteq> [] \<and> pre \<in> {[], ''-''}"
proof (cases "i < 0")
  case True
  then have "itoa i = ''-'' @ digits_of (nat (- i))" by (simp add: itoa_def)
  then show ?thesis using digits_of_digits by blast
next
  case False
  then have "itoa i = [] @ digits_of (nat i)" by (simp add: itoa_def)
  then show ?thesis using digits_of_digits by blast
qed

lemma atoi_itoa:
  assumes "min_duration \<le> i" "i \<le> max_duration"
  shows "atoi (itoa i) = Some i"
proof (cases "i < 0")
  case True
  then show ?thesis
    using assms digits_of_digits [of "nat (- i)"] digits_value_of [of "nat (- i)"]
    by (simp add: atoi_def itoa_def Let_def)
next
  case False
  obtain c cs where cs: "digits_of (nat i) = c # cs" using digits_of_digits [of "nat i"] by (cases "digits_of (nat i)") auto
  then have "is_digit c" using digits_of_digits [of "nat i"] by simp
  then show ?thesis
    using assms False cs digits_of_digits [of "nat i"] digits_value_of [of "nat i"] digit_not_sign [of c]
    by (simp add: atoi_def itoa_def Let_def)
qed

lemma trim_space_id:
  assumes "s \<noteq> []" "\<not> is_space (hd s)" "\<not> is_space (last s)"
  shows "trim_space s = s"
proof -
  have "dropWhile is_space s = s" using assms by (cases s) auto
  moreover have "dropWhile is_space (rev s) = rev s" using assms by (cases s rule: rev_cases) auto
  ultimately show ?thesis by (simp add: trim_space_def)
qed

lemma itoa_ends: "itoa i \<noteq> [] \<and> \<not> is_space (hd (itoa i)) \<and> is_digit (last (itoa i))"
proof -
  obtain pre ds where ds: "itoa i = pre @ ds" "list_all is_digit ds" "ds \<noteq> []" "pre \<in> {[], ''-''}"
    using itoa_shape by blast
  have "is_digit (hd ds)" "is_digit (last ds)" using ds by (auto simp: list_all_iff)
  moreover have "\<not> is_space CHR ''-''" by code_simp
  ultimately show ?thesis using ds digit_not_sign by auto
qed

text \<open>
  A number of days or weeks is read as written. For every count whose product
  with the unit fits 64 bits, parsing the decimal text followed by d or w gives
  exactly that many days or weeks.
\<close>

lemma parse_days_and_weeks:
  assumes "min_duration \<le> n * week" "n * week \<le> max_duration"
  shows "interval_Parse pd (itoa n @ ''d'') = Some (n * day) \<and> interval_Parse pd (itoa n @ ''w'') = Some (n * week)"
proof -
  have n: "min_duration \<le> n" "n \<le> max_duration" "min_duration \<le> n * day" "n * day \<le> max_duration"
    using assms by linarith+
  have sp: "\<not> is_space CHR ''d''" "\<not> is_space CHR ''w''" by code_simp+
  have "\<not> is_space (last (itoa n))" using itoa_ends digit_not_sign by blast
  then have trim: "trim_space (itoa n) = itoa n" "trim_space (itoa n @ ''d'') = itoa n @ ''d''"
      "trim_space (itoa n @ ''w'') = itoa n @ ''w''"
    using itoa_ends [of n] sp by (simp_all add: trim_space_id)
  then show ?thesis
    using assms n by (simp add: interval_Parse_def Let_def has_suffix_def atoi_itoa wrap64_id)
qed

theorem parse_days_and_weeks_witness:
  "interval_Parse (\<lambda>_. None) ''30d'' = Some (30 * day) \<and> interval_Parse (\<lambda>_. None) ''30w'' = Some (30 * week)"
proof -
  have "itoa 30 = ''30''" by code_simp
  then show ?thesis using parse_days_and_weeks [of 30 "\<lambda>_. None"] by simp
qed

text \<open>
  A larger count is not refused. 213504 days is read as about 25 minutes: the
  product leaves the 64 bits and the remainder is a plausible interval.
\<close>

lemma parse_wraps: "interval_Parse pd ''213504d'' = Some (1526290448384)"
  by (simp add: interval_Parse_def Let_def has_suffix_def trim_space_def is_space_def atoi_def
      digits_value_def is_digit_def wrap64_def)

end
