(* ===== verification/Sealed.thy ===== *)
theory Sealed
  imports Kernel
begin

text \<open>
  The sealed format of src/internal/kernel/sealed: a stream is a header with a salt
  and then frames, each sealed by an AEAD under a key derived from the salt, the last
  one flagged. The AEAD (AES-GCM), the derivation (HKDF), SHA-256 and the JSON codec
  are library code: they are the record \<open>crypto\<close> and the arguments of the
  JSON functions, and what is relied on of them are the predicates \<open>is_cipher\<close> and
  \<open>unforged\<close> below. Bytes are characters, as in Go's \<open>[]byte(text)\<close>.
\<close>

section \<open>Hex\<close>

type_synonym bytes = string

definition hex_digit :: "nat \<Rightarrow> char" where
  "hex_digit n = (if n < 10 then char_of (48 + n) else char_of (87 + n))"

definition from_hex :: "char \<Rightarrow> nat option" where
  "from_hex c =
     (if is_digit c then Some (of_char c - 48)
      else if CHR ''a'' \<le> c \<and> c \<le> CHR ''f'' then Some (of_char c - 87)
      else if CHR ''A'' \<le> c \<and> c \<le> CHR ''F'' then Some (of_char c - 55)
      else None)"

definition hex_EncodeToString :: "bytes \<Rightarrow> string" where
  "hex_EncodeToString bs =
     concat (map (\<lambda>b. [hex_digit (of_char b div 16), hex_digit (of_char b mod 16)]) bs)"

fun hex_DecodeString :: "string \<Rightarrow> bytes option" where
  "hex_DecodeString [] = Some []"
| "hex_DecodeString [c] = None"
| "hex_DecodeString (h # l # rest) =
     (case (from_hex h, from_hex l) of
        (Some x, Some y) \<Rightarrow> map_option (\<lambda>bs. char_of (16 * x + y) # bs) (hex_DecodeString rest)
      | _ \<Rightarrow> None)"

lemma from_hex_digit: "n < 16 \<Longrightarrow> from_hex (hex_digit n) = Some n"
proof -
  have "\<forall>n\<in>set [0..<16]. from_hex (hex_digit n) = Some n" by code_simp
  then show "n < 16 \<Longrightarrow> from_hex (hex_digit n) = Some n" by simp
qed

lemma hex_roundtrip [simp]: "hex_DecodeString (hex_EncodeToString bs) = Some bs"
proof (induction bs)
  case (Cons b bs)
  have "of_char b div 16 < (16 :: nat)" "of_char b mod 16 < (16 :: nat)"
    using nat_of_char_less_256 [of b] by (simp_all add: less_mult_imp_div_less)
  moreover have "char_of (16 * (of_char b div 16) + of_char b mod 16 :: nat) = b"
    by (simp only: mult_div_mod_eq) simp
  ultimately show ?case
    using Cons by (simp add: hex_EncodeToString_def from_hex_digit)
qed (simp add: hex_EncodeToString_def)

lemma length_hex [simp]: "length (hex_EncodeToString bs) = 2 * length bs"
  by (induction bs) (simp_all add: hex_EncodeToString_def)

section \<open>Keys\<close>

record aead =
  aead_Seal :: "bytes \<Rightarrow> bytes \<Rightarrow> bytes \<Rightarrow> bytes"
  aead_Open :: "bytes \<Rightarrow> bytes \<Rightarrow> bytes \<Rightarrow> bytes option"

text \<open>\<open>frame_cipher secret salt\<close> is AES-GCM under the key HKDF derives.\<close>

record crypto =
  Sum256 :: "bytes \<Rightarrow> bytes"
  frame_cipher :: "bytes \<Rightarrow> bytes \<Rightarrow> aead"

abbreviation (input) KeyBytes :: nat where "KeyBytes \<equiv> 32"
abbreviation (input) FrameSize :: nat where "FrameSize \<equiv> 65536"
abbreviation (input) saltBytes :: nat where "saltBytes \<equiv> 16"
abbreviation (input) tagBytes :: nat where "tagBytes \<equiv> 16"
abbreviation (input) sealed_version :: nat where "sealed_version \<equiv> 1"
abbreviation (input) magic :: bytes where "magic \<equiv> ''MSBK''"

type_synonym key = bytes

datatype sealed_error = ErrCorrupt | ErrTruncated | ErrVersion | ErrNotHex | ErrKeyLength
  | Sealed_ErrNoKey | Sealed_ErrKeyMissing | ErrJSON

definition ParseKey :: "string \<Rightarrow> sealed_error + key" where
  "ParseKey txt =
     (case hex_DecodeString (trim_space txt) of
        None \<Rightarrow> Inl ErrNotHex
      | Some raw \<Rightarrow> if length raw \<noteq> KeyBytes then Inl ErrKeyLength else Inr raw)"

definition key_ID :: "crypto \<Rightarrow> key \<Rightarrow> string" where
  "key_ID C k = hex_EncodeToString (take 8 (Sum256 C k))"

definition frameKey :: "crypto \<Rightarrow> key \<Rightarrow> bytes \<Rightarrow> aead" where
  "frameKey C k salt = frame_cipher C k salt"

definition nonceFor :: "64 word \<Rightarrow> bytes" where
  "nonceFor frame =
     replicate 4 (char_of (0 :: nat)) @
     map (\<lambda>i. char_of (unat (drop_bit (8 * i) frame) mod 256)) [7, 6, 5, 4, 3, 2, 1, 0]"

section \<open>Sealing a stream\<close>

definition flag_byte :: "bool \<Rightarrow> bytes" where
  "flag_byte final = [char_of (if final then 1 else 0 :: nat)]"

text \<open>
  The loop of \<open>Seal\<close>. \<open>io.ReadFull\<close> fills a whole frame without an error, even
  when nothing follows it; the frame that meets the end is shorter, maybe empty, and
  is the last.
\<close>

function seal_frames :: "aead \<Rightarrow> 64 word \<Rightarrow> bytes \<Rightarrow> bytes" where
  "seal_frames A frame src =
     (let plain = take FrameSize src
      in if length plain < FrameSize then aead_Seal A (nonceFor frame) plain (flag_byte True)
         else aead_Seal A (nonceFor frame) plain (flag_byte False) @
              seal_frames A (frame + 1) (drop FrameSize src))"
  by pat_completeness auto
termination by (relation "measure (\<lambda>(_, _, src). length src)") auto

declare seal_frames.simps [simp del]

definition sealed_header :: "bytes \<Rightarrow> bytes" where
  "sealed_header salt = magic @ [char_of sealed_version] @ salt"

definition Seal :: "crypto \<Rightarrow> bytes \<Rightarrow> bytes \<Rightarrow> key \<Rightarrow> bytes \<times> int" where
  "Seal C salt src k =
     (sealed_header salt @ seal_frames (frameKey C k salt) 0 src, int (length src))"

section \<open>Opening a stream\<close>

record opener =
  op_src :: bytes
  op_aead :: aead
  op_frame :: "64 word"
  op_unread :: bytes
  op_done :: bool

definition unseal :: "opener \<Rightarrow> bytes \<Rightarrow> bool \<Rightarrow> sealed_error + opener" where
  "unseal op buf final =
     (case aead_Open (op_aead op) (nonceFor (op_frame op)) buf (flag_byte final) of
        None \<Rightarrow> Inl ErrCorrupt
      | Some opened \<Rightarrow>
          Inr (op\<lparr>op_frame := op_frame op + 1, op_unread := opened, op_done := final\<rparr>))"

definition opener_next :: "opener \<Rightarrow> sealed_error + opener" where
  "opener_next op0 =
     (let buf = take (FrameSize + tagBytes) (op_src op0);
          op = op0\<lparr>op_src := drop (FrameSize + tagBytes) (op_src op0)\<rparr>;
          short = length buf < FrameSize + tagBytes
      in if buf = [] then Inl ErrTruncated
         else if length buf < tagBytes then Inl ErrTruncated
         else case unseal op buf short of
                Inl e \<Rightarrow> if short then Inl e else unseal op buf True
              | Inr op' \<Rightarrow> Inr op')"

lemma unseal_src: "unseal op buf lst = Inr op' \<Longrightarrow> op_src op' = op_src op"
  by (auto simp: unseal_def split: option.splits)

lemma opener_next_shrinks: "opener_next op = Inr op' \<Longrightarrow> length (op_src op') < length (op_src op)"
  by (auto simp: opener_next_def Let_def dest!: unseal_src split: if_splits sum.splits)

text \<open>\<open>io.ReadAll\<close> on the opener: \<open>Read\<close> takes frames until one is the last.\<close>

function read_all :: "opener \<Rightarrow> sealed_error + bytes" where
  "read_all op =
     (if op_done op then Inr []
      else case opener_next op of
             Inl e \<Rightarrow> Inl e
           | Inr op' \<Rightarrow> bindR (read_all op') (\<lambda>rest. Inr (op_unread op' @ rest)))"
  by pat_completeness auto
termination by (relation "measure (\<lambda>op. length (op_src op))") (auto dest: opener_next_shrinks)

declare read_all.simps [simp del]

definition Open :: "crypto \<Rightarrow> bytes \<Rightarrow> key \<Rightarrow> sealed_error + opener" where
  "Open C src k =
     (let header = take (length magic + 1 + saltBytes) src
      in if length header < length magic + 1 + saltBytes then Inl ErrTruncated
         else if take (length magic) header \<noteq> magic then Inl ErrCorrupt
         else if header ! length magic \<noteq> char_of sealed_version then Inl ErrVersion
         else Inr \<lparr>op_src = drop (length magic + 1 + saltBytes) src,
                   op_aead = frameKey C k (drop (length magic + 1) header),
                   op_frame = 0, op_unread = [], op_done = False\<rparr>)"

section \<open>Keyrings and sealed values\<close>

text \<open>A keyring is nil when the control plane was started without keys.\<close>

record ring =
  ring_active :: "key option"
  ring_byID :: "string \<rightharpoonup> key"

definition NewKeyring :: "crypto \<Rightarrow> key list \<Rightarrow> ring" where
  "NewKeyring C ks =
     \<lparr>ring_active = (case ks of [] \<Rightarrow> None | k # _ \<Rightarrow> Some k),
      ring_byID = fold (\<lambda>k m. m(key_ID C k \<mapsto> k)) ks Map.empty\<rparr>"

definition ring_Active :: "ring option \<Rightarrow> key option" where
  "ring_Active r = (case r of None \<Rightarrow> None | Some x \<Rightarrow> ring_active x)"

definition Sealing :: "ring option \<Rightarrow> bool" where
  "Sealing r \<longleftrightarrow> ring_Active r \<noteq> None"

definition ring_ActiveID :: "crypto \<Rightarrow> ring option \<Rightarrow> string" where
  "ring_ActiveID C r = (case ring_Active r of None \<Rightarrow> [] | Some k \<Rightarrow> key_ID C k)"

definition ring_Find :: "ring option \<Rightarrow> string \<Rightarrow> key option" where
  "ring_Find r kid = (case r of None \<Rightarrow> None | Some x \<Rightarrow> ring_byID x kid)"

definition SealBytes :: "crypto \<Rightarrow> bytes \<Rightarrow> bytes \<Rightarrow> key \<Rightarrow> string" where
  "SealBytes C salt plaintext k = hex_EncodeToString (fst (Seal C salt plaintext k))"

definition OpenBytes :: "crypto \<Rightarrow> string \<Rightarrow> key \<Rightarrow> sealed_error + bytes" where
  "OpenBytes C txt k =
     (case hex_DecodeString txt of
        None \<Rightarrow> Inl ErrNotHex
      | Some raw \<Rightarrow> bindR (Open C raw k) read_all)"

definition SealJSON ::
    "crypto \<Rightarrow> ('v \<Rightarrow> bytes) \<Rightarrow> bytes \<Rightarrow> 'v \<Rightarrow> ring option \<Rightarrow> sealed_error + string \<times> string" where
  "SealJSON C marshal salt v r =
     (case ring_Active r of
        None \<Rightarrow> Inl Sealed_ErrNoKey
      | Some k \<Rightarrow> Inr (SealBytes C salt (marshal v) k, ring_ActiveID C r))"

definition OpenJSON ::
    "crypto \<Rightarrow> (bytes \<Rightarrow> 'v option) \<Rightarrow> 'v \<Rightarrow> string \<Rightarrow> string \<Rightarrow> ring option \<Rightarrow> sealed_error + 'v" where
  "OpenJSON C unmarshal zero blob keyID r =
     (if blob = [] then Inr zero
      else case ring_Find r keyID of
             None \<Rightarrow> Inl Sealed_ErrKeyMissing
           | Some k \<Rightarrow> bindR (OpenBytes C blob k) (\<lambda>plain.
                 case unmarshal plain of None \<Rightarrow> Inl ErrJSON | Some v \<Rightarrow> Inr v))"

section \<open>The frames of a stream\<close>

text \<open>Frame \<open>j\<close> of a plaintext, and which one is the last.\<close>

definition frame_of :: "bytes \<Rightarrow> nat \<Rightarrow> bytes" where
  "frame_of src j = take FrameSize (drop (j * FrameSize) src)"

definition last_frame :: "bytes \<Rightarrow> nat" where
  "last_frame src = length src div FrameSize"

lemma byte_bit: "bit w n \<longleftrightarrow> bit (unat (drop_bit (8 * (n div 8)) w) mod 256) (n mod 8)" for w :: "'a::len word"
proof -
  let ?v = "drop_bit (8 * (n div 8)) w"
  have "unat ?v mod 256 = take_bit 8 (unat ?v)" by (simp add: take_bit_eq_mod)
  then have "bit (unat ?v mod 256) (n mod 8) \<longleftrightarrow> bit (unat ?v) (n mod 8)"
    by (simp add: bit_take_bit_iff)
  also have "\<dots> \<longleftrightarrow> bit ?v (n mod 8)" by (simp add: bit_unsigned_iff)
  also have "\<dots> \<longleftrightarrow> bit w (8 * (n div 8) + n mod 8)" by (simp only: bit_drop_bit_eq comp_def)
  also have "8 * (n div 8) + n mod 8 = n" by simp
  finally show ?thesis by simp
qed

lemma nonceFor_inj:
  assumes "nonceFor x = nonceFor y"
  shows "x = y"
proof (rule bit_word_eqI)
  fix n
  assume "n < LENGTH(64)"
  then have i: "n div 8 \<in> set [7, 6, 5, 4, 3, 2, 1, 0 :: nat]" by simp linarith
  have "\<forall>i\<in>set [7, 6, 5, 4, 3, 2, 1, 0].
      char_of (unat (drop_bit (8 * i) x) mod 256) = (char_of (unat (drop_bit (8 * i) y) mod 256) :: char)"
    using assms unfolding nonceFor_def by (simp only: same_append_eq map_eq_conv)
  from bspec [OF this i]
  have "unat (drop_bit (8 * (n div 8)) x) mod 256 = unat (drop_bit (8 * (n div 8)) y) mod 256"
    by (simp only: char_of_quasi_inj mod_mod_trivial)
  then show "bit x n \<longleftrightarrow> bit y n" using byte_bit [of x n] byte_bit [of y n] by simp
qed

lemma nonceFor_nat_inj:
  assumes "nonceFor (of_nat j) = nonceFor (of_nat k)" "j < 2 ^ 64" "k < 2 ^ 64"
  shows "j = k"
proof -
  have "(of_nat j :: 64 word) = of_nat k" by (rule nonceFor_inj [OF assms(1)])
  then have "unat (of_nat j :: 64 word) = unat (of_nat k :: 64 word)" by simp
  then show ?thesis using assms(2,3) by (simp add: unat_of_nat take_bit_nat_eq_self)
qed

section \<open>What the cipher promises\<close>

text \<open>
  AES-GCM opens what it sealed under the same nonce and associated data, and adds a
  tag of 16 bytes.
\<close>

definition is_cipher :: "aead \<Rightarrow> bool" where
  "is_cipher A \<longleftrightarrow>
     (\<forall>n p ad. aead_Open A n (aead_Seal A n p ad) ad = Some p \<and>
               length (aead_Seal A n p ad) = length p + tagBytes)"

lemma unseal_sealed:
  assumes "is_cipher A" "op_aead op = A" "buf = aead_Seal A (nonceFor (op_frame op)) p (flag_byte fin)"
  shows "unseal op buf fin = Inr (op\<lparr>op_frame := op_frame op + 1, op_unread := p, op_done := fin\<rparr>)"
  using assms by (simp add: unseal_def is_cipher_def)

lemma read_frames:
  assumes A: "is_cipher A"
  shows "op_aead op = A \<Longrightarrow> op_src op = seal_frames A (op_frame op) src \<Longrightarrow> \<not> op_done op \<Longrightarrow>
   read_all op = Inr src"
proof (induction "length src" arbitrary: op src rule: less_induct)
  case less
  have Seal_length: "length (aead_Seal A n p ad) = length p + tagBytes" for n p ad
    using A by (simp add: is_cipher_def)
  let ?box = "\<lambda>fin. aead_Seal A (nonceFor (op_frame op)) (take FrameSize src) (flag_byte fin)"
  show ?case
  proof (cases "length src < FrameSize")
    case True
    then have "op_src op = ?box True" using less.prems(2) by (simp add: seal_frames.simps Let_def)
    moreover have "length (?box True) < FrameSize + tagBytes" "tagBytes \<le> length (?box True)"
      using True by (simp_all add: Seal_length)
    ultimately have "opener_next op =
        unseal (op\<lparr>op_src := []\<rparr>) (?box True) True"
      by (auto simp: opener_next_def Let_def split: sum.splits)
    also have "\<dots> = Inr (op\<lparr>op_src := [], op_frame := op_frame op + 1, op_unread := src, op_done := True\<rparr>)"
      using True less.prems(1) by (subst unseal_sealed [OF A, where p = src]) simp_all
    finally show ?thesis
      using less.prems(3) by (subst read_all.simps) (simp add: read_all.simps)
  next
    case False
    let ?rest = "seal_frames A (op_frame op + 1) (drop FrameSize src)"
    from False have "op_src op = ?box False @ ?rest"
      using less.prems(2) by (subst (asm) seal_frames.simps) (simp add: Let_def)
    moreover have len: "length (?box False) = FrameSize + tagBytes"
      using False by (simp add: Seal_length)
    ultimately have "opener_next op = (case unseal (op\<lparr>op_src := ?rest\<rparr>) (?box False) False of
        Inl e \<Rightarrow> unseal (op\<lparr>op_src := ?rest\<rparr>) (?box False) True | Inr op' \<Rightarrow> Inr op')"
      by (auto simp: opener_next_def Let_def split: sum.splits)
    also have "unseal (op\<lparr>op_src := ?rest\<rparr>) (?box False) False =
        Inr (op\<lparr>op_src := ?rest, op_frame := op_frame op + 1, op_unread := take FrameSize src, op_done := False\<rparr>)"
      using less.prems(1) by (subst unseal_sealed [OF A, where p = "take FrameSize src"]) simp_all
    finally have step: "opener_next op =
        Inr (op\<lparr>op_src := ?rest, op_frame := op_frame op + 1, op_unread := take FrameSize src, op_done := False\<rparr>)"
      by simp
    have "length (drop FrameSize src) < length src" using False by simp
    from less.hyps [OF this, of "op\<lparr>op_src := ?rest, op_frame := op_frame op + 1,
        op_unread := take FrameSize src, op_done := False\<rparr>"]
    have "read_all (op\<lparr>op_src := ?rest, op_frame := op_frame op + 1, op_unread := take FrameSize src,
        op_done := False\<rparr>) = Inr (drop FrameSize src)"
      using less.prems(1) by simp
    then show ?thesis
      using less.prems(3) step by (subst read_all.simps) simp
  qed
qed

lemma Open_sealed_header:
  assumes "length salt = saltBytes"
  shows "Open C (sealed_header salt @ body) k =
    Inr \<lparr>op_src = body, op_aead = frameKey C k salt, op_frame = 0, op_unread = [], op_done = False\<rparr>"
  using assms by (simp add: Open_def sealed_header_def Let_def)

section \<open>Round trip\<close>

lemma open_sealed:
  assumes "is_cipher (frame_cipher C k salt)" "length salt = saltBytes"
  shows "bindR (Open C (fst (Seal C salt src k)) k) read_all = Inr src"
  using read_frames [OF assms(1)] assms(2)
  by (simp add: Seal_def Open_sealed_header frameKey_def)

lemma OpenBytes_SealBytes:
  assumes "is_cipher (frame_cipher C k salt)" "length salt = saltBytes"
  shows "OpenBytes C (SealBytes C salt src k) k = Inr src"
  using open_sealed [OF assms] by (simp add: OpenBytes_def SealBytes_def)

lemma SealBytes_nonempty: "SealBytes C salt src k \<noteq> []"
  by (simp add: SealBytes_def Seal_def sealed_header_def hex_EncodeToString_def)

lemma ring_holds:
  assumes "inj_on (key_ID C) (set ks)" "k \<in> set ks"
  shows "ring_byID (NewKeyring C ks) (key_ID C k) = Some k"
proof -
  have "fold (\<lambda>k m. m(key_ID C k \<mapsto> k)) ks m (key_ID C k) =
      (if k \<in> set ks then Some k else m (key_ID C k))"
    if "inj_on (key_ID C) (insert k (set ks))" for m k ks
    using that
  proof (induction ks arbitrary: m)
    case (Cons a ks)
    have "inj_on (key_ID C) (insert k (set ks))" using Cons.prems by (auto simp: inj_on_def)
    moreover have "key_ID C k = key_ID C a \<longleftrightarrow> k = a" using Cons.prems by (auto simp: inj_on_def)
    ultimately show ?case using Cons.IH by auto
  qed simp
  from this [of k ks Map.empty] show ?thesis using assms by (simp add: NewKeyring_def insert_absorb)
qed

text \<open>
  C13: what was sealed can be opened after keys are rotated. A value sealed with the
  first key of one keyring is read back, whatever its size, with any later keyring
  that still holds that key under its id, whichever key is then active.
\<close>

theorem sealed_survives_rotation:
  assumes cipher: "is_cipher (frame_cipher C k salt)" and salt: "length salt = saltBytes"
    and json: "unmarshal (marshal v) = Some v"
    and ids: "inj_on (key_ID C) (set later)" and held: "k \<in> set later"
  shows "\<exists>blob. SealJSON C marshal salt v (Some (NewKeyring C (k # ks))) = Inr (blob, key_ID C k) \<and>
    OpenJSON C unmarshal zero blob (key_ID C k) (Some (NewKeyring C later)) = Inr v"
proof -
  have "ring_Active (Some (NewKeyring C (k # ks))) = Some k" by (simp add: ring_Active_def NewKeyring_def)
  then have "SealJSON C marshal salt v (Some (NewKeyring C (k # ks))) =
      Inr (SealBytes C salt (marshal v) k, key_ID C k)"
    by (simp add: SealJSON_def ring_ActiveID_def)
  moreover have "ring_Find (Some (NewKeyring C later)) (key_ID C k) = Some k"
    using ring_holds [OF ids held] by (simp add: ring_Find_def)
  ultimately show ?thesis
    using OpenBytes_SealBytes [OF cipher salt] json by (simp add: OpenJSON_def SealBytes_nonempty)
qed

section \<open>Integrity\<close>

text \<open>
  The calls of the cipher that sealing a stream makes, one per frame: nonce, flag and
  plaintext. They follow the loop of \<open>Seal\<close>, and its output is their boxes.
\<close>

function seal_calls :: "64 word \<Rightarrow> bytes \<Rightarrow> (bytes \<times> bytes \<times> bytes) list" where
  "seal_calls frame src =
     (let plain = take FrameSize src
      in if length plain < FrameSize then [(nonceFor frame, flag_byte True, plain)]
         else (nonceFor frame, flag_byte False, plain) # seal_calls (frame + 1) (drop FrameSize src))"
  by pat_completeness auto
termination by (relation "measure (\<lambda>(_, src). length src)") auto

declare seal_calls.simps [simp del]

lemma seal_frames_calls:
  "seal_frames A frame src = concat (map (\<lambda>(n, ad, p). aead_Seal A n p ad) (seal_calls frame src))"
  by (induction frame src rule: seal_calls.induct)
    (subst seal_frames.simps, subst seal_calls.simps, simp add: Let_def)

text \<open>The boxes of a stream of bytes as the opener cuts them out.\<close>

function boxes_of :: "bytes \<Rightarrow> bytes list" where
  "boxes_of body =
     (if body = [] then [] else take (FrameSize + tagBytes) body # boxes_of (drop (FrameSize + tagBytes) body))"
  by pat_completeness auto
termination by (relation "measure length") auto

declare boxes_of.simps [simp del]

text \<open>
  A body holds no forgery when each of its boxes that opens as some frame is the box that
  sealing made for that frame. This is what authenticated encryption promises of every
  body somebody makes without the key, who may have seen the sealed stream and can cut,
  drop, repeat, swap and change its boxes: he finds no new box that opens. The key of the
  frames is derived from a fresh salt, so it seals this one stream.
\<close>

definition unforged :: "aead \<Rightarrow> (bytes \<times> bytes \<times> bytes) list \<Rightarrow> bytes \<Rightarrow> bool" where
  "unforged A calls body \<longleftrightarrow>
     (\<forall>box\<in>set (boxes_of body). \<forall>frame final p.
        aead_Open A (nonceFor frame) box (flag_byte final) = Some p \<longrightarrow>
        (\<exists>q. (nonceFor frame, flag_byte final, q) \<in> set calls \<and> box = aead_Seal A (nonceFor frame) q (flag_byte final)))"

lemma unforged_first:
  assumes "unforged A calls body" "body \<noteq> []" "is_cipher A"
    and "aead_Open A (nonceFor frame) (take (FrameSize + tagBytes) body) (flag_byte final) = Some p"
  shows "(nonceFor frame, flag_byte final, p) \<in> set calls"
proof -
  have "take (FrameSize + tagBytes) body \<in> set (boxes_of body)" using assms(2) by (subst boxes_of.simps) simp
  with assms(1,4) obtain q where q: "(nonceFor frame, flag_byte final, q) \<in> set calls"
    "take (FrameSize + tagBytes) body = aead_Seal A (nonceFor frame) q (flag_byte final)"
    unfolding unforged_def by blast
  with assms(3,4) have "p = q" by (simp add: is_cipher_def)
  with q show ?thesis by simp
qed

lemma unforged_rest:
  assumes "unforged A calls body"
  shows "unforged A calls (drop (FrameSize + tagBytes) body)"
proof (cases "body = []")
  case False
  then have "set (boxes_of (drop (FrameSize + tagBytes) body)) \<subseteq> set (boxes_of body)"
    by (subst (2) boxes_of.simps) auto
  with assms show ?thesis unfolding unforged_def by blast
qed (use assms in simp)

lemma frame_of_drop: "frame_of (drop FrameSize src) j = frame_of src (Suc j)"
  by (simp add: frame_of_def add.commute)

lemma last_frame_drop: "FrameSize \<le> length src \<Longrightarrow> last_frame src = Suc (last_frame (drop FrameSize src))"
  by (simp add: last_frame_def le_div_geq)

lemma seal_calls_frame:
  "(n, ad, p) \<in> set (seal_calls frame src) \<Longrightarrow>
   \<exists>j\<le>last_frame src. n = nonceFor (frame + of_nat j) \<and> ad = flag_byte (j = last_frame src) \<and> p = frame_of src j"
proof (induction frame src rule: seal_calls.induct)
  case (1 frame src)
  show ?case
  proof (cases "length src < FrameSize")
    case True
    then have "n = nonceFor frame" "ad = flag_byte True" "p = src" "last_frame src = 0"
      using "1.prems" by (simp_all add: seal_calls.simps [of frame src] Let_def last_frame_def)
    then show ?thesis using True by (intro exI [of _ 0]) (simp add: frame_of_def)
  next
    case False
    then have "(n, ad, p) = (nonceFor frame, flag_byte False, take FrameSize src) \<or>
        (n, ad, p) \<in> set (seal_calls (frame + 1) (drop FrameSize src))"
      using "1.prems" by (simp add: seal_calls.simps [of frame src] Let_def)
    then show ?thesis
    proof
      assume "(n, ad, p) = (nonceFor frame, flag_byte False, take FrameSize src)"
      then show ?thesis using False by (intro exI [of _ 0]) (simp add: frame_of_def last_frame_drop)
    next
      assume "(n, ad, p) \<in> set (seal_calls (frame + 1) (drop FrameSize src))"
      from "1.IH" [OF refl _ this] False obtain j where "j \<le> last_frame (drop FrameSize src)"
        "n = nonceFor (frame + 1 + of_nat j)" "ad = flag_byte (j = last_frame (drop FrameSize src))"
        "p = frame_of (drop FrameSize src) j" by auto
      then show ?thesis using False
        by (intro exI [of _ "Suc j"]) (simp add: last_frame_drop frame_of_drop ac_simps)
    qed
  qed
qed

lemma flag_byte_inj: "flag_byte x = flag_byte y \<longleftrightarrow> x = y"
  by (simp add: flag_byte_def)

lemma next_genuine:
  assumes A: "is_cipher A" and good: "unforged A (seal_calls 0 src) (op_src op)"
    and small: "last_frame src < 2 ^ 64" and k: "k \<le> last_frame src"
    and op: "op_aead op = A" "op_frame op = of_nat k" and run: "opener_next op = Inr op'"
  shows "op_aead op' = A \<and> op_frame op' = of_nat (Suc k) \<and> op_unread op' = frame_of src k \<and>
    op_done op' = (k = last_frame src) \<and> unforged A (seal_calls 0 src) (op_src op')"
proof -
  let ?buf = "take (FrameSize + tagBytes) (op_src op)" and ?rest = "drop (FrameSize + tagBytes) (op_src op)"
  from run have ne: "op_src op \<noteq> []" by (auto simp: opener_next_def Let_def)
  from run obtain fin where "unseal (op\<lparr>op_src := ?rest\<rparr>) ?buf fin = Inr op'"
    by (auto simp: opener_next_def Let_def split: if_splits sum.splits)
  then obtain p where p: "aead_Open A (nonceFor (of_nat k)) ?buf (flag_byte fin) = Some p"
    and op': "op' = op\<lparr>op_src := ?rest, op_frame := op_frame op + 1, op_unread := p, op_done := fin\<rparr>"
    using op by (auto simp: unseal_def split: option.splits)
  from seal_calls_frame [OF unforged_first [OF good ne A p]] obtain j where j: "j \<le> last_frame src"
      "nonceFor (of_nat k) = nonceFor (of_nat j)" "flag_byte fin = flag_byte (j = last_frame src)" "p = frame_of src j"
    by auto
  have "k = j" by (rule nonceFor_nat_inj [OF j(2)]) (use k j(1) small in simp_all)
  then show ?thesis using j op op' unforged_rest [OF good] by (simp add: flag_byte_inj)
qed

lemma drop_last_frame: "drop (last_frame src * FrameSize) src = frame_of src (last_frame src)"
proof -
  have "length (drop (last_frame src * FrameSize) src) = length src mod FrameSize"
    by (simp add: last_frame_def minus_div_mult_eq_mod)
  then show ?thesis by (simp add: frame_of_def)
qed

lemma drop_frame: "frame_of src k @ drop (Suc k * FrameSize) src = drop (k * FrameSize) src"
proof -
  have "drop (Suc k * FrameSize) src = drop FrameSize (drop (k * FrameSize) src)" by (simp add: add.commute)
  then show ?thesis by (simp only: frame_of_def append_take_drop_id)
qed

lemma read_genuine:
  assumes A: "is_cipher A" and small: "last_frame src < 2 ^ 64"
  shows "unforged A (seal_calls 0 src) (op_src op) \<Longrightarrow> op_aead op = A \<Longrightarrow> op_frame op = of_nat k \<Longrightarrow> k \<le> last_frame src \<Longrightarrow> \<not> op_done op \<Longrightarrow>
    read_all op = Inr out \<Longrightarrow> out = drop (k * FrameSize) src"
proof (induction op arbitrary: k out rule: read_all.induct)
  case (1 op)
  obtain op' rest where nx: "opener_next op = Inr op'" and rd: "read_all op' = Inr rest"
    and out: "out = op_unread op' @ rest"
    using "1.prems"(5,6) by (subst (asm) read_all.simps) (auto simp: bindR_eq_Inr split: sum.splits)
  note gen = next_genuine [OF A "1.prems"(1) small "1.prems"(4,2,3) nx]
  show ?case
  proof (cases "k = last_frame src")
    case True
    then have "rest = []" using rd gen by (subst (asm) read_all.simps) simp
    then show ?thesis using out gen True drop_last_frame by simp
  next
    case False
    have "rest = drop (Suc k * FrameSize) src"
    proof (rule "1.IH" [OF "1.prems"(5) nx])
      show "unforged A (seal_calls 0 src) (op_src op')" "op_aead op' = A" "op_frame op' = of_nat (Suc k)" "\<not> op_done op'" using gen False by simp_all
      show "Suc k \<le> last_frame src" using False "1.prems"(4) by simp
      show "read_all op' = Inr rest" by (rule rd)
    qed
    then show ?thesis using out gen drop_frame [of src k] by simp
  qed
qed

text \<open>
  C12: a sealed stream that opens is the one that was sealed. Whatever happened to
  the bytes after the header, boxes cut off, dropped, repeated, swapped or changed, as
  long as no box was forged, reading the stream to its end either fails or returns
  exactly the plaintext. The cipher opens what it sealed, and the plaintext is shorter
  than the counter of frames can count.
\<close>

theorem opened_stream_is_genuine:
  assumes cipher: "is_cipher (frame_cipher C k salt)" and salt: "length salt = saltBytes"
    and small: "length src < 2 ^ 80"
    and body: "unforged (frame_cipher C k salt) (seal_calls 0 src) body"
    and opened: "bindR (Open C (sealed_header salt @ body) k) read_all = Inr out"
  shows "out = src"
proof -
  have "last_frame src < 2 ^ 64"
    using small by (simp add: last_frame_def less_mult_imp_div_less)
  moreover have "read_all \<lparr>op_src = body, op_aead = frameKey C k salt, op_frame = 0, op_unread = [],
      op_done = False\<rparr> = Inr out"
    using opened salt by (simp add: Open_sealed_header)
  ultimately have "out = drop (0 * FrameSize) src"
    using read_genuine [OF cipher, where op = "\<lparr>op_src = body, op_aead = frameKey C k salt, op_frame = 0,
      op_unread = [], op_done = False\<rparr>" and k = 0 and out = out] body by (simp add: frameKey_def)
  then show ?thesis by simp
qed

section \<open>Concrete streams\<close>

text \<open>A cipher that only marks its boxes, and two keys told apart by their first bytes.\<close>

definition mark :: "bytes \<Rightarrow> bytes \<Rightarrow> bytes" where
  "mark n ad = take tagBytes (ad @ n @ replicate tagBytes CHR ''.'')"

definition marking :: aead where
  "marking =
     \<lparr>aead_Seal = (\<lambda>n p ad. p @ mark n ad),
      aead_Open = (\<lambda>n box ad. if drop (length box - tagBytes) box = mark n ad
                              then Some (take (length box - tagBytes) box) else None)\<rparr>"

definition marked_crypto :: crypto where
  "marked_crypto = \<lparr>Sum256 = (\<lambda>k. k), frame_cipher = (\<lambda>_ _. marking)\<rparr>"

lemma marking_cipher: "is_cipher (frame_cipher marked_crypto k salt)"
  by (auto simp: is_cipher_def marking_def marked_crypto_def mark_def min_def)

theorem sealed_survives_rotation_witness:
  "\<exists>blob. SealJSON marked_crypto (\<lambda>v. v) ''0123456789abcdef'' ''env''
       (Some (NewKeyring marked_crypto [''first-key''])) = Inr (blob, key_ID marked_crypto ''first-key'') \<and>
     OpenJSON marked_crypto Some [] blob (key_ID marked_crypto ''first-key'')
       (Some (NewKeyring marked_crypto [''newer-key'', ''first-key''])) = Inr ''env''"
proof -
  have "key_ID marked_crypto ''newer-key'' \<noteq> key_ID marked_crypto ''first-key''" by code_simp
  then have "inj_on (key_ID marked_crypto) (set [''newer-key'', ''first-key''])"
    by (auto simp: inj_on_def)
  then show ?thesis
    by (intro sealed_survives_rotation [where unmarshal = Some and marshal = "\<lambda>v. v", OF marking_cipher]) simp_all
qed

text \<open>The box of one short frame: it opens as the last frame of number 0 and as no other.\<close>

definition one_box :: bytes where
  "one_box = ''hi'' @ mark (nonceFor 0) (flag_byte True)"

lemma mark_inj: "mark (nonceFor f) (flag_byte b) = mark (nonceFor g) (flag_byte c) \<Longrightarrow> f = g \<and> b = c"
proof -
  assume eq: "mark (nonceFor f) (flag_byte b) = mark (nonceFor g) (flag_byte c)"
  have mark: "mark (nonceFor h) (flag_byte d) = flag_byte d @ nonceFor h @ replicate 3 CHR ''.''" for h d
    by (simp add: mark_def flag_byte_def nonceFor_def)
  have "length (flag_byte b) = length (flag_byte c)" "length (nonceFor f) = length (nonceFor g)"
    by (simp_all add: flag_byte_def nonceFor_def)
  then have "flag_byte b = flag_byte c" "nonceFor f = nonceFor g" using eq unfolding mark by simp_all
  then show "f = g \<and> b = c" using nonceFor_inj [of f g] flag_byte_inj [of b c] by blast
qed

theorem opened_stream_is_genuine_witness:
  "bindR (Open marked_crypto (sealed_header ''0123456789abcdef'' @ one_box) ''key'') read_all = Inr ''hi''"
proof -
  let ?A = "frame_cipher marked_crypto ''key'' ''0123456789abcdef''"
  have len: "length (mark (nonceFor f) (flag_byte b)) = 16" for f b by (simp add: mark_def flag_byte_def nonceFor_def)
  then have box: "length one_box = 18" "one_box \<noteq> []" by (auto simp: one_box_def)
  then have "boxes_of one_box = [one_box]" by (simp add: boxes_of.simps)
  moreover have "seal_calls 0 ''hi'' = [(nonceFor 0, flag_byte True, ''hi'')]" by (simp add: seal_calls.simps)
  moreover have "mark (nonceFor 0) (flag_byte True) = mark (nonceFor f) (flag_byte b) \<Longrightarrow> f = 0 \<and> b" for f b
    using mark_inj [of 0 True f b] by simp
  ultimately have good: "unforged ?A (seal_calls 0 ''hi'') one_box"
    by (simp add: unforged_def marked_crypto_def marking_def one_box_def len) metis
  obtain out where out: "bindR (Open marked_crypto (sealed_header ''0123456789abcdef'' @ one_box) ''key'') read_all = Inr out"
    using box
    by (simp add: Open_sealed_header read_all.simps opener_next_def Let_def unseal_def frameKey_def marked_crypto_def
        marking_def one_box_def len)
  moreover have "out = ''hi''"
    by (rule opened_stream_is_genuine [OF marking_cipher _ _ good out]) simp_all
  ultimately show ?thesis by simp
qed

end
