(* ===== verification/Volumes.thy ===== *)
theory Volumes
  imports Interval Sealed
begin

text \<open>
  Volumes, their snapshots and snapshot schedules, src/internal/platform/volume:
  the tables volumes, snapshots and snapshot_schedules, every request on them, the
  reports of nodes, and the sweep of the schedules. Instances, quota and backups are
  interfaces on a world, as in the code; new ids, salts, raw keys, the text of an
  instant and the parser of durations are arguments.
\<close>

section \<open>Types\<close>

abbreviation (input) MinSizeGiB :: int where "MinSizeGiB \<equiv> 1"
abbreviation (input) MaxSizeGiB :: int where "MaxSizeGiB \<equiv> 4096"
abbreviation (input) SnapshotPending :: string where "SnapshotPending \<equiv> ''pending''"
abbreviation (input) SnapshotReady :: string where "SnapshotReady \<equiv> ''ready''"
abbreviation (input) SnapshotFailed :: string where "SnapshotFailed \<equiv> ''failed''"
abbreviation (input) MinEvery :: duration where "MinEvery \<equiv> minute"
abbreviation (input) MaxEvery :: duration where "MaxEvery \<equiv> 31536000000000000"
abbreviation (input) MinKeep :: int where "MinKeep \<equiv> 1"
abbreviation (input) MaxKeep :: int where "MaxKeep \<equiv> 365"

record volume =
  v_ID :: string
  v_ProjectID :: string
  v_Name :: string
  v_SizeGiB :: int
  v_NodeID :: string
  v_InstanceID :: string
  v_RestoreFrom :: string
  v_BackupID :: string
  v_CloneFrom :: string
  v_CloneSnap :: string
  v_Detaching :: bool
  v_Encrypted :: bool
  v_KeySealed :: string
  v_KeyID :: string
  v_CreatedAt :: go_time
  v_UpdatedAt :: go_time

record snapshot =
  sn_ID :: string
  sn_VolumeID :: string
  sn_Name :: string
  sn_State :: string
  sn_Message :: string
  sn_SizeBytes :: int
  sn_ScheduleID :: string
  sn_CreatedAt :: go_time

record node_report =
  rp_Detached :: bool
  rp_VolumeID :: string
  rp_Snapshots :: "(string \<times> int) list"
  rp_Restored :: string
  rp_Error :: string

datatype vol_State = StateFree | StateAttached | StateDetaching

definition volume_State :: "volume \<Rightarrow> vol_State" where
  "volume_State v =
     (if v_Detaching v then StateDetaching
      else if v_InstanceID v \<noteq> [] then StateAttached else StateFree)"

record vol_footprint =
  vf_Volumes :: int
  vf_SizeGiB :: int

record vol_create_params =
  vp_ProjectID :: string
  vp_Name :: string
  vp_SizeGiB :: int
  vp_BackupID :: string
  vp_Encrypted :: bool

record placement =
  pl_Observed :: string
  pl_InstanceID :: string
  pl_ProjectID :: string
  pl_NodeID :: string
  pl_Isolation :: string
  pl_Running :: bool

record schedule =
  sc_ID :: string
  sc_ProjectID :: string
  sc_VolumeID :: string
  sc_Every :: duration
  sc_Keep :: int
  sc_NextAt :: go_time
  sc_LastAt :: go_time
  sc_CreatedAt :: go_time
  sc_UpdatedAt :: go_time

record schedule_params =
  qp_ProjectID :: string
  qp_VolumeID :: string
  qp_Every :: string
  qp_Keep :: int

record vol_db =
  vol_rows :: "volume list"
  snap_rows :: "snapshot list"
  sched_rows :: "schedule list"

section \<open>Repository\<close>

datatype vol_error = vol_errNotFound | vol_errNameTaken | vol_errTaken

definition vol_translate :: "vol_error \<Rightarrow> fault" where
  "vol_translate e =
     (case e of
        vol_errNotFound \<Rightarrow> NotFound ''volume_not_found''
      | vol_errNameTaken \<Rightarrow> Conflict ''volume_name_taken''
      | vol_errTaken \<Rightarrow> Conflict ''volume_attached'')"

abbreviation tr :: "vol_error + 'a \<Rightarrow> 'a result" where
  "tr r \<equiv> (case r of Inl e \<Rightarrow> Inl (vol_translate e) | Inr a \<Rightarrow> Inr a)"

definition repo_vol_insert :: "vol_db \<Rightarrow> volume \<Rightarrow> (vol_error + unit) \<times> vol_db" where
  "repo_vol_insert db v =
     (if list_ex (\<lambda>u. v_ID u = v_ID v \<or> (v_ProjectID u = v_ProjectID v \<and> v_Name u = v_Name v)) (vol_rows db)
      then (Inl vol_errNameTaken, db)
      else (Inr (), db\<lparr>vol_rows := vol_rows db @ [v]\<rparr>))"

definition repo_vol_byID :: "vol_db \<Rightarrow> string \<Rightarrow> vol_error + volume" where
  "repo_vol_byID db vid =
     (case find (\<lambda>v. v_ID v = vid) (vol_rows db) of None \<Rightarrow> Inl vol_errNotFound | Some v \<Rightarrow> Inr v)"

definition repo_vol_byName :: "vol_db \<Rightarrow> string \<Rightarrow> string \<Rightarrow> vol_error + volume" where
  "repo_vol_byName db pid name =
     (case find (\<lambda>v. v_ProjectID v = pid \<and> v_Name v = name) (vol_rows db) of
        None \<Rightarrow> Inl vol_errNotFound | Some v \<Rightarrow> Inr v)"

definition repo_vol_footprintIn :: "vol_db \<Rightarrow> string \<Rightarrow> vol_footprint" where
  "repo_vol_footprintIn db pid =
     (let rows = filter (\<lambda>v. v_ProjectID v = pid) (vol_rows db)
      in \<lparr>vf_Volumes = int (length rows), vf_SizeGiB = sum_list (map v_SizeGiB rows)\<rparr>)"

definition repo_vol_onNode :: "vol_db \<Rightarrow> string \<Rightarrow> volume list" where
  "repo_vol_onNode db nid = sort_key v_Name (filter (\<lambda>v. v_NodeID v = nid) (vol_rows db))"

definition upd_vol :: "string \<Rightarrow> (volume \<Rightarrow> volume) \<Rightarrow> vol_db \<Rightarrow> vol_db" where
  "upd_vol vid f db = db\<lparr>vol_rows := update_where (\<lambda>v. v_ID v = vid) f (vol_rows db)\<rparr>"

definition repo_vol_attach ::
    "vol_db \<Rightarrow> string \<Rightarrow> string \<Rightarrow> string \<Rightarrow> go_time \<Rightarrow> (vol_error + unit) \<times> vol_db" where
  "repo_vol_attach db vid iid nid at =
     (if list_ex (\<lambda>v. v_ID v = vid \<and> v_InstanceID v = []) (vol_rows db)
      then (Inr (), db\<lparr>vol_rows := update_where (\<lambda>v. v_ID v = vid \<and> v_InstanceID v = [])
              (\<lambda>v. v\<lparr>v_InstanceID := iid, v_NodeID := nid, v_UpdatedAt := at\<rparr>) (vol_rows db)\<rparr>)
      else (Inl vol_errTaken, db))"

definition repo_vol_detach :: "vol_db \<Rightarrow> string \<Rightarrow> go_time \<Rightarrow> vol_db" where
  "repo_vol_detach db vid at =
     upd_vol vid (\<lambda>v. v\<lparr>v_InstanceID := [], v_Detaching := False, v_UpdatedAt := at\<rparr>) db"

definition repo_vol_detachInstance :: "vol_db \<Rightarrow> string \<Rightarrow> go_time \<Rightarrow> vol_db" where
  "repo_vol_detachInstance db iid at =
     db\<lparr>vol_rows := update_where (\<lambda>v. v_InstanceID v = iid)
          (\<lambda>v. v\<lparr>v_InstanceID := [], v_UpdatedAt := at\<rparr>) (vol_rows db)\<rparr>"

definition repo_vol_setRestore :: "vol_db \<Rightarrow> string \<Rightarrow> string \<Rightarrow> go_time \<Rightarrow> vol_db" where
  "repo_vol_setRestore db vid name at = upd_vol vid (\<lambda>v. v\<lparr>v_RestoreFrom := name, v_UpdatedAt := at\<rparr>) db"

definition repo_vol_setDetaching :: "vol_db \<Rightarrow> string \<Rightarrow> go_time \<Rightarrow> vol_db" where
  "repo_vol_setDetaching db vid at = upd_vol vid (\<lambda>v. v\<lparr>v_Detaching := True, v_UpdatedAt := at\<rparr>) db"

definition repo_vol_clearDetaching :: "vol_db \<Rightarrow> string \<Rightarrow> go_time \<Rightarrow> vol_db" where
  "repo_vol_clearDetaching db vid at = upd_vol vid (\<lambda>v. v\<lparr>v_Detaching := False, v_UpdatedAt := at\<rparr>) db"

definition repo_vol_setSize :: "vol_db \<Rightarrow> string \<Rightarrow> int \<Rightarrow> go_time \<Rightarrow> vol_db" where
  "repo_vol_setSize db vid sz at = upd_vol vid (\<lambda>v. v\<lparr>v_SizeGiB := sz, v_UpdatedAt := at\<rparr>) db"

definition repo_insertSnapshot :: "vol_db \<Rightarrow> snapshot \<Rightarrow> (vol_error + unit) \<times> vol_db" where
  "repo_insertSnapshot db s =
     (if list_ex (\<lambda>u. sn_ID u = sn_ID s \<or> (sn_VolumeID u = sn_VolumeID s \<and> sn_Name u = sn_Name s))
           (snap_rows db)
      then (Inl vol_errNameTaken, db)
      else (Inr (), db\<lparr>snap_rows := snap_rows db @ [s]\<rparr>))"

definition repo_snapshot :: "vol_db \<Rightarrow> string \<Rightarrow> vol_error + snapshot" where
  "repo_snapshot db sid =
     (case find (\<lambda>s. sn_ID s = sid) (snap_rows db) of None \<Rightarrow> Inl vol_errNotFound | Some s \<Rightarrow> Inr s)"

definition repo_snapshots :: "vol_db \<Rightarrow> string \<Rightarrow> snapshot list" where
  "repo_snapshots db vid =
     (if vid = [] then sort_key (\<lambda>s. (sn_VolumeID s, sn_Name s)) (snap_rows db)
      else sort_key sn_Name (filter (\<lambda>s. sn_VolumeID s = vid) (snap_rows db)))"

definition repo_markSnapshot :: "vol_db \<Rightarrow> string \<Rightarrow> string \<Rightarrow> string \<Rightarrow> int \<Rightarrow> vol_db" where
  "repo_markSnapshot db sid state message sz =
     db\<lparr>snap_rows := update_where (\<lambda>s. sn_ID s = sid)
          (\<lambda>s. s\<lparr>sn_State := state, sn_Message := message, sn_SizeBytes := sz\<rparr>) (snap_rows db)\<rparr>"

definition repo_deleteSnapshot :: "vol_db \<Rightarrow> string \<Rightarrow> (vol_error + unit) \<times> vol_db" where
  "repo_deleteSnapshot db sid =
     (if list_ex (\<lambda>s. sn_ID s = sid) (snap_rows db)
      then (Inr (), db\<lparr>snap_rows := filter (\<lambda>s. sn_ID s \<noteq> sid) (snap_rows db)\<rparr>)
      else (Inl vol_errNotFound, db))"

text \<open>The transaction is rolled back when there is no such volume.\<close>

definition repo_vol_delete :: "vol_db \<Rightarrow> string \<Rightarrow> (vol_error + unit) \<times> vol_db" where
  "repo_vol_delete db vid =
     (if list_ex (\<lambda>v. v_ID v = vid) (vol_rows db)
      then (Inr (), db\<lparr>vol_rows := filter (\<lambda>v. v_ID v \<noteq> vid) (vol_rows db),
                      snap_rows := filter (\<lambda>s. sn_VolumeID s \<noteq> vid) (snap_rows db)\<rparr>)
      else (Inl vol_errNotFound, db))"

subsection \<open>Schedules\<close>

text \<open>The interval is stored in whole seconds.\<close>

definition whole_seconds :: "duration \<Rightarrow> duration" where
  "whole_seconds d = go_div d second * second"

definition repo_upsertSchedule :: "vol_db \<Rightarrow> schedule \<Rightarrow> unit result \<times> vol_db" where
  "repo_upsertSchedule db sc =
     (if list_ex (\<lambda>q. sc_VolumeID q = sc_VolumeID sc) (sched_rows db)
      then (Inr (), db\<lparr>sched_rows := update_where (\<lambda>q. sc_VolumeID q = sc_VolumeID sc)
              (\<lambda>q. q\<lparr>sc_Every := whole_seconds (sc_Every sc), sc_Keep := sc_Keep sc,
                    sc_NextAt := sc_NextAt sc, sc_UpdatedAt := sc_UpdatedAt sc\<rparr>) (sched_rows db)\<rparr>)
      else if list_ex (\<lambda>q. sc_ID q = sc_ID sc) (sched_rows db) then (Inl Internal, db)
      else (Inr (), db\<lparr>sched_rows := sched_rows db @ [sc\<lparr>sc_Every := whole_seconds (sc_Every sc)\<rparr>]\<rparr>))"

definition repo_scheduleOf :: "vol_db \<Rightarrow> string \<Rightarrow> vol_error + schedule" where
  "repo_scheduleOf db vid =
     (case find (\<lambda>q. sc_VolumeID q = vid) (sched_rows db) of None \<Rightarrow> Inl vol_errNotFound | Some q \<Rightarrow> Inr q)"

definition repo_deleteSchedule :: "vol_db \<Rightarrow> string \<Rightarrow> vol_db" where
  "repo_deleteSchedule db vid = db\<lparr>sched_rows := filter (\<lambda>q. sc_VolumeID q \<noteq> vid) (sched_rows db)\<rparr>"

definition repo_schedulesIn :: "vol_db \<Rightarrow> string \<Rightarrow> schedule list" where
  "repo_schedulesIn db pid =
     sort_key (\<lambda>q. stamp_key (sc_CreatedAt q)) (filter (\<lambda>q. sc_ProjectID q = pid) (sched_rows db))"

definition repo_schedulesDue :: "vol_db \<Rightarrow> go_time \<Rightarrow> schedule list" where
  "repo_schedulesDue db now =
     sort_key (\<lambda>q. stamp_key (sc_NextAt q))
       (filter (\<lambda>q. stamp_key (sc_NextAt q) \<le> stamp_key now) (sched_rows db))"

definition repo_markScheduleFired :: "vol_db \<Rightarrow> string \<Rightarrow> go_time \<Rightarrow> go_time \<Rightarrow> vol_db" where
  "repo_markScheduleFired db qid at nxt =
     db\<lparr>sched_rows := update_where (\<lambda>q. sc_ID q = qid)
          (\<lambda>q. q\<lparr>sc_LastAt := at, sc_NextAt := nxt, sc_UpdatedAt := at\<rparr>) (sched_rows db)\<rparr>"

definition repo_pendingSnapshotsForVolume :: "vol_db \<Rightarrow> string \<Rightarrow> int" where
  "repo_pendingSnapshotsForVolume db vid =
     int (length (filter (\<lambda>s. sn_VolumeID s = vid \<and> sn_State s = SnapshotPending) (snap_rows db)))"

text \<open>\<open>ORDER BY created_at DESC\<close>; rows of one instant keep the order of the table.\<close>

definition repo_snapshotsBySchedule :: "vol_db \<Rightarrow> string \<Rightarrow> snapshot list" where
  "repo_snapshotsBySchedule db qid =
     rev (sort_key (\<lambda>s. stamp_key (sn_CreatedAt s))
       (rev (filter (\<lambda>s. sn_ScheduleID s = qid) (snap_rows db))))"

section \<open>What volumes depend on\<close>

record restorable =
  re_SizeBytes :: int
  re_KeySealed :: string
  re_KeyID :: string

record 'w vol_quota_if =
  AdmitVolume :: "'w \<Rightarrow> vol_db \<Rightarrow> string \<Rightarrow> int \<Rightarrow> unit result"
  AdmitVolumeGrowth :: "'w \<Rightarrow> vol_db \<Rightarrow> string \<Rightarrow> int \<Rightarrow> unit result"

record 'w vol_deps =
  vd_keys :: "ring option"
  vd_crypto :: crypto
  vd_quota :: "'w vol_quota_if option"
  vd_backups :: "('w \<Rightarrow> string \<Rightarrow> string \<Rightarrow> restorable result) option"
  vd_instances :: "('w \<Rightarrow> string \<Rightarrow> string \<Rightarrow> placement result) option"

section \<open>Keys of encrypted volumes\<close>

text \<open>A pair of sealed key and key id, empty for a plain volume.\<close>

definition mintKey :: "'w vol_deps \<Rightarrow> bytes \<Rightarrow> bytes \<Rightarrow> bool \<Rightarrow> (string \<times> string) result" where
  "mintKey d raw salt wanted =
     (if \<not> wanted then Inr ([], [])
      else case ring_Active (vd_keys d) of
             None \<Rightarrow> Inl (Unavailable ''no_encryption_key'')
           | Some k \<Rightarrow> Inr (SealBytes (vd_crypto d) salt raw k, key_ID (vd_crypto d) k))"

definition guardFor ::
    "'w vol_deps \<Rightarrow> bytes \<Rightarrow> bytes \<Rightarrow> 'w \<Rightarrow> vol_create_params \<Rightarrow> (string \<times> string) result" where
  "guardFor d raw salt w p =
     (if vp_BackupID p = [] then mintKey d raw salt (vp_Encrypted p)
      else case vd_backups d of
             None \<Rightarrow> Inl (Unavailable ''backups_unavailable'')
           | Some restorable \<Rightarrow>
               bindR (restorable w (vp_BackupID p) (vp_ProjectID p)) (\<lambda>env.
                 if re_KeySealed env = [] then
                   (if vp_Encrypted p then Inl (Conflict ''backup_not_encrypted'') else Inr ([], []))
                 else case ring_Find (vd_keys d) (re_KeyID env) of
                        None \<Rightarrow> Inl (Unavailable ''key_missing'')
                      | Some _ \<Rightarrow> Inr (re_KeySealed env, re_KeyID env)))"

definition keyForNode :: "'w vol_deps \<Rightarrow> vol_db \<Rightarrow> string \<Rightarrow> string \<Rightarrow> string result" where
  "keyForNode d db vid nid =
     bindR (tr (repo_vol_byID db vid)) (\<lambda>v.
       if v_NodeID v \<noteq> nid then Inl (NotFound ''volume_not_found'')
       else if \<not> v_Encrypted v then Inl (Conflict ''volume_not_encrypted'')
       else case ring_Find (vd_keys d) (v_KeyID v) of
              None \<Rightarrow> Inl (Unavailable ''key_missing'')
            | Some k \<Rightarrow> (case OpenBytes (vd_crypto d) (v_KeySealed v) k of
                           Inl _ \<Rightarrow> Inl Internal | Inr raw \<Rightarrow> Inr (hex_EncodeToString raw)))"

section \<open>Requests\<close>

definition vol_create ::
    "'w vol_deps \<Rightarrow> string \<Rightarrow> bytes \<Rightarrow> bytes \<Rightarrow> go_time \<Rightarrow> 'w \<Rightarrow> vol_db \<Rightarrow> vol_create_params \<Rightarrow>
     volume result \<times> vol_db" where
  "vol_create d new_id raw salt now w db p =
     (case bindR (validate_Name ''name'' (vp_Name p)) (\<lambda>_.
           bindR (if vp_SizeGiB p < MinSizeGiB \<or> MaxSizeGiB < vp_SizeGiB p
                  then Inl (Invalid ''invalid_size'') else Inr ()) (\<lambda>_.
           bindR (case vd_quota d of
                    None \<Rightarrow> Inr () | Some q \<Rightarrow> AdmitVolume q w db (vp_ProjectID p) (vp_SizeGiB p)) (\<lambda>_.
             guardFor d raw salt w p))) of
        Inl e \<Rightarrow> (Inl e, db)
      | Inr (sealedKey, keyID) \<Rightarrow>
          (let v = \<lparr>v_ID = new_id, v_ProjectID = vp_ProjectID p, v_Name = vp_Name p,
                    v_SizeGiB = vp_SizeGiB p, v_NodeID = [], v_InstanceID = [], v_RestoreFrom = [],
                    v_BackupID = vp_BackupID p, v_CloneFrom = [], v_CloneSnap = [], v_Detaching = False,
                    v_Encrypted = (sealedKey \<noteq> []), v_KeySealed = sealedKey, v_KeyID = keyID,
                    v_CreatedAt = now, v_UpdatedAt = now\<rparr>
           in case repo_vol_insert db v of
                (Inl e, db') \<Rightarrow> (Inl (vol_translate e), db')
              | (Inr _, db') \<Rightarrow> (Inr v, db')))"

definition vol_resolveIn :: "vol_db \<Rightarrow> string \<Rightarrow> string \<Rightarrow> volume result" where
  "vol_resolveIn db ref pid =
     (case repo_vol_byName db pid ref of
        Inr v \<Rightarrow> Inr v
      | Inl vol_errNotFound \<Rightarrow>
          bindR (tr (repo_vol_byID db ref)) (\<lambda>v.
            if v_ProjectID v \<noteq> pid then Inl (NotFound ''volume_not_found'') else Inr v)
      | Inl e \<Rightarrow> Inl (vol_translate e))"

definition vol_ownedSnapshot :: "vol_db \<Rightarrow> string \<Rightarrow> string \<Rightarrow> snapshot result" where
  "vol_ownedSnapshot db sid pid =
     bindR (tr (repo_snapshot db sid)) (\<lambda>s.
     bindR (tr (repo_vol_byID db (sn_VolumeID s))) (\<lambda>v.
       if v_ProjectID v \<noteq> pid then Inl (NotFound ''snapshot_not_found'') else Inr s))"

definition vol_clone ::
    "'w vol_deps \<Rightarrow> string \<Rightarrow> go_time \<Rightarrow> 'w \<Rightarrow> vol_db \<Rightarrow> string \<Rightarrow> string \<Rightarrow> string \<Rightarrow> volume result \<times> vol_db" where
  "vol_clone d new_id now w db sid pid name =
     (case bindR (validate_Name ''name'' name) (\<lambda>_.
           bindR (vol_ownedSnapshot db sid pid) (\<lambda>s.
             if sn_State s \<noteq> SnapshotReady then Inl (Conflict ''snapshot_not_ready'')
             else bindR (tr (repo_vol_byID db (sn_VolumeID s))) (\<lambda>src.
               if v_NodeID src = [] then Inl (Conflict ''volume_not_placed'')
               else if v_Encrypted src then Inl (Conflict ''volume_encrypted'')
               else bindR (case vd_quota d of
                             None \<Rightarrow> Inr () | Some q \<Rightarrow> AdmitVolume q w db pid (v_SizeGiB src)) (\<lambda>_.
                      Inr (s, src))))) of
        Inl e \<Rightarrow> (Inl e, db)
      | Inr (s, src) \<Rightarrow>
          (let v = \<lparr>v_ID = new_id, v_ProjectID = pid, v_Name = name, v_SizeGiB = v_SizeGiB src,
                    v_NodeID = v_NodeID src, v_InstanceID = [], v_RestoreFrom = [], v_BackupID = [],
                    v_CloneFrom = v_ID src, v_CloneSnap = sn_Name s, v_Detaching = False,
                    v_Encrypted = False, v_KeySealed = [], v_KeyID = [], v_CreatedAt = now, v_UpdatedAt = now\<rparr>
           in case repo_vol_insert db v of
                (Inl e, db') \<Rightarrow> (Inl (vol_translate e), db')
              | (Inr _, db') \<Rightarrow> (Inr v, db')))"

definition vol_attach ::
    "'w vol_deps \<Rightarrow> go_time \<Rightarrow> 'w \<Rightarrow> vol_db \<Rightarrow> string \<Rightarrow> string \<Rightarrow> string \<Rightarrow> volume result \<times> vol_db" where
  "vol_attach d now w db ref pid instanceRef =
     (case bindR (vol_resolveIn db ref pid) (\<lambda>v.
           case vd_instances d of
             None \<Rightarrow> Inl (Unavailable ''instances_unavailable'')
           | Some place \<Rightarrow> bindR (place w instanceRef pid) (\<lambda>pl. Inr (v, pl))) of
        Inl e \<Rightarrow> (Inl e, db)
      | Inr (v, pl) \<Rightarrow>
          (if v_InstanceID v = pl_InstanceID pl then
             (if v_Detaching v
              then (Inr (v\<lparr>v_Detaching := False\<rparr>), repo_vol_clearDetaching db (v_ID v) now)
              else (Inr v, db))
           else if v_InstanceID v \<noteq> [] then (Inl (Conflict ''volume_attached''), db)
           else if pl_ProjectID pl \<noteq> pid then (Inl (NotFound ''instance_not_found''), db)
           else if pl_NodeID pl = [] then (Inl (Conflict ''instance_unplaced''), db)
           else if pl_Isolation pl \<noteq> ''vm'' then (Inl (Invalid ''unsupported_isolation''), db)
           else if v_NodeID v \<noteq> [] \<and> v_NodeID v \<noteq> pl_NodeID pl
           then (Inl (Conflict ''volume_elsewhere''), db)
           else case repo_vol_attach db (v_ID v) (pl_InstanceID pl) (pl_NodeID pl) now of
                  (Inl e, db') \<Rightarrow> (Inl (vol_translate e), db')
                | (Inr _, db') \<Rightarrow>
                    (Inr (v\<lparr>v_InstanceID := pl_InstanceID pl, v_NodeID := pl_NodeID pl\<rparr>), db')))"

definition holdsIt :: "'w vol_deps \<Rightarrow> 'w \<Rightarrow> volume \<Rightarrow> bool" where
  "holdsIt d w v =
     (case vd_instances d of
        None \<Rightarrow> False
      | Some place \<Rightarrow> (case place w (v_InstanceID v) (v_ProjectID v) of
                         Inl _ \<Rightarrow> False
                       | Inr pl \<Rightarrow> pl_Observed pl = ''running'' \<and> pl_NodeID pl \<noteq> []))"

definition vol_detach ::
    "'w vol_deps \<Rightarrow> go_time \<Rightarrow> 'w \<Rightarrow> vol_db \<Rightarrow> string \<Rightarrow> string \<Rightarrow> volume result \<times> vol_db" where
  "vol_detach d now w db ref pid =
     (case vol_resolveIn db ref pid of
        Inl e \<Rightarrow> (Inl e, db)
      | Inr v \<Rightarrow>
          (if v_InstanceID v = [] then (Inr v, db)
           else if holdsIt d w v
           then (Inr (v\<lparr>v_Detaching := True\<rparr>), repo_vol_setDetaching db (v_ID v) now)
           else (Inr (v\<lparr>v_InstanceID := [], v_Detaching := False\<rparr>), repo_vol_detach db (v_ID v) now)))"

definition vol_releaseInstance :: "go_time \<Rightarrow> vol_db \<Rightarrow> string \<Rightarrow> vol_db" where
  "vol_releaseInstance now db iid = repo_vol_detachInstance db iid now"

definition idle :: "'w vol_deps \<Rightarrow> 'w \<Rightarrow> volume \<Rightarrow> unit result" where
  "idle d w v =
     (case vd_instances d of
        None \<Rightarrow> Inr ()
      | Some place \<Rightarrow>
          if v_InstanceID v = [] then Inr ()
          else bindR (place w (v_InstanceID v) (v_ProjectID v)) (\<lambda>pl.
                 if pl_Running pl then Inl (Conflict ''instance_running'') else Inr ()))"

definition quiet :: "'w vol_deps \<Rightarrow> 'w \<Rightarrow> volume \<Rightarrow> unit result" where
  "quiet d w v = (if v_NodeID v = [] then Inl (Conflict ''volume_empty'') else idle d w v)"

definition snapshotWithSchedule ::
    "'w vol_deps \<Rightarrow> string \<Rightarrow> go_time \<Rightarrow> 'w \<Rightarrow> vol_db \<Rightarrow> string \<Rightarrow> string \<Rightarrow> string \<Rightarrow> string \<Rightarrow>
     snapshot result \<times> vol_db" where
  "snapshotWithSchedule d new_id now w db ref pid name scheduleID =
     (case bindR (vol_resolveIn db ref pid) (\<lambda>v.
           bindR (validate_Name ''name'' name) (\<lambda>_.
           bindR (quiet d w v) (\<lambda>_. Inr v))) of
        Inl e \<Rightarrow> (Inl e, db)
      | Inr v \<Rightarrow>
          (let s = \<lparr>sn_ID = new_id, sn_VolumeID = v_ID v, sn_Name = name, sn_State = SnapshotPending,
                    sn_Message = [], sn_SizeBytes = 0, sn_ScheduleID = scheduleID, sn_CreatedAt = now\<rparr>
           in case repo_insertSnapshot db s of
                (Inl vol_errNameTaken, db') \<Rightarrow> (Inl (Conflict ''snapshot_name_taken''), db')
              | (Inl e, db') \<Rightarrow> (Inl (vol_translate e), db')
              | (Inr _, db') \<Rightarrow> (Inr s, db')))"

definition vol_removeSnapshot :: "vol_db \<Rightarrow> string \<Rightarrow> string \<Rightarrow> unit result \<times> vol_db" where
  "vol_removeSnapshot db sid pid =
     (case vol_ownedSnapshot db sid pid of
        Inl e \<Rightarrow> (Inl e, db)
      | Inr _ \<Rightarrow> (case repo_deleteSnapshot db sid of
                   (Inl e, db') \<Rightarrow> (Inl (vol_translate e), db') | (Inr _, db') \<Rightarrow> (Inr (), db')))"

definition vol_restore ::
    "'w vol_deps \<Rightarrow> go_time \<Rightarrow> 'w \<Rightarrow> vol_db \<Rightarrow> string \<Rightarrow> string \<Rightarrow> volume result \<times> vol_db" where
  "vol_restore d now w db sid pid =
     (case bindR (vol_ownedSnapshot db sid pid) (\<lambda>s.
             if sn_State s \<noteq> SnapshotReady then Inl (Conflict ''snapshot_not_ready'')
             else bindR (tr (repo_vol_byID db (sn_VolumeID s))) (\<lambda>v.
                  bindR (quiet d w v) (\<lambda>_. Inr (s, v)))) of
        Inl e \<Rightarrow> (Inl e, db)
      | Inr (s, v) \<Rightarrow> (Inr (v\<lparr>v_RestoreFrom := sn_Name s\<rparr>), repo_vol_setRestore db (v_ID v) (sn_Name s) now))"

definition vol_remove :: "vol_db \<Rightarrow> string \<Rightarrow> string \<Rightarrow> unit result \<times> vol_db" where
  "vol_remove db ref pid =
     (case vol_resolveIn db ref pid of
        Inl e \<Rightarrow> (Inl e, db)
      | Inr v \<Rightarrow>
          (if v_InstanceID v \<noteq> [] then (Inl (Conflict ''volume_attached''), db)
           else case repo_vol_delete db (v_ID v) of
                  (Inl e, db') \<Rightarrow> (Inl (vol_translate e), db') | (Inr _, db') \<Rightarrow> (Inr (), db')))"

definition vol_resize ::
    "'w vol_deps \<Rightarrow> go_time \<Rightarrow> 'w \<Rightarrow> vol_db \<Rightarrow> string \<Rightarrow> string \<Rightarrow> int \<Rightarrow> volume result \<times> vol_db" where
  "vol_resize d now w db ref pid sz =
     (case vol_resolveIn db ref pid of
        Inl e \<Rightarrow> (Inl e, db)
      | Inr v \<Rightarrow>
          (if sz < MinSizeGiB \<or> MaxSizeGiB < sz then (Inl (Invalid ''invalid_size''), db)
           else if sz = v_SizeGiB v then (Inr v, db)
           else if sz < v_SizeGiB v then (Inl (Conflict ''volume_shrink''), db)
           else case bindR (idle d w v) (\<lambda>_.
                     case vd_quota d of
                       None \<Rightarrow> Inr ()
                     | Some q \<Rightarrow> AdmitVolumeGrowth q w db (v_ProjectID v) (sz - v_SizeGiB v)) of
                  Inl e \<Rightarrow> (Inl e, db)
                | Inr _ \<Rightarrow> (Inr (v\<lparr>v_SizeGiB := sz\<rparr>), repo_vol_setSize db (v_ID v) sz now)))"

section \<open>Reports of a node\<close>

definition present_in :: "(string \<times> int) list \<Rightarrow> (string \<rightharpoonup> int)" where
  "present_in files = fold (\<lambda>(name, sz) m. m(name \<mapsto> sz)) files Map.empty"

definition mark_known :: "node_report \<Rightarrow> snapshot \<Rightarrow> vol_db \<Rightarrow> vol_db" where
  "mark_known r s db =
     (case present_in (rp_Snapshots r) (sn_Name s) of
        Some sz \<Rightarrow> repo_markSnapshot db (sn_ID s) SnapshotReady [] sz
      | None \<Rightarrow> if rp_Error r \<noteq> [] then repo_markSnapshot db (sn_ID s) SnapshotFailed (rp_Error r) 0 else db)"

definition report_one :: "go_time \<Rightarrow> string \<Rightarrow> node_report \<Rightarrow> vol_db \<Rightarrow> vol_db" where
  "report_one now nid r db =
     (case repo_vol_byID db (rp_VolumeID r) of
        Inl _ \<Rightarrow> db
      | Inr v \<Rightarrow>
          (if v_NodeID v \<noteq> nid then db
           else let db1 = (if rp_Detached r \<and> v_Detaching v then repo_vol_detach db (v_ID v) now else db);
                    db2 = fold (mark_known r) (repo_snapshots db1 (v_ID v)) db1
                in if rp_Restored r \<noteq> [] \<and> rp_Restored r = v_RestoreFrom v
                   then repo_vol_setRestore db2 (v_ID v) [] now else db2))"

definition vol_report :: "go_time \<Rightarrow> string \<Rightarrow> node_report list \<Rightarrow> vol_db \<Rightarrow> vol_db" where
  "vol_report now nid reports db = fold (report_one now nid) reports db"

section \<open>Snapshot schedules\<close>

definition setSchedule ::
    "(string \<Rightarrow> duration option) \<Rightarrow> string \<Rightarrow> go_time \<Rightarrow> vol_db \<Rightarrow> schedule_params \<Rightarrow> schedule result \<times> vol_db" where
  "setSchedule pd new_id now db p =
     (case (case interval_Parse pd (qp_Every p) of
              None \<Rightarrow> Inl (Invalid ''invalid_interval'')
            | Some every \<Rightarrow>
                if every < MinEvery \<or> MaxEvery < every then Inl (Invalid ''invalid_interval'')
                else if qp_Keep p < MinKeep \<or> MaxKeep < qp_Keep p then Inl (Invalid ''invalid_keep'')
                else bindR (vol_resolveIn db (qp_VolumeID p) (qp_ProjectID p)) (\<lambda>v. Inr (every, v))) of
        Inl e \<Rightarrow> (Inl e, db)
      | Inr (every, v) \<Rightarrow>
          (let sc0 = \<lparr>sc_ID = new_id, sc_ProjectID = qp_ProjectID p, sc_VolumeID = v_ID v, sc_Every = every,
                      sc_Keep = qp_Keep p, sc_NextAt = now + every, sc_LastAt = zero_time,
                      sc_CreatedAt = now, sc_UpdatedAt = now\<rparr>;
               sc = (case repo_scheduleOf db (v_ID v) of
                       Inr ex \<Rightarrow> sc0\<lparr>sc_ID := sc_ID ex, sc_CreatedAt := sc_CreatedAt ex, sc_LastAt := sc_LastAt ex\<rparr>
                     | Inl _ \<Rightarrow> sc0)
           in case repo_upsertSchedule db sc of
                (Inl _, db') \<Rightarrow> (Inl Internal, db') | (Inr _, db') \<Rightarrow> (Inr sc, db')))"

definition clearSchedule :: "vol_db \<Rightarrow> string \<Rightarrow> string \<Rightarrow> unit result \<times> vol_db" where
  "clearSchedule db ref pid =
     (case vol_resolveIn db ref pid of
        Inl e \<Rightarrow> (Inl e, db) | Inr v \<Rightarrow> (Inr (), repo_deleteSchedule db (v_ID v)))"

text \<open>A new snapshot waits for the previous one; a refused snapshot is not an error.\<close>

definition fire ::
    "'w vol_deps \<Rightarrow> (go_time \<Rightarrow> string) \<Rightarrow> string \<Rightarrow> go_time \<Rightarrow> 'w \<Rightarrow> schedule \<Rightarrow> vol_db \<Rightarrow> bool \<times> vol_db" where
  "fire d date_text new_id now w sc db0 =
     (let db = repo_markScheduleFired db0 (sc_ID sc) now (now + sc_Every sc)
      in if 0 < repo_pendingSnapshotsForVolume db (sc_VolumeID sc) then (False, db)
         else case snapshotWithSchedule d new_id now w db (sc_VolumeID sc) (sc_ProjectID sc)
                     (''auto-'' @ date_text now) (sc_ID sc) of
                (Inl _, db') \<Rightarrow> (False, db') | (Inr _, db') \<Rightarrow> (True, db'))"

fun prune_loop :: "snapshot list \<Rightarrow> int \<Rightarrow> vol_db \<Rightarrow> int result \<times> vol_db" where
  "prune_loop [] pruned db = (Inr pruned, db)"
| "prune_loop (s # rest) pruned db =
     (case repo_deleteSnapshot db (sn_ID s) of
        (Inl _, db') \<Rightarrow> (Inl Internal, db')
      | (Inr _, db') \<Rightarrow> prune_loop rest (pruned + 1) db')"

definition retain :: "schedule \<Rightarrow> vol_db \<Rightarrow> int result \<times> vol_db" where
  "retain sc db =
     (let keepable = filter (\<lambda>s. sn_State s = SnapshotReady) (repo_snapshotsBySchedule db (sc_ID sc))
      in if int (length keepable) \<le> sc_Keep sc then (Inr 0, db)
         else prune_loop (drop (nat (sc_Keep sc)) keepable) 0 db)"

fun sweep_due ::
    "'w vol_deps \<Rightarrow> (go_time \<Rightarrow> string) \<Rightarrow> (string \<Rightarrow> string) \<Rightarrow> go_time \<Rightarrow> 'w \<Rightarrow> schedule list \<Rightarrow>
     int \<Rightarrow> int \<Rightarrow> vol_db \<Rightarrow> (int \<times> int) result \<times> vol_db" where
  "sweep_due d date_text new_id now w [] taken pruned db = (Inr (taken, pruned), db)"
| "sweep_due d date_text new_id now w (sc # rest) taken pruned db =
     (case fire d date_text (new_id (sc_ID sc)) now w sc db of
        (fired, db1) \<Rightarrow>
          (case retain sc db1 of
             (Inl e, db2) \<Rightarrow> (Inl e, db2)
           | (Inr gone, db2) \<Rightarrow>
               sweep_due d date_text new_id now w rest (if fired then taken + 1 else taken)
                 (pruned + gone) db2))"

definition vol_sweep ::
    "'w vol_deps \<Rightarrow> (go_time \<Rightarrow> string) \<Rightarrow> (string \<Rightarrow> string) \<Rightarrow> go_time \<Rightarrow> 'w \<Rightarrow> vol_db \<Rightarrow>
     (int \<times> int) result \<times> vol_db" where
  "vol_sweep d date_text new_id now w db =
     sweep_due d date_text new_id now w (repo_schedulesDue db now) 0 0 db"

section \<open>Well-formed tables and how a row may change\<close>

definition vol_ok :: "volume \<Rightarrow> bool" where
  "vol_ok v \<longleftrightarrow> MinSizeGiB \<le> v_SizeGiB v \<and> v_SizeGiB v \<le> MaxSizeGiB \<and>
     (v_InstanceID v \<noteq> [] \<longrightarrow> v_NodeID v \<noteq> []) \<and> (v_Encrypted v \<longleftrightarrow> v_KeySealed v \<noteq> [])"

definition sched_ok :: "schedule \<Rightarrow> bool" where
  "sched_ok q \<longleftrightarrow> MinKeep \<le> sc_Keep q \<and> sc_Keep q \<le> MaxKeep \<and> MinEvery \<le> sc_Every q \<and> sc_Every q \<le> MaxEvery"

definition vols_wf :: "volume list \<Rightarrow> bool" where
  "vols_wf vs \<longleftrightarrow> distinct (map v_ID vs) \<and> distinct (map (\<lambda>v. (v_ProjectID v, v_Name v)) vs) \<and> list_all vol_ok vs"

definition snaps_wf :: "volume list \<Rightarrow> snapshot list \<Rightarrow> bool" where
  "snaps_wf vs ss \<longleftrightarrow> distinct (map sn_ID ss) \<and> distinct (map (\<lambda>s. (sn_VolumeID s, sn_Name s)) ss) \<and>
     sn_VolumeID ` set ss \<subseteq> v_ID ` set vs"

definition scheds_wf :: "schedule list \<Rightarrow> bool" where
  "scheds_wf qs \<longleftrightarrow> distinct (map sc_ID qs) \<and> distinct (map sc_VolumeID qs) \<and> list_all sched_ok qs"

definition vol_wf :: "vol_db \<Rightarrow> bool" where
  "vol_wf db \<longleftrightarrow> vols_wf (vol_rows db) \<and> snaps_wf (vol_rows db) (snap_rows db) \<and> scheds_wf (sched_rows db)"

text \<open>
  What may happen to a volume that stays: its node never changes once it has one, its
  writer changes only through being free, it never shrinks, its key stays.
\<close>

definition row_keeps :: "volume \<Rightarrow> volume \<Rightarrow> bool" where
  "row_keeps v v' \<longleftrightarrow> v_ID v' = v_ID v \<and> v_ProjectID v' = v_ProjectID v \<and> v_Name v' = v_Name v \<and>
     (v_NodeID v \<noteq> [] \<longrightarrow> v_NodeID v' = v_NodeID v) \<and>
     (v_InstanceID v \<noteq> [] \<longrightarrow> v_InstanceID v' \<in> {v_InstanceID v, []}) \<and>
     v_SizeGiB v \<le> v_SizeGiB v' \<and>
     v_Encrypted v' = v_Encrypted v \<and> v_KeySealed v' = v_KeySealed v \<and> v_KeyID v' = v_KeyID v \<and>
     (vol_ok v \<longrightarrow> vol_ok v')"

abbreviation evolves :: "volume list \<Rightarrow> volume list \<Rightarrow> bool" where
  "evolves \<equiv> list_all2 row_keeps"

lemma row_keeps_refl [simp]: "row_keeps v v"
  by (simp add: row_keeps_def)

lemma evolves_refl [simp]: "evolves vs vs"
  by (simp add: list_all2_refl)

lemma evolves_update: "(\<And>v. v \<in> set vs \<Longrightarrow> P v \<Longrightarrow> row_keeps v (f v)) \<Longrightarrow> evolves vs (update_where P f vs)"
  by (induction vs) (auto simp: update_where_def)

lemma evolves_keys: "evolves vs vs' \<Longrightarrow> map v_ID vs' = map v_ID vs"
  by (induction rule: list_all2_induct) (simp_all add: row_keeps_def)

lemma evolves_names:
  "evolves vs vs' \<Longrightarrow> map (\<lambda>v. (v_ProjectID v, v_Name v)) vs' = map (\<lambda>v. (v_ProjectID v, v_Name v)) vs"
  by (induction rule: list_all2_induct) (simp_all add: row_keeps_def)

lemma evolves_ok: "evolves vs vs' \<Longrightarrow> list_all vol_ok vs \<Longrightarrow> list_all vol_ok vs'"
  by (induction rule: list_all2_induct) (simp_all add: row_keeps_def)

lemma evolves_ids: "evolves vs vs' \<Longrightarrow> v_ID ` set vs' = v_ID ` set vs"
  using evolves_keys by (metis list.set_map)

lemma vols_wf_evolves: "vols_wf vs \<Longrightarrow> evolves vs vs' \<Longrightarrow> vols_wf vs'"
  by (simp add: vols_wf_def evolves_keys evolves_names evolves_ok)

lemma snaps_wf_evolves: "snaps_wf vs ss \<Longrightarrow> evolves vs vs' \<Longrightarrow> snaps_wf vs' ss"
  by (simp add: snaps_wf_def evolves_ids)

lemma evolves_matching:
  assumes "evolves vs vs'" "distinct (map v_ID vs)" "v \<in> set vs" "v' \<in> set vs'" "v_ID v' = v_ID v"
  shows "row_keeps v v'"
proof -
  obtain i where i: "i < length vs'" "vs' ! i = v'" using assms(4) by (metis in_set_conv_nth)
  then have k: "row_keeps (vs ! i) v'" "vs ! i \<in> set vs"
    using assms(1) by (auto simp: list_all2_conv_all_nth)
  have "vs ! i = v"
    by (rule distinct_map_eq [OF assms(2) k(2) assms(3)]) (use k(1) assms(5) in \<open>simp add: row_keeps_def\<close>)
  then show ?thesis using k(1) by simp
qed

lemma by_id:
  assumes "vols_wf vs" "v \<in> set vs" "u \<in> set vs" "v_ID u = v_ID v"
  shows "u = v"
  using distinct_map_eq [of v_ID vs u v] assms by (simp add: vols_wf_def)

lemma evolves_upd:
  assumes "vols_wf (vol_rows db)" "v \<in> set (vol_rows db)" "row_keeps v (f v)"
  shows "evolves (vol_rows db) (vol_rows (upd_vol (v_ID v) f db))"
  unfolding upd_vol_def using assms by (auto intro!: evolves_update dest: by_id)

lemma tr_Inr [simp]: "tr r = Inr b \<longleftrightarrow> r = Inr b"
  by (cases r) simp_all

lemma byID_in: "repo_vol_byID db vid = Inr v \<Longrightarrow> v \<in> set (vol_rows db) \<and> v_ID v = vid"
  by (auto simp: repo_vol_byID_def split: option.splits dest: find_SomeD)

lemma resolve_in: "vol_resolveIn db ref pid = Inr v \<Longrightarrow> v \<in> set (vol_rows db) \<and> v_ProjectID v = pid"
  by (auto simp: vol_resolveIn_def repo_vol_byName_def bindR_eq_Inr
      split: sum.splits option.splits vol_error.splits if_splits dest: find_SomeD byID_in)

lemma upd_rest [simp]:
  "snap_rows (upd_vol vid f db) = snap_rows db" "sched_rows (upd_vol vid f db) = sched_rows db"
  by (simp_all add: upd_vol_def)

lemmas repo_updates = repo_vol_detach_def repo_vol_setRestore_def repo_vol_setDetaching_def
  repo_vol_clearDetaching_def repo_vol_setSize_def

text \<open>A request that only changes volume rows.\<close>

definition only_vols :: "vol_db \<Rightarrow> vol_db \<Rightarrow> bool" where
  "only_vols db db' \<longleftrightarrow> evolves (vol_rows db) (vol_rows db') \<and> snap_rows db' = snap_rows db \<and>
     sched_rows db' = sched_rows db"

lemma only_vols_refl [simp]: "only_vols db db"
  by (simp add: only_vols_def)

lemma only_vols_wf: "vol_wf db \<Longrightarrow> only_vols db db' \<Longrightarrow> vol_wf db'"
  by (auto simp: vol_wf_def only_vols_def intro: vols_wf_evolves snaps_wf_evolves)

lemma only_vols_upd:
  assumes "vol_wf db" "v \<in> set (vol_rows db)" "row_keeps v (f v)"
  shows "only_vols db (upd_vol (v_ID v) f db)"
  using evolves_upd [of db v f] assms by (simp add: only_vols_def vol_wf_def)

lemma attach_only:
  assumes wf: "vol_wf db"
  shows "only_vols db (snd (vol_attach d now w db ref pid iref))"
proof -
  have att: "only_vols db db'"
    if v: "v \<in> set (vol_rows db)" and free: "v_InstanceID v = []" and nid: "nid \<noteq> []"
      and node: "v_NodeID v = [] \<or> v_NodeID v = nid" and run: "repo_vol_attach db (v_ID v) iid nid now = (res, db')"
    for v iid nid res db'
  proof -
    have "row_keeps u (u\<lparr>v_InstanceID := iid, v_NodeID := nid, v_UpdatedAt := now\<rparr>)"
      if "u \<in> set (vol_rows db)" "v_ID u = v_ID v" for u
      using by_id [OF _ v that] wf free nid node by (auto simp: row_keeps_def vol_ok_def vol_wf_def)
    then show ?thesis
      using run by (auto simp: repo_vol_attach_def only_vols_def intro!: evolves_update split: if_splits)
  qed
  have clear: "only_vols db (repo_vol_clearDetaching db (v_ID v) now)" if "v \<in> set (vol_rows db)" for v
    unfolding repo_updates by (rule only_vols_upd [OF wf that]) (simp add: row_keeps_def vol_ok_def)
  show ?thesis
    by (auto simp: vol_attach_def bindR_eq_Inr intro: clear att split: sum.splits prod.splits option.splits
        dest!: resolve_in)
qed

lemma detach_only:
  assumes wf: "vol_wf db"
  shows "only_vols db (snd (vol_detach d now w db ref pid))"
  using only_vols_upd [OF wf]
  by (auto simp: vol_detach_def repo_updates row_keeps_def vol_ok_def split: sum.splits dest!: resolve_in)

lemma release_only: "vol_wf db \<Longrightarrow> only_vols db (vol_releaseInstance now db iid)"
  by (auto simp: vol_releaseInstance_def repo_vol_detachInstance_def only_vols_def row_keeps_def vol_ok_def
      intro!: evolves_update)

lemma resize_only:
  assumes wf: "vol_wf db"
  shows "only_vols db (snd (vol_resize d now w db ref pid n))"
  using only_vols_upd [OF wf]
  by (auto simp: vol_resize_def repo_updates row_keeps_def vol_ok_def split: sum.splits dest!: resolve_in)

lemma owned_in: "vol_ownedSnapshot db sid pid = Inr s \<Longrightarrow> s \<in> set (snap_rows db) \<and> sn_ID s = sid"
  by (auto simp: vol_ownedSnapshot_def repo_snapshot_def bindR_eq_Inr split: sum.splits option.splits if_splits
      dest: find_SomeD)

lemma restore_only:
  assumes wf: "vol_wf db"
  shows "only_vols db (snd (vol_restore d now w db sid pid))"
proof -
  have "only_vols db (repo_vol_setRestore db (v_ID v) name now)" if "v \<in> set (vol_rows db)" for v name
    unfolding repo_updates by (rule only_vols_upd [OF wf that]) (simp add: row_keeps_def vol_ok_def)
  then show ?thesis
    by (auto simp: vol_restore_def bindR_eq_Inr split: sum.split prod.split if_splits dest!: byID_in)
qed

text \<open>New rows and deletions.\<close>

lemma insert_wf:
  assumes wf: "vol_wf db" and ok: "vol_ok v"
  shows "vol_wf (snd (repo_vol_insert db v))"
proof -
  have "vols_wf (vol_rows db @ [v])"
    if "\<not> list_ex (\<lambda>u. v_ID u = v_ID v \<or> (v_ProjectID u = v_ProjectID v \<and> v_Name u = v_Name v)) (vol_rows db)"
    using that wf ok by (auto simp: vols_wf_def vol_wf_def list_ex_iff)
  then show ?thesis
    using wf by (auto simp: repo_vol_insert_def vol_wf_def snaps_wf_def)
qed

lemma guard_ok: "guardFor d raw salt w p = Inr (s, k) \<Longrightarrow> (s = [] \<longrightarrow> k = [])"
  by (auto simp: guardFor_def mintKey_def bindR_eq_Inr SealBytes_nonempty split: if_splits option.splits)

lemma create_wf:
  assumes wf: "vol_wf db"
  shows "vol_wf (snd (vol_create d new_id raw salt now w db p))"
proof -
  have "vol_wf db'" if "repo_vol_insert db v = (res, db')" "vol_ok v" for v res db'
    using insert_wf [OF wf that(2)] that(1) by simp
  then show ?thesis
    using wf by (auto simp: vol_create_def bindR_eq_Inr Let_def vol_ok_def split: sum.splits prod.splits if_splits)
qed

lemma clone_wf:
  assumes wf: "vol_wf db"
  shows "vol_wf (snd (vol_clone d new_id now w db sid pid name))"
proof -
  have ins: "vol_wf db'" if "repo_vol_insert db v = (res, db')" "vol_ok v" for v res db'
    using insert_wf [OF wf that(2)] that(1) by simp
  have ok: "MinSizeGiB \<le> v_SizeGiB v \<and> v_SizeGiB v \<le> MaxSizeGiB" if "repo_vol_byID db i = Inr v" for v i
    using byID_in [OF that] wf by (auto simp: vol_wf_def vols_wf_def list_all_iff vol_ok_def)
  show ?thesis
    using wf
    by (auto simp: vol_clone_def bindR_eq_Inr Let_def vol_ok_def dest!: ok intro: ins
        split: sum.split prod.split if_splits)
qed

lemma remove_wf:
  assumes wf: "vol_wf db"
  shows "vol_wf (snd (vol_remove db ref pid))"
proof -
  have "vol_wf db'" if "repo_vol_delete db i = (res, db')" for i res db'
    using that wf
    by (auto simp: repo_vol_delete_def vol_wf_def vols_wf_def snaps_wf_def list_all_iff distinct_map_filter
        split: if_splits) blast
  then show ?thesis
    using wf by (auto simp: vol_remove_def split: sum.splits prod.splits)
qed

text \<open>Snapshots.\<close>

definition only_snaps :: "vol_db \<Rightarrow> vol_db \<Rightarrow> bool" where
  "only_snaps db db' \<longleftrightarrow> vol_rows db' = vol_rows db \<and> sched_rows db' = sched_rows db \<and>
     (snaps_wf (vol_rows db) (snap_rows db) \<longrightarrow> snaps_wf (vol_rows db) (snap_rows db'))"

lemma only_snaps_refl [simp]: "only_snaps db db"
  by (simp add: only_snaps_def)

lemma only_snaps_trans: "only_snaps db db1 \<Longrightarrow> only_snaps db1 db2 \<Longrightarrow> only_snaps db db2"
  by (auto simp: only_snaps_def)

lemma only_snaps_wf: "vol_wf db \<Longrightarrow> only_snaps db db' \<Longrightarrow> vol_wf db'"
  by (simp add: vol_wf_def only_snaps_def)

lemma mark_only: "only_snaps db (repo_markSnapshot db sid st m n)"
proof -
  have "sn_VolumeID ` set (update_where P (\<lambda>s. s\<lparr>sn_State := st, sn_Message := m, sn_SizeBytes := n\<rparr>) ss) =
      sn_VolumeID ` set ss" for P and ss :: "snapshot list"
    using map_update_where [of P sn_VolumeID "\<lambda>s. s\<lparr>sn_State := st, sn_Message := m, sn_SizeBytes := n\<rparr>" ss]
    by (metis (no_types, lifting) list.set_map snapshot.select_convs(2) snapshot.update_convs(4-6) snapshot.surjective)
  then show ?thesis
    by (simp add: only_snaps_def repo_markSnapshot_def snaps_wf_def map_update_where)
qed

lemma delete_snap_only: "only_snaps db (snd (repo_deleteSnapshot db sid))"
  by (auto simp: only_snaps_def repo_deleteSnapshot_def snaps_wf_def distinct_map_filter)

lemma snapshot_only: "only_snaps db (snd (snapshotWithSchedule d new_id now w db ref pid name qid))"
proof -
  have "only_snaps db db'" if "repo_insertSnapshot db s = (res, db')" "sn_VolumeID s \<in> v_ID ` set (vol_rows db)" for s res db'
    using that
    by (auto simp: repo_insertSnapshot_def only_snaps_def snaps_wf_def list_ex_iff split: if_splits) (blast, metis, blast)
  then show ?thesis
    by (auto simp: snapshotWithSchedule_def bindR_eq_Inr Let_def dest!: resolve_in
        split: sum.split prod.split vol_error.split)
qed

lemma remove_snapshot_only: "only_snaps db (snd (vol_removeSnapshot db sid pid))"
  using delete_snap_only [of db sid] by (auto simp: vol_removeSnapshot_def split: sum.splits prod.splits)

lemma mark_known_only: "only_snaps db (mark_known r s db)"
  by (simp add: mark_known_def mark_only split: option.splits)

lemma fold_mark_only: "only_snaps db (fold (mark_known r) ss db)"
  by (induction ss arbitrary: db) (auto intro: only_snaps_trans mark_known_only)

text \<open>Reports change volume rows and the states of snapshots.\<close>

definition row_settles :: "volume \<Rightarrow> volume \<Rightarrow> bool" where
  "row_settles v v' \<longleftrightarrow> row_keeps v v' \<and> v_InstanceID v' \<in> {v_InstanceID v, []} \<and> v_SizeGiB v' = v_SizeGiB v"

definition settles :: "vol_db \<Rightarrow> vol_db \<Rightarrow> bool" where
  "settles db db' \<longleftrightarrow> (vol_wf db \<longrightarrow> vol_wf db' \<and> list_all2 row_settles (vol_rows db) (vol_rows db'))"

lemma row_settles_refl [simp]: "row_settles v v"
  by (simp add: row_settles_def)

lemma settles_refl [simp]: "settles db db"
  by (simp add: settles_def list_all2_refl)

lemma row_settles_trans: "row_settles a b \<Longrightarrow> row_settles b c \<Longrightarrow> row_settles a c"
  by (auto simp: row_settles_def row_keeps_def)

lemma list_settles_trans:
  "list_all2 row_settles a b \<Longrightarrow> list_all2 row_settles b c \<Longrightarrow> list_all2 row_settles a c"
  by (rule list_all2_trans [of row_settles row_settles row_settles a b c]) (rule row_settles_trans)

lemma settles_trans: "settles db db1 \<Longrightarrow> settles db1 db2 \<Longrightarrow> settles db db2"
  unfolding settles_def using list_settles_trans by blast

lemma settles_evolves: "settles db db' \<Longrightarrow> vol_wf db \<Longrightarrow> evolves (vol_rows db) (vol_rows db')"
  by (auto simp: settles_def row_settles_def elim: list_all2_mono)

lemma settles_only_snaps: "only_snaps db db' \<Longrightarrow> settles db db'"
  using only_snaps_wf [of db db'] by (auto simp: settles_def only_snaps_def list_all2_refl)

lemma settles_upd:
  assumes "\<And>v. row_settles v (f v)"
  shows "settles db (upd_vol vid f db)"
proof -
  have "list_all2 row_settles vs (update_where P f vs)" for P vs
    by (induction vs) (simp_all add: update_where_def assms)
  moreover from this have "evolves vs (update_where P f vs)" for P vs
    by (rule list_all2_mono) (simp add: row_settles_def)
  ultimately show ?thesis
    by (auto simp: settles_def upd_vol_def only_vols_def intro!: only_vols_wf [of db])
qed

lemma report_one_settles: "settles db (report_one now nid r db)"
proof (cases "repo_vol_byID db (rp_VolumeID r)")
  case (Inr v)
  define db1 where "db1 = (if rp_Detached r \<and> v_Detaching v then repo_vol_detach db (v_ID v) now else db)"
  define db2 where "db2 = fold (mark_known r) (repo_snapshots db1 (v_ID v)) db1"
  have "settles db (repo_vol_detach db (v_ID v) now)"
    unfolding repo_vol_detach_def by (rule settles_upd) (auto simp: row_settles_def row_keeps_def vol_ok_def)
  then have "settles db db1" by (simp add: db1_def)
  moreover have "settles db1 db2" unfolding db2_def by (rule settles_only_snaps [OF fold_mark_only])
  ultimately have two: "settles db db2" by (rule settles_trans)
  have three: "settles db2 (repo_vol_setRestore db2 (v_ID v) name now)" for name
    unfolding repo_vol_setRestore_def by (rule settles_upd) (auto simp: row_settles_def row_keeps_def vol_ok_def)
  show ?thesis
    using two settles_trans [OF two three] Inr
    by (simp add: report_one_def Let_def flip: db1_def db2_def)
qed (simp add: report_one_def)

lemma report_settles: "settles db (vol_report now nid rs db)"
  unfolding vol_report_def
proof (induction rs arbitrary: db)
  case (Cons r rs)
  show ?case using settles_trans [OF report_one_settles [of db now nid r] Cons.IH] by simp
qed simp

text \<open>Schedules.\<close>

lemma whole_ok: "MinEvery \<le> e \<Longrightarrow> e \<le> MaxEvery \<Longrightarrow> MinEvery \<le> whole_seconds e \<and> whole_seconds e \<le> MaxEvery"
  by (simp add: whole_seconds_def go_div_def) linarith

lemma scheds_wf_update:
  assumes "scheds_wf qs" "\<And>q. sc_ID (f q) = sc_ID q \<and> sc_VolumeID (f q) = sc_VolumeID q \<and> (sched_ok q \<longrightarrow> sched_ok (f q))"
  shows "scheds_wf (update_where P f qs)"
  using assms by (auto simp: scheds_wf_def map_update_where list_all_iff set_update_where)

lemma upsert_wf:
  assumes wf: "vol_wf db" and ok: "sched_ok sc"
  shows "vol_wf (snd (repo_upsertSchedule db sc))"
proof -
  have ok': "sched_ok (sc\<lparr>sc_Every := whole_seconds (sc_Every sc)\<rparr>)"
    using ok whole_ok by (simp add: sched_ok_def)
  have "scheds_wf (update_where P (\<lambda>q. q\<lparr>sc_Every := whole_seconds (sc_Every sc), sc_Keep := sc_Keep sc,
      sc_NextAt := sc_NextAt sc, sc_UpdatedAt := sc_UpdatedAt sc\<rparr>) (sched_rows db))" for P
    by (rule scheds_wf_update) (use wf ok' in \<open>auto simp: vol_wf_def sched_ok_def\<close>)
  moreover have "scheds_wf (sched_rows db @ [sc\<lparr>sc_Every := whole_seconds (sc_Every sc)\<rparr>])"
    if "\<not> list_ex (\<lambda>q. sc_VolumeID q = sc_VolumeID sc) (sched_rows db)" "\<not> list_ex (\<lambda>q. sc_ID q = sc_ID sc) (sched_rows db)"
    using wf ok' that by (auto simp: vol_wf_def scheds_wf_def list_ex_iff)
  ultimately show ?thesis using wf by (auto simp: repo_upsertSchedule_def vol_wf_def)
qed

lemma setSchedule_wf:
  assumes wf: "vol_wf db"
  shows "vol_wf (snd (setSchedule pd new_id now db p))"
proof -
  have "vol_wf db'" if "repo_upsertSchedule db sc = (res, db')" "sched_ok sc" for sc res db'
    using upsert_wf [OF wf that(2)] that(1) by simp
  then show ?thesis
    using wf
    by (auto simp: setSchedule_def Let_def bindR_eq_Inr sched_ok_def split: sum.split prod.split option.split if_splits)
qed

lemma sched_rows_wf:
  "vol_wf db \<Longrightarrow> vol_wf (db\<lparr>sched_rows := qs\<rparr>) \<longleftrightarrow> scheds_wf qs"
  by (simp add: vol_wf_def)

lemma clearSchedule_wf: "vol_wf db \<Longrightarrow> vol_wf (snd (clearSchedule db ref pid))"
  by (auto simp: clearSchedule_def repo_deleteSchedule_def sched_rows_wf split: sum.splits)
    (auto simp: vol_wf_def scheds_wf_def list_all_iff distinct_map_filter)

text \<open>A step that leaves the volume rows alone.\<close>

lemma settles_fired: "settles db (repo_markScheduleFired db qid at nxt)"
  by (auto simp: settles_def repo_markScheduleFired_def sched_rows_wf list_all2_refl intro!: scheds_wf_update)
    (auto simp: vol_wf_def sched_ok_def)

lemma fire_settles: "settles db (snd (fire d date_text new_id now w sc db))"
proof -
  let ?db = "repo_markScheduleFired db (sc_ID sc) now (now + sc_Every sc)"
  have "settles ?db (snd (snapshotWithSchedule d new_id now w ?db (sc_VolumeID sc) (sc_ProjectID sc)
      (''auto-'' @ date_text now) (sc_ID sc)))"
    by (rule settles_only_snaps [OF snapshot_only])
  from settles_trans [OF settles_fired this] settles_fired [of db "sc_ID sc" now "now + sc_Every sc"]
  show ?thesis by (auto simp: fire_def Let_def split: sum.splits prod.splits)
qed

lemma prune_settles: "settles db (snd (prune_loop ss n db))"
proof (induction ss arbitrary: n db)
  case (Cons s ss)
  have "settles db (snd (repo_deleteSnapshot db (sn_ID s)))" by (rule settles_only_snaps [OF delete_snap_only])
  then show ?case
    using settles_trans [OF _ Cons.IH] by (auto split: sum.splits prod.splits)
qed simp

lemma retain_settles: "settles db (snd (retain sc db))"
  by (simp add: retain_def Let_def prune_settles)

lemma sweep_due_settles: "settles db (snd (sweep_due d date_text new_id now w scs n m db))"
proof (induction scs arbitrary: n m db)
  case (Cons sc scs)
  obtain fired db1 where f: "fire d date_text (new_id (sc_ID sc)) now w sc db = (fired, db1)" by fastforce
  obtain r db2 where r: "retain sc db1 = (r, db2)" by fastforce
  have "settles db db1" using fire_settles [of db d date_text "new_id (sc_ID sc)" now w sc] f by simp
  moreover have "settles db1 db2" using retain_settles [of db1 sc] r by simp
  ultimately have "settles db db2" by (rule settles_trans)
  then show ?case using settles_trans [OF _ Cons.IH] f r by (cases r) auto
qed simp

lemma sweep_settles: "settles db (snd (vol_sweep d date_text new_id now w db))"
  by (simp add: vol_sweep_def sweep_due_settles)

section \<open>Reachable tables\<close>

text \<open>Every request, report and sweep of the module, in any order.\<close>

inductive vol_step :: "'w vol_deps \<Rightarrow> vol_db \<Rightarrow> vol_db \<Rightarrow> bool" for d where
  step_create: "vol_step d db (snd (vol_create d new_id raw salt now w db p))"
| step_clone: "vol_step d db (snd (vol_clone d new_id now w db sid pid name))"
| step_attach: "vol_step d db (snd (vol_attach d now w db ref pid iref))"
| step_detach: "vol_step d db (snd (vol_detach d now w db ref pid))"
| step_release: "vol_step d db (vol_releaseInstance now db iid)"
| step_resize: "vol_step d db (snd (vol_resize d now w db ref pid n))"
| step_remove: "vol_step d db (snd (vol_remove db ref pid))"
| step_snapshot: "vol_step d db (snd (snapshotWithSchedule d new_id now w db ref pid name qid))"
| step_remove_snapshot: "vol_step d db (snd (vol_removeSnapshot db sid pid))"
| step_restore: "vol_step d db (snd (vol_restore d now w db sid pid))"
| step_report: "vol_step d db (vol_report now nid rs db)"
| step_schedule: "vol_step d db (snd (setSchedule pd new_id now db sp))"
| step_clear: "vol_step d db (snd (clearSchedule db ref pid))"
| step_sweep: "vol_step d db (snd (vol_sweep d date_text new_ids now w db))"

abbreviation (input) empty_vol_db :: vol_db where
  "empty_vol_db \<equiv> \<lparr>vol_rows = [], snap_rows = [], sched_rows = []\<rparr>"

lemma vol_step_wf: "vol_step d db db' \<Longrightarrow> vol_wf db \<Longrightarrow> vol_wf db'"
  by (induction rule: vol_step.induct)
    (auto intro: create_wf clone_wf remove_wf setSchedule_wf clearSchedule_wf
      only_vols_wf attach_only detach_only release_only resize_only restore_only
      only_snaps_wf [OF _ snapshot_only] only_snaps_wf [OF _ remove_snapshot_only]
      dest: report_settles [unfolded settles_def, rule_format, THEN conjunct1]
        sweep_settles [unfolded settles_def, rule_format, THEN conjunct1])

lemma empty_vol_wf: "vol_wf empty_vol_db"
  by (simp add: vol_wf_def vols_wf_def snaps_wf_def scheds_wf_def)

lemma reachable_vol_wf: "(vol_step d)\<^sup>*\<^sup>* empty_vol_db db \<Longrightarrow> vol_wf db"
proof (induction rule: rtranclp_induct)
  case base
  show ?case by (rule empty_vol_wf)
next
  case (step y z)
  then show ?case using vol_step_wf by blast
qed

section \<open>What a step keeps\<close>

definition keeps :: "vol_db \<Rightarrow> vol_db \<Rightarrow> bool" where
  "keeps db db' \<longleftrightarrow>
     (\<forall>v\<in>set (vol_rows db). \<forall>v'\<in>set (vol_rows db'). v_ID v' = v_ID v \<longrightarrow> row_keeps v v')"

lemma keeps_evolves: "vol_wf db \<Longrightarrow> evolves (vol_rows db) (vol_rows db') \<Longrightarrow> keeps db db'"
  using evolves_matching by (auto simp: keeps_def vol_wf_def vols_wf_def)

lemma keeps_only: "vol_wf db \<Longrightarrow> only_vols db db' \<Longrightarrow> keeps db db'"
  by (simp add: keeps_evolves only_vols_def)

lemma keeps_settles: "vol_wf db \<Longrightarrow> settles db db' \<Longrightarrow> keeps db db'"
  by (simp add: keeps_evolves settles_evolves)

lemma keeps_subset: "vol_wf db \<Longrightarrow> set (vol_rows db') \<subseteq> set (vol_rows db) \<Longrightarrow> keeps db db'"
  unfolding keeps_def by (metis by_id row_keeps_refl subsetD vol_wf_def)

lemma keeps_insert: "vol_wf db \<Longrightarrow> keeps db (snd (repo_vol_insert db v))"
  using keeps_subset [of db db]
  by (auto simp: keeps_def repo_vol_insert_def list_ex_iff)

lemma keeps_create:
  assumes "vol_wf db"
  shows "keeps db (snd (vol_create d new_id raw salt now w db p))"
proof -
  have "keeps db db'" if "repo_vol_insert db v = (res, db')" for v res db'
    using keeps_insert [OF assms, of v] that by simp
  then show ?thesis
    using keeps_subset [OF assms, of db] by (auto simp: vol_create_def Let_def split: sum.splits prod.splits)
qed

lemma keeps_clone:
  assumes "vol_wf db"
  shows "keeps db (snd (vol_clone d new_id now w db sid pid name))"
proof -
  have "keeps db db'" if "repo_vol_insert db v = (res, db')" for v res db'
    using keeps_insert [OF assms, of v] that by simp
  then show ?thesis
    using keeps_subset [OF assms, of db] by (auto simp: vol_clone_def Let_def split: sum.split prod.split)
qed

lemma rows_remove: "set (vol_rows (snd (vol_remove db ref pid))) \<subseteq> set (vol_rows db)"
  by (auto simp: vol_remove_def repo_vol_delete_def split: sum.split prod.split if_splits)

lemma rows_setSchedule: "vol_rows (snd (setSchedule pd new_id now db p)) = vol_rows db"
proof -
  have "vol_rows db' = vol_rows db" if "repo_upsertSchedule db sc = (res, db')" for sc res db'
    using that by (auto simp: repo_upsertSchedule_def split: if_splits)
  then show ?thesis by (auto simp: setSchedule_def Let_def split: sum.split prod.split)
qed

lemma rows_clear: "vol_rows (snd (clearSchedule db ref pid)) = vol_rows db"
  by (simp add: clearSchedule_def repo_deleteSchedule_def split: sum.split)

lemma vol_step_keeps:
  assumes "vol_step d db db'" "vol_wf db"
  shows "keeps db db'"
  using assms(1)
proof cases
  case step_remove
  then show ?thesis using keeps_subset [OF assms(2)] rows_remove by simp
next
  case (step_snapshot new_id now w ref pid name qid)
  then have "vol_rows db' = vol_rows db"
    using snapshot_only [of db d new_id now w ref pid name qid] by (simp add: only_snaps_def)
  then show ?thesis using keeps_subset [OF assms(2)] by simp
next
  case (step_remove_snapshot sid pid)
  then have "vol_rows db' = vol_rows db" using remove_snapshot_only [of db sid pid] by (simp add: only_snaps_def)
  then show ?thesis using keeps_subset [OF assms(2)] by simp
qed (use assms(2) in \<open>simp_all add: keeps_create keeps_clone rows_setSchedule rows_clear keeps_subset
    keeps_only keeps_settles report_settles sweep_settles attach_only detach_only release_only resize_only restore_only\<close>)

text \<open>
  C11: the tables of volumes stay well formed under every sequence of requests,
  reports and sweeps: ids and names are unique, sizes are within bounds, an attached
  volume is on a node, a volume is marked encrypted exactly when it has a sealed key,
  every snapshot belongs to a volume that exists under a name of its own, and there
  is at most one schedule per volume, with a retention and an interval within bounds.
\<close>

theorem volume_tables_invariant: "(vol_step d)\<^sup>*\<^sup>* empty_vol_db db \<Longrightarrow> vol_wf db"
  by (rule reachable_vol_wf)

text \<open>
  C3: a volume has one writer and one home. Whatever step is taken from a reachable
  state, a volume that is still there afterwards is on the node it was on, if it was
  on one; it is attached to the instance it was attached to, or to none, but never to
  another one; it has not shrunk, and it has the key it had.
\<close>

theorem volume_one_writer_one_home:
  assumes "(vol_step d)\<^sup>*\<^sup>* empty_vol_db db" "vol_step d db db'"
    and "v \<in> set (vol_rows db)" "v' \<in> set (vol_rows db')" "v_ID v' = v_ID v"
  shows "(v_NodeID v \<noteq> [] \<longrightarrow> v_NodeID v' = v_NodeID v) \<and>
    (v_InstanceID v \<noteq> [] \<longrightarrow> v_InstanceID v' = v_InstanceID v \<or> v_InstanceID v' = []) \<and>
    v_SizeGiB v \<le> v_SizeGiB v' \<and> v_KeySealed v' = v_KeySealed v \<and> v_KeyID v' = v_KeyID v"
proof -
  have "keeps db db'" by (rule vol_step_keeps [OF assms(2) reachable_vol_wf [OF assms(1)]])
  then have "row_keeps v v'" using assms(3-5) by (auto simp: keeps_def)
  then show ?thesis by (auto simp: row_keeps_def)
qed

section \<open>Keys reach the node that holds the volume, and no other\<close>

lemma keyForNode_row:
  assumes "vol_wf db" "v \<in> set (vol_rows db)"
  shows "repo_vol_byID db (v_ID v) = Inr v"
  using find_key [of v_ID "vol_rows db" v] assms by (simp add: repo_vol_byID_def vol_wf_def vols_wf_def)

text \<open>
  C14: the key minted for an encrypted volume is the key its node gets. After an
  encrypted volume is created, in any later table where the volume still has its
  sealed key, the node that holds the volume reads exactly the random bytes drawn for
  it, and every other node is told there is no such volume.
\<close>

theorem volume_key_roundtrip:
  assumes cipher: "is_cipher (frame_cipher (vd_crypto d) k salt)" and salt: "length salt = saltBytes"
    and keys: "vd_keys d = Some (NewKeyring (vd_crypto d) (k # ks))"
    and ids: "inj_on (key_ID (vd_crypto d)) (set (k # ks))"
    and created: "fst (vol_create d new_id raw salt now w db p) = Inr v" and enc: "vp_Encrypted p" "vp_BackupID p = []"
    and later: "vol_wf db'" "v' \<in> set (vol_rows db')" "v_ID v' = v_ID v" "v_KeySealed v' = v_KeySealed v" "v_KeyID v' = v_KeyID v"
  shows "keyForNode d db' (v_ID v) nid =
    (if v_NodeID v' = nid then Inr (hex_EncodeToString raw) else Inl (NotFound ''volume_not_found''))"
proof -
  have act: "ring_Active (vd_keys d) = Some k" using keys by (simp add: ring_Active_def NewKeyring_def)
  have find: "ring_Find (vd_keys d) (key_ID (vd_crypto d) k) = Some k"
    using keys ring_holds [OF ids, of k] by (simp add: ring_Find_def)
  have v: "v_KeySealed v = SealBytes (vd_crypto d) salt raw k \<and> v_KeyID v = key_ID (vd_crypto d) k"
    using created enc act
    by (auto simp: vol_create_def guardFor_def mintKey_def bindR_eq_Inr Let_def split: sum.splits prod.splits if_splits)
  then have "v_Encrypted v'"
    using later SealBytes_nonempty [of "vd_crypto d" salt raw k]
    by (auto simp: vol_wf_def vols_wf_def list_all_iff vol_ok_def)
  then show ?thesis
    using v later keyForNode_row [OF later(1,2)] find OpenBytes_SealBytes [OF cipher salt]
    by (auto simp: keyForNode_def)
qed

section \<open>Retention\<close>

definition made_by :: "schedule \<Rightarrow> snapshot \<Rightarrow> bool" where
  "made_by sc s \<longleftrightarrow> sn_ScheduleID s = sc_ID sc \<and> sn_State s = SnapshotReady"

definition keepable :: "schedule \<Rightarrow> vol_db \<Rightarrow> snapshot list" where
  "keepable sc db = filter (\<lambda>s. sn_State s = SnapshotReady) (repo_snapshotsBySchedule db (sc_ID sc))"

lemma keepable_mset: "mset (keepable sc db) = mset (filter (made_by sc) (snap_rows db))"
  by (simp add: keepable_def repo_snapshotsBySchedule_def mset_filter made_by_def flip: filter_filter)
    (simp add: filter_filter_mset conj_commute)

lemma keepable_sorted:
  "sorted_wrt (\<lambda>s t. stamp_key (sn_CreatedAt t) \<le> stamp_key (sn_CreatedAt s)) (keepable sc db)"
proof -
  have "sorted (map (\<lambda>s. stamp_key (sn_CreatedAt s)) (sort_key (\<lambda>s. stamp_key (sn_CreatedAt s)) xs))" for xs
    by simp
  then have "sorted_wrt (\<lambda>s t. stamp_key (sn_CreatedAt t) \<le> stamp_key (sn_CreatedAt s))
      (rev (sort_key (\<lambda>s. stamp_key (sn_CreatedAt s)) xs))" for xs
    by (simp add: sorted_map sorted_wrt_rev)
  then show ?thesis unfolding keepable_def repo_snapshotsBySchedule_def by (rule sorted_wrt_filter)
qed

lemma prune_exact:
  assumes "set ss \<subseteq> set (snap_rows db)" "distinct (map sn_ID (snap_rows db))" "distinct ss"
  shows "prune_loop ss n db = (Inr (n + int (length ss)), db\<lparr>snap_rows := filter (\<lambda>s. s \<notin> set ss) (snap_rows db)\<rparr>)"
  using assms
proof (induction ss arbitrary: n db)
  case (Cons s ss)
  have s: "s \<in> set (snap_rows db)" using Cons.prems by simp
  have id: "t = s" if "t \<in> set (snap_rows db)" "sn_ID t = sn_ID s" for t
    using distinct_map_eq [OF Cons.prems(2) that(1) s that(2)] .
  have "list_ex (\<lambda>t. sn_ID t = sn_ID s) (snap_rows db)" using s by (auto simp: list_ex_iff)
  moreover have "filter (\<lambda>t. sn_ID t \<noteq> sn_ID s) (snap_rows db) = filter (\<lambda>t. t \<noteq> s) (snap_rows db)"
    by (rule filter_cong) (use id in auto)
  ultimately have del: "repo_deleteSnapshot db (sn_ID s) =
      (Inr (), db\<lparr>snap_rows := filter (\<lambda>t. t \<noteq> s) (snap_rows db)\<rparr>)"
    by (simp add: repo_deleteSnapshot_def)
  have "prune_loop ss (n + 1) (db\<lparr>snap_rows := filter (\<lambda>t. t \<noteq> s) (snap_rows db)\<rparr>) =
      (Inr (n + 1 + int (length ss)),
       db\<lparr>snap_rows := filter (\<lambda>t. t \<notin> set ss) (filter (\<lambda>t. t \<noteq> s) (snap_rows db))\<rparr>)"
    using Cons.IH [of "db\<lparr>snap_rows := filter (\<lambda>t. t \<noteq> s) (snap_rows db)\<rparr>" "n + 1"] Cons.prems
    by (auto simp: distinct_map_filter)
  then show ?case using del by (simp add: conj_commute)
qed simp

text \<open>
  C38: retention keeps the newest. After the sweep prunes a schedule, the ready
  snapshots it made that are left are as many as the schedule keeps, or all there
  were; each pruned one was ready, made by this schedule, and not newer than any that
  is left; every other snapshot is untouched and the count reported is exact.
\<close>

theorem retention_keeps_newest:
  assumes wf: "vol_wf db" and keep: "MinKeep \<le> sc_Keep sc"
  shows "\<exists>gone db'. retain sc db = (Inr (int (length gone)), db') \<and> set gone \<subseteq> set (filter (made_by sc) (snap_rows db)) \<and>
    db' = db\<lparr>snap_rows := filter (\<lambda>s. s \<notin> set gone) (snap_rows db)\<rparr> \<and>
    length (filter (made_by sc) (snap_rows db')) = min (nat (sc_Keep sc)) (length (filter (made_by sc) (snap_rows db))) \<and>
    (\<forall>s\<in>set gone. \<forall>t\<in>set (filter (made_by sc) (snap_rows db')).
       stamp_key (sn_CreatedAt s) \<le> stamp_key (sn_CreatedAt t))"
proof -
  let ?ks = "keepable sc db" and ?all = "filter (made_by sc) (snap_rows db)" and ?k = "nat (sc_Keep sc)"
  let ?gone = "drop ?k ?ks" and ?kept = "take ?k ?ks"
  let ?db' = "db\<lparr>snap_rows := filter (\<lambda>s. s \<notin> set ?gone) (snap_rows db)\<rparr>"
  have ids: "distinct (map sn_ID (snap_rows db))" using wf by (simp add: vol_wf_def snaps_wf_def)
  have sets: "set ?ks = set ?all" "length ?ks = length ?all"
    using keepable_mset [of sc db] by (metis set_mset_mset, metis size_mset)
  have "distinct ?all" using ids by (simp add: distinct_map)
  then have dist: "distinct ?ks" using keepable_mset [of sc db] by (metis mset_eq_imp_distinct_iff)
  have parts: "set ?kept \<inter> set ?gone = {}" "set ?kept \<union> set ?gone = set ?all"
    using dist sets(1) by (metis append_take_drop_id distinct_append, metis append_take_drop_id set_append)
  have run: "retain sc db = (Inr (int (length ?gone)), ?db')"
  proof (cases "int (length ?ks) \<le> sc_Keep sc")
    case True
    then have "?gone = []" by simp
    then show ?thesis using True by (simp add: retain_def Let_def flip: keepable_def)
  next
    case False
    have "set ?gone \<subseteq> set (snap_rows db)" using parts(2) by auto
    from prune_exact [OF this ids, of 0] show ?thesis
      using False dist by (simp add: retain_def Let_def flip: keepable_def)
  qed
  have left: "set (filter (made_by sc) (snap_rows ?db')) = set ?kept" using parts by auto
  have "length (filter (made_by sc) (snap_rows ?db')) = card (set ?kept)"
    using ids left by (subst distinct_card [symmetric]) (auto simp: distinct_map)
  also have "\<dots> = min ?k (length ?all)" using dist sets(2) by (simp add: distinct_card)
  finally have count: "length (filter (made_by sc) (snap_rows ?db')) = min ?k (length ?all)" .
  have "sorted_wrt (\<lambda>s t. stamp_key (sn_CreatedAt t) \<le> stamp_key (sn_CreatedAt s)) (?kept @ ?gone)"
    using keepable_sorted [of sc db] by (simp only: append_take_drop_id)
  then have order: "\<forall>s\<in>set ?gone. \<forall>t\<in>set ?kept. stamp_key (sn_CreatedAt s) \<le> stamp_key (sn_CreatedAt t)"
    by (simp only: sorted_wrt_append) blast
  show ?thesis
    by (rule exI [of _ ?gone], rule exI [of _ ?db']) (use run parts(2) count order left in auto)
qed

section \<open>Concrete tables\<close>

definition demo_places :: "unit \<Rightarrow> string \<Rightarrow> string \<Rightarrow> placement result" where
  "demo_places w ref pid =
     (if ref \<in> {''i1'', ''i2''}
      then Inr \<lparr>pl_Observed = ''running'', pl_InstanceID = ref, pl_ProjectID = pid, pl_NodeID = ''n1'',
                pl_Isolation = ''vm'', pl_Running = True\<rparr>
      else Inl (NotFound ''instance_not_found''))"

definition demo_vol_deps :: "unit vol_deps" where
  "demo_vol_deps =
     \<lparr>vd_keys = Some (NewKeyring marked_crypto [''first-key'']), vd_crypto = marked_crypto, vd_quota = None,
      vd_backups = None, vd_instances = Some demo_places\<rparr>"

abbreviation disk_params :: vol_create_params where
  "disk_params \<equiv> \<lparr>vp_ProjectID = ''p'', vp_Name = ''data'', vp_SizeGiB = 10, vp_BackupID = [], vp_Encrypted = True\<rparr>"

definition vol_created :: "volume result \<times> vol_db" where
  "vol_created = vol_create demo_vol_deps ''v1'' ''raw'' ''0123456789abcdef'' 1 () empty_vol_db disk_params"

definition vol_attached :: "volume result \<times> vol_db" where
  "vol_attached = vol_attach demo_vol_deps 2 () (snd vol_created) ''data'' ''p'' ''i1''"

lemma attached_reachable: "(vol_step demo_vol_deps)\<^sup>*\<^sup>* empty_vol_db (snd vol_attached)"
  unfolding vol_attached_def vol_created_def
  by (rule rtranclp.rtrancl_into_rtrancl [OF r_into_rtranclp]) (rule step_create, rule step_attach)

abbreviation disk_rows :: "vol_db \<Rightarrow> (string \<times> string \<times> string \<times> bool) list" where
  "disk_rows db \<equiv> map (\<lambda>v. (v_ID v, v_InstanceID v, v_NodeID v, v_Detaching v)) (vol_rows db)"

definition demo_disk :: volume where
  "demo_disk =
     \<lparr>v_ID = ''v1'', v_ProjectID = ''p'', v_Name = ''data'', v_SizeGiB = 10, v_NodeID = [], v_InstanceID = [],
      v_RestoreFrom = [], v_BackupID = [], v_CloneFrom = [], v_CloneSnap = [], v_Detaching = False,
      v_Encrypted = True, v_KeySealed = SealBytes marked_crypto ''0123456789abcdef'' ''raw'' ''first-key'',
      v_KeyID = key_ID marked_crypto ''first-key'', v_CreatedAt = 1, v_UpdatedAt = 1\<rparr>"

lemma created_disk: "vol_created = (Inr demo_disk, empty_vol_db\<lparr>vol_rows := [demo_disk]\<rparr>)"
proof -
  have "validate_Name ''name'' ''data'' = Inr ()" by code_simp
  then show ?thesis
    by (simp add: vol_created_def vol_create_def repo_vol_insert_def guardFor_def mintKey_def demo_vol_deps_def
        ring_Active_def NewKeyring_def SealBytes_nonempty Let_def demo_disk_def)
qed

lemma attached_disk:
  "vol_attached = (Inr (demo_disk\<lparr>v_InstanceID := ''i1'', v_NodeID := ''n1''\<rparr>),
     empty_vol_db\<lparr>vol_rows := [demo_disk\<lparr>v_InstanceID := ''i1'', v_NodeID := ''n1'', v_UpdatedAt := 2\<rparr>]\<rparr>)"
  by (simp add: vol_attached_def created_disk vol_attach_def vol_resolveIn_def repo_vol_byName_def demo_vol_deps_def
      demo_places_def repo_vol_attach_def update_where_def demo_disk_def)

lemma attached_row: "disk_rows (snd vol_attached) = [(''v1'', ''i1'', ''n1'', False)]"
  by (simp add: attached_disk demo_disk_def)

theorem volume_tables_invariant_witness:
  "vol_wf (snd vol_attached) \<and> disk_rows (snd vol_attached) = [(''v1'', ''i1'', ''n1'', False)]"
  using volume_tables_invariant [OF attached_reachable] attached_row by simp

text \<open>A second attachment, of the instance i2, is refused and leaves the volume where it is.\<close>

theorem volume_one_writer_one_home_witness:
  "\<exists>v'. v' \<in> set (vol_rows (snd (vol_attach demo_vol_deps 3 () (snd vol_attached) ''data'' ''p'' ''i2''))) \<and>
     v_ID v' = ''v1'' \<and> v_NodeID v' = ''n1'' \<and> (v_InstanceID v' = ''i1'' \<or> v_InstanceID v' = [])"
proof -
  let ?v = "demo_disk\<lparr>v_InstanceID := ''i1'', v_NodeID := ''n1'', v_UpdatedAt := 2\<rparr>"
  have v: "?v \<in> set (vol_rows (snd vol_attached))" by (simp add: attached_disk)
  obtain v' where v': "v' \<in> set (vol_rows (snd (vol_attach demo_vol_deps 3 () (snd vol_attached) ''data'' ''p'' ''i2'')))"
      "v_ID v' = ''v1''"
    by (simp add: attached_disk vol_attach_def vol_resolveIn_def repo_vol_byName_def demo_vol_deps_def
        demo_places_def demo_disk_def)
  show ?thesis
    using volume_one_writer_one_home [OF attached_reachable step_attach v v'(1)] v' by (auto simp: demo_disk_def)
qed

lemma attached_wf: "vol_wf (snd vol_attached)"
  by (rule reachable_vol_wf [OF attached_reachable])

theorem volume_key_roundtrip_witness:
  "keyForNode demo_vol_deps (snd vol_attached) ''v1'' ''n1'' = Inr (hex_EncodeToString ''raw'') \<and>
   keyForNode demo_vol_deps (snd vol_attached) ''v1'' ''n2'' = Inl (NotFound ''volume_not_found'')"
proof -
  let ?v = "demo_disk\<lparr>v_InstanceID := ''i1'', v_NodeID := ''n1'', v_UpdatedAt := 2\<rparr>"
  have v: "?v \<in> set (vol_rows (snd vol_attached))" by (simp add: attached_disk)
  have c: "fst (vol_create demo_vol_deps ''v1'' ''raw'' ''0123456789abcdef'' 1 () empty_vol_db disk_params) = Inr demo_disk"
    using created_disk by (simp add: vol_created_def)
  have cipher: "is_cipher (frame_cipher (vd_crypto demo_vol_deps) ''first-key'' ''0123456789abcdef'')"
    using marking_cipher by (simp add: demo_vol_deps_def)
  have "keyForNode demo_vol_deps (snd vol_attached) (v_ID demo_disk) nid =
      (if v_NodeID ?v = nid then Inr (hex_EncodeToString ''raw'') else Inl (NotFound ''volume_not_found''))" for nid
    by (rule volume_key_roundtrip [OF cipher _ _ _ c _ _ attached_wf v, where ks = "[]"]) (simp_all add: demo_vol_deps_def)
  from this [of "''n1''"] this [of "''n2''"] show ?thesis by (simp add: demo_disk_def)
qed

definition demo_snap :: "string \<Rightarrow> go_time \<Rightarrow> snapshot" where
  "demo_snap i at = \<lparr>sn_ID = i, sn_VolumeID = ''v1'', sn_Name = i, sn_State = SnapshotReady, sn_Message = [],
     sn_SizeBytes = 1, sn_ScheduleID = ''q1'', sn_CreatedAt = at\<rparr>"

definition demo_schedule :: schedule where
  "demo_schedule = \<lparr>sc_ID = ''q1'', sc_ProjectID = ''p'', sc_VolumeID = ''v1'', sc_Every = minute, sc_Keep = 1,
     sc_NextAt = 0, sc_LastAt = 0, sc_CreatedAt = 0, sc_UpdatedAt = 0\<rparr>"

definition two_snaps :: vol_db where
  "two_snaps = \<lparr>vol_rows = vol_rows (snd vol_attached),
     snap_rows = [demo_snap ''a'' minute, demo_snap ''b'' (2 * minute)], sched_rows = [demo_schedule]\<rparr>"

theorem retention_keeps_newest_witness:
  "\<exists>(gone :: snapshot list) db'. retain demo_schedule two_snaps = (Inr (int (length gone)), db') \<and> length gone = 1 \<and>
     length (filter (made_by demo_schedule) (snap_rows db')) = 1 \<and> map sn_ID (snap_rows db') = [''b'']"
proof -
  have wf: "vol_wf two_snaps"
    using attached_wf attached_row
    by (simp add: vol_wf_def two_snaps_def snaps_wf_def scheds_wf_def demo_snap_def demo_schedule_def sched_ok_def attached_disk demo_disk_def)
  have keep: "MinKeep \<le> sc_Keep demo_schedule" by (simp add: demo_schedule_def)
  have all: "filter (made_by demo_schedule) (snap_rows two_snaps) = snap_rows two_snaps"
    by (simp add: two_snaps_def made_by_def demo_snap_def demo_schedule_def)
  obtain gone db' where g: "retain demo_schedule two_snaps = (Inr (int (length gone)), db')"
      "set gone \<subseteq> set (snap_rows two_snaps)" "snap_rows db' = filter (\<lambda>s. s \<notin> set gone) (snap_rows two_snaps)"
      "length (filter (made_by demo_schedule) (snap_rows db')) = 1"
      "\<forall>s\<in>set gone. \<forall>t\<in>set (filter (made_by demo_schedule) (snap_rows db')). stamp_key (sn_CreatedAt s) \<le> stamp_key (sn_CreatedAt t)"
    using retention_keeps_newest [OF wf keep] unfolding all by (auto simp: two_snaps_def demo_schedule_def)
  have r: "retain demo_schedule two_snaps = (Inr 1, two_snaps\<lparr>snap_rows := [demo_snap ''b'' (2 * minute)]\<rparr>)"
    by (simp add: retain_def Let_def two_snaps_def repo_snapshotsBySchedule_def demo_schedule_def demo_snap_def
        stamp_key_def repo_deleteSnapshot_def nano_text_def)
  have one: "length gone = 1" and db': "db' = two_snaps\<lparr>snap_rows := [demo_snap ''b'' (2 * minute)]\<rparr>" using g(1) r by simp_all
  have "map sn_ID (snap_rows db') = [''b'']" by (simp add: db' demo_snap_def)
  with g(1,4) one show ?thesis by (intro exI [of _ gone] exI [of _ db'] conjI)
qed

text \<open>
  Deleting an instance while one of its volumes is being detached leaves the mark on
  the volume: \<open>detachInstance\<close> frees the volume but does not clear \<open>detaching\<close>, and
  \<open>attach\<close> does not either. The next attachment starts out as detaching, and the first
  report of the node takes the volume away again.
\<close>

definition stale_detach :: "vol_db" where
  "stale_detach =
     (let db1 = snd (vol_detach demo_vol_deps 3 () (snd vol_attached) ''data'' ''p'');
          db2 = vol_releaseInstance 4 db1 ''i1''
      in snd (vol_attach demo_vol_deps 5 () db2 ''data'' ''p'' ''i2''))"

lemma stale_detach_row:
  "disk_rows stale_detach = [(''v1'', ''i2'', ''n1'', True)] \<and>
   disk_rows (vol_report 6 ''n1'' [\<lparr>rp_Detached = True, rp_VolumeID = ''v1'', rp_Snapshots = [], rp_Restored = [],
      rp_Error = []\<rparr>] stale_detach) = [(''v1'', [], ''n1'', False)]"
  by (simp add: stale_detach_def Let_def attached_disk vol_detach_def vol_resolveIn_def repo_vol_byName_def holdsIt_def
      demo_vol_deps_def demo_places_def repo_vol_setDetaching_def upd_vol_def update_where_def demo_disk_def
      vol_releaseInstance_def repo_vol_detachInstance_def vol_attach_def repo_vol_attach_def
      vol_report_def report_one_def repo_vol_byID_def repo_vol_detach_def repo_snapshots_def)

text \<open>Removing a volume leaves its snapshot schedule behind, which stays due for ever.\<close>

lemma schedule_outlives_volume:
  "vol_remove db ref pid = (Inr (), db') \<Longrightarrow> sched_rows db' = sched_rows db"
  by (auto simp: vol_remove_def repo_vol_delete_def split: sum.splits prod.splits if_splits)

end
