(* ===== verification/Quotas.thy ===== *)
theory Quotas
  imports Instances Volumes
begin

text \<open>
  Quotas, src/internal/platform/quota, and what they bound. The first part is the
  module: the table of limits, the requests and the admission of a claim, over an
  interface that measures what a project holds. The second part is the wiring of
  src/internal/app/adapters.go: what a project holds is measured from the tables of
  instances and volumes, and both modules ask for admission before they grow. The
  locale \<open>metered\<close> states what admission needs of a module it guards, and is
  interpreted on the instance module and on the volume module.
\<close>

section \<open>Types\<close>

record limits =
  ql_Instances :: int
  ql_VCPU :: int
  ql_MemoryMiB :: int
  ql_Volumes :: int
  ql_VolumeGiB :: int

record consumed =
  qc_Instances :: int
  qc_VCPU :: int
  qc_MemoryMiB :: int
  qc_Volumes :: int
  qc_VolumeGiB :: int

record quota_claim =
  qk_Instances :: int
  qk_VCPU :: int
  qk_MemoryMiB :: int
  qk_Volumes :: int
  qk_VolumeGiB :: int

record quota_row =
  q_ProjectID :: string
  q_Limits :: limits
  q_UpdatedAt :: go_time

record usage_report =
  qr_ProjectID :: string
  qr_Limits :: limits
  qr_Consumed :: consumed
  qr_UpdatedAt :: go_time

abbreviation (input) no_limits :: limits where
  "no_limits \<equiv> \<lparr>ql_Instances = 0, ql_VCPU = 0, ql_MemoryMiB = 0, ql_Volumes = 0, ql_VolumeGiB = 0\<rparr>"

abbreviation (input) nothing_consumed :: consumed where
  "nothing_consumed \<equiv> \<lparr>qc_Instances = 0, qc_VCPU = 0, qc_MemoryMiB = 0, qc_Volumes = 0, qc_VolumeGiB = 0\<rparr>"

abbreviation (input) no_claim :: quota_claim where
  "no_claim \<equiv> \<lparr>qk_Instances = 0, qk_VCPU = 0, qk_MemoryMiB = 0, qk_Volumes = 0, qk_VolumeGiB = 0\<rparr>"

definition limits_Empty :: "limits \<Rightarrow> bool" where
  "limits_Empty l \<longleftrightarrow> l = no_limits"

record dimension =
  dm_name :: string
  dm_unit :: string
  dm_limit :: int
  dm_consumed :: int
  dm_claim :: int

definition against :: "limits \<Rightarrow> consumed \<Rightarrow> quota_claim \<Rightarrow> dimension list" where
  "against l c k =
     [\<lparr>dm_name = ''instances'', dm_unit = [], dm_limit = ql_Instances l, dm_consumed = qc_Instances c, dm_claim = qk_Instances k\<rparr>,
      \<lparr>dm_name = ''vcpu'', dm_unit = [], dm_limit = ql_VCPU l, dm_consumed = qc_VCPU c, dm_claim = qk_VCPU k\<rparr>,
      \<lparr>dm_name = ''memory'', dm_unit = ''MiB'', dm_limit = ql_MemoryMiB l, dm_consumed = qc_MemoryMiB c, dm_claim = qk_MemoryMiB k\<rparr>,
      \<lparr>dm_name = ''volumes'', dm_unit = [], dm_limit = ql_Volumes l, dm_consumed = qc_Volumes c, dm_claim = qk_Volumes k\<rparr>,
      \<lparr>dm_name = ''volume capacity'', dm_unit = ''GiB'', dm_limit = ql_VolumeGiB l, dm_consumed = qc_VolumeGiB c, dm_claim = qk_VolumeGiB k\<rparr>]"

section \<open>Repository\<close>

definition repo_quota_upsert :: "quota_row list \<Rightarrow> quota_row \<Rightarrow> quota_row list" where
  "repo_quota_upsert rows q =
     (if list_ex (\<lambda>x. q_ProjectID x = q_ProjectID q) rows
      then update_where (\<lambda>x. q_ProjectID x = q_ProjectID q) (\<lambda>_. q) rows
      else rows @ [q])"

definition repo_quota_byProject :: "quota_row list \<Rightarrow> string \<Rightarrow> quota_row option" where
  "repo_quota_byProject rows pid = find (\<lambda>x. q_ProjectID x = pid) rows"

definition repo_quota_list :: "quota_row list \<Rightarrow> quota_row list" where
  "repo_quota_list rows = sort_key q_ProjectID rows"

definition repo_quota_delete :: "quota_row list \<Rightarrow> string \<Rightarrow> bool \<times> quota_row list" where
  "repo_quota_delete rows pid =
     (if list_ex (\<lambda>x. q_ProjectID x = pid) rows
      then (True, filter (\<lambda>x. q_ProjectID x \<noteq> pid) rows) else (False, rows))"

section \<open>Service\<close>

abbreviation (input) MaxLimit :: int where "MaxLimit \<equiv> 16777216"

type_synonym usage = "string \<Rightarrow> consumed result"

fun check_limits :: "dimension list \<Rightarrow> unit result" where
  "check_limits [] = Inr ()"
| "check_limits (d # ds) =
     (if dm_limit d < 0 then Inl (Invalid ''invalid_limit'')
      else if MaxLimit < dm_limit d then Inl (Invalid ''invalid_limit'')
      else check_limits ds)"

definition quota_set ::
    "(string \<Rightarrow> bool result) option \<Rightarrow> go_time \<Rightarrow> quota_row list \<Rightarrow> string \<Rightarrow> limits \<Rightarrow>
     quota_row result \<times> quota_row list" where
  "quota_set projects now rows pid l =
     (case bindR (check_limits (against l nothing_consumed no_claim)) (\<lambda>_.
           case projects of
             None \<Rightarrow> Inl (Unavailable ''projects_unavailable'')
           | Some exists \<Rightarrow>
               (case exists pid of
                  Inl _ \<Rightarrow> Inl Internal
                | Inr known \<Rightarrow> if known then Inr () else Inl (NotFound ''project_not_found''))) of
        Inl e \<Rightarrow> (Inl e, rows)
      | Inr _ \<Rightarrow>
          (let q = \<lparr>q_ProjectID = pid, q_Limits = l, q_UpdatedAt = now\<rparr>
           in (Inr q, repo_quota_upsert rows q)))"

definition limitsOf :: "quota_row list \<Rightarrow> string \<Rightarrow> limits" where
  "limitsOf rows pid = (case repo_quota_byProject rows pid of None \<Rightarrow> no_limits | Some q \<Rightarrow> q_Limits q)"

definition quota_consumed :: "usage option \<Rightarrow> string \<Rightarrow> consumed result" where
  "quota_consumed u pid =
     (case u of
        None \<Rightarrow> Inl (Unavailable ''usage_unavailable'')
      | Some inProject \<Rightarrow> (case inProject pid of Inl _ \<Rightarrow> Inl Internal | Inr c \<Rightarrow> Inr c))"

definition quota_report :: "usage option \<Rightarrow> quota_row list \<Rightarrow> string \<Rightarrow> usage_report result" where
  "quota_report u rows pid =
     bindR (quota_consumed u pid) (\<lambda>c.
       Inr \<lparr>qr_ProjectID = pid, qr_Limits = limitsOf rows pid, qr_Consumed = c,
            qr_UpdatedAt = (case repo_quota_byProject rows pid of None \<Rightarrow> zero_time | Some q \<Rightarrow> q_UpdatedAt q)\<rparr>)"

fun report_rows :: "usage option \<Rightarrow> quota_row list \<Rightarrow> usage_report list result" where
  "report_rows u [] = Inr []"
| "report_rows u (q # rest) =
     bindR (quota_consumed u (q_ProjectID q)) (\<lambda>c.
     bindR (report_rows u rest) (\<lambda>rs.
       Inr (\<lparr>qr_ProjectID = q_ProjectID q, qr_Limits = q_Limits q, qr_Consumed = c,
             qr_UpdatedAt = q_UpdatedAt q\<rparr> # rs)))"

definition quota_reports :: "usage option \<Rightarrow> quota_row list \<Rightarrow> usage_report list result" where
  "quota_reports u rows = report_rows u (repo_quota_list rows)"

fun admit_dims :: "dimension list \<Rightarrow> unit result" where
  "admit_dims [] = Inr ()"
| "admit_dims (d # ds) =
     (if dm_limit d = 0 \<or> dm_claim d = 0 then admit_dims ds
      else if dm_limit d < dm_consumed d + dm_claim d then Inl (Conflict ''quota_exceeded'')
      else admit_dims ds)"

definition quota_admit :: "usage option \<Rightarrow> quota_row list \<Rightarrow> string \<Rightarrow> quota_claim \<Rightarrow> unit result" where
  "quota_admit u rows pid k =
     (let l = limitsOf rows pid
      in if limits_Empty l then Inr ()
         else bindR (quota_consumed u pid) (\<lambda>c. admit_dims (against l c k)))"

definition quota_remove :: "quota_row list \<Rightarrow> string \<Rightarrow> unit result \<times> quota_row list" where
  "quota_remove rows pid =
     (case repo_quota_delete rows pid of
        (True, rows') \<Rightarrow> (Inr (), rows') | (False, rows') \<Rightarrow> (Inl (NotFound ''quota_not_found''), rows'))"

section \<open>What admission means\<close>

text \<open>A project is within its limits in every dimension that has one.\<close>

definition within :: "limits \<Rightarrow> consumed \<Rightarrow> bool" where
  "within l c \<longleftrightarrow> list_all (\<lambda>d. dm_limit d = 0 \<or> dm_consumed d \<le> dm_limit d) (against l c no_claim)"

definition with_claim :: "consumed \<Rightarrow> quota_claim \<Rightarrow> consumed" where
  "with_claim c k =
     \<lparr>qc_Instances = qc_Instances c + qk_Instances k, qc_VCPU = qc_VCPU c + qk_VCPU k,
      qc_MemoryMiB = qc_MemoryMiB c + qk_MemoryMiB k, qc_Volumes = qc_Volumes c + qk_Volumes k,
      qc_VolumeGiB = qc_VolumeGiB c + qk_VolumeGiB k\<rparr>"

definition at_most :: "consumed \<Rightarrow> consumed \<Rightarrow> bool" where
  "at_most c c' \<longleftrightarrow> qc_Instances c \<le> qc_Instances c' \<and> qc_VCPU c \<le> qc_VCPU c' \<and> qc_MemoryMiB c \<le> qc_MemoryMiB c' \<and>
     qc_Volumes c \<le> qc_Volumes c' \<and> qc_VolumeGiB c \<le> qc_VolumeGiB c'"

lemma at_most_refl [simp]: "at_most c c"
  by (simp add: at_most_def)

lemma within_mono: "within l c' \<Longrightarrow> at_most c c' \<Longrightarrow> within l c"
  by (auto simp: within_def against_def at_most_def)

lemma admit_dims_iff:
  "admit_dims ds = Inr () \<longleftrightarrow> list_all (\<lambda>d. dm_limit d = 0 \<or> dm_claim d = 0 \<or> dm_consumed d + dm_claim d \<le> dm_limit d) ds"
  by (induction ds) auto

lemma admit_against:
  "admit_dims (against l c k) = Inr () \<longleftrightarrow>
     (ql_Instances l = 0 \<or> qk_Instances k = 0 \<or> qc_Instances c + qk_Instances k \<le> ql_Instances l) \<and>
     (ql_VCPU l = 0 \<or> qk_VCPU k = 0 \<or> qc_VCPU c + qk_VCPU k \<le> ql_VCPU l) \<and>
     (ql_MemoryMiB l = 0 \<or> qk_MemoryMiB k = 0 \<or> qc_MemoryMiB c + qk_MemoryMiB k \<le> ql_MemoryMiB l) \<and>
     (ql_Volumes l = 0 \<or> qk_Volumes k = 0 \<or> qc_Volumes c + qk_Volumes k \<le> ql_Volumes l) \<and>
     (ql_VolumeGiB l = 0 \<or> qk_VolumeGiB k = 0 \<or> qc_VolumeGiB c + qk_VolumeGiB k \<le> ql_VolumeGiB l)"
  unfolding admit_dims_iff by (simp add: against_def)

lemma fits: "L = 0 \<or> k = 0 \<or> c + k \<le> L \<Longrightarrow> L = 0 \<or> c \<le> L \<Longrightarrow> L = 0 \<or> c + k \<le> L" for L :: int
  by auto

lemma within_iff:
  "within l c \<longleftrightarrow>
     (ql_Instances l = 0 \<or> qc_Instances c \<le> ql_Instances l) \<and> (ql_VCPU l = 0 \<or> qc_VCPU c \<le> ql_VCPU l) \<and>
     (ql_MemoryMiB l = 0 \<or> qc_MemoryMiB c \<le> ql_MemoryMiB l) \<and> (ql_Volumes l = 0 \<or> qc_Volumes c \<le> ql_Volumes l) \<and>
     (ql_VolumeGiB l = 0 \<or> qc_VolumeGiB c \<le> ql_VolumeGiB l)"
  by (simp add: within_def against_def)

lemma within_empty: "limits_Empty l \<Longrightarrow> within l c"
  by (simp add: limits_Empty_def within_def against_def)

lemma admit_within:
  assumes "quota_admit (Some u) rows pid k = Inr ()" "u pid = Inr c" "within (limitsOf rows pid) c"
  shows "within (limitsOf rows pid) (with_claim c k)"
proof (cases "limits_Empty (limitsOf rows pid)")
  case False
  then have "admit_dims (against (limitsOf rows pid) c k) = Inr ()"
    using assms by (simp add: quota_admit_def Let_def quota_consumed_def)
  then show ?thesis
    using assms(3) unfolding admit_against within_iff by (simp add: with_claim_def fits)
qed (simp add: within_empty)

section \<open>Modules under quota\<close>

text \<open>
  A module whose tables are measured: each of its steps either does not increase
  what a project holds, or increases it by no more than a claim that was admitted
  in the state before the step.
\<close>

locale metered =
  fixes holds :: "'db \<Rightarrow> string \<Rightarrow> consumed"
    and wf :: "'db \<Rightarrow> bool"
    and step :: "('db \<Rightarrow> string \<Rightarrow> quota_claim \<Rightarrow> unit result) \<Rightarrow> 'db \<Rightarrow> 'db \<Rightarrow> bool"
  assumes step_wf: "wf db \<Longrightarrow> step A db db' \<Longrightarrow> wf db'"
    and step_claims: "wf db \<Longrightarrow> step A db db' \<Longrightarrow>
      at_most (holds db' pid) (holds db pid) \<or>
      (\<exists>k. A db pid k = Inr () \<and> at_most (holds db' pid) (with_claim (holds db pid) k))"
begin

lemma stays_within:
  assumes wf: "wf db" and step: "step (\<lambda>db. quota_admit (Some (meter db)) rows) db db'"
    and meter: "\<And>db pid. meter db pid = Inr (sum_up (holds db pid) pid)"
    and mono: "\<And>c c' pid. at_most c c' \<Longrightarrow> at_most (sum_up c pid) (sum_up c' pid)"
    and adds: "\<And>c k pid. sum_up (with_claim c k) pid = with_claim (sum_up c pid) k"
    and before: "within (limitsOf rows pid) (sum_up (holds db pid) pid)"
  shows "within (limitsOf rows pid) (sum_up (holds db' pid) pid)"
  using step_claims [OF wf step, of pid]
proof (elim disjE exE conjE)
  assume "at_most (holds db' pid) (holds db pid)"
  then show ?thesis using within_mono [OF before] mono by blast
next
  fix k
  assume ok: "quota_admit (Some (meter db)) rows pid k = Inr ()"
    and le: "at_most (holds db' pid) (with_claim (holds db pid) k)"
  have "within (limitsOf rows pid) (with_claim (sum_up (holds db pid) pid) k)"
    by (rule admit_within [OF ok meter before])
  then show ?thesis using within_mono mono [OF le] adds by metis
qed

end

section \<open>Instances and volumes under quota\<close>

text \<open>\<open>projectUsage.InProject\<close>.\<close>

definition InProject :: "inst_db \<Rightarrow> vol_db \<Rightarrow> usage" where
  "InProject idb vdb pid =
     (let running = repo_inst_footprintIn idb pid; stored = repo_vol_footprintIn vdb pid
      in Inr \<lparr>qc_Instances = fp_Instances running, qc_VCPU = fp_VCPU running, qc_MemoryMiB = fp_MemoryMiB running,
              qc_Volumes = vf_Volumes stored, qc_VolumeGiB = vf_SizeGiB stored\<rparr>)"

text \<open>
  The adapters turn a request into a claim; \<open>A\<close> is the admission of the quota module,
  given the table of the module that asks.
\<close>

definition instanceQuota :: "(inst_db \<Rightarrow> string \<Rightarrow> quota_claim \<Rightarrow> unit result) \<Rightarrow> 'w quota_if" where
  "instanceQuota A =
     \<lparr>AdmitInstance = (\<lambda>w db pid vcpu mem. A db pid (no_claim\<lparr>qk_Instances := 1, qk_VCPU := vcpu, qk_MemoryMiB := mem\<rparr>)),
      AdmitGrowth = (\<lambda>w db pid vcpu mem. A db pid (no_claim\<lparr>qk_VCPU := vcpu, qk_MemoryMiB := mem\<rparr>))\<rparr>"

definition volumeQuota :: "(vol_db \<Rightarrow> string \<Rightarrow> quota_claim \<Rightarrow> unit result) \<Rightarrow> 'w vol_quota_if" where
  "volumeQuota A =
     \<lparr>AdmitVolume = (\<lambda>w db pid gib. A db pid (no_claim\<lparr>qk_Volumes := 1, qk_VolumeGiB := gib\<rparr>)),
      AdmitVolumeGrowth = (\<lambda>w db pid gib. A db pid (no_claim\<lparr>qk_VolumeGiB := gib\<rparr>))\<rparr>"

definition inst_holds :: "inst_db \<Rightarrow> string \<Rightarrow> consumed" where
  "inst_holds idb pid =
     (let running = repo_inst_footprintIn idb pid
      in nothing_consumed\<lparr>qc_Instances := fp_Instances running, qc_VCPU := fp_VCPU running,
                          qc_MemoryMiB := fp_MemoryMiB running\<rparr>)"

definition vol_holds :: "vol_db \<Rightarrow> string \<Rightarrow> consumed" where
  "vol_holds vdb pid =
     (let stored = repo_vol_footprintIn vdb pid
      in nothing_consumed\<lparr>qc_Volumes := vf_Volumes stored, qc_VolumeGiB := vf_SizeGiB stored\<rparr>)"

subsection \<open>Instances\<close>

abbreviation size_of :: "instance_row \<Rightarrow> string \<times> int \<times> int" where
  "size_of r \<equiv> (i_ProjectID r, i_VCPU r, i_MemoryMiB r)"

lemma inst_holds_cong: "map size_of (instances db') = map size_of (instances db) \<Longrightarrow> inst_holds db' pid = inst_holds db pid"
proof -
  assume eq: "map size_of (instances db') = map size_of (instances db)"
  have "map size_of (filter (\<lambda>r. i_ProjectID r = pid) rs) = filter (\<lambda>t. fst t = pid) (map size_of rs)" for rs
    by (simp add: filter_map comp_def)
  then have rows: "map size_of (filter (\<lambda>r. i_ProjectID r = pid) (instances db')) =
      map size_of (filter (\<lambda>r. i_ProjectID r = pid) (instances db))" (is "map size_of ?x = map size_of ?y")
    using eq by simp
  have "length ?x = length ?y" using arg_cong [OF rows, of length] by simp
  moreover have "map i_VCPU ?x = map i_VCPU ?y" using arg_cong [OF rows, of "map (\<lambda>t. fst (snd t))"] by (simp add: comp_def)
  moreover have "map i_MemoryMiB ?x = map i_MemoryMiB ?y" using arg_cong [OF rows, of "map (\<lambda>t. snd (snd t))"] by (simp add: comp_def)
  ultimately show ?thesis by (simp add: inst_holds_def repo_inst_footprintIn_def Let_def)
qed

lemma sizes_update_expecting:
  "(\<And>r. size_of (f r) = size_of r) \<Longrightarrow>
   map size_of (instances (snd (update_expecting e P f db))) = map size_of (instances db)"
  by (auto simp: update_expecting_def map_update_where)

lemma sizes_forgetParked: "map size_of (instances (forgetParked d db i)) = map size_of (instances db)"
  by simp

lemmas repo_inst_updates = repo_inst_setObserved_def repo_inst_assign_def repo_inst_setMigrating_def
  repo_inst_releasePlacement_def repo_inst_setDesired_def

lemma sizes_setDesired: "map size_of (instances (snd (repo_inst_setDesired db i st now))) = map size_of (instances db)"
  unfolding repo_inst_updates by (rule sizes_update_expecting) simp

lemma sizes_setObserved:
  "map size_of (instances (snd (repo_inst_setObserved db i n st m c x now))) = map size_of (instances db)"
  unfolding repo_inst_updates by (rule sizes_update_expecting) simp

lemma sizes_assign: "map size_of (instances (snd (repo_inst_assign db i n now))) = map size_of (instances db)"
  unfolding repo_inst_updates by (rule sizes_update_expecting) simp

lemma sizes_setMigrating:
  "map size_of (instances (snd (repo_inst_setMigrating db i a b n now))) = map size_of (instances db)"
  unfolding repo_inst_updates by (rule sizes_update_expecting) simp

lemma sizes_releasePlacement:
  "map size_of (instances (snd (repo_inst_releasePlacement db i n now))) = map size_of (instances db)"
  unfolding repo_inst_updates by (rule sizes_update_expecting) simp

lemma sizes_message: "map size_of (instances (repo_inst_setObservedMessage db i m now)) = map size_of (instances db)"
  by (simp add: repo_inst_setObservedMessage_def map_update_where)

lemma sizes_of_run: "map size_of (instances (snd r)) = M \<Longrightarrow> r = (res, db') \<Longrightarrow> map size_of (instances db') = M"
  by simp

lemmas sizes_kept = sizes_setDesired [THEN sizes_of_run] sizes_setObserved [THEN sizes_of_run]
  sizes_assign [THEN sizes_of_run] sizes_setMigrating [THEN sizes_of_run] sizes_releasePlacement [THEN sizes_of_run]

definition instance_claim :: "int \<Rightarrow> int \<Rightarrow> quota_claim" where
  "instance_claim vcpu mem = no_claim\<lparr>qk_Instances := 1, qk_VCPU := vcpu, qk_MemoryMiB := mem\<rparr>"

lemma holds_insert:
  "at_most (inst_holds (db\<lparr>instances := instances db @ [r]\<rparr>) pid)
     (if i_ProjectID r = pid then with_claim (inst_holds db pid) (instance_claim (i_VCPU r) (i_MemoryMiB r))
      else inst_holds db pid)"
  by (simp add: inst_holds_def repo_inst_footprintIn_def Let_def with_claim_def instance_claim_def at_most_def)

lemma create_claims:
  fixes A :: "inst_db \<Rightarrow> string \<Rightarrow> quota_claim \<Rightarrow> unit result"
  assumes q: "quota d = Some (instanceQuota A)" and run: "inst_create d new_id now db w p = (res, db', w')"
  shows "at_most (inst_holds db' pid) (inst_holds db pid) \<or>
    (\<exists>k. A db pid k = Inr () \<and> at_most (inst_holds db' pid) (with_claim (inst_holds db pid) k))"
proof (cases "instances db' = instances db")
  case True
  then show ?thesis using inst_holds_cong [of db' db pid] by simp
next
  case False
  obtain n a net e k f ri where n: "normalize p = Inr n"
      and ok: "AdmitInstance (instanceQuota A) w db (c_ProjectID p) (c_VCPU n) (c_MemoryMiB n) = Inr ()"
      and ins: "repo_inst_insert db (new_instance new_id now p n a net e k f) = (ri, db')"
    using run False unfolding inst_create_def Let_def q
    by (auto split: sum.splits prod.splits)
  let ?r = "new_instance new_id now p n a net e k f"
  have db': "db' = db\<lparr>instances := instances db @ [?r]\<rparr>"
    using ins False by (auto simp: repo_inst_insert_def split: if_splits)
  have r: "i_ProjectID ?r = c_ProjectID p" "i_VCPU ?r = c_VCPU n" "i_MemoryMiB ?r = c_MemoryMiB n"
    by (simp_all add: new_instance_def)
  have "A db (c_ProjectID p) (instance_claim (c_VCPU n) (c_MemoryMiB n)) = Inr ()"
    using ok by (simp add: instanceQuota_def instance_claim_def)
  then show ?thesis using holds_insert [of db ?r pid] unfolding db' r by (cases "c_ProjectID p = pid") auto
qed

lemma resize_claims:
  fixes A :: "inst_db \<Rightarrow> string \<Rightarrow> quota_claim \<Rightarrow> unit result"
  assumes q: "quota d = Some (instanceQuota A)" and wf: "inst_wf db"
    and run: "inst_resize d now db w ref pr v0 m0 = (res, db')"
  shows "at_most (inst_holds db' pid) (inst_holds db pid) \<or>
    (\<exists>k. A db pid k = Inr () \<and> at_most (inst_holds db' pid) (with_claim (inst_holds db pid) k))"
proof (cases "instances db' = instances db")
  case True
  then show ?thesis using inst_holds_cong [of db' db pid] by simp
next
  case False
  define f where "f = (\<lambda>v m (r :: instance_row). r\<lparr>i_VCPU := v, i_MemoryMiB := m, i_UpdatedAt := now\<rparr>)"
  obtain r where r: "inst_getIn db ref pr = Inr r"
    using run False by (auto simp: inst_resize_def split: sum.splits)
  define v where "v = (if v0 = 0 then i_VCPU r else v0)"
  define m where "m = (if m0 = 0 then i_MemoryMiB r else m0)"
  have "A db pr (no_claim\<lparr>qk_VCPU := max (v - i_VCPU r) 0, qk_MemoryMiB := max (m - i_MemoryMiB r) 0\<rparr>) = Inr () \<and>
      snd (repo_inst_setSize db (i_ID r) v m now) = db'"
    using run False unfolding inst_resize_def Let_def q r sum.case v_def [symmetric] m_def [symmetric]
    by (auto simp: instanceQuota_def split: sum.splits prod.splits if_splits)
  then have ok: "A db pr (no_claim\<lparr>qk_VCPU := max (v - i_VCPU r) 0, qk_MemoryMiB := max (m - i_MemoryMiB r) 0\<rparr>) = Inr ()"
    and set: "snd (repo_inst_setSize db (i_ID r) v m now) = db'" by simp_all
  note in_r = getIn_project [OF r]
  have rows: "instances db' = update_where (\<lambda>y. i_ID y = i_ID r) (f v m) (instances db)"
    using set False by (auto simp: repo_inst_setSize_def update_expecting_def f_def split: if_splits)
  have d: "distinct (map i_ID (instances db))" using wf by (simp add: inst_wf_def)
  have P: "\<And>y. (i_ProjectID (f v m y) = pid) = (i_ProjectID y = pid)" by (simp add: f_def)
  note sums = sum_update_one [OF d, of r "\<lambda>y. i_ProjectID y = pid" "f v m", OF _ P]
  have "at_most (inst_holds db' pid) (if pr = pid then with_claim (inst_holds db pid)
      (no_claim\<lparr>qk_VCPU := max (v - i_VCPU r) 0, qk_MemoryMiB := max (m - i_MemoryMiB r) 0\<rparr>) else inst_holds db pid)"
    using in_r sums [of i_VCPU] sums [of i_MemoryMiB] length_filter_update [of "\<lambda>y. i_ProjectID y = pid" "f v m", OF P]
    by (auto simp: inst_holds_def repo_inst_footprintIn_def Let_def with_claim_def at_most_def rows f_def)
  then show ?thesis using ok by (cases "pr = pid") auto
qed

lemma delete_claims:
  assumes wf: "inst_wf db" and run: "inst_delete d db w ref pr = (res, db', w')"
  shows "at_most (inst_holds db' pid) (inst_holds db pid)"
proof -
  have "instances db' = instances db \<or> (\<exists>i. instances db' = filter (\<lambda>r. i_ID r \<noteq> i) (instances db))"
    using run unfolding inst_delete_def Let_def repo_inst_delete_def
    by (auto split: sum.splits prod.splits option.splits if_splits)
  moreover have "0 \<le> i_VCPU r \<and> 0 \<le> i_MemoryMiB r" if "r \<in> set (instances db)" for r
    using that wf by (auto simp: inst_wf_def list_all_iff row_ok_def)
  ultimately show ?thesis
    by (auto simp: inst_holds_def repo_inst_footprintIn_def Let_def at_most_def length_filter_filter_le
        intro!: sum_filter_le simp del: filter_filter)
qed

lemma step_sizes_kept:
  assumes "map size_of (instances db') = map size_of (instances db)"
  shows "at_most (inst_holds db' pid) (inst_holds db pid)"
  using inst_holds_cong [OF assms] by simp

lemma inst_step_claims:
  fixes d :: "'w inst_deps" and A :: "inst_db \<Rightarrow> string \<Rightarrow> quota_claim \<Rightarrow> unit result"
  assumes "inst_step (d\<lparr>quota := Some (instanceQuota A)\<rparr>) db db'" and wf: "inst_wf db"
  shows "at_most (inst_holds db' pid) (inst_holds db pid) \<or>
    (\<exists>k. A db pid k = Inr () \<and> at_most (inst_holds db' pid) (with_claim (inst_holds db pid) k))"
  using assms(1)
proof (cases rule: inst_step.cases)
  case (create new_id now w params)
  then show ?thesis
    using create_claims [of "d\<lparr>quota := Some (instanceQuota A)\<rparr>" A new_id now db w params] by (metis inst_deps.select_convs(3) inst_deps.surjective inst_deps.update_convs(3) prod.collapse)
next
  case (resize now w ref projectID vcpu mem)
  then show ?thesis
    using resize_claims [OF _ wf, of "d\<lparr>quota := Some (instanceQuota A)\<rparr>" A now w ref projectID vcpu mem]
    by (metis inst_deps.select_convs(3) inst_deps.surjective inst_deps.update_convs(3) prod.collapse)
next
  case (delete w ref projectID)
  then show ?thesis
    using delete_claims [OF wf, of "d\<lparr>quota := Some (instanceQuota A)\<rparr>" w ref projectID] by (metis prod.collapse)
next
  case desired
  then show ?thesis
    by (auto simp: inst_setDesired_def intro!: step_sizes_kept split: sum.splits prod.splits dest!: sizes_kept)
next
  case report
  then show ?thesis
    by (auto simp: inst_reportObserved_def intro!: step_sizes_kept dest!: sizes_kept
        split: sum.splits prod.splits inst_error.splits if_splits)
next
  case release
  then show ?thesis
    by (auto simp: inst_releasePlacement_def intro!: step_sizes_kept dest!: sizes_kept
        split: sum.splits prod.splits option.splits)
next
  case assign
  then show ?thesis
    by (auto simp: inst_assign_def intro!: step_sizes_kept dest!: sizes_kept split: sum.splits prod.splits)
next
  case hold
  then show ?thesis using sizes_message by (auto simp: inst_holdPlacement_def intro!: step_sizes_kept)
next
  case begin_move
  then show ?thesis
    by (auto simp: beginMigration_def intro!: step_sizes_kept dest!: sizes_kept split: sum.splits prod.splits if_splits)
next
  case park
  then show ?thesis
    by (auto simp: parkDisk_def Let_def intro!: step_sizes_kept dest!: sizes_kept
        split: sum.splits prod.splits option.splits if_splits)
next
  case finish_move
  then show ?thesis
    by (auto simp: finishMigration_def Let_def intro!: step_sizes_kept dest!: sizes_kept
        split: sum.splits prod.splits if_splits)
qed

interpretation metered_instances: metered inst_holds inst_wf "\<lambda>A. inst_step (d\<lparr>quota := Some (instanceQuota A)\<rparr>)"
  for d :: "'w inst_deps"
proof (unfold_locales, goal_cases)
  case (1 db A db')
  then show ?case using inst_step_wf by blast
next
  case (2 db A db' pid)
  then show ?case using inst_step_claims by blast
qed

subsection \<open>Volumes\<close>

abbreviation gib_of :: "volume \<Rightarrow> string \<times> int" where
  "gib_of v \<equiv> (v_ProjectID v, v_SizeGiB v)"

lemma vol_holds_cong: "map gib_of (vol_rows db') = map gib_of (vol_rows db) \<Longrightarrow> vol_holds db' pid = vol_holds db pid"
proof -
  assume eq: "map gib_of (vol_rows db') = map gib_of (vol_rows db)"
  have "map gib_of (filter (\<lambda>v. v_ProjectID v = pid) vs) = filter (\<lambda>t. fst t = pid) (map gib_of vs)" for vs
    by (simp add: filter_map comp_def)
  then have rows: "map gib_of (filter (\<lambda>v. v_ProjectID v = pid) (vol_rows db')) =
      map gib_of (filter (\<lambda>v. v_ProjectID v = pid) (vol_rows db))" (is "map gib_of ?x = map gib_of ?y")
    using eq by simp
  have "length ?x = length ?y" using arg_cong [OF rows, of length] by simp
  moreover have "map v_SizeGiB ?x = map v_SizeGiB ?y" using arg_cong [OF rows, of "map snd"] by (simp add: comp_def)
  ultimately show ?thesis by (simp add: vol_holds_def repo_vol_footprintIn_def Let_def)
qed

lemma gibs_kept: "map gib_of (vol_rows db') = map gib_of (vol_rows db) \<Longrightarrow> at_most (vol_holds db' pid) (vol_holds db pid)"
  using vol_holds_cong [of db' db pid] by simp

lemma gibs_upd:
  "(\<And>v. gib_of (f v) = gib_of v) \<Longrightarrow> map gib_of (vol_rows (upd_vol i f db)) = map gib_of (vol_rows db)"
  by (simp add: upd_vol_def map_update_where)

lemma gibs_settles: "settles db db' \<Longrightarrow> vol_wf db \<Longrightarrow> map gib_of (vol_rows db') = map gib_of (vol_rows db)"
proof -
  have "list_all2 row_settles vs vs' \<Longrightarrow> map gib_of vs' = map gib_of vs" for vs vs'
    by (induction rule: list_all2_induct) (simp_all add: row_settles_def row_keeps_def)
  then show "settles db db' \<Longrightarrow> vol_wf db \<Longrightarrow> ?thesis" by (simp add: settles_def)
qed

definition volume_claim :: "int \<Rightarrow> quota_claim" where
  "volume_claim gib = no_claim\<lparr>qk_Volumes := 1, qk_VolumeGiB := gib\<rparr>"

lemma insert_claims:
  fixes A :: "vol_db \<Rightarrow> string \<Rightarrow> quota_claim \<Rightarrow> unit result"
  assumes ins: "repo_vol_insert db v = (res, db')" and ok: "A db (v_ProjectID v) (volume_claim (v_SizeGiB v)) = Inr ()"
  shows "at_most (vol_holds db' pid) (vol_holds db pid) \<or>
    (\<exists>k. A db pid k = Inr () \<and> at_most (vol_holds db' pid) (with_claim (vol_holds db pid) k))"
proof (cases "vol_rows db' = vol_rows db \<or> v_ProjectID v \<noteq> pid")
  case True
  then have "at_most (vol_holds db' pid) (vol_holds db pid)"
    using ins by (auto simp: repo_vol_insert_def vol_holds_def repo_vol_footprintIn_def Let_def at_most_def split: if_splits)
  then show ?thesis ..
next
  case False
  then have "db' = db\<lparr>vol_rows := vol_rows db @ [v]\<rparr>" "v_ProjectID v = pid"
    using ins by (auto simp: repo_vol_insert_def split: if_splits)
  then have "at_most (vol_holds db' pid) (with_claim (vol_holds db pid) (volume_claim (v_SizeGiB v)))"
    by (simp add: vol_holds_def repo_vol_footprintIn_def Let_def at_most_def with_claim_def volume_claim_def)
  then show ?thesis using ok \<open>v_ProjectID v = pid\<close> by blast
qed

lemma vol_create_claims:
  fixes A :: "vol_db \<Rightarrow> string \<Rightarrow> quota_claim \<Rightarrow> unit result"
  assumes q: "vd_quota d = Some (volumeQuota A)"
  shows "at_most (vol_holds (snd (vol_create d new_id raw salt now w db p)) pid) (vol_holds db pid) \<or>
    (\<exists>k. A db pid k = Inr () \<and> at_most (vol_holds (snd (vol_create d new_id raw salt now w db p)) pid) (with_claim (vol_holds db pid) k))"
proof (cases "\<exists>v res db'. repo_vol_insert db v = (res, db') \<and> snd (vol_create d new_id raw salt now w db p) = db' \<and>
    A db (v_ProjectID v) (volume_claim (v_SizeGiB v)) = Inr ()")
  case True
  then show ?thesis using insert_claims by metis
next
  case False
  then have "snd (vol_create d new_id raw salt now w db p) = db"
    by (auto simp: vol_create_def Let_def q volumeQuota_def volume_claim_def bindR_eq_Inr split: sum.splits prod.splits if_splits)
  then show ?thesis by simp
qed

lemma vol_clone_claims:
  fixes A :: "vol_db \<Rightarrow> string \<Rightarrow> quota_claim \<Rightarrow> unit result"
  assumes q: "vd_quota d = Some (volumeQuota A)"
  shows "at_most (vol_holds (snd (vol_clone d new_id now w db sid pr name)) pid) (vol_holds db pid) \<or>
    (\<exists>k. A db pid k = Inr () \<and> at_most (vol_holds (snd (vol_clone d new_id now w db sid pr name)) pid) (with_claim (vol_holds db pid) k))"
proof (cases "\<exists>v res db'. repo_vol_insert db v = (res, db') \<and> snd (vol_clone d new_id now w db sid pr name) = db' \<and>
    A db (v_ProjectID v) (volume_claim (v_SizeGiB v)) = Inr ()")
  case True
  then show ?thesis using insert_claims by metis
next
  case False
  then have "snd (vol_clone d new_id now w db sid pr name) = db"
    by (auto simp: vol_clone_def Let_def q volumeQuota_def volume_claim_def bindR_eq_Inr split: sum.split prod.split if_splits)
      (erule allE, erule disjE, blast, simp)+
  then show ?thesis by simp
qed

lemma vol_resize_claims:
  fixes A :: "vol_db \<Rightarrow> string \<Rightarrow> quota_claim \<Rightarrow> unit result"
  assumes q: "vd_quota d = Some (volumeQuota A)" and wf: "vol_wf db"
  shows "at_most (vol_holds (snd (vol_resize d now w db ref pr n)) pid) (vol_holds db pid) \<or>
    (\<exists>k. A db pid k = Inr () \<and> at_most (vol_holds (snd (vol_resize d now w db ref pr n)) pid) (with_claim (vol_holds db pid) k))"
proof (cases "\<exists>v. vol_resolveIn db ref pr = Inr v \<and> A db (v_ProjectID v) (no_claim\<lparr>qk_VolumeGiB := n - v_SizeGiB v\<rparr>) = Inr () \<and>
    snd (vol_resize d now w db ref pr n) = repo_vol_setSize db (v_ID v) n now")
  case True
  then obtain v where v: "v \<in> set (vol_rows db)" "v_ProjectID v = pr"
      and ok: "A db pr (no_claim\<lparr>qk_VolumeGiB := n - v_SizeGiB v\<rparr>) = Inr ()"
      and db': "snd (vol_resize d now w db ref pr n) = repo_vol_setSize db (v_ID v) n now"
    using resolve_in by blast
  have d: "distinct (map v_ID (vol_rows db))" using wf by (simp add: vol_wf_def vols_wf_def)
  let ?f = "\<lambda>v. v\<lparr>v_SizeGiB := n, v_UpdatedAt := now\<rparr>"
  note sums = sum_update_one [OF d v(1), of "\<lambda>y. v_ProjectID y = pid" ?f v_SizeGiB]
    length_filter_update [of "\<lambda>y. v_ProjectID y = pid" ?f "\<lambda>y. v_ID y = v_ID v" "vol_rows db"]
  have "at_most (vol_holds (repo_vol_setSize db (v_ID v) n now) pid)
      (if pr = pid then with_claim (vol_holds db pid) (no_claim\<lparr>qk_VolumeGiB := n - v_SizeGiB v\<rparr>) else vol_holds db pid)"
    using sums v(2)
    by (auto simp: repo_vol_setSize_def upd_vol_def vol_holds_def repo_vol_footprintIn_def Let_def with_claim_def at_most_def)
  then show ?thesis using ok db' by (cases "pr = pid") auto
next
  case False
  then have "snd (vol_resize d now w db ref pr n) = db"
    by (auto simp: vol_resize_def q volumeQuota_def bindR_eq_Inr split: sum.splits)
  then show ?thesis by simp
qed

lemma vol_remove_claims:
  assumes wf: "vol_wf db"
  shows "at_most (vol_holds (snd (vol_remove db ref pr)) pid) (vol_holds db pid)"
proof -
  have "0 \<le> v_SizeGiB v" if "v \<in> set (vol_rows db)" for v
    using that wf by (auto simp: vol_wf_def vols_wf_def list_all_iff vol_ok_def)
  moreover have "vol_rows (snd (vol_remove db ref pr)) = vol_rows db \<or>
      (\<exists>i. vol_rows (snd (vol_remove db ref pr)) = filter (\<lambda>v. v_ID v \<noteq> i) (vol_rows db))"
    by (auto simp: vol_remove_def repo_vol_delete_def split: sum.splits)
  ultimately show ?thesis
    by (auto simp: vol_holds_def repo_vol_footprintIn_def Let_def at_most_def length_filter_filter_le
        intro!: sum_filter_le simp del: filter_filter)
qed

lemma gibs_attach: "map gib_of (vol_rows (snd (vol_attach d now w db ref pid iref))) = map gib_of (vol_rows db)"
proof -
  have "map gib_of (vol_rows db') = map gib_of (vol_rows db)" if "repo_vol_attach db i j n now = (res, db')" for i j n res db'
    using that by (auto simp: repo_vol_attach_def map_update_where split: if_splits)
  then show ?thesis
    by (auto simp: vol_attach_def repo_vol_clearDetaching_def gibs_upd split: sum.split prod.split)
qed

lemma gibs_detach: "map gib_of (vol_rows (snd (vol_detach d now w db ref pid))) = map gib_of (vol_rows db)"
  by (simp add: vol_detach_def repo_updates gibs_upd split: sum.split)

lemma gibs_release: "map gib_of (vol_rows (vol_releaseInstance now db iid)) = map gib_of (vol_rows db)"
  by (simp add: vol_releaseInstance_def repo_vol_detachInstance_def map_update_where)

lemma gibs_restore: "map gib_of (vol_rows (snd (vol_restore d now w db sid pid))) = map gib_of (vol_rows db)"
  by (simp add: vol_restore_def repo_updates gibs_upd split: sum.split prod.split)

lemma vol_step_claims:
  fixes d :: "'w vol_deps" and A :: "vol_db \<Rightarrow> string \<Rightarrow> quota_claim \<Rightarrow> unit result"
  assumes "vol_step (d\<lparr>vd_quota := Some (volumeQuota A)\<rparr>) db db'" and wf: "vol_wf db"
  shows "at_most (vol_holds db' pid) (vol_holds db pid) \<or>
    (\<exists>k. A db pid k = Inr () \<and> at_most (vol_holds db' pid) (with_claim (vol_holds db pid) k))"
  using assms(1)
proof (cases rule: vol_step.cases)
  case step_create
  then show ?thesis using vol_create_claims [of "d\<lparr>vd_quota := Some (volumeQuota A)\<rparr>" A] by simp
next
  case step_clone
  then show ?thesis using vol_clone_claims [of "d\<lparr>vd_quota := Some (volumeQuota A)\<rparr>" A] by simp
next
  case step_resize
  then show ?thesis using vol_resize_claims [OF _ wf, of "d\<lparr>vd_quota := Some (volumeQuota A)\<rparr>" A] by simp
next
  case step_remove
  then show ?thesis using vol_remove_claims [OF wf] by simp
next
  case (step_snapshot new_id now w ref pr name qid)
  then show ?thesis
    using snapshot_only [of db "d\<lparr>vd_quota := Some (volumeQuota A)\<rparr>" new_id now w ref pr name qid]
    by (simp add: gibs_kept only_snaps_def)
next
  case (step_remove_snapshot sid pr)
  then show ?thesis using remove_snapshot_only [of db sid pr] by (simp add: gibs_kept only_snaps_def)
qed (simp_all add: gibs_kept gibs_attach gibs_detach gibs_release gibs_restore rows_setSchedule rows_clear
    gibs_settles [OF report_settles wf] gibs_settles [OF sweep_settles wf])

interpretation metered_volumes: metered vol_holds vol_wf "\<lambda>A. vol_step (d\<lparr>vd_quota := Some (volumeQuota A)\<rparr>)"
  for d :: "'w vol_deps"
proof (unfold_locales, goal_cases)
  case (1 db A db')
  then show ?case using vol_step_wf by blast
next
  case (2 db A db' pid)
  then show ?case using vol_step_claims by blast
qed

section \<open>Limits hold\<close>

text \<open>
  One step of a platform under the given limits: a step of the instance module or of
  the volume module, each asking for admission against what both hold.
\<close>

inductive tenancy_step ::
    "quota_row list \<Rightarrow> 'a inst_deps \<Rightarrow> 'b vol_deps \<Rightarrow> inst_db \<times> vol_db \<Rightarrow> inst_db \<times> vol_db \<Rightarrow> bool"
  for rows d dv where
  by_instance: "inst_step (d\<lparr>quota := Some (instanceQuota (\<lambda>idb. quota_admit (Some (InProject idb vdb)) rows))\<rparr>) idb idb' \<Longrightarrow>
    tenancy_step rows d dv (idb, vdb) (idb', vdb)"
| by_volume: "vol_step (dv\<lparr>vd_quota := Some (volumeQuota (\<lambda>vdb. quota_admit (Some (InProject idb vdb)) rows))\<rparr>) vdb vdb' \<Longrightarrow>
    tenancy_step rows d dv (idb, vdb) (idb, vdb')"

definition plus_consumed :: "consumed \<Rightarrow> consumed \<Rightarrow> consumed" where
  "plus_consumed c c' =
     \<lparr>qc_Instances = qc_Instances c + qc_Instances c', qc_VCPU = qc_VCPU c + qc_VCPU c',
      qc_MemoryMiB = qc_MemoryMiB c + qc_MemoryMiB c', qc_Volumes = qc_Volumes c + qc_Volumes c',
      qc_VolumeGiB = qc_VolumeGiB c + qc_VolumeGiB c'\<rparr>"

lemma InProject_sum: "InProject idb vdb pid = Inr (plus_consumed (inst_holds idb pid) (vol_holds vdb pid))"
  "InProject idb vdb pid = Inr (plus_consumed (vol_holds vdb pid) (inst_holds idb pid))"
  by (simp_all add: InProject_def plus_consumed_def inst_holds_def vol_holds_def Let_def)

lemma plus_consumed_laws:
  "at_most c c' \<Longrightarrow> at_most (plus_consumed c x) (plus_consumed c' x)"
  "plus_consumed (with_claim c k) x = with_claim (plus_consumed c x) k"
  by (simp_all add: at_most_def plus_consumed_def with_claim_def)

definition within_limits :: "quota_row list \<Rightarrow> inst_db \<times> vol_db \<Rightarrow> bool" where
  "within_limits rows st \<longleftrightarrow>
     (\<forall>pid. within (limitsOf rows pid) (plus_consumed (inst_holds (fst st) pid) (vol_holds (snd st) pid)))"

lemma plus_consumed_comm: "plus_consumed c x = plus_consumed x c"
  by (simp add: plus_consumed_def add.commute)

lemma tenancy_keeps:
  assumes "tenancy_step rows d dv st st'" "inst_wf (fst st)" "vol_wf (snd st)" "within_limits rows st"
  shows "inst_wf (fst st') \<and> vol_wf (snd st') \<and> within_limits rows st'"
  using assms(1)
proof cases
  case (by_instance vdb idb idb')
  have "within (limitsOf rows pid) (plus_consumed (inst_holds idb' pid) (vol_holds vdb pid))" for pid
    using metered_instances.stays_within [where sum_up = "\<lambda>c pid. plus_consumed c (vol_holds vdb pid)",
        OF _ by_instance(3)] assms by_instance InProject_sum plus_consumed_laws
    by (simp add: within_limits_def)
  then show ?thesis
    using by_instance assms metered_instances.step_wf [OF _ by_instance(3)] by (simp add: within_limits_def)
next
  case (by_volume idb vdb vdb')
  have "within (limitsOf rows pid) (plus_consumed (vol_holds vdb' pid) (inst_holds idb pid))" for pid
    using metered_volumes.stays_within [where sum_up = "\<lambda>c pid. plus_consumed c (inst_holds idb pid)",
        OF _ by_volume(3)] assms by_volume InProject_sum plus_consumed_laws
    by (simp add: within_limits_def plus_consumed_comm)
  then show ?thesis
    using by_volume assms metered_volumes.step_wf [OF _ by_volume(3)] by (simp add: within_limits_def plus_consumed_comm)
qed

text \<open>
  C5: limits hold. From a state in which every project is within its limits, no
  sequence of requests on instances and volumes, in any order and of any projects,
  takes a project over a limit: what its instances and volumes add up to stays at or
  under the limit in each of the five dimensions that has one.
\<close>

theorem quota_never_exceeded:
  assumes "(tenancy_step rows d dv)\<^sup>*\<^sup>* (idb, vdb) (idb', vdb')"
    and "inst_wf idb" "vol_wf vdb" and "\<forall>pid. \<exists>c. InProject idb vdb pid = Inr c \<and> within (limitsOf rows pid) c"
  shows "\<exists>c. InProject idb' vdb' pid = Inr c \<and> within (limitsOf rows pid) c"
proof -
  have "inst_wf (fst st) \<and> vol_wf (snd st) \<and> within_limits rows st"
    if "(tenancy_step rows d dv)\<^sup>*\<^sup>* (idb, vdb) st" for st
    using that
  proof (induction rule: rtranclp_induct)
    case base
    show ?case using assms(2-4) by (simp add: within_limits_def InProject_sum(1))
  next
    case (step y z)
    then show ?case using tenancy_keeps by blast
  qed
  from this [OF assms(1)] show ?thesis by (simp add: within_limits_def InProject_sum(1))
qed

text \<open>A project limited to one volume: the first is created, the second refused.\<close>

definition one_volume :: "quota_row list" where
  "one_volume = [\<lparr>q_ProjectID = ''p'', q_Limits = no_limits\<lparr>ql_Volumes := 1\<rparr>, q_UpdatedAt = 0\<rparr>]"

definition quota_deps :: "unit vol_deps" where
  "quota_deps = demo_vol_deps\<lparr>vd_quota := Some (volumeQuota (\<lambda>vdb. quota_admit (Some (InProject empty_inst_db vdb)) one_volume))\<rparr>"

abbreviation volume_named :: "string \<Rightarrow> vol_db \<Rightarrow> volume result \<times> vol_db" where
  "volume_named name db \<equiv> vol_create quota_deps name ''raw'' ''0123456789abcdef'' 1 () db
     \<lparr>vp_ProjectID = ''p'', vp_Name = name, vp_SizeGiB = 10, vp_BackupID = [], vp_Encrypted = False\<rparr>"

theorem quota_never_exceeded_witness:
  "\<exists>c. InProject empty_inst_db (snd (volume_named ''b'' (snd (volume_named ''a'' empty_vol_db)))) ''p'' = Inr c \<and>
     within (limitsOf one_volume ''p'') c \<and> qc_Volumes c = 1 \<and>
     fst (volume_named ''b'' (snd (volume_named ''a'' empty_vol_db))) = Inl (Conflict ''quota_exceeded'')"
proof -
  let ?db = "snd (volume_named ''a'' empty_vol_db)"
  have 1: "tenancy_step one_volume no_deps demo_vol_deps (empty_inst_db, db) (empty_inst_db, snd (volume_named name db))" for name db
    unfolding quota_deps_def by (rule by_volume) (rule step_create)
  have reach: "(tenancy_step one_volume no_deps demo_vol_deps)\<^sup>*\<^sup>* (empty_inst_db, empty_vol_db)
      (empty_inst_db, snd (volume_named ''b'' ?db))"
    by (rule rtranclp.rtrancl_into_rtrancl [OF r_into_rtranclp [of "tenancy_step one_volume no_deps demo_vol_deps"]]) (rule 1)+
  have start: "\<forall>pid. \<exists>c. InProject empty_inst_db empty_vol_db pid = Inr c \<and> within (limitsOf one_volume pid) c"
    by (simp add: InProject_def repo_inst_footprintIn_def repo_vol_footprintIn_def within_iff limitsOf_def
        repo_quota_byProject_def one_volume_def)
  have wf: "inst_wf empty_inst_db" by (simp add: inst_wf_def)
  obtain c where c: "InProject empty_inst_db (snd (volume_named ''b'' ?db)) ''p'' = Inr c" "within (limitsOf one_volume ''p'') c"
    using quota_never_exceeded [OF reach wf empty_vol_wf start] by blast
  have "InProject empty_inst_db (snd (volume_named ''b'' ?db)) ''p'' =
      Inr \<lparr>qc_Instances = 0, qc_VCPU = 0, qc_MemoryMiB = 0, qc_Volumes = 1, qc_VolumeGiB = 10\<rparr>" by code_simp
  moreover have "fst (volume_named ''b'' ?db) = Inl (Conflict ''quota_exceeded'')" by code_simp
  ultimately show ?thesis using c by auto
qed

end
