(* ===== verification/Autoscale.thy ===== *)
theory Autoscale
  imports Replicas
begin

text \<open>
  Autoscaling of services, src/internal/platform/autoscale, and the adapters
  scalableServices and instanceLoad of src/internal/app/adapters.go that connect it
  to the service module and to the load samples. Floating-point numbers are a record
  of operations: the theorems below hold for every arithmetic, IEEE 754 rounding
  included. The witnesses compute with a record on integers and rationals.
\<close>

section \<open>Types\<close>

abbreviation (input) MinReplicas :: int where "MinReplicas \<equiv> 1"
abbreviation (input) as_MaxReplicas :: int where "as_MaxReplicas \<equiv> 32"
abbreviation (input) MinTarget :: int where "MinTarget \<equiv> 1"
abbreviation (input) MaxTarget :: int where "MaxTarget \<equiv> 100"
abbreviation (input) MaxStep :: int where "MaxStep \<equiv> 4"
abbreviation (input) Warmup :: duration where "Warmup \<equiv> 90000000000"
abbreviation (input) Cooldown :: duration where "Cooldown \<equiv> 180000000000"
abbreviation (input) StaleLoad :: duration where "StaleLoad \<equiv> 60000000000"

record 'f go_float =
  fl_of_int :: "int \<Rightarrow> 'f"
  fl_add :: "'f \<Rightarrow> 'f \<Rightarrow> 'f"
  fl_sub :: "'f \<Rightarrow> 'f \<Rightarrow> 'f"
  fl_mul :: "'f \<Rightarrow> 'f \<Rightarrow> 'f"
  fl_div :: "'f \<Rightarrow> 'f \<Rightarrow> 'f"
  fl_abs :: "'f \<Rightarrow> 'f"
  fl_le :: "'f \<Rightarrow> 'f \<Rightarrow> bool"
  fl_less :: "'f \<Rightarrow> 'f \<Rightarrow> bool"
  fl_ceil_int :: "'f \<Rightarrow> int"
  fl_text :: "'f \<Rightarrow> string"
  DeadbandRatio :: 'f

record policy =
  po_ID :: string
  po_ProjectID :: string
  po_ServiceID :: string
  po_Min :: int
  po_Max :: int
  po_TargetCPU :: int
  po_TargetMemory :: int
  po_LastAt :: go_time
  po_LastReason :: string
  po_CreatedAt :: go_time
  po_UpdatedAt :: go_time

record policy_params =
  pp_ProjectID :: string
  pp_ServiceID :: string
  pp_Min :: int
  pp_Max :: int
  pp_TargetCPU :: int
  pp_TargetMemory :: int

record as_member =
  am_InstanceID :: string
  am_CreatedAt :: go_time

record as_group =
  g_ServiceID :: string
  g_ProjectID :: string
  g_Name :: string
  g_Replicas :: int
  g_Settled :: bool
  g_Members :: "as_member list"

record 'f sample =
  sm_CPUPercent :: 'f
  sm_MemoryPercent :: 'f
  sm_MemoryKnown :: bool
  sm_ReportedAt :: go_time

record decision =
  dc_Replicas :: int
  dc_Reason :: string
  dc_Act :: bool

record 'f pressure =
  pr_name :: string
  pr_average :: 'f
  pr_target :: 'f

section \<open>Deciding (decide.go)\<close>

definition demand :: "'f go_float \<Rightarrow> 'f pressure \<Rightarrow> 'f" where
  "demand F p = fl_div F (pr_average p) (pr_target p)"

definition pressure_String :: "'f go_float \<Rightarrow> 'f pressure \<Rightarrow> string" where
  "pressure_String F p =
     ''average '' @ pr_name p @ '' '' @ fl_text F (pr_average p) @ ''% against a target of '' @
     fl_text F (pr_target p) @ ''%''"

definition hardestPressed :: "'f go_float \<Rightarrow> policy \<Rightarrow> 'f \<Rightarrow> 'f \<Rightarrow> 'f pressure option" where
  "hardestPressed F p cpu memory =
     (let candidates =
        (if 0 < po_TargetCPU p
         then [\<lparr>pr_name = ''cpu'', pr_average = cpu, pr_target = fl_of_int F (po_TargetCPU p)\<rparr>] else []) @
        (if 0 < po_TargetMemory p
         then [\<lparr>pr_name = ''memory'', pr_average = memory, pr_target = fl_of_int F (po_TargetMemory p)\<rparr>] else [])
      in case candidates of
           [] \<Rightarrow> None
         | first # others \<Rightarrow>
             Some (foldl (\<lambda>worst c. if fl_less F (demand F worst) (demand F c) then c else worst) first others))"

definition reasonFor :: "'f go_float \<Rightarrow> 'f pressure \<Rightarrow> int \<Rightarrow> policy \<Rightarrow> string" where
  "reasonFor F worst replicas p =
     (if fl_less F (fl_of_int F 1) (demand F worst) \<and> po_Max p \<le> replicas
      then pressure_String F worst @ '', but already at the maximum of '' @ itoa (po_Max p)
      else if fl_less F (demand F worst) (fl_of_int F 1) \<and> replicas \<le> po_Min p
      then pressure_String F worst @ '', but already at the minimum of '' @ itoa (po_Min p)
      else pressure_String F worst @ '', which does not move the replica count'')"

definition step :: "int \<Rightarrow> int \<Rightarrow> int" where
  "step from_n to_n =
     (if from_n + MaxStep < to_n then from_n + MaxStep
      else if to_n < from_n - MaxStep then from_n - MaxStep
      else to_n)"

definition clamp :: "int \<Rightarrow> int \<Rightarrow> int \<Rightarrow> int" where
  "clamp n low high = (if n < low then low else if high < n then high else n)"

text \<open>The loop over the members: sums over those that are warm, or the reason to stop.\<close>

fun tally ::
    "'f go_float \<Rightarrow> policy \<Rightarrow> (string \<rightharpoonup> 'f sample) \<Rightarrow> go_time \<Rightarrow> as_member list \<Rightarrow> int \<Rightarrow> 'f \<Rightarrow> 'f \<Rightarrow>
     string + (int \<times> 'f \<times> 'f)" where
  "tally F p samples now [] ready cpu memory = Inr (ready, cpu, memory)"
| "tally F p samples now (m # ms) ready cpu memory =
     (if time_sub now (am_CreatedAt m) < Warmup then tally F p samples now ms ready cpu memory
      else case samples (am_InstanceID m) of
             None \<Rightarrow> Inl (''the load of '' @ am_InstanceID m @
                 '' is missing or stale, and scaling on a guess is worse than not scaling'')
           | Some s \<Rightarrow>
               if StaleLoad < time_sub now (sm_ReportedAt s)
               then Inl (''the load of '' @ am_InstanceID m @
                 '' is missing or stale, and scaling on a guess is worse than not scaling'')
               else if 0 < po_TargetMemory p \<and> \<not> sm_MemoryKnown s
               then Inl (''how much memory '' @ am_InstanceID m @
                 '' was given is not known, so a share of it cannot be worked out'')
               else tally F p samples now ms (ready + 1) (fl_add F cpu (sm_CPUPercent s))
                      (fl_add F memory (sm_MemoryPercent s)))"

abbreviation stay :: "string \<Rightarrow> decision" where
  "stay reason \<equiv> \<lparr>dc_Replicas = 0, dc_Reason = reason, dc_Act = False\<rparr>"

definition decide ::
    "'f go_float \<Rightarrow> policy \<Rightarrow> as_group \<Rightarrow> (string \<rightharpoonup> 'f sample) \<Rightarrow> go_time \<Rightarrow> decision" where
  "decide F p grp samples now =
     (if \<not> g_Settled grp then stay ''the service has not reached its replica count yet''
      else if po_LastAt p \<noteq> zero_time \<and> time_sub now (po_LastAt p) < Cooldown
      then stay ''waiting out the cooldown after the last change''
      else case tally F p samples now (g_Members grp) 0 (fl_of_int F 0) (fl_of_int F 0) of
             Inl reason \<Rightarrow> stay reason
           | Inr (ready, cpu, memory) \<Rightarrow>
               if ready = 0 then stay ''every replica is still warming up''
               else case hardestPressed F p (fl_div F cpu (fl_of_int F ready)) (fl_div F memory (fl_of_int F ready)) of
                      None \<Rightarrow> stay ''this policy names no target to scale against''
                    | Some worst \<Rightarrow>
                        if fl_le F (fl_abs F (fl_sub F (demand F worst) (fl_of_int F 1))) (DeadbandRatio F)
                        then stay (pressure_String F worst @ '', which is close enough to leave alone'')
                        else (let wanted = clamp (step (g_Replicas grp)
                                      (fl_ceil_int F (fl_mul F (fl_of_int F (g_Replicas grp)) (demand F worst))))
                                      (po_Min p) (po_Max p)
                              in if wanted = g_Replicas grp then stay (reasonFor F worst (g_Replicas grp) p)
                                 else \<lparr>dc_Replicas = wanted, dc_Reason = pressure_String F worst, dc_Act = True\<rparr>))"

section \<open>Repository\<close>

text \<open>A new policy has never acted; a policy set again keeps its id and its history.\<close>

definition repo_as_upsert :: "policy list \<Rightarrow> policy \<Rightarrow> unit result \<times> policy list" where
  "repo_as_upsert rows p =
     (if list_ex (\<lambda>q. po_ServiceID q = po_ServiceID p) rows
      then (Inr (), update_where (\<lambda>q. po_ServiceID q = po_ServiceID p)
              (\<lambda>q. q\<lparr>po_Min := po_Min p, po_Max := po_Max p, po_TargetCPU := po_TargetCPU p,
                    po_TargetMemory := po_TargetMemory p, po_UpdatedAt := po_UpdatedAt p\<rparr>) rows)
      else if list_ex (\<lambda>q. po_ID q = po_ID p) rows then (Inl Internal, rows)
      else (Inr (), rows @ [p\<lparr>po_LastAt := zero_time\<rparr>]))"

definition repo_as_setReason :: "policy list \<Rightarrow> string \<Rightarrow> string \<Rightarrow> policy list" where
  "repo_as_setReason rows pid reason = update_where (\<lambda>q. po_ID q = pid) (\<lambda>q. q\<lparr>po_LastReason := reason\<rparr>) rows"

definition repo_as_setDecision :: "policy list \<Rightarrow> string \<Rightarrow> string \<Rightarrow> go_time \<Rightarrow> policy list" where
  "repo_as_setDecision rows pid reason at =
     update_where (\<lambda>q. po_ID q = pid) (\<lambda>q. q\<lparr>po_LastReason := reason, po_LastAt := at, po_UpdatedAt := at\<rparr>) rows"

definition repo_as_delete :: "policy list \<Rightarrow> string \<Rightarrow> policy list" where
  "repo_as_delete rows pid = filter (\<lambda>q. po_ID q \<noteq> pid) rows"

definition repo_as_byService :: "policy list \<Rightarrow> string \<Rightarrow> policy option" where
  "repo_as_byService rows sid = find (\<lambda>q. po_ServiceID q = sid) rows"

definition repo_as_listIn :: "policy list \<Rightarrow> string \<Rightarrow> policy list" where
  "repo_as_listIn rows pid = sort_key po_ServiceID (filter (\<lambda>q. po_ProjectID q = pid) rows)"

definition repo_as_all :: "policy list \<Rightarrow> policy list" where
  "repo_as_all rows = sort_key po_ID rows"

section \<open>Service\<close>

record 'w as_services =
  GroupOf :: "'w \<Rightarrow> string \<Rightarrow> string \<Rightarrow> as_group result"
  Groups :: "'w \<Rightarrow> as_group list result"
  Scale :: "'w \<Rightarrow> string \<Rightarrow> string \<Rightarrow> int \<Rightarrow> unit result \<times> 'w"

record ('w, 'f) as_deps =
  as_Services :: "'w as_services option"
  as_Load :: "('w \<Rightarrow> (string \<rightharpoonup> 'f sample) result) option"
  as_float :: "'f go_float"

record 'w as_state =
  as_rows :: "policy list"
  as_world :: 'w
  as_recorded :: "entry list"

definition policyOf :: "('w, 'f) as_deps \<Rightarrow> 'w as_state \<Rightarrow> string \<Rightarrow> string \<Rightarrow> policy result" where
  "policyOf d st pid sid0 =
     bindR (case as_Services d of
              None \<Rightarrow> Inr sid0
            | Some S \<Rightarrow> bindR (GroupOf S (as_world st) pid sid0) (\<lambda>grp. Inr (g_ServiceID grp))) (\<lambda>sid.
       case repo_as_byService (as_rows st) sid of
         None \<Rightarrow> Inl (NotFound ''autoscale_not_found'')
       | Some p \<Rightarrow> if po_ProjectID p \<noteq> pid then Inl (NotFound ''autoscale_not_found'') else Inr p)"

fun check_targets :: "int list \<Rightarrow> unit result" where
  "check_targets [] = Inr ()"
| "check_targets (t # ts) =
     (if t = 0 then check_targets ts
      else if t < MinTarget \<or> MaxTarget < t then Inl (Invalid ''invalid_target'')
      else check_targets ts)"

definition as_set ::
    "('w, 'f) as_deps \<Rightarrow> string \<Rightarrow> go_time \<Rightarrow> 'w as_state \<Rightarrow> policy_params \<Rightarrow> policy result \<times> 'w as_state" where
  "as_set d new_id now st p =
     (case (case as_Services d of
              None \<Rightarrow> Inl (NotFound ''service_not_found'')
            | Some S \<Rightarrow> bindR (GroupOf S (as_world st) (pp_ProjectID p) (pp_ServiceID p)) (\<lambda>grp.
                if pp_Min p < MinReplicas \<or> as_MaxReplicas < pp_Min p then Inl (Invalid ''invalid_min'')
                else if pp_Max p < pp_Min p \<or> as_MaxReplicas < pp_Max p then Inl (Invalid ''invalid_max'')
                else if pp_TargetCPU p = 0 \<and> pp_TargetMemory p = 0 then Inl (Invalid ''invalid_target'')
                else bindR (check_targets [pp_TargetCPU p, pp_TargetMemory p]) (\<lambda>_. Inr grp))) of
        Inl e \<Rightarrow> (Inl e, st)
      | Inr grp \<Rightarrow>
          (case repo_as_upsert (as_rows st)
                  \<lparr>po_ID = new_id, po_ProjectID = pp_ProjectID p, po_ServiceID = g_ServiceID grp,
                   po_Min = pp_Min p, po_Max = pp_Max p, po_TargetCPU = pp_TargetCPU p,
                   po_TargetMemory = pp_TargetMemory p, po_LastAt = zero_time, po_LastReason = [],
                   po_CreatedAt = now, po_UpdatedAt = now\<rparr> of
             (Inl e, rows) \<Rightarrow> (Inl e, st\<lparr>as_rows := rows\<rparr>)
           | (Inr _, rows) \<Rightarrow>
               (let st' = st\<lparr>as_rows := rows\<rparr> in (policyOf d st' (pp_ProjectID p) (g_ServiceID grp), st'))))"

definition as_clear :: "('w, 'f) as_deps \<Rightarrow> 'w as_state \<Rightarrow> string \<Rightarrow> string \<Rightarrow> unit result \<times> 'w as_state" where
  "as_clear d st pid sid =
     (case policyOf d st pid sid of
        Inl e \<Rightarrow> (Inl e, st)
      | Inr p \<Rightarrow> (Inr (), st\<lparr>as_rows := repo_as_delete (as_rows st) (po_ID p)\<rparr>))"

definition as_note :: "policy \<Rightarrow> entry \<Rightarrow> 'w as_state \<Rightarrow> 'w as_state" where
  "as_note p e st = st\<lparr>as_recorded := as_recorded st @ [e\<lparr>e_ProjectID := po_ProjectID p\<rparr>]\<rparr>"

definition as_apply ::
    "'f go_float \<Rightarrow> 'w as_services \<Rightarrow> bool \<Rightarrow> go_time \<Rightarrow> policy \<Rightarrow> as_group \<Rightarrow> (string \<rightharpoonup> 'f sample) \<Rightarrow>
     'w as_state \<Rightarrow> bool \<times> 'w as_state" where
  "as_apply F S has_events now p grp samples st =
     (let dec = decide F p grp samples now
      in if \<not> dc_Act dec then
           (False, if dc_Reason dec \<noteq> po_LastReason p
                   then st\<lparr>as_rows := repo_as_setReason (as_rows st) (po_ID p) (dc_Reason dec)\<rparr> else st)
         else case Scale S (as_world st) (po_ProjectID p) (po_ServiceID p) (dc_Replicas dec) of
                (Inl _, w) \<Rightarrow> (False, st\<lparr>as_world := w\<rparr>)
              | (Inr _, w) \<Rightarrow>
                  (let st1 = st\<lparr>as_world := w, as_rows := repo_as_setDecision (as_rows st) (po_ID p) (dc_Reason dec) now\<rparr>;
                       direction = (if dc_Replicas dec < g_Replicas grp then ''down'' else ''up'')
                   in (True, if has_events then as_note p
                         \<lparr>e_ProjectID = [], e_Kind = ''service.scaled'', e_Subject = po_ServiceID p, e_NodeID = [],
                          e_Message = g_Name grp @ '' scaled '' @ direction @ '' from '' @ itoa (g_Replicas grp) @
                            '' to '' @ itoa (dc_Replicas dec) @ '': '' @ dc_Reason dec,
                          e_Severity = Info\<rparr> st1 else st1)))"

fun sweep_policies ::
    "'f go_float \<Rightarrow> 'w as_services \<Rightarrow> bool \<Rightarrow> go_time \<Rightarrow> (string \<rightharpoonup> as_group) \<Rightarrow> (string \<rightharpoonup> 'f sample) \<Rightarrow>
     policy list \<Rightarrow> int \<Rightarrow> 'w as_state \<Rightarrow> int \<times> 'w as_state" where
  "sweep_policies F S ev now groups samples [] changed st = (changed, st)"
| "sweep_policies F S ev now groups samples (p # ps) changed st =
     (case groups (po_ServiceID p) of
        None \<Rightarrow> sweep_policies F S ev now groups samples ps changed
                  (st\<lparr>as_rows := repo_as_delete (as_rows st) (po_ID p)\<rparr>)
      | Some grp \<Rightarrow>
          (case as_apply F S ev now p grp samples st of
             (acted, st') \<Rightarrow> sweep_policies F S ev now groups samples ps (if acted then changed + 1 else changed) st'))"

definition as_sweep ::
    "('w, 'f) as_deps \<Rightarrow> bool \<Rightarrow> go_time \<Rightarrow> 'w as_state \<Rightarrow> int result \<times> 'w as_state" where
  "as_sweep d ev now st =
     (case (as_Services d, as_Load d) of
        (Some S, Some samplesOf) \<Rightarrow>
          (let policies = repo_as_all (as_rows st)
           in if policies = [] then (Inr 0, st)
              else case Groups S (as_world st) of
                     Inl e \<Rightarrow> (Inl e, st)
                   | Inr groups \<Rightarrow>
                       (case samplesOf (as_world st) of
                          Inl e \<Rightarrow> (Inl e, st)
                        | Inr samples \<Rightarrow>
                            (case sweep_policies (as_float d) S ev now
                                    (fold (\<lambda>grp m. m(g_ServiceID grp \<mapsto> grp)) groups Map.empty)
                                    samples policies 0 st of
                               (changed, st') \<Rightarrow> (Inr changed, st'))))
      | _ \<Rightarrow> (Inr 0, st))"

section \<open>The service module behind it\<close>

definition svc_Settled :: "service \<Rightarrow> bool" where
  "svc_Settled q \<longleftrightarrow> int (length (s_Members q)) = s_Replicas q \<and> allRunning (s_Members q)"

definition asGroup :: "service \<Rightarrow> as_group" where
  "asGroup q =
     \<lparr>g_ServiceID = s_ID q, g_ProjectID = s_ProjectID q, g_Name = s_Name q, g_Replicas = s_Replicas q,
      g_Settled = svc_Settled q,
      g_Members = map (\<lambda>m. \<lparr>am_InstanceID = m_InstanceID m, am_CreatedAt = m_CreatedAt m\<rparr>) (s_Members q)\<rparr>"

definition svc_All :: "'w svc_deps \<Rightarrow> 'w svc_state \<Rightarrow> service list result" where
  "svc_All d st = withStates d (sv_world st) (repo_svc_all (sv_db st))"

definition scalable_GroupOf :: "'w svc_deps \<Rightarrow> 'w svc_state \<Rightarrow> string \<Rightarrow> string \<Rightarrow> as_group result" where
  "scalable_GroupOf d st pid sid = bindR (svc_find d st pid sid) (\<lambda>q. Inr (asGroup q))"

definition scalable_Groups :: "'w svc_deps \<Rightarrow> 'w svc_state \<Rightarrow> as_group list result" where
  "scalable_Groups d st = bindR (svc_All d st) (\<lambda>qs. Inr (map asGroup qs))"

definition scalable_Scale ::
    "'w svc_deps \<Rightarrow> go_time \<Rightarrow> 'w svc_state \<Rightarrow> string \<Rightarrow> string \<Rightarrow> int \<Rightarrow> unit result \<times> 'w svc_state" where
  "scalable_Scale d now st pid sid n =
     (case svc_scale d now st pid sid n of (Inl e, st') \<Rightarrow> (Inl e, st') | (Inr _, st') \<Rightarrow> (Inr (), st'))"

definition scalableServices :: "'w svc_deps \<Rightarrow> go_time \<Rightarrow> 'w svc_state as_services" where
  "scalableServices d now =
     \<lparr>GroupOf = scalable_GroupOf d, Groups = scalable_Groups d, Scale = scalable_Scale d now\<rparr>"

record 'f instance_sample =
  is_InstanceID :: string
  is_NodeID :: string
  is_CPUPercent :: 'f
  is_MemoryUsedMiB :: int
  is_ReportedAt :: go_time

definition SamplesOf ::
    "'f go_float \<Rightarrow> (string \<Rightarrow> instance_row result) \<Rightarrow> 'f instance_sample list \<Rightarrow> (string \<rightharpoonup> 'f sample)" where
  "SamplesOf F get samples =
     fold (\<lambda>x held. held(is_InstanceID x \<mapsto>
        (let one = \<lparr>sm_CPUPercent = is_CPUPercent x, sm_MemoryPercent = fl_of_int F 0, sm_MemoryKnown = False,
                    sm_ReportedAt = is_ReportedAt x\<rparr>
         in case get (is_InstanceID x) of
              Inl _ \<Rightarrow> one
            | Inr r \<Rightarrow> if 0 < i_MemoryMiB r
                       then one\<lparr>sm_MemoryPercent := fl_mul F (fl_div F (fl_of_int F (is_MemoryUsedMiB x))
                                  (fl_of_int F (i_MemoryMiB r))) (fl_of_int F 100),
                                sm_MemoryKnown := True\<rparr>
                       else one))) samples Map.empty"

section \<open>What a decision guarantees\<close>

lemma clamp_bounds: "lo \<le> hi \<Longrightarrow> lo \<le> clamp n lo hi \<and> clamp n lo hi \<le> hi"
  by (simp add: clamp_def)

lemma step_bounds: "\<bar>step n m - n\<bar> \<le> MaxStep"
  by (simp add: step_def abs_le_iff)

lemma clamp_step:
  "lo \<le> hi \<Longrightarrow> \<bar>clamp (step cur want) lo hi - max lo (min hi cur)\<bar> \<le> MaxStep"
  by (auto simp: clamp_def step_def)

definition warm :: "go_time \<Rightarrow> as_member \<Rightarrow> bool" where
  "warm now m \<longleftrightarrow> Warmup \<le> now - am_CreatedAt m"

definition measured :: "policy \<Rightarrow> (string \<rightharpoonup> 'f sample) \<Rightarrow> go_time \<Rightarrow> as_member \<Rightarrow> bool" where
  "measured p samples now m \<longleftrightarrow>
     (\<exists>s. samples (am_InstanceID m) = Some s \<and> now - sm_ReportedAt s \<le> StaleLoad \<and>
          (0 < po_TargetMemory p \<longrightarrow> sm_MemoryKnown s))"

lemma tally_Inr:
  "tally F p samples now ms ready cpu memory = Inr (ready', c, m) \<Longrightarrow>
   list_all (\<lambda>x. warm now x \<longrightarrow> measured p samples now x) ms \<and>
   ready' = ready + int (length (filter (warm now) ms))"
proof (induction ms arbitrary: ready cpu memory)
  case (Cons x xs)
  show ?case
  proof (cases "time_sub now (am_CreatedAt x) < Warmup")
    case True
    then have "\<not> warm now x" by (simp add: warm_def go_simps)
    then show ?thesis using Cons True by simp
  next
    case False
    then have "warm now x" by (simp add: warm_def go_simps)
    moreover obtain s where s: "samples (am_InstanceID x) = Some s" "\<not> StaleLoad < time_sub now (sm_ReportedAt s)"
        "\<not> (0 < po_TargetMemory p \<and> \<not> sm_MemoryKnown s)"
        "tally F p samples now xs (ready + 1) (fl_add F cpu (sm_CPUPercent s)) (fl_add F memory (sm_MemoryPercent s)) = Inr (ready', c, m)"
      using Cons.prems False by (auto split: option.splits if_splits)
    ultimately show ?thesis
      using Cons.IH [OF s(4)] s(1-3) by (auto simp: measured_def go_simps)
  qed
qed simp

lemma decide_acts:
  assumes "dc_Act (decide F p grp samples now)"
  obtains ready cpu memory worst where "g_Settled grp" "po_LastAt p = zero_time \<or> Cooldown \<le> now - po_LastAt p"
    "tally F p samples now (g_Members grp) 0 (fl_of_int F 0) (fl_of_int F 0) = Inr (ready, cpu, memory)" "ready \<noteq> 0"
    "hardestPressed F p (fl_div F cpu (fl_of_int F ready)) (fl_div F memory (fl_of_int F ready)) = Some worst"
    "dc_Replicas (decide F p grp samples now) = clamp (step (g_Replicas grp)
       (fl_ceil_int F (fl_mul F (fl_of_int F (g_Replicas grp)) (demand F worst)))) (po_Min p) (po_Max p)"
    "dc_Replicas (decide F p grp samples now) \<noteq> g_Replicas grp"
  using assms by (auto simp: decide_def Let_def go_simps not_less split: if_splits sum.splits prod.splits option.splits)

text \<open>
  C30: a service is scaled only on evidence and only within its policy. A decision to
  act is taken for a settled service outside its cooldown, with at least one replica
  past its warm-up and a fresh, complete load sample of every such replica; it changes
  the replica count, to one between the policy's minimum and maximum, and at most four
  away from where it was; a count that was outside those bounds is taken to the nearer
  one first. This holds for every floating-point arithmetic.
\<close>

theorem decision_within_policy:
  assumes act: "dc_Act (decide F p grp samples now)" and bounds: "po_Min p \<le> po_Max p"
  shows "po_Min p \<le> dc_Replicas (decide F p grp samples now) \<and> dc_Replicas (decide F p grp samples now) \<le> po_Max p \<and>
    dc_Replicas (decide F p grp samples now) \<noteq> g_Replicas grp \<and>
    \<bar>dc_Replicas (decide F p grp samples now) - max (po_Min p) (min (po_Max p) (g_Replicas grp))\<bar> \<le> MaxStep \<and>
    g_Settled grp \<and> (po_LastAt p = zero_time \<or> Cooldown \<le> now - po_LastAt p) \<and>
    (\<exists>m\<in>set (g_Members grp). warm now m) \<and>
    (\<forall>m\<in>set (g_Members grp). warm now m \<longrightarrow> measured p samples now m)"
  using act
proof (rule decide_acts)
  fix ready cpu memory worst
  assume a: "g_Settled grp" "po_LastAt p = zero_time \<or> Cooldown \<le> now - po_LastAt p"
    and t: "tally F p samples now (g_Members grp) 0 (fl_of_int F 0) (fl_of_int F 0) = Inr (ready, cpu, memory)" "ready \<noteq> 0"
    and r: "dc_Replicas (decide F p grp samples now) = clamp (step (g_Replicas grp)
       (fl_ceil_int F (fl_mul F (fl_of_int F (g_Replicas grp)) (demand F worst)))) (po_Min p) (po_Max p)"
    and n: "dc_Replicas (decide F p grp samples now) \<noteq> g_Replicas grp"
  have "filter (warm now) (g_Members grp) \<noteq> []" using tally_Inr [OF t(1)] t(2) by auto
  then have "\<exists>m\<in>set (g_Members grp). warm now m" by (auto simp: filter_empty_conv)
  moreover have "\<forall>m\<in>set (g_Members grp). warm now m \<longrightarrow> measured p samples now m"
    using tally_Inr [OF t(1)] by (auto simp: list_all_iff)
  ultimately show ?thesis
    using a n clamp_bounds [OF bounds] clamp_step [OF bounds] unfolding r by blast
qed

section \<open>What a sweep does to the services\<close>

text \<open>Only the replica count and the time of the last change of a service differ.\<close>

definition rescaled :: "policy list \<Rightarrow> go_time \<Rightarrow> service \<Rightarrow> service \<Rightarrow> bool" where
  "rescaled ps now q q' \<longleftrightarrow>
     q' = q \<or>
     (\<exists>n. q' = q\<lparr>s_Replicas := n, s_UpdatedAt := now\<rparr> \<and>
        (\<exists>p\<in>set ps. po_ServiceID p = s_ID q \<and> po_Min p \<le> n \<and> n \<le> po_Max p \<and>
           (po_LastAt p = zero_time \<or> Cooldown \<le> now - po_LastAt p)))"

lemma rescaled_refl [simp]: "rescaled ps now q q"
  by (simp add: rescaled_def)

lemma rescaled_trans: "rescaled ps now a b \<Longrightarrow> rescaled ps now b c \<Longrightarrow> rescaled ps now a c"
  unfolding rescaled_def by (elim disjE exE conjE bexE) (force intro: disjI2)+

definition policies_belong :: "policy list \<Rightarrow> service list \<Rightarrow> bool" where
  "policies_belong ps qs \<longleftrightarrow>
     (\<forall>p\<in>set ps. \<forall>q\<in>set qs. s_ID q = po_ServiceID p \<longrightarrow> s_ProjectID q = po_ProjectID p)"

lemma find_by_id:
  assumes "q \<in> set (services (sv_db st))" "s_ProjectID q = pid" "s_ID q = sid" "svc_find d st pid sid = Inr svc"
  shows "s_ID svc = sid"
proof -
  let ?found = "filter (\<lambda>q. s_ProjectID q = pid \<and> s_ID q = sid) (services (sv_db st))"
  obtain x xs where x: "?found = x # xs" using assms(1-3) by (metis (mono_tags, lifting) filter_empty_conv neq_Nil_conv)
  then have "x \<in> set ?found" by simp
  then have "s_ID x = sid" by simp
  then show ?thesis
    using assms(4) x
    by (auto simp: svc_find_def repo_svc_byID_def repo_svc_load_def withStates_def bindR_eq_Inr fill_states_def
        split: option.splits if_splits sum.splits)
qed

lemma scale_effect:
  assumes "scalable_Scale d now st pid sid n = (res, st')"
  shows "sv_db st' = sv_db st \<or>
    (\<exists>svc. svc_find d st pid sid = Inr svc \<and>
       sv_db st' = (sv_db st)\<lparr>services := update_where (\<lambda>q. s_ID q = s_ID svc)
          (\<lambda>q. q\<lparr>s_Replicas := n, s_UpdatedAt := now\<rparr>) (services (sv_db st))\<rparr>)"
  using assms
  by (auto simp: scalable_Scale_def svc_scale_def bindR_eq_Inr repo_svc_setReplicas_def svc_update_where_def Let_def
      split: sum.splits prod.splits if_splits)

lemma apply_rescales:
  assumes run: "as_apply F (scalableServices d now) ev now p grp samples st = (acted, st')"
    and p: "p \<in> set ps" "po_Min p \<le> po_Max p" and grp: "q \<in> set (services (sv_db (as_world st)))" "s_ID q = po_ServiceID p"
    and own: "policies_belong ps (services (sv_db (as_world st)))"
  shows "list_all2 (rescaled ps now) (services (sv_db (as_world st))) (services (sv_db (as_world st')))"
proof (cases "services (sv_db (as_world st')) = services (sv_db (as_world st))")
  case True
  then show ?thesis by (simp add: list_all2_refl)
next
  case False
  let ?dec = "decide F p grp samples now"
  obtain res w where sc: "scalable_Scale d now (as_world st) (po_ProjectID p) (po_ServiceID p) (dc_Replicas ?dec) = (res, w)"
    by fastforce
  have act: "dc_Act ?dec" and w: "sv_db (as_world st') = sv_db w"
    using run False sc
    by (auto simp: as_apply_def Let_def scalableServices_def as_note_def split: if_splits sum.splits)
  have pid: "s_ProjectID q = po_ProjectID p" using own p(1) grp by (auto simp: policies_belong_def)
  obtain svc where svc: "svc_find d (as_world st) (po_ProjectID p) (po_ServiceID p) = Inr svc"
      and db: "sv_db w = (sv_db (as_world st))\<lparr>services := update_where (\<lambda>q. s_ID q = s_ID svc)
          (\<lambda>q. q\<lparr>s_Replicas := dc_Replicas ?dec, s_UpdatedAt := now\<rparr>) (services (sv_db (as_world st)))\<rparr>"
    using scale_effect [OF sc] False w by auto
  have sid: "s_ID svc = po_ServiceID p" by (rule find_by_id [OF grp(1) pid grp(2) svc])
  have ok: "po_Min p \<le> dc_Replicas ?dec \<and> dc_Replicas ?dec \<le> po_Max p \<and> (po_LastAt p = zero_time \<or> Cooldown \<le> now - po_LastAt p)"
    using act by (rule decide_acts) (use clamp_bounds [OF p(2)] in simp)
  have "rescaled ps now x (x\<lparr>s_Replicas := dc_Replicas ?dec, s_UpdatedAt := now\<rparr>)" if "s_ID x = po_ServiceID p" for x
    unfolding rescaled_def
    by (rule disjI2, intro exI [of _ "dc_Replicas ?dec"] conjI refl bexI [of _ p]) (use that ok p(1) in simp_all)
  then have "list_all2 (rescaled ps now) xs (update_where (\<lambda>q. s_ID q = s_ID svc)
      (\<lambda>q. q\<lparr>s_Replicas := dc_Replicas ?dec, s_UpdatedAt := now\<rparr>) xs)" for xs
    by (induction xs) (auto simp: update_where_def sid)
  then show ?thesis using w db by simp
qed

lemma rescaled_keys: "rescaled ps now q q' \<Longrightarrow> s_ID q' = s_ID q \<and> s_ProjectID q' = s_ProjectID q"
  by (auto simp: rescaled_def)

lemma list_rescaled_keys:
  "list_all2 (rescaled ps now) qs qs' \<Longrightarrow>
   map (\<lambda>q. (s_ID q, s_ProjectID q)) qs' = map (\<lambda>q. (s_ID q, s_ProjectID q)) qs"
  by (induction qs qs' rule: list_all2_induct) (auto dest: rescaled_keys)

lemma policies_belong_keys:
  "policies_belong ps qs \<longleftrightarrow>
   (\<forall>p\<in>set ps. \<forall>k\<in>set (map (\<lambda>q. (s_ID q, s_ProjectID q)) qs). fst k = po_ServiceID p \<longrightarrow> snd k = po_ProjectID p)"
  by (simp add: policies_belong_def)

lemma list_rescaled_ids:
  assumes "list_all2 (rescaled ps now) qs qs'"
  shows "s_ID ` set qs' = s_ID ` set qs" "policies_belong ps qs' = policies_belong ps qs"
proof -
  have keys: "(\<lambda>q. (s_ID q, s_ProjectID q)) ` set qs' = (\<lambda>q. (s_ID q, s_ProjectID q)) ` set qs"
    using arg_cong [OF list_rescaled_keys [OF assms], of set] by simp
  show "s_ID ` set qs' = s_ID ` set qs" using arg_cong [OF keys, of "image fst"] by (simp add: image_image)
  show "policies_belong ps qs' = policies_belong ps qs"
    unfolding policies_belong_keys list_rescaled_keys [OF assms] ..
qed

lemma sweep_policies_rescales:
  assumes "sweep_policies F (scalableServices d now) ev now groups samples todo changed st = (changed', st')"
    and "set todo \<subseteq> set ps" "\<And>p. p \<in> set ps \<Longrightarrow> po_Min p \<le> po_Max p"
    and "\<And>sid grp. groups sid = Some grp \<Longrightarrow> sid \<in> s_ID ` set (services (sv_db (as_world st)))"
    and "policies_belong ps (services (sv_db (as_world st)))"
  shows "list_all2 (rescaled ps now) (services (sv_db (as_world st))) (services (sv_db (as_world st')))"
  using assms
proof (induction todo arbitrary: changed st)
  case Nil
  then show ?case by (simp add: list_all2_refl)
next
  case (Cons p todo)
  show ?case
  proof (cases "groups (po_ServiceID p)")
    case None
    show ?thesis
      using Cons.IH [of changed "st\<lparr>as_rows := repo_as_delete (as_rows st) (po_ID p)\<rparr>"] Cons.prems None by simp
  next
    case (Some grp)
    obtain acted st1 where run: "as_apply F (scalableServices d now) ev now p grp samples st = (acted, st1)"
      by fastforce
    obtain q where q: "q \<in> set (services (sv_db (as_world st)))" "s_ID q = po_ServiceID p"
      using Cons.prems(4) [OF Some] by auto
    have first: "list_all2 (rescaled ps now) (services (sv_db (as_world st))) (services (sv_db (as_world st1)))"
      using apply_rescales [OF run _ _ q Cons.prems(5)] Cons.prems(2,3) by simp
    have "list_all2 (rescaled ps now) (services (sv_db (as_world st1))) (services (sv_db (as_world st')))"
      using Cons.IH [of "if acted then changed + 1 else changed" st1] Cons.prems Some run list_rescaled_ids [OF first]
      by simp
    with first show ?thesis by (rule list_all2_trans [rotated, OF _ _]) (blast intro: rescaled_trans)
  qed
qed

lemma withStates_each_ids: "withStates_each W w qs = Inr qs' \<Longrightarrow> map s_ID qs' = map s_ID qs"
  by (induction qs arbitrary: qs') (auto simp: bindR_eq_Inr fill_states_def split: if_splits)

lemma scalable_Groups_ids:
  assumes "scalable_Groups d st = Inr groups" "grp \<in> set groups"
  shows "g_ServiceID grp \<in> s_ID ` set (services (sv_db st))"
proof -
  obtain qs where qs: "withStates d (sv_world st) (repo_svc_all (sv_db st)) = Inr qs" "groups = map asGroup qs"
    using assms(1) by (auto simp: scalable_Groups_def svc_All_def bindR_eq_Inr)
  have "map s_ID qs = map s_ID (repo_svc_all (sv_db st))"
    using qs(1) withStates_each_ids by (auto simp: withStates_def split: option.splits)
  then have "s_ID ` set qs = s_ID ` set (services (sv_db st))"
    by (metis (no_types, lifting) list.set_map repo_svc_all_def repo_svc_load_def set_sort image_cong image_image
        service.select_convs(1) service.ext_inject service.surjective service.update_convs(7))
  then show ?thesis using assms(2) qs(2) by (auto simp: asGroup_def)
qed

lemma grouped_by_id:
  "fold (\<lambda>grp m. m(g_ServiceID grp \<mapsto> grp)) groups m sid = Some grp \<Longrightarrow>
   m sid = Some grp \<or> (grp \<in> set groups \<and> g_ServiceID grp = sid)"
proof (induction groups arbitrary: m)
  case (Cons a groups)
  then show ?case using Cons.IH [of "m(g_ServiceID a \<mapsto> a)"] by (auto split: if_splits)
qed simp

text \<open>
  C31: a sweep wired to the service module changes nothing of any service but its replica
  count (and the time of that change), and only on behalf of a policy of that very
  service: the count it leaves lies within that policy's bounds and the policy was not
  within three minutes of its previous change. No service appears, disappears, or is
  rescaled without a policy of its own, whatever the load samples say.
\<close>

theorem autoscale_sweep_respects_policies:
  assumes run: "as_sweep \<lparr>as_Services = Some (scalableServices d now), as_Load = load, as_float = F\<rparr> ev now st = (res, st')"
    and valid: "\<And>p. p \<in> set (as_rows st) \<Longrightarrow> po_Min p \<le> po_Max p"
    and own: "policies_belong (as_rows st) (services (sv_db (as_world st)))"
  shows "list_all2 (rescaled (as_rows st) now) (services (sv_db (as_world st))) (services (sv_db (as_world st')))"
proof (cases "st' = st")
  case True
  then show ?thesis by (simp add: list_all2_refl)
next
  case False
  then obtain groups samples changed where g: "scalable_Groups d (as_world st) = Inr groups"
    and sweep: "sweep_policies F (scalableServices d now) ev now
      (fold (\<lambda>grp m. m(g_ServiceID grp \<mapsto> grp)) groups Map.empty) samples (repo_as_all (as_rows st)) 0 st = (changed, st')"
    using run by (auto simp: as_sweep_def Let_def scalableServices_def split: option.splits if_splits sum.splits prod.splits)
  show ?thesis
  proof (rule sweep_policies_rescales [OF sweep _ valid _ own])
    show "set (repo_as_all (as_rows st)) \<subseteq> set (as_rows st)" by (simp add: repo_as_all_def)
    fix sid grp
    assume "fold (\<lambda>grp m. m(g_ServiceID grp \<mapsto> grp)) groups Map.empty sid = Some grp"
    then show "sid \<in> s_ID ` set (services (sv_db (as_world st)))"
      using grouped_by_id [of groups Map.empty sid grp] scalable_Groups_ids [OF g, of grp] by auto
  qed simp
qed

section \<open>Concrete sweeps\<close>

text \<open>An arithmetic on thousandths.\<close>

definition milli :: "int go_float" where
  "milli =
     \<lparr>fl_of_int = (\<lambda>n. n * 1000), fl_add = (+), fl_sub = (-), fl_mul = (\<lambda>a b. a * b div 1000),
      fl_div = (\<lambda>a b. a * 1000 div b), fl_abs = abs, fl_le = (\<le>), fl_less = (<),
      fl_ceil_int = (\<lambda>x. (x + 999) div 1000), fl_text = (\<lambda>x. itoa (x div 1000)), DeadbandRatio = 150\<rparr>"

definition cpu_policy :: policy where
  "cpu_policy =
     \<lparr>po_ID = ''pol-1'', po_ProjectID = ''p'', po_ServiceID = ''svc-1'', po_Min = 1, po_Max = 5, po_TargetCPU = 50,
      po_TargetMemory = 0, po_LastAt = zero_time, po_LastReason = [], po_CreatedAt = 1, po_UpdatedAt = 1\<rparr>"

definition busy :: "string \<rightharpoonup> int sample" where
  "busy i = Some \<lparr>sm_CPUPercent = 90000, sm_MemoryPercent = 0, sm_MemoryKnown = False, sm_ReportedAt = 100000000000\<rparr>"

abbreviation busy_now :: go_time where "busy_now \<equiv> 100000000001"

definition busy_state :: "string list svc_state as_state" where
  "busy_state = \<lparr>as_rows = [cpu_policy], as_world = web_state two_old, as_recorded = []\<rparr>"

theorem decision_within_policy_witness:
  "dc_Replicas (decide milli cpu_policy (asGroup two_old) busy busy_now) = 4 \<and>
   \<bar>dc_Replicas (decide milli cpu_policy (asGroup two_old) busy busy_now) - 2\<bar> \<le> 4"
proof -
  have act: "dc_Act (decide milli cpu_policy (asGroup two_old) busy busy_now)" by code_simp
  have four: "dc_Replicas (decide milli cpu_policy (asGroup two_old) busy busy_now) = 4" by code_simp
  have b: "po_Min cpu_policy \<le> po_Max cpu_policy" by (simp add: cpu_policy_def)
  have "max (po_Min cpu_policy) (min (po_Max cpu_policy) (g_Replicas (asGroup two_old))) = 2" by code_simp
  then show ?thesis using decision_within_policy [OF act b] four by simp
qed

theorem autoscale_sweep_respects_policies_witness:
  "\<exists>st'. as_sweep \<lparr>as_Services = Some (scalableServices list_deps busy_now), as_Load = Some (\<lambda>_. Inr busy), as_float = milli\<rparr>
      True busy_now busy_state = (Inr 1, st') \<and> map s_Replicas (services (sv_db (as_world st'))) = [4] \<and>
    list_all2 (rescaled [cpu_policy] busy_now) (services (sv_db (as_world busy_state))) (services (sv_db (as_world st')))"
proof -
  let ?run = "as_sweep \<lparr>as_Services = Some (scalableServices list_deps busy_now), as_Load = Some (\<lambda>_. Inr busy), as_float = milli\<rparr>
      True busy_now busy_state"
  have out: "fst ?run = Inr 1" "map s_Replicas (services (sv_db (as_world (snd ?run)))) = [4]" by code_simp+
  obtain res st' where run: "?run = (res, st')" by fastforce
  have rows: "as_rows busy_state = [cpu_policy]" by (simp add: busy_state_def)
  have "list_all2 (rescaled (as_rows busy_state) busy_now)
      (services (sv_db (as_world busy_state))) (services (sv_db (as_world st')))"
    by (rule autoscale_sweep_respects_policies [OF run])
      (simp_all add: busy_state_def cpu_policy_def policies_belong_def web_state_def two_old_def web_service_def)
  then show ?thesis using run out rows by simp
qed

end
