(* ===== verification/Workload.thy ===== *)
theory Workload
  imports Kernel
begin

text \<open>
  The vocabulary between the agent and what it drives: the workload, runtime and
  datapath interfaces of src/internal/workload/workload.go, and the views of the control
  plane the agent decodes (src/internal/agent/client.go). Interfaces are records of
  operations on a world \<open>'w\<close>.
\<close>

section \<open>Workloads (workload.go)\<close>

datatype phase = PhaseAbsent | PhaseRunning | PhaseExited | PhaseFailed

record wl_state =
  wl_Phase :: phase
  wl_Message :: string
  wl_ExitCode :: int

record network_config =
  nc_Bridge :: string
  nc_BridgeAddr :: string
  nc_BridgeAddr6 :: string
  nc_IP :: string
  nc_Prefix :: int
  nc_Gateway :: string
  nc_IP6 :: string
  nc_Prefix6 :: int
  nc_Gateway6 :: string
  nc_MAC :: string
  nc_Nameserver :: string
  nc_SearchDomain :: string

record wl_disk =
  dk_ID :: string
  dk_Name :: string
  dk_SizeGiB :: int
  dk_KeyFile :: string

record file_drop =
  fd_Path :: string
  fd_Content :: string
  fd_Mode :: nat

record wl_spec =
  ws_DeviceAddress :: string
  ws_InstanceID :: string
  ws_Name :: string
  ws_Isolation :: string
  ws_Image :: string
  ws_ISO :: string
  ws_Kernel :: string
  ws_DiskGiB :: int
  ws_Volumes :: "wl_disk list"
  ws_Command :: "string list"
  ws_VCPU :: int
  ws_MemoryMiB :: int
  ws_SSHKeys :: "string list"
  ws_Env :: "(string \<times> string) list"
  ws_Files :: "file_drop list"
  ws_Network :: "network_config option"
  ws_Extra :: "network_config list"

text \<open>An error of \<open>Start\<close>: its text, and whether it wraps \<open>ErrUnstartable\<close>.\<close>

datatype start_error = StartError (se_text: string) (se_unstartable: bool)

record snapshot_plan =
  pl_VolumeID :: string
  pl_Wanted :: "string list"
  pl_RestoreTo :: string
  pl_KeyFile :: string

record grow_plan =
  gp_VolumeID :: string
  gp_SizeGiB :: int
  gp_KeyFile :: string

record snapshot_state =
  ss_VolumeID :: string
  ss_Present :: "(string \<times> int) list"
  ss_Restored :: string
  ss_Error :: string

record released =
  rl_VolumeID :: string
  rl_Gone :: bool
  rl_Reason :: string

text \<open>
  The optional interfaces a runtime may implement are option values: None is a failed
  type assertion. Disk contents are texts of bytes.
\<close>

record 'w volume_keeper =
  vk_PruneVolumes :: "'w \<Rightarrow> string list \<Rightarrow> (string + unit) \<times> 'w"
  vk_SyncSnapshots :: "'w \<Rightarrow> snapshot_plan list \<Rightarrow> snapshot_state list \<times> 'w"
  vk_GrowVolume :: "'w \<Rightarrow> grow_plan \<Rightarrow> (string + unit) \<times> 'w"

record 'w disk_carrier =
  dc_HasDisk :: "'w \<Rightarrow> string \<Rightarrow> bool"
  dc_ExportDisk :: "'w \<Rightarrow> string \<Rightarrow> string + string"
  dc_ImportDisk :: "'w \<Rightarrow> string \<Rightarrow> string \<Rightarrow> (string + unit) \<times> 'w"
  dc_Forget :: "'w \<Rightarrow> string \<Rightarrow> (string + unit) \<times> 'w"

record 'w volume_cloner =
  vc_HasVolume :: "'w \<Rightarrow> string \<Rightarrow> bool"
  vc_CloneVolume :: "'w \<Rightarrow> string \<Rightarrow> string \<Rightarrow> string \<Rightarrow> (string + unit) \<times> 'w"

record 'w volume_archiver =
  va_HasVolume :: "'w \<Rightarrow> string \<Rightarrow> bool"
  va_ExportVolume :: "'w \<Rightarrow> string \<Rightarrow> string \<Rightarrow> string + string"
  va_ImportVolume :: "'w \<Rightarrow> string \<Rightarrow> string \<Rightarrow> (string + unit) \<times> 'w"

record 'w runtime_if =
  rt_List :: "'w \<Rightarrow> string + string list"
  rt_Start :: "'w \<Rightarrow> wl_spec \<Rightarrow> (start_error + unit) \<times> 'w"
  rt_Stop :: "'w \<Rightarrow> string \<Rightarrow> (string + unit) \<times> 'w"
  rt_Status :: "'w \<Rightarrow> string \<Rightarrow> string + wl_state"
  rt_Remove :: "'w \<Rightarrow> string \<Rightarrow> (string + unit) \<times> 'w"
  rt_Resize :: "('w \<Rightarrow> string \<Rightarrow> int \<Rightarrow> int \<Rightarrow> (string + unit) \<times> 'w) option"
  rt_Keeper :: "'w volume_keeper option"
  rt_SyncDisks :: "('w \<Rightarrow> string \<Rightarrow> wl_disk list \<Rightarrow> (string + int) \<times> 'w) option"
  rt_ReleaseDisks :: "('w \<Rightarrow> string \<Rightarrow> wl_disk list \<Rightarrow> wl_disk list \<Rightarrow> (string + released list) \<times> 'w) option"
  rt_Carrier :: "'w disk_carrier option"
  rt_Cloner :: "'w volume_cloner option"
  rt_Archiver :: "'w volume_archiver option"

record wl_route =
  ro_Slice :: string
  ro_Via :: string

record wl_filter =
  fi_InstanceID :: string
  fi_Isolation :: string
  fi_Bridge :: string
  fi_IP :: string
  fi_IP6 :: string
  fi_MAC :: string
  fi_Device :: int

record wl_publish =
  pb_Protocol :: string
  pb_NodePort :: int
  pb_TargetPort :: int
  pb_Address :: string
  pb_Targets :: "string list"
  pb_Algorithm :: string

record guard_rule =
  gr_Protocol :: string
  gr_FromPort :: int
  gr_ToPort :: int
  gr_Source :: string

record guard =
  gd_InstanceID :: string
  gd_Isolation :: string
  gd_IP :: string
  gd_Rules :: "guard_rule list"

record egress =
  eg_Bridge :: string
  eg_Gateway :: string
  eg_Gateway6 :: string

record 'w datapath_if =
  dp_ApplyEgress :: "'w \<Rightarrow> egress list \<Rightarrow> (string + unit) \<times> 'w"
  dp_ApplyRoutes :: "'w \<Rightarrow> wl_route list \<Rightarrow> (string + unit) \<times> 'w"
  dp_ApplyForwards :: "'w \<Rightarrow> wl_publish list \<Rightarrow> (string + unit) \<times> 'w"
  dp_ApplyGuards :: "'w \<Rightarrow> guard list \<Rightarrow> (string + unit) \<times> 'w"
  dp_ApplyFilters :: "'w \<Rightarrow> wl_filter list \<Rightarrow> (string + unit) \<times> 'w"
  dp_Prune :: "'w \<Rightarrow> string list \<Rightarrow> string list \<Rightarrow> (string + unit) \<times> 'w"

section \<open>Views of the control plane (client.go)\<close>

record file_view =
  fv_Path :: string
  fv_Content :: string
  fv_Mode :: string

record instance_view =
  in_DeviceAddress :: string
  in_ID :: string
  in_Name :: string
  in_Isolation :: string
  in_Image :: string
  in_ISO :: string
  in_Kernel :: string
  in_FirewallID :: string
  in_DiskGiB :: int
  in_Command :: "string list"
  in_VCPU :: int
  in_MemoryMiB :: int
  in_RestartPolicy :: string
  in_RestartCount :: int
  in_SSHKeys :: "string list"
  in_Env :: "(string \<times> string) list"
  in_Files :: "file_view list"
  in_DesiredState :: string
  in_ObservedState :: string
  in_ObservedMessage :: string
  in_ExitCode :: "int option"
  in_Migrating :: bool
  in_DiskParked :: bool

record nic_view =
  nv_InstanceID :: string
  nv_Device :: int
  nv_IP :: string
  nv_IP6 :: string
  nv_MAC :: string

record peer_view =
  pv_NodeID :: string
  pv_Slice :: string

record network_view =
  nx_NetworkID :: string
  nx_Name :: string
  nx_Bridge :: string
  nx_CIDR :: string
  nx_Gateway :: string
  nx_CIDR6 :: string
  nx_Gateway6 :: string
  nx_Slice :: string
  nx_Slice6 :: string
  nx_NICs :: "nic_view list"
  nx_Peers :: "peer_view list"

record volume_view =
  vv_ID :: string
  vv_Name :: string
  vv_SizeGiB :: int
  vv_InstanceID :: string
  vv_RestoreFrom :: string
  vv_BackupID :: string
  vv_CloneFrom :: string
  vv_CloneSnap :: string
  vv_Detaching :: bool
  vv_Encrypted :: bool
  vv_Snapshots :: "(string \<times> string) list"

record forward_view =
  fw_ID :: string
  fw_InstanceID :: string
  fw_Protocol :: string
  fw_NodePort :: int
  fw_TargetPort :: int
  fw_Address :: string
  fw_Certificate :: string
  fw_PrivateKey :: string

definition forward_terminatesTLS :: "forward_view \<Rightarrow> bool" where
  "forward_terminatesTLS f \<longleftrightarrow> fw_Certificate f \<noteq> [] \<and> fw_PrivateKey f \<noteq> []"

record firewall_view =
  fr_ID :: string
  fr_Name :: string
  fr_Rules :: "guard_rule list"

record backend_view =
  bv_InstanceID :: string
  bv_Address :: string
  bv_Healthy :: bool

record balancer_route_view =
  brv_Host :: string
  brv_Path :: string
  brv_Service :: string
  brv_Backends :: "backend_view list"

record balancer_view =
  ba_ID :: string
  ba_Name :: string
  ba_Protocol :: string
  ba_ListenPort :: int
  ba_TargetPort :: int
  ba_Algorithm :: string
  ba_Check :: string
  ba_CheckPath :: string
  ba_Rise :: int
  ba_Fall :: int
  ba_Backends :: "backend_view list"
  ba_Routes :: "balancer_route_view list"
  ba_Certificate :: string
  ba_PrivateKey :: string

definition balancer_terminatesTLS :: "balancer_view \<Rightarrow> bool" where
  "balancer_terminatesTLS b \<longleftrightarrow> ba_Certificate b \<noteq> [] \<and> ba_PrivateKey b \<noteq> []"

definition runsInUserspace :: "balancer_view \<Rightarrow> bool" where
  "runsInUserspace b \<longleftrightarrow> balancer_terminatesTLS b \<or> ba_Routes b \<noteq> []"

end
