(* ===== verification/Probes.thy ===== *)
theory Probes
  imports Workload
begin

text \<open>
  Health probes of the agent, src/internal/agent/health.go: which backends a node probes,
  and how single results settle into a verdict. The probe itself (a TCP connection or an
  HTTP request) is an argument that answers with an error text or nothing.
\<close>

section \<open>Probing\<close>

record probe_state =
  ps_passes :: int
  ps_failures :: int
  ps_verdict :: bool
  ps_settled :: bool
  ps_lastError :: string

definition zero_probe :: probe_state where
  "zero_probe = \<lparr>ps_passes = 0, ps_failures = 0, ps_verdict = False, ps_settled = False, ps_lastError = []\<rparr>"

record probe_target =
  pt_balancerID :: string
  pt_instanceID :: string
  pt_address :: string
  pt_port :: int
  pt_kind :: string
  pt_path :: string
  pt_rise :: int
  pt_fall :: int

record health_report =
  hr_BalancerID :: string
  hr_InstanceID :: string
  hr_Healthy :: bool
  hr_Reason :: string

type_synonym probes = "string \<rightharpoonup> probe_state"

definition probe_key :: "probe_target \<Rightarrow> string" where
  "probe_key t = pt_balancerID t @ ''/'' @ pt_instanceID t"

definition probeStateOf :: "string \<Rightarrow> probes \<Rightarrow> probe_state" where
  "probeStateOf k ps = get_or zero_probe ps k"

definition forgetProbes :: "string list \<Rightarrow> probes \<Rightarrow> probes" where
  "forgetProbes wanted ps = (\<lambda>k. if k \<in> set wanted then ps k else None)"

fun backend_targets :: "balancer_view \<Rightarrow> string list \<Rightarrow> string list \<Rightarrow> backend_view list \<Rightarrow> probe_target list" where
  "backend_targets b mine seen [] = []"
| "backend_targets b mine seen (x # xs) =
     (if bv_InstanceID x \<notin> set mine \<or> bv_Address x = [] then backend_targets b mine seen xs
      else if bv_InstanceID x \<in> set seen then backend_targets b mine seen xs
      else \<lparr>pt_balancerID = ba_ID b, pt_instanceID = bv_InstanceID x, pt_address = bv_Address x,
            pt_port = ba_TargetPort b, pt_kind = ba_Check b, pt_path = ba_CheckPath b,
            pt_rise = ba_Rise b, pt_fall = ba_Fall b\<rparr> # backend_targets b mine (bv_InstanceID x # seen) xs)"

fun probeTargets :: "balancer_view list \<Rightarrow> string list \<Rightarrow> probe_target list" where
  "probeTargets [] mine = []"
| "probeTargets (b # bs) mine =
     (if ba_Check b = [] \<or> ba_Check b = ''none'' then probeTargets bs mine
      else backend_targets b mine [] (ba_Backends b @ concat (map brv_Backends (ba_Routes b))) @ probeTargets bs mine)"

definition count_of :: "int \<Rightarrow> int \<Rightarrow> string" where
  "count_of n needed = itoa n @ '' of '' @ itoa needed"

definition probe_reasonFor :: "probe_state \<Rightarrow> probe_target \<Rightarrow> string" where
  "probe_reasonFor s t =
     (if \<not> ps_settled s \<and> 0 < ps_passes s
      then ''passed '' @ count_of (ps_passes s) (pt_rise t) @ '' needed to come up''
      else if \<not> ps_settled s
      then ''failed '' @ count_of (ps_failures s) (pt_fall t) @ '' needed to go down: '' @ ps_lastError s
      else if ps_verdict s \<and> 0 < ps_failures s
      then ''failed '' @ count_of (ps_failures s) (pt_fall t) @ '' needed to go down, still up: '' @ ps_lastError s
      else if ps_verdict s then []
      else if 0 < ps_passes s
      then ''passed '' @ count_of (ps_passes s) (pt_rise t) @ '' needed to come back up''
      else ps_lastError s)"

definition probe_settle ::
    "probe_target \<Rightarrow> string option \<Rightarrow> probe_state \<Rightarrow> (bool \<times> string \<times> bool) \<times> probe_state" where
  "probe_settle t err s =
     (let s1 = (case err of
                  None \<Rightarrow> s\<lparr>ps_failures := 0, ps_passes := ps_passes s + 1\<rparr>
                | Some e \<Rightarrow> s\<lparr>ps_passes := 0, ps_failures := ps_failures s + 1, ps_lastError := e\<rparr>);
          s2 = (if pt_rise t \<le> ps_passes s1 then s1\<lparr>ps_verdict := True, ps_settled := True\<rparr>
                else if pt_fall t \<le> ps_failures s1 then s1\<lparr>ps_verdict := False, ps_settled := True\<rparr>
                else s1)
      in ((ps_verdict s2, probe_reasonFor s2 t, \<not> ps_settled s \<or> ps_verdict s \<noteq> ps_verdict s2), s2))"

fun settle_each ::
    "('w \<Rightarrow> probe_target \<Rightarrow> string option) \<Rightarrow> 'w \<Rightarrow> probe_target list \<Rightarrow> probes \<Rightarrow> health_report list \<times> probes" where
  "settle_each probe w [] ps = ([], ps)"
| "settle_each probe w (t # ts) ps =
     (case probe_settle t (probe w t) (probeStateOf (probe_key t) ps) of
        ((verdict, reason, changed), s) \<Rightarrow>
          (case settle_each probe w ts (ps(probe_key t \<mapsto> s)) of
             (reports, ps') \<Rightarrow>
               (\<lparr>hr_BalancerID = pt_balancerID t, hr_InstanceID = pt_instanceID t, hr_Healthy = verdict,
                 hr_Reason = reason\<rparr> # reports, ps')))"

definition runProbes ::
    "('w \<Rightarrow> probe_target \<Rightarrow> string option) \<Rightarrow> ('w \<Rightarrow> health_report list \<Rightarrow> 'w) \<Rightarrow> balancer_view list \<Rightarrow>
     string list \<Rightarrow> 'w \<Rightarrow> probes \<Rightarrow> 'w \<times> probes" where
  "runProbes probe report balancers mine w ps0 =
     (let targets = probeTargets balancers mine;
          ps = forgetProbes (map probe_key targets) ps0
      in if targets = [] then (w, ps)
         else (case settle_each probe w targets ps of (reports, ps') \<Rightarrow> (report w reports, ps')))"

section \<open>The verdict as a function of the results\<close>

text \<open>
  The specification reads the results newest first and looks for the latest run that
  reached its threshold: that many passes make a backend healthy, that many failures
  unhealthy, and in between the previous verdict stands.
\<close>

fun verdict_of :: "int \<Rightarrow> int \<Rightarrow> bool list \<Rightarrow> bool option" where
  "verdict_of rise fall [] = None"
| "verdict_of rise fall (b # older) =
     (let n = 1 + int (length (takeWhile ((=) b) older))
      in if b \<and> rise \<le> n then Some True
         else if \<not> b \<and> fall \<le> n then Some False
         else verdict_of rise fall older)"

definition settles_to :: "probe_target \<Rightarrow> bool list \<Rightarrow> probe_state \<Rightarrow> bool" where
  "settles_to t hist s \<longleftrightarrow>
     ps_passes s = int (length (takeWhile id hist)) \<and>
     ps_failures s = int (length (takeWhile Not hist)) \<and>
     (case verdict_of (pt_rise t) (pt_fall t) hist of
        None \<Rightarrow> \<not> ps_settled s \<and> \<not> ps_verdict s
      | Some v \<Rightarrow> ps_settled s \<and> ps_verdict s = v)"

lemma settles_to_zero: "settles_to t [] zero_probe"
  by (simp add: settles_to_def zero_probe_def)

lemma settles_to_step:
  assumes "settles_to t hist s" "0 < pt_rise t" "0 < pt_fall t"
  shows "settles_to t ((err = None) # hist) (snd (probe_settle t err s))"
proof -
  have run: "takeWhile ((=) True) hist = takeWhile id hist" "takeWhile ((=) False) hist = takeWhile Not hist"
    by (auto intro!: takeWhile_cong)
  show ?thesis
    using assms by (cases err) (auto simp: settles_to_def probe_settle_def Let_def run split: option.splits)
qed

fun settle_all :: "probe_target \<Rightarrow> string option list \<Rightarrow> probe_state \<Rightarrow> probe_state" where
  "settle_all t [] s = s"
| "settle_all t (err # errs) s = settle_all t errs (snd (probe_settle t err s))"

lemma settle_all_refines:
  "settles_to t hist s \<Longrightarrow> 0 < pt_rise t \<Longrightarrow> 0 < pt_fall t \<Longrightarrow>
   settles_to t (rev (map (\<lambda>e. e = None) errs) @ hist) (settle_all t errs s)"
proof (induction errs arbitrary: s hist)
  case (Cons err errs)
  from Cons.IH [OF settles_to_step [OF Cons.prems]] Cons.prems(2,3) show ?case by simp
qed simp

text \<open>
  C33: the counters of a probe implement the specification. After any sequence of results
  of a backend that had none, the state holds the lengths of the current run of passes and
  of failures, and the next result is reported with exactly the verdict the specification
  reads off the whole history; a backend is reported healthy only if that history contains
  \<open>rise\<close> passes in a row with no \<open>fall\<close> failures in a row after them.
\<close>

theorem probe_verdict_refines_history:
  assumes "0 < pt_rise t" "0 < pt_fall t"
  shows "settles_to t (rev (map (\<lambda>e. e = None) errs)) (settle_all t errs zero_probe) \<and>
    (fst (fst (probe_settle t err (settle_all t errs zero_probe))) \<longleftrightarrow>
       verdict_of (pt_rise t) (pt_fall t) ((err = None) # rev (map (\<lambda>e. e = None) errs)) = Some True)"
proof -
  have before: "settles_to t (rev (map (\<lambda>e. e = None) errs)) (settle_all t errs zero_probe)"
    using settle_all_refines [OF settles_to_zero assms, of errs] by simp
  have "fst (fst (probe_settle t err s)) = ps_verdict (snd (probe_settle t err s))" for s by (simp add: probe_settle_def Let_def)
  with settles_to_step [OF before assms, of err] before show ?thesis
    by (auto simp: settles_to_def split: option.splits)
qed

definition web_target :: probe_target where
  "web_target =
     \<lparr>pt_balancerID = ''b'', pt_instanceID = ''i'', pt_address = ''10.0.0.9'', pt_port = 80, pt_kind = ''tcp'',
      pt_path = [], pt_rise = 2, pt_fall = 3\<rparr>"

theorem probe_verdict_refines_history_witness:
  "fst (fst (probe_settle web_target None (settle_all web_target [None] zero_probe))) \<and>
   \<not> fst (fst (probe_settle web_target (Some ''refused'') (settle_all web_target [None, None, Some ''refused'', Some ''refused''] zero_probe)))"
proof -
  have pos: "0 < pt_rise web_target" "0 < pt_fall web_target" by (simp_all add: web_target_def)
  have "verdict_of (pt_rise web_target) (pt_fall web_target) [True, True] = Some True"
    "verdict_of (pt_rise web_target) (pt_fall web_target) [False, False, False, True, True] = Some False"
    by code_simp+
  then show ?thesis
    using probe_verdict_refines_history [OF pos, of "[None]" None]
      probe_verdict_refines_history [OF pos, of "[None, None, Some ''refused'', Some ''refused'']" "Some ''refused''"]
    by simp
qed

end
