(* ===== verification/Agent.thy ===== *)
theory Agent
  imports Probes Instances
begin

text \<open>
  The agent of a node, src/internal/agent: what it remembers about restarts
  (restart.go), how it drives one workload towards its desired state (reconcile.go),
  how it removes what is no longer assigned, and how it fences itself when the control
  plane is out of reach (fence.go, cache.go). The runtimes,
  the datapath and the control plane are the records of theory Workload; theory
  ContainerRuntime gives the runtime for containers. The clock is read once per pass.
\<close>

section \<open>Durations as text\<close>

text \<open>\<open>d.Round(time.Second)\<close>: to the nearest second, halves away from zero.\<close>

definition round_second :: "duration \<Rightarrow> duration" where
  "round_second d =
     (let half = (\<bar>d\<bar> + 500000000) div second * second in if d < 0 then - half else half)"

text \<open>\<open>Duration.String\<close> of a whole number of seconds.\<close>

definition seconds_String :: "duration \<Rightarrow> string" where
  "seconds_String d =
     (let total_s = \<bar>d\<bar> div second; h = total_s div 3600; mins = total_s div 60 mod 60; s = total_s mod 60;
          body = (if 0 < h then itoa h @ ''h'' @ itoa mins @ ''m'' @ itoa s @ ''s''
                  else if 0 < mins then itoa mins @ ''m'' @ itoa s @ ''s'' else itoa s @ ''s'')
      in if d < 0 then CHR ''-'' # body else body)"

abbreviation rounded :: "duration \<Rightarrow> string" where
  "rounded d \<equiv> seconds_String (round_second d)"

section \<open>What the agent remembers\<close>

abbreviation (input) minRestartBackoff :: duration where "minRestartBackoff \<equiv> 1000000000"
abbreviation (input) maxRestartBackoff :: duration where "maxRestartBackoff \<equiv> 60000000000"
abbreviation (input) stableFor :: duration where "stableFor \<equiv> 60000000000"

record restart_state =
  rs_attempts :: int
  rs_nextAttempt :: go_time
  rs_startedAt :: go_time
  rs_haltedByUser :: bool
  rs_startFailure :: string
  rs_unstartable :: string

definition zero_restart :: restart_state where
  "zero_restart =
     \<lparr>rs_attempts = 0, rs_nextAttempt = zero_time, rs_startedAt = zero_time, rs_haltedByUser = False,
      rs_startFailure = [], rs_unstartable = []\<rparr>"

record 'w agent =
  ag_nodeID :: string
  ag_restarts :: "string \<rightharpoonup> restart_state"
  ag_lastContact :: go_time
  ag_fencedFor :: "string \<rightharpoonup> duration"
  ag_probes :: probes
  ag_world :: 'w

section \<open>Restarts (restart.go)\<close>

text \<open>Every access creates the entry it does not find.\<close>

definition restartStateOf :: "string \<Rightarrow> 'w agent \<Rightarrow> restart_state \<times> 'w agent" where
  "restartStateOf i a =
     (case ag_restarts a i of
        Some s \<Rightarrow> (s, a)
      | None \<Rightarrow> (zero_restart, a\<lparr>ag_restarts := (ag_restarts a)(i \<mapsto> zero_restart)\<rparr>))"

definition change_restart :: "string \<Rightarrow> (restart_state \<Rightarrow> restart_state) \<Rightarrow> 'w agent \<Rightarrow> 'w agent" where
  "change_restart i f a =
     (case restartStateOf i a of (s, a1) \<Rightarrow> a1\<lparr>ag_restarts := (ag_restarts a1)(i \<mapsto> f s)\<rparr>)"

definition noteHaltedByUser :: "string \<Rightarrow> 'w agent \<Rightarrow> 'w agent" where
  "noteHaltedByUser i =
     change_restart i (\<lambda>s. s\<lparr>rs_attempts := 0, rs_nextAttempt := zero_time, rs_haltedByUser := True\<rparr>)"

definition takeHaltedByUser :: "string \<Rightarrow> 'w agent \<Rightarrow> bool \<times> 'w agent" where
  "takeHaltedByUser i a =
     (rs_haltedByUser (fst (restartStateOf i a)), change_restart i (\<lambda>s. s\<lparr>rs_haltedByUser := False\<rparr>) a)"

definition noteStarted :: "go_time \<Rightarrow> string \<Rightarrow> 'w agent \<Rightarrow> 'w agent" where
  "noteStarted now i =
     change_restart i (\<lambda>s. s\<lparr>rs_startedAt := now, rs_haltedByUser := False, rs_startFailure := []\<rparr>)"

definition noteStartFailure :: "string \<Rightarrow> string \<Rightarrow> 'w agent \<Rightarrow> 'w agent" where
  "noteStartFailure i reason = change_restart i (\<lambda>s. s\<lparr>rs_startFailure := reason\<rparr>)"

definition noteUnstartable :: "string \<Rightarrow> string \<Rightarrow> 'w agent \<Rightarrow> bool \<times> 'w agent" where
  "noteUnstartable i reason a =
     (rs_unstartable (fst (restartStateOf i a)) = [], change_restart i (\<lambda>s. s\<lparr>rs_unstartable := reason\<rparr>) a)"

definition unstartable :: "string \<Rightarrow> 'w agent \<Rightarrow> (string \<times> bool) \<times> 'w agent" where
  "unstartable i a =
     (case restartStateOf i a of (s, a1) \<Rightarrow> ((rs_unstartable s, rs_unstartable s \<noteq> []), a1))"

definition forgetRestarts :: "instance_view list \<Rightarrow> 'w agent \<Rightarrow> 'w agent" where
  "forgetRestarts assigned a =
     a\<lparr>ag_restarts := (\<lambda>i. if i \<in> set (map in_ID assigned) then ag_restarts a i else None)\<rparr>"

definition lastStartFailure :: "string \<Rightarrow> 'w agent \<Rightarrow> string \<times> 'w agent" where
  "lastStartFailure i a = (case restartStateOf i a of (s, a1) \<Rightarrow> (rs_startFailure s, a1))"

text \<open>\<open>for range attempt - 1\<close>, doubling until the cap.\<close>

fun double_backoff :: "nat \<Rightarrow> duration \<Rightarrow> duration" where
  "double_backoff 0 backoff = backoff"
| "double_backoff (Suc n) backoff =
     (if maxRestartBackoff \<le> backoff * 2 then maxRestartBackoff else double_backoff n (backoff * 2))"

definition backoffFor :: "int \<Rightarrow> duration" where
  "backoffFor attempt = double_backoff (nat (attempt - 1)) minRestartBackoff"

definition noteRestart :: "go_time \<Rightarrow> string \<Rightarrow> 'w agent \<Rightarrow> int \<times> 'w agent" where
  "noteRestart now i a =
     (let s = fst (restartStateOf i a);
          attempts = (if rs_startedAt s \<noteq> zero_time \<and> stableFor \<le> time_sub now (rs_startedAt s)
                      then 0 else rs_attempts s) + 1
      in (attempts, change_restart i
            (\<lambda>s. s\<lparr>rs_attempts := attempts, rs_nextAttempt := now + backoffFor attempts\<rparr>) a))"

definition restartAllowed :: "go_time \<Rightarrow> string \<Rightarrow> 'w agent \<Rightarrow> (bool \<times> duration) \<times> 'w agent" where
  "restartAllowed now i a =
     (case restartStateOf i a of (s, a1) \<Rightarrow>
        let wait = time_sub (rs_nextAttempt s) now
        in (if 0 < wait then (False, wait) else (True, 0), a1))"

definition restartAttempts :: "string \<Rightarrow> 'w agent \<Rightarrow> int \<times> 'w agent" where
  "restartAttempts i a = (case restartStateOf i a of (s, a1) \<Rightarrow> (rs_attempts s, a1))"

definition shouldRestart :: "string \<Rightarrow> int \<Rightarrow> bool" where
  "shouldRestart policy exitCode =
     (if policy = ''always'' then True else if policy = ''on-failure'' then exitCode \<noteq> 0 else False)"

section \<open>Fencing (fence.go)\<close>

record 'w agent_deps =
  ad_runtimes :: "(string \<times> 'w runtime_if) list"
  ad_datapath :: "'w datapath_if option"
  ad_FenceAfter :: duration
  ad_b64_text :: "string \<Rightarrow> string"

abbreviation (input) DefaultFenceAfter :: duration where "DefaultFenceAfter \<equiv> 60000000000"
abbreviation (input) DefaultInterval :: duration where "DefaultInterval \<equiv> 10000000000"
abbreviation (input) fenceIsolation :: string where "fenceIsolation \<equiv> ''container''"

definition fenceAfter_withDefault :: "duration \<Rightarrow> duration" where
  "fenceAfter_withDefault d = (if d \<le> 0 then DefaultFenceAfter else d)"

definition runtimeFor :: "'w agent_deps \<Rightarrow> string \<Rightarrow> 'w runtime_if option" where
  "runtimeFor d isolation = map_of (ad_runtimes d) isolation"

definition noteContact :: "go_time \<Rightarrow> 'w agent \<Rightarrow> 'w agent" where
  "noteContact now a = a\<lparr>ag_lastContact := now\<rparr>"

definition silentFor :: "go_time \<Rightarrow> 'w agent \<Rightarrow> duration \<times> bool" where
  "silentFor now a =
     (if ag_lastContact a = zero_time then (0, False) else (time_sub now (ag_lastContact a), True))"

definition fenced :: "'w agent_deps \<Rightarrow> go_time \<Rightarrow> 'w agent \<Rightarrow> duration \<times> bool" where
  "fenced d now a =
     (case silentFor now a of (silence, spoken) \<Rightarrow>
        if \<not> spoken then (0, True) else (silence, ad_FenceAfter d \<le> silence))"

definition noteFenced :: "string \<Rightarrow> duration \<Rightarrow> 'w agent \<Rightarrow> 'w agent" where
  "noteFenced i silence a = a\<lparr>ag_fencedFor := (ag_fencedFor a)(i \<mapsto> silence)\<rparr>"

definition takeFenced :: "string \<Rightarrow> 'w agent \<Rightarrow> duration option \<times> 'w agent" where
  "takeFenced i a = (ag_fencedFor a i, a\<lparr>ag_fencedFor := (ag_fencedFor a)(i := None)\<rparr>)"

fun fence_loop :: "'w runtime_if \<Rightarrow> duration \<Rightarrow> string list \<Rightarrow> 'w agent \<Rightarrow> 'w agent" where
  "fence_loop R silence [] a = a"
| "fence_loop R silence (i # is) a =
     (case rt_Status R (ag_world a) i of
        Inl _ \<Rightarrow> fence_loop R silence is a
      | Inr observed \<Rightarrow>
          if wl_Phase observed \<noteq> PhaseRunning then fence_loop R silence is a
          else (case rt_Stop R (ag_world a) i of
                  (Inl _, w) \<Rightarrow> fence_loop R silence is (a\<lparr>ag_world := w\<rparr>)
                | (Inr _, w) \<Rightarrow> fence_loop R silence is (noteFenced i silence (a\<lparr>ag_world := w\<rparr>))))"

definition fence :: "'w agent_deps \<Rightarrow> duration \<Rightarrow> 'w agent \<Rightarrow> 'w agent" where
  "fence d silence a =
     (case runtimeFor d fenceIsolation of
        None \<Rightarrow> a
      | Some R \<Rightarrow>
          (case rt_List R (ag_world a) of
             Inl _ \<Rightarrow> a
           | Inr present \<Rightarrow> fence_loop R silence present a))"

definition unmovable :: "instance_view list \<Rightarrow> instance_view list" where
  "unmovable assigned = filter (\<lambda>v. in_Isolation v \<noteq> fenceIsolation) assigned"

section \<open>One workload (reconcile.go)\<close>

definition observedPending :: string where "observedPending = ''pending''"
definition observedRunning :: string where "observedRunning = ''running''"
definition observedStopped :: string where "observedStopped = ''stopped''"
definition observedFailed :: string where "observedFailed = ''failed''"

lemmas observed_defs = observedPending_def observedRunning_def observedStopped_def observedFailed_def

definition safeInstanceID :: "string \<Rightarrow> bool" where
  "safeInstanceID i =
     (if \<not> has_prefix i ''i-'' \<or> 40 < length i then False
      else list_all (\<lambda>c. is_lower c \<or> is_digit c) (drop 2 i))"

definition usableInstances :: "instance_view list \<Rightarrow> instance_view list" where
  "usableInstances assigned = filter (\<lambda>v. safeInstanceID (in_ID v)) assigned"

definition primary :: "network_config list \<Rightarrow> network_config option" where
  "primary nics = (case nics of [] \<Rightarrow> None | nic # _ \<Rightarrow> Some nic)"

definition extras :: "network_config list \<Rightarrow> network_config list" where
  "extras nics = (if length nics < 2 then [] else tl nics)"

definition exitCodeOf :: "wl_state \<Rightarrow> string \<Rightarrow> int option" where
  "exitCodeOf s observed =
     (if wl_Phase s \<noteq> PhaseExited then None
      else if observed \<noteq> observedStopped \<and> observed \<noteq> observedFailed then None
      else Some (wl_ExitCode s))"

definition sameExit :: "int option \<Rightarrow> int option \<Rightarrow> bool" where
  "sameExit held seen =
     (case (held, seen) of (Some h, Some s) \<Rightarrow> h = s | (None, None) \<Rightarrow> True | _ \<Rightarrow> False)"

definition resizeInPlace :: "'w runtime_if \<Rightarrow> wl_spec \<Rightarrow> 'w agent \<Rightarrow> 'w agent" where
  "resizeInPlace R spec a =
     (case rt_Resize R of
        None \<Rightarrow> a
      | Some resize \<Rightarrow>
          a\<lparr>ag_world := snd (resize (ag_world a) (ws_InstanceID spec) (ws_VCPU spec) (ws_MemoryMiB spec))\<rparr>)"

definition start ::
    "go_time \<Rightarrow> 'w runtime_if \<Rightarrow> wl_spec \<Rightarrow> string \<Rightarrow> 'w agent \<Rightarrow> (string \<times> string) \<times> 'w agent" where
  "start now R spec msg0 a0 =
     (case takeFenced (ws_InstanceID spec) a0 of (held, a) \<Rightarrow>
        let msg = (case held of None \<Rightarrow> msg0
                   | Some silence \<Rightarrow> ''restarted after this node was fenced for '' @ rounded silence)
        in case rt_Start R (ag_world a) spec of
             (Inl err, w) \<Rightarrow>
               (let a1 = noteStartFailure (ws_InstanceID spec) (se_text err) (a\<lparr>ag_world := w\<rparr>)
                in ((observedFailed, se_text err),
                    if se_unstartable err then snd (noteUnstartable (ws_InstanceID spec) (se_text err) a1) else a1))
           | (Inr _, w) \<Rightarrow>
               (let a1 = a\<lparr>ag_world := w\<rparr>
                in case rt_Status R w (ws_InstanceID spec) of
                     Inl err \<Rightarrow> ((observedFailed, ''started but could not be inspected: '' @ err), a1)
                   | Inr s \<Rightarrow>
                       if wl_Phase s \<noteq> PhaseRunning then ((observedFailed, wl_Message s), a1)
                       else ((observedRunning, msg), noteStarted now (ws_InstanceID spec) a1)))"

definition handleExit ::
    "go_time \<Rightarrow> 'w runtime_if \<Rightarrow> wl_spec \<Rightarrow> wl_state \<Rightarrow> string \<Rightarrow> 'w agent \<Rightarrow> (string \<times> string) \<times> 'w agent" where
  "handleExit now R spec s policy a =
     (let i = ws_InstanceID spec in
      case takeHaltedByUser i a of (halted, a1) \<Rightarrow>
      if halted then start now R spec [] a1
      else (case lastStartFailure i a1 of (failure, a2) \<Rightarrow>
        let message = (if failure \<noteq> [] then failure else wl_Message s)
        in if \<not> shouldRestart policy (wl_ExitCode s)
           then ((if wl_ExitCode s = 0 then observedStopped else observedFailed, message), a2)
           else (case restartAllowed now i a2 of ((allowed, wait), a3) \<Rightarrow>
             if \<not> allowed
             then (case restartAttempts i a3 of (attempts, a4) \<Rightarrow>
                ((observedFailed, message @ '', restarting in '' @ rounded wait @ '' (attempt '' @
                   itoa (attempts + 1) @ '')''), a4))
             else (case noteRestart now i a3 of (attempt, a4) \<Rightarrow>
                case rt_Remove R (ag_world a4) i of
                  (Inl err, w) \<Rightarrow>
                    ((observedFailed, ''could not clear the exited workload: '' @ err), a4\<lparr>ag_world := w\<rparr>)
                | (Inr _, w) \<Rightarrow> start now R spec (''restarted after '' @ message) (a4\<lparr>ag_world := w\<rparr>)))))"

definition ensureRunning ::
    "go_time \<Rightarrow> 'w runtime_if \<Rightarrow> wl_spec \<Rightarrow> wl_state \<Rightarrow> string \<Rightarrow> 'w agent \<Rightarrow> (string \<times> string) \<times> 'w agent" where
  "ensureRunning now R spec s policy a =
     (let i = ws_InstanceID spec in
      case wl_Phase s of
        PhaseRunning \<Rightarrow> ((observedRunning, wl_Message s), resizeInPlace R spec a)
      | PhaseExited \<Rightarrow> handleExit now R spec s policy a
      | _ \<Rightarrow>
          (case unstartable i a of ((reason, refused), a1) \<Rightarrow>
             if refused then ((observedFailed, reason), a1)
             else (case restartAllowed now i a1 of ((allowed, wait), a2) \<Rightarrow>
               if \<not> allowed
               then (case lastStartFailure i a2 of (failure, a3) \<Rightarrow>
                  case restartAttempts i a3 of (attempts, a4) \<Rightarrow>
                  ((observedFailed, failure @ '', trying again in '' @ rounded wait @ '' (attempt '' @
                     itoa (attempts + 1) @ '')''), a4))
               else (case start now R spec [] a2 of ((observed, message), a3) \<Rightarrow>
                  ((observed, message),
                   if observed = observedFailed then snd (noteRestart now i a3) else a3)))))"

definition ensureStopped ::
    "'w runtime_if \<Rightarrow> string \<Rightarrow> wl_state \<Rightarrow> 'w agent \<Rightarrow> (string \<times> string) \<times> 'w agent" where
  "ensureStopped R i s a0 =
     (let a = noteHaltedByUser i a0
      in if wl_Phase s = PhaseRunning
         then (case rt_Stop R (ag_world a) i of
                 (Inl err, w) \<Rightarrow> ((observedFailed, err), a\<lparr>ag_world := w\<rparr>)
               | (Inr _, w) \<Rightarrow> ((observedStopped, []), a\<lparr>ag_world := w\<rparr>))
         else ((observedStopped, []), a))"

section \<open>Config files (files.go)\<close>

text \<open>\<open>base64.StdEncoding.DecodeString\<close>, with the shape test of theory Instances.\<close>

definition b64_value :: "char \<Rightarrow> nat" where
  "b64_value c =
     (if is_upper c then of_char c - 65 else if is_lower c then of_char c - 71
      else if is_digit c then of_char c + 4 else if c = CHR ''+'' then 62 else 63)"

fun b64_bytes :: "nat list \<Rightarrow> string" where
  "b64_bytes (a # b # c # d # rest) =
     char_of (4 * a + b div 16) # char_of (16 * (b mod 16) + c div 4) # char_of (64 * (c mod 4) + d) #
     b64_bytes rest"
| "b64_bytes [a, b, c] = [char_of (4 * a + b div 16), char_of (16 * (b mod 16) + c div 4)]"
| "b64_bytes [a, b] = [char_of (4 * a + b div 16)]"
| "b64_bytes _ = []"

definition base64_decode :: "string \<Rightarrow> string option" where
  "base64_decode content =
     (let s = filter (\<lambda>c. c \<noteq> CHR 0x0D \<and> c \<noteq> CHR 0x0A) content;
          body = take (length s - base64_pads s) s
      in if length s mod 4 = 0 \<and> list_all base64_char body
         then Some (b64_bytes (map b64_value body)) else None)"

fun fileDrops :: "(string \<Rightarrow> string) \<Rightarrow> file_view list \<Rightarrow> string + file_drop list" where
  "fileDrops err [] = Inr []"
| "fileDrops err (v # vs) =
     (case base64_decode (fv_Content v) of
        None \<Rightarrow> Inl (''decode the content of '' @ fv_Path v @ '': '' @ err (fv_Content v))
      | Some content \<Rightarrow>
          if fv_Mode v \<noteq> [] \<and> (\<not> list_all octal_char (fv_Mode v) \<or> 511 < octal_value (fv_Mode v))
          then Inl (''the mode of '' @ fv_Path v @ '' is not three or four octal digits'')
          else bindR (fileDrops err vs) (\<lambda>drops.
            Inr (\<lparr>fd_Path = fv_Path v, fd_Content = content,
                  fd_Mode = (if fv_Mode v = [] then 384 else nat (octal_value (fv_Mode v)))\<rparr> # drops)))"

section \<open>The pass over one instance\<close>

definition spec_of :: "instance_view \<Rightarrow> file_drop list \<Rightarrow> network_config list \<Rightarrow> wl_disk list \<Rightarrow> wl_spec" where
  "spec_of v drops nics disks =
     \<lparr>ws_DeviceAddress = in_DeviceAddress v, ws_InstanceID = in_ID v, ws_Name = in_Name v,
      ws_Isolation = in_Isolation v, ws_Image = in_Image v, ws_ISO = in_ISO v, ws_Kernel = in_Kernel v,
      ws_DiskGiB = in_DiskGiB v, ws_Volumes = disks, ws_Command = in_Command v, ws_VCPU = in_VCPU v,
      ws_MemoryMiB = in_MemoryMiB v, ws_SSHKeys = in_SSHKeys v, ws_Env = in_Env v, ws_Files = drops,
      ws_Network = primary nics, ws_Extra = extras nics\<rparr>"

definition agent_reconcileOne ::
    "'w agent_deps \<Rightarrow> go_time \<Rightarrow> instance_view \<Rightarrow> network_config list \<Rightarrow> wl_disk list \<Rightarrow> 'w agent \<Rightarrow>
     (string \<times> string \<times> int option) \<times> 'w agent" where
  "agent_reconcileOne d now v nics disks a =
     (case runtimeFor d (in_Isolation v) of
        None \<Rightarrow> ((observedFailed, ''this node has no runtime for isolation '' @ in_Isolation v, None), a)
      | Some R \<Rightarrow>
      (case fileDrops (ad_b64_text d) (in_Files v) of
         Inl err \<Rightarrow> ((observedFailed, ''could not read the config files: '' @ err, None), a)
       | Inr drops \<Rightarrow>
       (case rt_Status R (ag_world a) (in_ID v) of
          Inl err \<Rightarrow> ((observedFailed, ''could not inspect the workload: '' @ err, None), a)
        | Inr s \<Rightarrow>
            if in_DesiredState v = ''running'' then
              (if nics = [] then ((observedPending, ''waiting for an address'', None), a)
               else (case ensureRunning now R (spec_of v drops nics disks) s (in_RestartPolicy v) a of
                       ((observed, message), a') \<Rightarrow> ((observed, message, exitCodeOf s observed), a')))
            else if in_DesiredState v = ''stopped'' then
              (case ensureStopped R (in_ID v) s a of
                 ((observed, message), a') \<Rightarrow> ((observed, message, exitCodeOf s observed), a'))
            else ((observedFailed, ''unknown desired state '' @ in_DesiredState v, None), a))))"

section \<open>Removing what is no longer assigned\<close>

fun remove_orphans :: "'w runtime_if \<Rightarrow> string list \<Rightarrow> string list \<Rightarrow> 'w \<Rightarrow> 'w" where
  "remove_orphans R wanted [] w = w"
| "remove_orphans R wanted (i # is) w =
     (if i \<in> set wanted then remove_orphans R wanted is w
      else remove_orphans R wanted is (snd (rt_Remove R w i)))"

fun collect_each :: "(string \<times> 'w runtime_if) list \<Rightarrow> string list \<Rightarrow> 'w \<Rightarrow> 'w" where
  "collect_each [] wanted w = w"
| "collect_each ((isolation, R) # rest) wanted w =
     (case rt_List R w of
        Inl _ \<Rightarrow> collect_each rest wanted w
      | Inr present \<Rightarrow> collect_each rest wanted (remove_orphans R wanted present w))"

definition collectGarbage ::
    "'w agent_deps \<Rightarrow> instance_view list \<Rightarrow> network_view list \<Rightarrow> 'w agent \<Rightarrow> 'w agent" where
  "collectGarbage d assigned nets a =
     (let ids = map in_ID assigned;
          w = collect_each (ad_runtimes d) ids (ag_world a)
      in a\<lparr>ag_world :=
           (case ad_datapath d of None \<Rightarrow> w | Some dp \<Rightarrow> snd (dp_Prune dp w (map nx_Bridge nets) ids))\<rparr>)"

section \<open>The memory of restarts\<close>

named_theorems agent_simps \<open>effect of the restart and fencing notes on the agent\<close>

text \<open>What is remembered of an instance, whether or not an entry exists yet.\<close>

definition rs :: "'w agent \<Rightarrow> string \<Rightarrow> restart_state" where
  "rs a i = get_or zero_restart (ag_restarts a) i"

lemma restartStateOf_keeps [agent_simps]:
  "fst (restartStateOf i a) = rs a i" "rs (snd (restartStateOf i a)) j = rs a j"
  "ag_world (snd (restartStateOf i a)) = ag_world a" "ag_fencedFor (snd (restartStateOf i a)) = ag_fencedFor a"
  "ag_lastContact (snd (restartStateOf i a)) = ag_lastContact a" "ag_nodeID (snd (restartStateOf i a)) = ag_nodeID a"
  by (simp_all add: restartStateOf_def rs_def get_or_def split: option.split)

lemma change_restart_effect [agent_simps]:
  "rs (change_restart i f a) j = (if j = i then f (rs a i) else rs a j)"
  "ag_world (change_restart i f a) = ag_world a" "ag_fencedFor (change_restart i f a) = ag_fencedFor a"
  "ag_lastContact (change_restart i f a) = ag_lastContact a" "ag_nodeID (change_restart i f a) = ag_nodeID a"
  by (auto simp: change_restart_def restartStateOf_def rs_def get_or_def split: option.split prod.split)

lemma rs_world [agent_simps]:
  "rs (a\<lparr>ag_world := w\<rparr>) = rs a" "rs (a\<lparr>ag_fencedFor := m\<rparr>) = rs a" "rs (a\<lparr>ag_lastContact := t\<rparr>) = rs a"
  by (simp_all add: rs_def fun_eq_iff)

lemma restart_reads [agent_simps]:
  "unstartable i a = ((rs_unstartable (rs a i), rs_unstartable (rs a i) \<noteq> []), snd (restartStateOf i a))"
  "lastStartFailure i a = (rs_startFailure (rs a i), snd (restartStateOf i a))"
  "restartAttempts i a = (rs_attempts (rs a i), snd (restartStateOf i a))"
  "restartAllowed now i a =
     (if 0 < time_sub (rs_nextAttempt (rs a i)) now then (False, time_sub (rs_nextAttempt (rs a i)) now) else (True, 0),
      snd (restartStateOf i a))"
  by (simp_all add: unstartable_def lastStartFailure_def restartAttempts_def restartAllowed_def Let_def
      restartStateOf_def rs_def get_or_def split: option.split)

lemmas restart_notes = noteHaltedByUser_def takeHaltedByUser_def noteStarted_def noteStartFailure_def
  noteUnstartable_def noteRestart_def takeFenced_def noteFenced_def noteContact_def

lemma double_backoff_exact:
  "minRestartBackoff \<le> b \<Longrightarrow> b \<le> maxRestartBackoff \<Longrightarrow> double_backoff n b = min maxRestartBackoff (b * 2 ^ n)"
proof (induction n arbitrary: b)
  case (Suc n)
  show ?case
  proof (cases "maxRestartBackoff \<le> b * 2")
    case True
    have "(1::int) \<le> 2 ^ n" by simp
    then have "b * 2 \<le> b * (2 * 2 ^ n)" using Suc.prems by (simp add: mult_le_cancel_left1)
    with True have "maxRestartBackoff \<le> b * (2 * 2 ^ n)" by linarith
    with True show ?thesis by simp
  next
    case False
    then show ?thesis using Suc.IH [of "b * 2"] Suc.prems by (simp add: mult.assoc)
  qed
qed simp

lemma backoffFor_exact: "backoffFor n = min maxRestartBackoff (minRestartBackoff * 2 ^ nat (n - 1))"
  by (simp add: backoffFor_def double_backoff_exact)

lemma backoffFor_bounds: "minRestartBackoff \<le> backoffFor n" "backoffFor n \<le> maxRestartBackoff"
  by (simp_all add: backoffFor_exact)

section \<open>What a pass reports\<close>

definition restarts_ok :: "'w agent \<Rightarrow> bool" where
  "restarts_ok a \<longleftrightarrow> (\<forall>i. 0 \<le> rs_attempts (rs a i))"

lemma start_observed:
  assumes "start now R spec msg a = ((observed, message), a')"
  shows "observed = observedRunning \<or> observed = observedFailed"
    "rs_attempts (rs a' i) = rs_attempts (rs a i)" "rs_nextAttempt (rs a' i) = rs_nextAttempt (rs a i)"
  using assms
  by (auto simp: start_def Let_def restart_notes agent_simps split: prod.splits sum.splits if_splits option.splits)

lemma noteRestart_effect [agent_simps]:
  "rs (snd (noteRestart now i a)) j =
     (if j = i then (rs a i)\<lparr>rs_attempts := fst (noteRestart now i a),
                             rs_nextAttempt := now + backoffFor (fst (noteRestart now i a))\<rparr> else rs a j)"
  "fst (noteRestart now i a) =
     (if rs_startedAt (rs a i) \<noteq> zero_time \<and> stableFor \<le> time_sub now (rs_startedAt (rs a i)) then 1
      else rs_attempts (rs a i) + 1)"
  "ag_world (snd (noteRestart now i a)) = ag_world a"
  by (auto simp: noteRestart_def Let_def agent_simps)

lemma restarts_ok_keeps [agent_simps]:
  "restarts_ok (snd (restartStateOf i a)) = restarts_ok a"
  "restarts_ok (a\<lparr>ag_world := w\<rparr>) = restarts_ok a"
  by (simp_all add: restarts_ok_def agent_simps)

lemma restarts_ok_change:
  "restarts_ok a \<Longrightarrow> 0 \<le> rs_attempts (f (rs a i)) \<Longrightarrow> restarts_ok (change_restart i f a)"
  by (simp add: restarts_ok_def agent_simps)

lemma restarts_ok_halted: "restarts_ok a \<Longrightarrow> restarts_ok (snd (takeHaltedByUser i a))"
  by (simp add: restarts_ok_def takeHaltedByUser_def agent_simps)

lemma restarts_ok_noteRestart: "restarts_ok a \<Longrightarrow> restarts_ok (snd (noteRestart now i a))"
  unfolding noteRestart_def Let_def snd_conv
  by (rule restarts_ok_change) (auto simp: restarts_ok_def agent_simps add_nonneg_nonneg)

lemma start_ok:
  assumes "start now R spec msg a = ((observed, message), a')" "restarts_ok a"
  shows "observed \<in> {observedRunning, observedStopped, observedFailed} \<and> restarts_ok a'"
  using start_observed [OF assms(1)] assms(2) by (auto simp: restarts_ok_def)

lemma handleExit_ok:
  assumes run: "handleExit now R spec s policy a = ((observed, message), a')" and ok: "restarts_ok a"
  shows "observed \<in> {observedRunning, observedStopped, observedFailed} \<and> restarts_ok a'"
proof -
  let ?i = "ws_InstanceID spec"
  define a1 where "a1 = snd (takeHaltedByUser ?i a)"
  define a2 where "a2 = snd (restartStateOf ?i a1)"
  define a3 where "a3 = snd (restartStateOf ?i a2)"
  define a4 where "a4 = snd (noteRestart now ?i a3)"
  have ok1: "restarts_ok a1" using ok by (simp add: a1_def restarts_ok_halted)
  then have ok2: "restarts_ok a2" and ok3: "restarts_ok a3" by (simp_all add: a2_def a3_def agent_simps)
  then have ok4: "restarts_ok a4" by (simp add: a4_def restarts_ok_noteRestart)
  have halt: "takeHaltedByUser ?i a = (rs_haltedByUser (rs a ?i), a1)"
    by (simp add: a1_def takeHaltedByUser_def agent_simps)
  obtain n where again: "noteRestart now ?i a3 = (n, a4)" by (simp add: a4_def prod_eq_iff)
  show ?thesis
    using run ok1 ok2 ok3 ok4
    unfolding handleExit_def Let_def halt prod.case restart_reads a2_def [symmetric] a3_def [symmetric] again
    by (auto simp: agent_simps split: if_splits prod.splits sum.splits dest!: start_ok)
qed

lemma ensureRunning_ok:
  assumes run: "ensureRunning now R spec s policy a = ((observed, message), a')" and ok: "restarts_ok a"
  shows "observed \<in> {observedRunning, observedStopped, observedFailed} \<and> restarts_ok a'"
proof -
  let ?i = "ws_InstanceID spec"
  define a1 where "a1 = snd (restartStateOf ?i a)"
  define a2 where "a2 = snd (restartStateOf ?i a1)"
  have oks: "restarts_ok a1" "restarts_ok a2" using ok by (simp_all add: a1_def a2_def agent_simps)
  show ?thesis
    using run ok oks
    unfolding ensureRunning_def Let_def prod.case restart_reads a1_def [symmetric] a2_def [symmetric]
    by (auto simp: agent_simps resizeInPlace_def restarts_ok_noteRestart
        split: if_splits prod.splits phase.splits option.splits dest!: start_ok handleExit_ok)
qed

lemma ensureStopped_ok:
  assumes "ensureStopped R i s a = ((observed, message), a')" "restarts_ok a"
  shows "observed \<in> {observedRunning, observedStopped, observedFailed} \<and> restarts_ok a'"
proof -
  have "restarts_ok (noteHaltedByUser i a)"
    unfolding noteHaltedByUser_def by (rule restarts_ok_change) (use assms(2) in simp_all)
  then show ?thesis
    using assms(1) by (auto simp: ensureStopped_def Let_def agent_simps split: if_splits prod.splits sum.splits)
qed

lemma reconcileOne_ok:
  assumes run: "agent_reconcileOne d now v nics disks a = ((observed, message, code), a')" and ok: "restarts_ok a"
  shows "observed \<in> {observedPending, observedRunning, observedStopped, observedFailed} \<and> restarts_ok a'"
  using run ok
  by (auto simp: agent_reconcileOne_def split: option.splits sum.splits if_splits prod.splits
      dest!: ensureRunning_ok ensureStopped_ok)

lemma report_accepted:
  assumes wf: "inst_wf db" and r: "r \<in> set (instances db)" "i_ID r = iid" "i_NodeID r = nodeID"
    and ok: "validate_OneOf ''observed_state'' observed AllObservedStates = Inr ()" "length message \<le> 512" "\<not> restarts < 0"
  shows "fst (inst_reportObserved d now db nodeID iid observed message restarts code) =
    Inr (r\<lparr>i_Observed := observed_of observed, i_ObservedMessage := message, i_RestartCount := restarts,
           i_ExitCode := code, i_UpdatedAt := now\<rparr>)" (is "_ = Inr (?f r)")
proof -
  let ?P = "\<lambda>r. i_ID r = iid \<and> i_NodeID r = nodeID"
  have got: "repo_inst_get db iid = Inr r" using row_of_id [OF wf r(1)] r(2) by simp
  have hit: "list_ex ?P (instances db)" using r by (auto simp: list_ex_iff)
  have "repo_inst_get (snd (update_expecting inst_errNotFound ?P ?f db)) iid = Inr (if ?P r then ?f r else r)"
    by (rule get_update_expecting [OF _ got]) simp
  then show ?thesis
    unfolding inst_reportObserved_def ok(1) repo_inst_setObserved_def
    using ok(2,3) r hit got by (simp add: update_expecting_def inst_get_def)
qed

text \<open>
  C35: the control plane accepts every report of an agent on an instance it holds, as
  long as the message fits: whatever the runtime does, the state a pass reports is one
  of the four the instance module knows and the restart count is not negative. A message
  longer than 512 bytes is the only reason for a refusal, and it is always refused, since
  the agent does not shorten the texts of runtime errors.
\<close>

theorem agent_reports_fit:
  assumes run: "agent_reconcileOne d now v nics disks a = ((observed, message, code), a')"
    and ok: "restarts_ok a"
    and wf: "inst_wf db" and held: "r \<in> set (instances db)" "i_ID r = in_ID v" "i_NodeID r = nodeID"
  shows "restarts_ok a' \<and>
    (length message \<le> 512 \<longleftrightarrow>
      (\<exists>r'. fst (inst_reportObserved di at db nodeID (in_ID v) observed message
                 (fst (restartAttempts (in_ID v) a')) code) = Inr r' \<and>
            i_ID r' = in_ID v \<and> observed_text (i_Observed r') = observed \<and> i_ObservedMessage r' = message))"
proof -
  have obs: "observed \<in> {observedPending, observedRunning, observedStopped, observedFailed}" and ok': "restarts_ok a'"
    using reconcileOne_ok [OF run ok] by auto
  have known: "validate_OneOf ''observed_state'' observed AllObservedStates = Inr ()"
    and shown: "observed_text (observed_of observed) = observed"
    using obs by (auto simp: observed_defs AllObservedStates_def observed_text_def observed_of_def)
  have attempts: "\<not> fst (restartAttempts (in_ID v) a') < 0"
    using ok' by (simp add: restarts_ok_def agent_simps not_less)
  let ?report = "inst_reportObserved di at db nodeID (in_ID v) observed message (fst (restartAttempts (in_ID v) a')) code"
  show ?thesis
  proof (cases "length message \<le> 512")
    case True
    from report_accepted [OF wf held known True attempts, of di at code] show ?thesis using True shown ok' held(2) by simp
  next
    case False
    then have "isl (fst ?report)" unfolding inst_reportObserved_def known by simp
    with False ok' show ?thesis by auto
  qed
qed

section \<open>A workload that keeps exiting\<close>

lemma start_keeps_memory:
  assumes "start now R spec msg a = (res, a')"
  shows "rs_attempts (rs a' i) = rs_attempts (rs a i) \<and> rs_nextAttempt (rs a' i) = rs_nextAttempt (rs a i)"
  using start_observed(2,3) [of now R spec msg a "fst res" "snd res" a' i] assms by simp

lemma handleExit_cases:
  assumes run: "handleExit now R spec s policy a = (res, a')" and halted: "\<not> rs_haltedByUser (rs a (ws_InstanceID spec))"
  shows "if \<not> shouldRestart policy (wl_ExitCode s) \<or> now < rs_nextAttempt (rs a (ws_InstanceID spec))
         then ag_world a' = ag_world a \<and> rs_attempts (rs a' (ws_InstanceID spec)) = rs_attempts (rs a (ws_InstanceID spec)) \<and>
              rs_nextAttempt (rs a' (ws_InstanceID spec)) = rs_nextAttempt (rs a (ws_InstanceID spec))
         else \<exists>n. n = (if rs_startedAt (rs a (ws_InstanceID spec)) \<noteq> zero_time \<and>
                        stableFor \<le> time_sub now (rs_startedAt (rs a (ws_InstanceID spec)))
                     then 1 else rs_attempts (rs a (ws_InstanceID spec)) + 1) \<and>
              rs_attempts (rs a' (ws_InstanceID spec)) = n \<and>
              rs_nextAttempt (rs a' (ws_InstanceID spec)) = now + backoffFor n"
proof -
  let ?i = "ws_InstanceID spec"
  define a1 where "a1 = snd (takeHaltedByUser ?i a)"
  define a2 where "a2 = snd (restartStateOf ?i a1)"
  define a3 where "a3 = snd (restartStateOf ?i a2)"
  define a4 where "a4 = snd (noteRestart now ?i a3)"
  have halt: "takeHaltedByUser ?i a = (False, a1)" using halted by (simp add: a1_def takeHaltedByUser_def agent_simps)
  have r1: "rs a1 ?i = (rs a ?i)\<lparr>rs_haltedByUser := False\<rparr>" and w1: "ag_world a1 = ag_world a"
    by (simp_all add: a1_def takeHaltedByUser_def agent_simps)
  then have r2: "rs a2 ?i = rs a1 ?i" "ag_world a2 = ag_world a" and r3: "rs a3 ?i = rs a1 ?i" "ag_world a3 = ag_world a"
    by (simp_all add: a2_def a3_def agent_simps)
  obtain n where again: "noteRestart now ?i a3 = (n, a4)" by (simp add: a4_def prod_eq_iff)
  have n: "n = (if rs_startedAt (rs a ?i) \<noteq> zero_time \<and> stableFor \<le> time_sub now (rs_startedAt (rs a ?i))
                then 1 else rs_attempts (rs a ?i) + 1)"
    using again r1 r3(1) noteRestart_effect(2) [of now ?i a3] by simp
  have r4: "rs_attempts (rs a4 ?i) = n" "rs_nextAttempt (rs a4 ?i) = now + backoffFor n"
    using arg_cong [OF again, of fst] by (simp_all add: a4_def noteRestart_effect(1))
  have wait: "0 < time_sub (rs_nextAttempt (rs a ?i)) now \<longleftrightarrow> now < rs_nextAttempt (rs a ?i)"
    by (simp add: go_simps)
  show ?thesis
    using run r1 r2 r3 r4 w1 wait n
    unfolding handleExit_def Let_def halt prod.case restart_reads a2_def [symmetric] a3_def [symmetric] again
    by (auto simp: agent_simps split: if_splits prod.splits sum.splits dest!: start_keeps_memory [where i = ?i])
qed

text \<open>
  C34: a workload that keeps exiting is restarted with a growing pause. When a pass finds
  it exited, and no stop by the user explains that, the runtime is left alone unless the
  restart policy asks for a restart and the pause of the previous attempt is over; an
  attempt is counted, starting again from one after a minute of stable running, and the
  next one is at least a second away: one second doubled for every attempt before it, at
  most a minute.
\<close>

theorem crash_loop_backs_off:
  assumes run: "agent_reconcileOne d now v nics disks a = (res, a')" and R: "runtimeFor d (in_Isolation v) = Some R"
    and files: "fileDrops (ad_b64_text d) (in_Files v) = Inr drops"
    and exited: "rt_Status R (ag_world a) (in_ID v) = Inr s" "wl_Phase s = PhaseExited"
    and wanted: "in_DesiredState v = ''running''" "nics \<noteq> []" and halted: "\<not> rs_haltedByUser (rs a (in_ID v))"
  shows "if \<not> shouldRestart (in_RestartPolicy v) (wl_ExitCode s) \<or> now < rs_nextAttempt (rs a (in_ID v))
    then ag_world a' = ag_world a \<and> rs_attempts (rs a' (in_ID v)) = rs_attempts (rs a (in_ID v)) \<and>
         rs_nextAttempt (rs a' (in_ID v)) = rs_nextAttempt (rs a (in_ID v))
    else \<exists>n. n = (if rs_startedAt (rs a (in_ID v)) \<noteq> zero_time \<and> stableFor \<le> time_sub now (rs_startedAt (rs a (in_ID v)))
                   then 1 else rs_attempts (rs a (in_ID v)) + 1) \<and>
         rs_attempts (rs a' (in_ID v)) = n \<and>
         rs_nextAttempt (rs a' (in_ID v)) = now + min maxRestartBackoff (minRestartBackoff * 2 ^ nat (n - 1))"
proof -
  let ?spec = "spec_of v drops nics disks"
  obtain out where out: "handleExit now R ?spec s (in_RestartPolicy v) a = (out, a')"
    using run R files exited wanted by (auto simp: agent_reconcileOne_def ensureRunning_def split: prod.splits)
  have i: "ws_InstanceID ?spec = in_ID v" by (simp add: spec_of_def)
  show ?thesis by (rule handleExit_cases [OF out, unfolded i backoffFor_exact, OF halted])
qed

section \<open>What a runtime promises\<close>

text \<open>
  \<open>running w i\<close> says that the workload of instance \<open>i\<close> runs in world \<open>w\<close>, \<open>good w\<close> that the
  host behaves: directories can be listed and signals are delivered.
\<close>

locale workload_runtime =
  fixes R :: "'w runtime_if" and running :: "'w \<Rightarrow> string \<Rightarrow> bool" and good :: "'w \<Rightarrow> bool"
  assumes list_complete: "good w \<Longrightarrow> \<exists>ids. rt_List R w = Inr ids \<and> (\<forall>i. running w i \<longrightarrow> i \<in> set ids)"
    and status_tells: "good w \<Longrightarrow> \<exists>s. rt_Status R w i = Inr s \<and> (wl_Phase s = PhaseRunning \<longleftrightarrow> running w i)"
    and stop_stops: "good w \<Longrightarrow> \<exists>w'. rt_Stop R w i = (Inr (), w') \<and> good w' \<and> (\<forall>j. running w' j \<longleftrightarrow> running w j \<and> j \<noteq> i)"
    and start_local: "good w \<Longrightarrow> rt_Start R w spec = (started, w') \<Longrightarrow>
      good w' \<and> (\<forall>j. j \<noteq> ws_InstanceID spec \<longrightarrow> running w' j = running w j)"
    and remove_local: "good w \<Longrightarrow> rt_Remove R w i = (removed, w') \<Longrightarrow>
      good w' \<and> \<not> running w' i \<and> (\<forall>j. j \<noteq> i \<longrightarrow> running w' j = running w j)"
    and resize_local: "good w \<Longrightarrow> rt_Resize R = Some f \<Longrightarrow> f w i c m = (resized, w') \<Longrightarrow> good w' \<and> running w' = running w"
begin

lemma fence_loop_stops:
  "good (ag_world a) \<Longrightarrow>
   good (ag_world (fence_loop R silence is a)) \<and>
   (\<forall>j. running (ag_world (fence_loop R silence is a)) j \<longleftrightarrow> running (ag_world a) j \<and> j \<notin> set is)"
proof (induction \<open>is\<close> arbitrary: a)
  case (Cons i ids)
  obtain s where s: "rt_Status R (ag_world a) i = Inr s" "wl_Phase s = PhaseRunning \<longleftrightarrow> running (ag_world a) i"
    using status_tells [OF Cons.prems] by blast
  show ?case
  proof (cases "running (ag_world a) i")
    case False
    then show ?thesis using Cons.IH [OF Cons.prems] s by auto
  next
    case True
    obtain w' where w': "rt_Stop R (ag_world a) i = (Inr (), w')" "good w'"
        "\<forall>j. running w' j \<longleftrightarrow> running (ag_world a) j \<and> j \<noteq> i"
      using stop_stops [OF Cons.prems] by blast
    then show ?thesis
      using Cons.IH [of "noteFenced i silence (a\<lparr>ag_world := w'\<rparr>)"] s True by (auto simp: noteFenced_def)
  qed
qed simp

lemma fence_stops_everything:
  assumes "runtimeFor d fenceIsolation = Some R" "good (ag_world a)"
  shows "good (ag_world (fence d silence a)) \<and> \<not> running (ag_world (fence d silence a)) i"
proof -
  obtain ids where "rt_List R (ag_world a) = Inr ids" "\<forall>i. running (ag_world a) i \<longrightarrow> i \<in> set ids"
    using list_complete [OF assms(2)] by blast
  then show ?thesis using fence_loop_stops [OF assms(2)] assms(1) by (auto simp: fence_def)
qed

lemma start_keeps_others:
  assumes "start now R spec msg a = (res, a')" "good (ag_world a)"
  shows "good (ag_world a') \<and> (\<forall>j. j \<noteq> ws_InstanceID spec \<longrightarrow> running (ag_world a') j = running (ag_world a) j)"
proof -
  obtain out w' where st: "rt_Start R (ag_world a) spec = (out, w')" by fastforce
  have "ag_world a' = w'"
    using assms(1) st
    by (auto simp: start_def Let_def restart_notes agent_simps split: sum.splits if_splits option.splits)
  with start_local [OF assms(2) st] show ?thesis by simp
qed

lemma handleExit_keeps_others:
  assumes run: "handleExit now R spec s policy a = (res, a')" and g: "good (ag_world a)"
  shows "good (ag_world a') \<and> (\<forall>j. j \<noteq> ws_InstanceID spec \<longrightarrow> running (ag_world a') j = running (ag_world a) j)"
proof -
  let ?i = "ws_InstanceID spec"
  define a1 where "a1 = snd (takeHaltedByUser ?i a)"
  define a2 where "a2 = snd (restartStateOf ?i a1)"
  define a3 where "a3 = snd (restartStateOf ?i a2)"
  define a4 where "a4 = snd (noteRestart now ?i a3)"
  have halt: "takeHaltedByUser ?i a = (rs_haltedByUser (rs a ?i), a1)"
    by (simp add: a1_def takeHaltedByUser_def agent_simps)
  obtain n where again: "noteRestart now ?i a3 = (n, a4)" by (simp add: a4_def prod_eq_iff)
  have ws: "ag_world a1 = ag_world a" "ag_world a2 = ag_world a" "ag_world a3 = ag_world a" "ag_world a4 = ag_world a"
    by (simp_all add: a1_def a2_def a3_def a4_def takeHaltedByUser_def agent_simps)
  obtain out w' where rem: "rt_Remove R (ag_world a) ?i = (out, w')" by fastforce
  note rem' = remove_local [OF g rem]
  show ?thesis
    using run ws g rem rem'
    unfolding handleExit_def Let_def halt prod.case restart_reads a2_def [symmetric] a3_def [symmetric] again
    by (auto simp: agent_simps split: if_splits sum.splits dest!: start_keeps_others)
qed

lemma ensureRunning_keeps_others:
  assumes run: "ensureRunning now R spec s policy a = (res, a')" and g: "good (ag_world a)"
  shows "good (ag_world a') \<and> (\<forall>j. j \<noteq> ws_InstanceID spec \<longrightarrow> running (ag_world a') j = running (ag_world a) j)"
proof -
  let ?i = "ws_InstanceID spec"
  define a1 where "a1 = snd (restartStateOf ?i a)"
  define a2 where "a2 = snd (restartStateOf ?i a1)"
  have ws: "ag_world a1 = ag_world a" "ag_world a2 = ag_world a" by (simp_all add: a1_def a2_def agent_simps)
  have resized: "good (ag_world (resizeInPlace R spec a)) \<and> running (ag_world (resizeInPlace R spec a)) = running (ag_world a)"
    using resize_local [OF g] g
    by (auto simp: resizeInPlace_def split: option.splits) (metis prod.collapse)+
  show ?thesis
    using run ws g resized
    unfolding ensureRunning_def Let_def restart_reads a1_def [symmetric] a2_def [symmetric]
    by (auto simp: agent_simps split: if_splits prod.splits phase.splits dest!: start_keeps_others handleExit_keeps_others)
qed

lemma ensureStopped_stops:
  assumes run: "ensureStopped R i s a = (res, a')" and g: "good (ag_world a)"
    and s: "wl_Phase s = PhaseRunning \<longleftrightarrow> running (ag_world a) i"
  shows "fst res = observedStopped \<and> good (ag_world a') \<and> (\<forall>j. running (ag_world a') j \<longleftrightarrow> running (ag_world a) j \<and> j \<noteq> i)"
proof -
  obtain w' where w': "rt_Stop R (ag_world a) i = (Inr (), w')" "good w'"
      "\<forall>j. running w' j \<longleftrightarrow> running (ag_world a) j \<and> j \<noteq> i"
    using stop_stops [OF g] by blast
  show ?thesis
  proof (cases "running (ag_world a) i")
    case True
    with s have "wl_Phase s = PhaseRunning" by simp
    with run w'(1) have "fst res = observedStopped" "ag_world a' = w'"
      by (auto simp: ensureStopped_def Let_def noteHaltedByUser_def agent_simps)
    with w'(2,3) show ?thesis by simp
  next
    case False
    with s have "wl_Phase s \<noteq> PhaseRunning" by simp
    with run have "fst res = observedStopped" "ag_world a' = ag_world a"
      by (auto simp: ensureStopped_def Let_def noteHaltedByUser_def agent_simps)
    with g False show ?thesis by auto
  qed
qed

lemma reconcileOne_effect:
  assumes run: "agent_reconcileOne d now v nics disks a = ((observed, message, code), a')"
    and R: "runtimeFor d (in_Isolation v) = Some R" and g: "good (ag_world a)"
  shows "good (ag_world a') \<and> (\<forall>j. j \<noteq> in_ID v \<longrightarrow> running (ag_world a') j = running (ag_world a) j) \<and>
    (in_DesiredState v = ''stopped'' \<longrightarrow> fileDrops (ad_b64_text d) (in_Files v) = Inr drops \<longrightarrow>
       observed = observedStopped \<and> \<not> running (ag_world a') (in_ID v))"
proof -
  obtain s where s: "rt_Status R (ag_world a) (in_ID v) = Inr s" "wl_Phase s = PhaseRunning \<longleftrightarrow> running (ag_world a) (in_ID v)"
    using status_tells [OF g] by blast
  have i: "ws_InstanceID (spec_of v drops nics disks) = in_ID v" for drops by (simp add: spec_of_def)
  consider (stop) out where "ensureStopped R (in_ID v) s a = (out, a')" "observed = fst out" "in_DesiredState v = ''stopped''"
    | (start) drops out where "ensureRunning now R (spec_of v drops nics disks) s (in_RestartPolicy v) a = (out, a')"
        "in_DesiredState v = ''running''"
    | (none) "a' = a" "in_DesiredState v \<noteq> ''stopped'' \<or> (\<exists>e. fileDrops (ad_b64_text d) (in_Files v) = Inl e)"
    using run s(1) R unfolding agent_reconcileOne_def by (fastforce split: sum.splits if_splits prod.splits)
  then show ?thesis
  proof cases
    case stop
    with ensureStopped_stops [OF stop(1) g s(2)] show ?thesis by simp
  next
    case start
    with ensureRunning_keeps_others [OF start(1) g] show ?thesis by (simp add: i)
  next
    case none
    with g show ?thesis by auto
  qed
qed

lemma remove_orphans_exact:
  "good w \<Longrightarrow>
   good (remove_orphans R wanted is w) \<and>
   (\<forall>j. running (remove_orphans R wanted is w) j \<longleftrightarrow> running w j \<and> (j \<in> set wanted \<or> j \<notin> set is))"
proof (induction \<open>is\<close> arbitrary: w)
  case (Cons i ids)
  obtain out w' where w': "rt_Remove R w i = (out, w')" by fastforce
  show ?case
    using Cons.IH [OF Cons.prems] Cons.IH [of w'] remove_local [OF Cons.prems w'] w' by auto
qed simp

lemma collect_leaves_wanted:
  assumes "good w" "rt_List R w = Inr present"
  shows "running (remove_orphans R wanted present w) j \<longleftrightarrow> running w j \<and> j \<in> set wanted"
  using remove_orphans_exact [OF assms(1), of wanted present] list_complete [OF assms(1)] assms(2) by auto

end

end
