(* ===== verification/NodeAgent.thy ===== *)
theory NodeAgent
  imports Agent
begin

text \<open>
  A whole pass of the agent: what it reads from the control plane, the plans it hands to
  the datapath and to the runtimes, and the loop over the assigned instances
  (src/internal/agent/reconcile.go, hotplug.go, carry.go, clone.go, backup.go, cache.go,
  agent.go). The control plane and the files of the node are operations on the world.
  \<open>netip.ParsePrefix\<close> is an argument that answers with the number of bits. The steps that
  stage images, measure usage and ship logs are arguments of a pass.
\<close>

section \<open>The control plane and the node as the agent sees them\<close>

record cached_state =
  cs_NodeID :: string
  cs_SavedAt :: go_time
  cs_Instances :: "instance_view list"
  cs_Networks :: "network_view list"
  cs_Records :: "(string \<times> string) list"
  cs_Nodes :: "(string \<times> string) list"
  cs_Volumes :: "volume_view list"
  cs_Forwards :: "forward_view list"
  cs_Balancers :: "balancer_view list"
  cs_Firewalls :: "firewall_view list"

record reported_volume =
  rv_VolumeID :: string
  rv_Detached :: bool
  rv_Snapshots :: "(string \<times> int) list"
  rv_Restored :: string
  rv_Error :: string

record backup_view =
  bk_ID :: string
  bk_VolumeID :: string
  bk_Name :: string
  bk_State :: string

record endpoint_route =
  er_Host :: string
  er_Path :: string
  er_Targets :: "string list"

record tls_endpoint =
  ep_ID :: string
  ep_ListenPort :: int
  ep_TargetPort :: int
  ep_Certificate :: string
  ep_PrivateKey :: string
  ep_Targets :: "string list"
  ep_Routes :: "endpoint_route list"

text \<open>An error of a call that reached the control plane carries its code, any other none.\<close>

datatype call_error = CallError (ce_text: string) (ce_code: "string option")

record 'w control =
  co_register :: "'w \<Rightarrow> (call_error + string) \<times> 'w"
  co_heartbeat :: "'w \<Rightarrow> string \<Rightarrow> (call_error + unit) \<times> 'w"
  co_assigned :: "'w \<Rightarrow> string \<Rightarrow> string + instance_view list"
  co_networks :: "'w \<Rightarrow> string \<Rightarrow> string + network_view list"
  co_records :: "'w \<Rightarrow> string + (string \<times> string) list"
  co_nodes :: "'w \<Rightarrow> string + (string \<times> string) list"
  co_volumes :: "'w \<Rightarrow> string \<Rightarrow> string + volume_view list"
  co_forwards :: "'w \<Rightarrow> string \<Rightarrow> string + forward_view list"
  co_balancers :: "'w \<Rightarrow> string \<Rightarrow> string + balancer_view list"
  co_firewalls :: "'w \<Rightarrow> string \<Rightarrow> string + firewall_view list"
  co_volumeKey :: "'w \<Rightarrow> string \<Rightarrow> string \<Rightarrow> string + string"
  co_reportStatus :: "'w \<Rightarrow> string \<Rightarrow> string \<Rightarrow> string \<Rightarrow> string \<Rightarrow> int \<Rightarrow> int option \<Rightarrow> (string + unit) \<times> 'w"
  co_reportVolumes :: "'w \<Rightarrow> string \<Rightarrow> reported_volume list \<Rightarrow> (string + unit) \<times> 'w"
  co_reportHealth :: "'w \<Rightarrow> string \<Rightarrow> health_report list \<Rightarrow> (string + unit) \<times> 'w"
  co_parkDisk :: "'w \<Rightarrow> string \<Rightarrow> string \<Rightarrow> string \<Rightarrow> (string + unit) \<times> 'w"
  co_takeDisk :: "'w \<Rightarrow> string \<Rightarrow> string \<Rightarrow> string + string"
  co_diskLanded :: "'w \<Rightarrow> string \<Rightarrow> string \<Rightarrow> (string + unit) \<times> 'w"
  co_fetchBackup :: "'w \<Rightarrow> string \<Rightarrow> string \<Rightarrow> string + string"
  co_pendingBackups :: "'w \<Rightarrow> string \<Rightarrow> string + backup_view list"
  co_failBackup :: "'w \<Rightarrow> string \<Rightarrow> string \<Rightarrow> string \<Rightarrow> (string + unit) \<times> 'w"
  co_backupTransfer :: "'w \<Rightarrow> string \<Rightarrow> string \<Rightarrow> string + bool"
  co_uploadDirect :: "'w \<Rightarrow> string \<Rightarrow> string \<Rightarrow> (string + unit) \<times> 'w"
  co_reportUploaded :: "'w \<Rightarrow> string \<Rightarrow> string \<Rightarrow> string \<Rightarrow> (string + unit) \<times> 'w"
  co_uploadBackup :: "'w \<Rightarrow> string \<Rightarrow> string \<Rightarrow> string \<Rightarrow> (string + unit) \<times> 'w"

record 'w node_deps =
  nd_agent :: "'w agent_deps"
  nd_control :: "'w control"
  nd_ParsePrefix :: "string \<Rightarrow> int option"
  nd_hasKeyFile :: "'w \<Rightarrow> string \<Rightarrow> bool"
  nd_writeKeyFile :: "'w \<Rightarrow> string \<Rightarrow> string \<Rightarrow> (string + unit) \<times> 'w"
  nd_saveState :: "'w \<Rightarrow> cached_state \<Rightarrow> 'w"
  nd_loadState :: "'w \<Rightarrow> string + cached_state"
  nd_probe :: "'w \<Rightarrow> probe_target \<Rightarrow> string option"
  nd_listenDNS :: "('w \<Rightarrow> string \<Rightarrow> (string + unit) \<times> 'w) option"
  nd_updateDNS :: "'w \<Rightarrow> (string \<times> string list) list \<Rightarrow> 'w"
  nd_applyTLS :: "('w \<Rightarrow> tls_endpoint list \<Rightarrow> (string + unit) \<times> 'w) option"
  nd_refresh :: "'w \<Rightarrow> string \<Rightarrow> 'w"
  nd_tidyImages :: "'w \<Rightarrow> instance_view list \<Rightarrow> bool \<Rightarrow> 'w"
  nd_reportUsage :: "'w \<Rightarrow> instance_view list \<Rightarrow> 'w"
  nd_shipLogs :: "'w \<Rightarrow> instance_view list \<Rightarrow> 'w"

section \<open>Reading the desired state\<close>

definition readDesired :: "'w node_deps \<Rightarrow> 'w agent \<Rightarrow> string + cached_state" where
  "readDesired d a =
     (let c = nd_control d; w = ag_world a; n = ag_nodeID a in
      bindR (co_assigned c w n) (\<lambda>assigned.
      bindR (co_networks c w n) (\<lambda>nets.
      bindR (co_records c w) (\<lambda>records.
      bindR (co_nodes c w) (\<lambda>ns.
      bindR (co_volumes c w n) (\<lambda>vols.
      bindR (co_forwards c w n) (\<lambda>fwds.
      bindR (co_balancers c w n) (\<lambda>bals.
      bindR (co_firewalls c w n) (\<lambda>fws.
        Inr \<lparr>cs_NodeID = [], cs_SavedAt = zero_time, cs_Instances = usableInstances assigned, cs_Networks = nets,
             cs_Records = records, cs_Nodes = ns, cs_Volumes = vols, cs_Forwards = fwds,
             cs_Balancers = bals, cs_Firewalls = fws\<rparr>)))))))))"

section \<open>Plans for the datapath\<close>

definition bridgeAddress6 :: "(string \<Rightarrow> int option) \<Rightarrow> network_view \<Rightarrow> string" where
  "bridgeAddress6 parse n =
     (if nx_CIDR6 n = [] \<or> nx_Gateway6 n = [] then []
      else case parse (nx_CIDR6 n) of None \<Rightarrow> [] | Some bits \<Rightarrow> nx_Gateway6 n @ ''/'' @ itoa bits)"

definition sliceBits6 :: "(string \<Rightarrow> int option) \<Rightarrow> network_view \<Rightarrow> int" where
  "sliceBits6 parse n = (case parse (nx_Slice6 n) of None \<Rightarrow> 0 | Some bits \<Rightarrow> bits)"

definition nic_config :: "(string \<Rightarrow> int option) \<Rightarrow> network_view \<Rightarrow> int \<Rightarrow> int \<Rightarrow> nic_view \<Rightarrow> network_config" where
  "nic_config parse n bits sbits nic =
     \<lparr>nc_Bridge = nx_Bridge n, nc_BridgeAddr = nx_Gateway n @ ''/'' @ itoa bits,
      nc_BridgeAddr6 = bridgeAddress6 parse n, nc_IP = nv_IP nic, nc_Prefix = sbits, nc_Gateway = nx_Gateway n,
      nc_IP6 = nv_IP6 nic, nc_Prefix6 = sliceBits6 parse n, nc_Gateway6 = nx_Gateway6 n, nc_MAC = nv_MAC nic,
      nc_Nameserver = nx_Gateway n, nc_SearchDomain = nx_Name n @ ''.internal''\<rparr>"

definition attached_nics :: "(string \<Rightarrow> int option) \<Rightarrow> network_view list \<Rightarrow> string \<Rightarrow> (int \<times> network_config) list" where
  "attached_nics parse nets i =
     concat (map (\<lambda>n.
       case (parse (nx_CIDR n), parse (nx_Slice n)) of
         (Some bits, Some sbits) \<Rightarrow>
           map (\<lambda>nic. (nv_Device nic, nic_config parse n bits sbits nic))
             (filter (\<lambda>nic. nv_InstanceID nic = i) (nx_NICs n))
       | _ \<Rightarrow> []) nets)"

definition interfacesByInstance :: "(string \<Rightarrow> int option) \<Rightarrow> network_view list \<Rightarrow> string \<Rightarrow> network_config list" where
  "interfacesByInstance parse nets i = map snd (sort_key fst (attached_nics parse nets i))"

definition egress_plan :: "(string \<Rightarrow> int option) \<Rightarrow> network_view list \<Rightarrow> egress list" where
  "egress_plan parse nets =
     concat (map (\<lambda>n. case parse (nx_CIDR n) of
         None \<Rightarrow> []
       | Some bits \<Rightarrow> [\<lparr>eg_Bridge = nx_Bridge n, eg_Gateway = nx_Gateway n @ ''/'' @ itoa bits,
                       eg_Gateway6 = bridgeAddress6 parse n\<rparr>]) nets)"

definition route_plan :: "network_view list \<Rightarrow> (string \<times> string) list \<Rightarrow> wl_route list" where
  "route_plan nets ns =
     concat (map (\<lambda>p. case map_of (rev ns) (pv_NodeID p) of
         None \<Rightarrow> []
       | Some via \<Rightarrow> if via = [] then [] else [\<lparr>ro_Slice = pv_Slice p, ro_Via = via\<rparr>])
       (concat (map nx_Peers nets)))"

definition filter_plan :: "network_view list \<Rightarrow> instance_view list \<Rightarrow> wl_filter list" where
  "filter_plan nets assigned =
     concat (map (\<lambda>n. map (\<lambda>nic.
        \<lparr>fi_InstanceID = nv_InstanceID nic,
         fi_Isolation = get_or [] (map_of (rev (map (\<lambda>v. (in_ID v, in_Isolation v)) assigned))) (nv_InstanceID nic),
         fi_Bridge = nx_Bridge n, fi_IP = nv_IP nic, fi_IP6 = nv_IP6 nic, fi_MAC = nv_MAC nic,
         fi_Device = nv_Device nic\<rparr>) (nx_NICs n)) nets)"

definition addresses_of :: "network_view list \<Rightarrow> string \<Rightarrow> string list" where
  "addresses_of nets i =
     concat (map (\<lambda>n. concat (map (\<lambda>nic. nv_IP nic # (if nv_IP6 nic \<noteq> [] then [nv_IP6 nic] else []))
        (filter (\<lambda>nic. nv_InstanceID nic = i) (nx_NICs n)))) nets)"

definition guard_plan :: "instance_view list \<Rightarrow> network_view list \<Rightarrow> firewall_view list \<Rightarrow> guard list" where
  "guard_plan assigned nets fws =
     concat (map (\<lambda>v.
        if in_FirewallID v = [] then []
        else case map_of (rev (map (\<lambda>f. (fr_ID f, fr_Rules f)) fws)) (in_FirewallID v) of
               None \<Rightarrow> []
             | Some rules \<Rightarrow>
                 map (\<lambda>ip. \<lparr>gd_InstanceID = in_ID v, gd_Isolation = in_Isolation v, gd_IP = ip, gd_Rules = rules\<rparr>)
                   (addresses_of nets (in_ID v))) assigned)"

definition healthyAddresses :: "backend_view list \<Rightarrow> string list" where
  "healthyAddresses backends = map bv_Address (filter (\<lambda>x. bv_Healthy x \<and> bv_Address x \<noteq> []) backends)"

definition endpointRoutes :: "balancer_route_view list \<Rightarrow> endpoint_route list" where
  "endpointRoutes routes =
     map (\<lambda>r. \<lparr>er_Host = brv_Host r, er_Path = brv_Path r, er_Targets = healthyAddresses (brv_Backends r)\<rparr>) routes"

definition published_plan :: "forward_view list \<Rightarrow> balancer_view list \<Rightarrow> wl_publish list" where
  "published_plan fwds bals =
     map (\<lambda>f. \<lparr>pb_Protocol = fw_Protocol f, pb_NodePort = fw_NodePort f, pb_TargetPort = fw_TargetPort f,
              pb_Address = fw_Address f, pb_Targets = [], pb_Algorithm = []\<rparr>)
       (filter (\<lambda>f. \<not> forward_terminatesTLS f) fwds) @
     map (\<lambda>b. \<lparr>pb_Protocol = ba_Protocol b, pb_NodePort = ba_ListenPort b, pb_TargetPort = ba_TargetPort b,
              pb_Address = [], pb_Targets = healthyAddresses (ba_Backends b), pb_Algorithm = ba_Algorithm b\<rparr>)
       (filter (\<lambda>b. \<not> runsInUserspace b \<and> healthyAddresses (ba_Backends b) \<noteq> []) bals)"

definition terminating_plan :: "forward_view list \<Rightarrow> balancer_view list \<Rightarrow> tls_endpoint list" where
  "terminating_plan fwds bals =
     map (\<lambda>f. \<lparr>ep_ID = fw_ID f, ep_ListenPort = fw_NodePort f, ep_TargetPort = fw_TargetPort f,
              ep_Certificate = fw_Certificate f, ep_PrivateKey = fw_PrivateKey f, ep_Targets = [fw_Address f],
              ep_Routes = []\<rparr>) (filter forward_terminatesTLS fwds) @
     map (\<lambda>b. \<lparr>ep_ID = ba_ID b, ep_ListenPort = ba_ListenPort b, ep_TargetPort = ba_TargetPort b,
              ep_Certificate = ba_Certificate b, ep_PrivateKey = ba_PrivateKey b,
              ep_Targets = healthyAddresses (ba_Backends b), ep_Routes = endpointRoutes (ba_Routes b)\<rparr>)
       (filter runsInUserspace bals)"

definition applyEgress :: "'w node_deps \<Rightarrow> network_view list \<Rightarrow> 'w \<Rightarrow> 'w" where
  "applyEgress d nets w =
     (case ad_datapath (nd_agent d) of
        None \<Rightarrow> w
      | Some dp \<Rightarrow> snd (dp_ApplyEgress dp w (egress_plan (nd_ParsePrefix d) nets)))"

definition applyRoutes :: "'w node_deps \<Rightarrow> network_view list \<Rightarrow> (string \<times> string) list \<Rightarrow> 'w \<Rightarrow> 'w" where
  "applyRoutes d nets ns w =
     (case ad_datapath (nd_agent d) of
        None \<Rightarrow> w
      | Some dp \<Rightarrow>
          if route_plan nets ns = [] then w else snd (dp_ApplyRoutes dp w (route_plan nets ns)))"

definition applyFilters :: "'w node_deps \<Rightarrow> network_view list \<Rightarrow> instance_view list \<Rightarrow> 'w \<Rightarrow> 'w" where
  "applyFilters d nets assigned w =
     (case ad_datapath (nd_agent d) of
        None \<Rightarrow> w | Some dp \<Rightarrow> snd (dp_ApplyFilters dp w (filter_plan nets assigned)))"

definition applyGuards :: "'w node_deps \<Rightarrow> instance_view list \<Rightarrow> network_view list \<Rightarrow> firewall_view list \<Rightarrow> 'w \<Rightarrow> 'w" where
  "applyGuards d assigned nets fws w =
     (case ad_datapath (nd_agent d) of
        None \<Rightarrow> w | Some dp \<Rightarrow> snd (dp_ApplyGuards dp w (guard_plan assigned nets fws)))"

definition applyForwards :: "'w node_deps \<Rightarrow> forward_view list \<Rightarrow> balancer_view list \<Rightarrow> 'w \<Rightarrow> 'w" where
  "applyForwards d fwds bals w =
     (case ad_datapath (nd_agent d) of
        None \<Rightarrow> w
      | Some dp \<Rightarrow>
          (let w1 = snd (dp_ApplyForwards dp w (published_plan fwds bals))
           in case nd_applyTLS d of
                None \<Rightarrow> w1 | Some tls \<Rightarrow> snd (tls w1 (terminating_plan fwds bals))))"

fun zone_of :: "(string \<times> string) list \<Rightarrow> (string \<times> string list) list \<Rightarrow> (string \<times> string list) list" where
  "zone_of [] zone = zone"
| "zone_of ((fqdn, ip) # rest) zone =
     zone_of rest (if list_ex (\<lambda>z. fst z = fqdn) zone
                   then map (\<lambda>z. if fst z = fqdn then (fqdn, snd z @ [ip]) else z) zone
                   else zone @ [(fqdn, [ip])])"

definition serveDNS :: "'w node_deps \<Rightarrow> network_view list \<Rightarrow> (string \<times> string) list \<Rightarrow> 'w \<Rightarrow> 'w" where
  "serveDNS d nets records w =
     (case nd_listenDNS d of
        None \<Rightarrow> w
      | Some listen \<Rightarrow>
          nd_updateDNS d (foldl (\<lambda>w n. snd (listen w (nx_Gateway n))) w nets) (zone_of records []))"

section \<open>Volumes\<close>

definition safeVolumeID :: "string \<Rightarrow> bool" where
  "safeVolumeID i =
     (if \<not> has_prefix i ''vol-'' \<or> length i \<le> 4 \<or> 40 < length i then False
      else list_all (\<lambda>c. is_lower c \<or> is_digit c) (drop 4 i))"

definition volumeKeyFile :: "'w node_deps \<Rightarrow> string \<Rightarrow> string \<Rightarrow> 'w \<Rightarrow> (string + string) \<times> 'w" where
  "volumeKeyFile d nodeID vid w =
     (if \<not> safeVolumeID vid then (Inl (''refusing a volume with id '' @ vid), w)
      else if nd_hasKeyFile d w vid then (Inr (''/run/marstack/keys/'' @ vid), w)
      else case co_volumeKey (nd_control d) w nodeID vid of
             Inl err \<Rightarrow> (Inl err, w)
           | Inr key \<Rightarrow>
               if key = [] then (Inl (''the control plane returned an empty key for '' @ vid), w)
               else (case nd_writeKeyFile d w vid key of
                       (Inl err, w') \<Rightarrow> (Inl err, w')
                     | (Inr _, w') \<Rightarrow> (Inr (''/run/marstack/keys/'' @ vid), w')))"

fun tidy_each :: "(string \<times> 'w runtime_if) list \<Rightarrow> string list \<Rightarrow> 'w \<Rightarrow> 'w" where
  "tidy_each [] keep w = w"
| "tidy_each ((isolation, R) # rest) keep w =
     (case rt_Keeper R of
        None \<Rightarrow> tidy_each rest keep w
      | Some k \<Rightarrow> tidy_each rest keep (snd (vk_PruneVolumes k w keep)))"

definition tidyVolumes :: "'w node_deps \<Rightarrow> volume_view list \<Rightarrow> 'w \<Rightarrow> 'w" where
  "tidyVolumes d vols w = tidy_each (ad_runtimes (nd_agent d)) (map vv_ID vols) w"

definition volumeIsBusy :: "'w node_deps \<Rightarrow> volume_view \<Rightarrow> instance_view list \<Rightarrow> 'w \<Rightarrow> bool" where
  "volumeIsBusy d v assigned w =
     (if vv_InstanceID v = [] then False
      else case find (\<lambda>x. in_ID x = vv_InstanceID v) assigned of
             None \<Rightarrow> True
           | Some x \<Rightarrow>
               (case runtimeFor (nd_agent d) (in_Isolation x) of
                  None \<Rightarrow> True
                | Some R \<Rightarrow>
                    (case rt_Status R w (in_ID x) of
                       Inl _ \<Rightarrow> True | Inr s \<Rightarrow> wl_Phase s = PhaseRunning)))"

fun snapshot_plans ::
    "'w node_deps \<Rightarrow> string \<Rightarrow> instance_view list \<Rightarrow> volume_view list \<Rightarrow> 'w \<Rightarrow> (snapshot_plan \<times> grow_plan) list \<times> 'w" where
  "snapshot_plans d nodeID assigned [] w = ([], w)"
| "snapshot_plans d nodeID assigned (v # vs) w =
     (if volumeIsBusy d v assigned w then snapshot_plans d nodeID assigned vs w
      else case (if vv_Encrypted v then volumeKeyFile d nodeID (vv_ID v) w else (Inr [], w)) of
             (Inl _, w1) \<Rightarrow> snapshot_plans d nodeID assigned vs w1
           | (Inr path, w1) \<Rightarrow>
               (case snapshot_plans d nodeID assigned vs w1 of (rest, w2) \<Rightarrow>
                  ((\<lparr>pl_VolumeID = vv_ID v, pl_Wanted = map fst (vv_Snapshots v), pl_RestoreTo = vv_RestoreFrom v,
                     pl_KeyFile = path\<rparr>,
                    \<lparr>gp_VolumeID = vv_ID v, gp_SizeGiB = vv_SizeGiB v, gp_KeyFile = path\<rparr>) # rest, w2)))"

fun keep_snapshots ::
    "(string \<times> 'w runtime_if) list \<Rightarrow> snapshot_plan list \<Rightarrow> grow_plan list \<Rightarrow> 'w \<Rightarrow> reported_volume list \<times> 'w" where
  "keep_snapshots [] plans grow w = ([], w)"
| "keep_snapshots ((isolation, R) # rest) plans grow w =
     (case rt_Keeper R of
        None \<Rightarrow> keep_snapshots rest plans grow w
      | Some k \<Rightarrow>
          (case vk_SyncSnapshots k (foldl (\<lambda>w g. snd (vk_GrowVolume k w g)) w grow) plans of (states, w1) \<Rightarrow>
             (case keep_snapshots rest plans grow w1 of (reports, w2) \<Rightarrow>
                (map (\<lambda>s. \<lparr>rv_VolumeID = ss_VolumeID s, rv_Detached = False, rv_Snapshots = ss_Present s,
                          rv_Restored = ss_Restored s, rv_Error = ss_Error s\<rparr>) states @ reports, w2))))"

definition applySnapshots ::
    "'w node_deps \<Rightarrow> string \<Rightarrow> volume_view list \<Rightarrow> instance_view list \<Rightarrow> bool \<Rightarrow> 'w \<Rightarrow> 'w" where
  "applySnapshots d nodeID vols assigned report w =
     (if vols = [] then w
      else case snapshot_plans d nodeID assigned vols w of (pairs, w1) \<Rightarrow>
        if pairs = [] then w1
        else (case keep_snapshots (ad_runtimes (nd_agent d)) (map fst pairs) (map snd pairs) w1 of (reports, w2) \<Rightarrow>
           if \<not> report \<or> reports = [] then w2
           else snd (co_reportVolumes (nd_control d) w2 nodeID reports)))"

fun disks_of :: "'w node_deps \<Rightarrow> string \<Rightarrow> volume_view list \<Rightarrow> 'w \<Rightarrow> (string \<times> wl_disk) list \<times> 'w" where
  "disks_of d nodeID [] w = ([], w)"
| "disks_of d nodeID (v # vs) w =
     (if vv_InstanceID v = [] \<or> vv_Detaching v then disks_of d nodeID vs w
      else case (if vv_Encrypted v then volumeKeyFile d nodeID (vv_ID v) w else (Inr [], w)) of
             (Inl _, w1) \<Rightarrow> disks_of d nodeID vs w1
           | (Inr path, w1) \<Rightarrow>
               (case disks_of d nodeID vs w1 of (rest, w2) \<Rightarrow>
                  ((vv_InstanceID v,
                    \<lparr>dk_ID = vv_ID v, dk_Name = vv_Name v, dk_SizeGiB = vv_SizeGiB v, dk_KeyFile = path\<rparr>) # rest, w2)))"

definition disksByInstance ::
    "'w node_deps \<Rightarrow> string \<Rightarrow> volume_view list \<Rightarrow> 'w \<Rightarrow> (string \<Rightarrow> wl_disk list) \<times> 'w" where
  "disksByInstance d nodeID vols w =
     (case disks_of d nodeID vols w of (held, w') \<Rightarrow> (\<lambda>i. map snd (filter (\<lambda>p. fst p = i) held), w'))"

definition plugDisks :: "'w node_deps \<Rightarrow> instance_view \<Rightarrow> wl_disk list \<Rightarrow> 'w \<Rightarrow> 'w" where
  "plugDisks d v disks w =
     (if disks = [] \<or> in_DesiredState v \<noteq> ''running'' then w
      else case runtimeFor (nd_agent d) (in_Isolation v) of
             None \<Rightarrow> w
           | Some R \<Rightarrow>
               (case rt_SyncDisks R of
                  None \<Rightarrow> w
                | Some sync \<Rightarrow>
                    (case rt_Status R w (in_ID v) of
                       Inl _ \<Rightarrow> w
                     | Inr s \<Rightarrow> if wl_Phase s \<noteq> PhaseRunning then w else snd (sync w (in_ID v) disks))))"

definition everyDisk :: "string \<Rightarrow> volume_view list \<Rightarrow> wl_disk list" where
  "everyDisk i vols =
     map (\<lambda>v. \<lparr>dk_ID = vv_ID v, dk_Name = vv_Name v, dk_SizeGiB = vv_SizeGiB v, dk_KeyFile = []\<rparr>)
       (filter (\<lambda>v. vv_InstanceID v = i) vols)"

definition release_report :: "released \<Rightarrow> reported_volume" where
  "release_report one =
     \<lparr>rv_VolumeID = rl_VolumeID one, rv_Detached = rl_Gone one, rv_Snapshots = [], rv_Restored = [],
      rv_Error = (if rl_Gone one then [] else rl_Reason one)\<rparr>"

definition releaseDisks ::
    "'w node_deps \<Rightarrow> string \<Rightarrow> instance_view \<Rightarrow> wl_disk list \<Rightarrow> volume_view list \<Rightarrow> bool \<Rightarrow> 'w \<Rightarrow> 'w" where
  "releaseDisks d nodeID v keep vols report w =
     (if \<not> report \<or> in_DesiredState v \<noteq> ''running'' then w
      else case runtimeFor (nd_agent d) (in_Isolation v) of
             None \<Rightarrow> w
           | Some R \<Rightarrow>
               (case rt_ReleaseDisks R of
                  None \<Rightarrow> w
                | Some release \<Rightarrow>
                    if \<not> list_ex (\<lambda>x. vv_InstanceID x = in_ID v \<and> vv_Detaching x) vols then w
                    else (case rt_Status R w (in_ID v) of
                            Inl _ \<Rightarrow> w
                          | Inr s \<Rightarrow>
                              if wl_Phase s \<noteq> PhaseRunning then w
                              else (case release w (in_ID v) keep (everyDisk (in_ID v) vols) of
                                      (Inl _, w1) \<Rightarrow> w1
                                    | (Inr gone, w1) \<Rightarrow>
                                        if gone = [] then w1
                                        else snd (co_reportVolumes (nd_control d) w1 nodeID (map release_report gone))))))"

section \<open>Moving disks, cloning, backups\<close>

definition carrierFor :: "'w node_deps \<Rightarrow> string \<Rightarrow> 'w disk_carrier option" where
  "carrierFor d isolation = (case runtimeFor (nd_agent d) isolation of None \<Rightarrow> None | Some R \<Rightarrow> rt_Carrier R)"

definition handOverDisk :: "'w node_deps \<Rightarrow> string \<Rightarrow> instance_view \<Rightarrow> 'w disk_carrier \<Rightarrow> 'w \<Rightarrow> 'w" where
  "handOverDisk d nodeID v C w =
     (if \<not> dc_HasDisk C w (in_ID v) then w
      else if in_ObservedState v \<noteq> observedStopped \<and> in_ObservedState v \<noteq> observedFailed then w
      else case dc_ExportDisk C w (in_ID v) of
             Inl _ \<Rightarrow> w
           | Inr content \<Rightarrow>
               (case co_parkDisk (nd_control d) w nodeID (in_ID v) content of
                  (Inl _, w1) \<Rightarrow> w1
                | (Inr _, w1) \<Rightarrow> snd (dc_Forget C w1 (in_ID v))))"

definition takeDisk :: "'w node_deps \<Rightarrow> string \<Rightarrow> instance_view \<Rightarrow> 'w disk_carrier \<Rightarrow> 'w \<Rightarrow> 'w" where
  "takeDisk d nodeID v C w =
     (if dc_HasDisk C w (in_ID v) then snd (co_diskLanded (nd_control d) w nodeID (in_ID v))
      else case co_takeDisk (nd_control d) w nodeID (in_ID v) of
             Inl _ \<Rightarrow> w
           | Inr content \<Rightarrow>
               (case dc_ImportDisk C w (in_ID v) content of
                  (Inl _, w1) \<Rightarrow> w1
                | (Inr _, w1) \<Rightarrow> snd (co_diskLanded (nd_control d) w1 nodeID (in_ID v))))"

fun carryDisks :: "'w node_deps \<Rightarrow> string \<Rightarrow> instance_view list \<Rightarrow> 'w \<Rightarrow> 'w" where
  "carryDisks d nodeID [] w = w"
| "carryDisks d nodeID (v # vs) w =
     (if \<not> in_Migrating v then carryDisks d nodeID vs w
      else case carrierFor d (in_Isolation v) of
             None \<Rightarrow> carryDisks d nodeID vs w
           | Some C \<Rightarrow>
               carryDisks d nodeID vs (if in_DiskParked v then takeDisk d nodeID v C w else handOverDisk d nodeID v C w))"

definition cloners :: "'w node_deps \<Rightarrow> 'w volume_cloner list" where
  "cloners d = concat (map (\<lambda>(_, R). case rt_Cloner R of None \<Rightarrow> [] | Some c \<Rightarrow> [c]) (ad_runtimes (nd_agent d)))"

definition clone_one :: "volume_view \<Rightarrow> 'w \<Rightarrow> 'w volume_cloner \<Rightarrow> 'w" where
  "clone_one v w c =
     (if vc_HasVolume c w (vv_ID v) then w
      else if \<not> vc_HasVolume c w (vv_CloneFrom v) then w
      else snd (vc_CloneVolume c w (vv_ID v) (vv_CloneFrom v) (vv_CloneSnap v)))"

definition cloneVolumes :: "'w node_deps \<Rightarrow> volume_view list \<Rightarrow> instance_view list \<Rightarrow> 'w \<Rightarrow> 'w" where
  "cloneVolumes d vols assigned w =
     (if cloners d = [] then w
      else foldl (\<lambda>w v. if vv_CloneFrom v = [] \<or> vv_CloneSnap v = [] then w
                       else if volumeIsBusy d v assigned w then w
                       else foldl (clone_one v) w (cloners d)) w vols)"

definition archivers :: "'w node_deps \<Rightarrow> 'w volume_archiver list" where
  "archivers d = concat (map (\<lambda>(_, R). case rt_Archiver R of None \<Rightarrow> [] | Some x \<Rightarrow> [x]) (ad_runtimes (nd_agent d)))"

definition restoreVolume :: "'w node_deps \<Rightarrow> string \<Rightarrow> volume_view \<Rightarrow> 'w \<Rightarrow> 'w volume_archiver \<Rightarrow> 'w" where
  "restoreVolume d nodeID v w x =
     (if va_HasVolume x w (vv_ID v) then w
      else case co_fetchBackup (nd_control d) w nodeID (vv_BackupID v) of
             Inl _ \<Rightarrow> w | Inr content \<Rightarrow> snd (va_ImportVolume x w (vv_ID v) content))"

definition restoreVolumes :: "'w node_deps \<Rightarrow> string \<Rightarrow> volume_view list \<Rightarrow> instance_view list \<Rightarrow> 'w \<Rightarrow> 'w" where
  "restoreVolumes d nodeID vols assigned w =
     (if archivers d = [] then w
      else foldl (\<lambda>w v. if vv_BackupID v = [] then w
                       else if volumeIsBusy d v assigned w then w
                       else foldl (restoreVolume d nodeID v) w (archivers d)) w vols)"

definition reportBackupFailure :: "'w node_deps \<Rightarrow> string \<Rightarrow> backup_view \<Rightarrow> string \<Rightarrow> 'w \<Rightarrow> 'w" where
  "reportBackupFailure d nodeID b message w = snd (co_failBackup (nd_control d) w nodeID (bk_ID b) message)"

fun runBackup :: "'w node_deps \<Rightarrow> string \<Rightarrow> backup_view \<Rightarrow> string \<Rightarrow> 'w volume_archiver list \<Rightarrow> 'w \<Rightarrow> 'w" where
  "runBackup d nodeID b keyFile [] w =
     reportBackupFailure d nodeID b ''this node holds no file for that volume'' w"
| "runBackup d nodeID b keyFile (x # xs) w =
     (if \<not> va_HasVolume x w (bk_VolumeID b) then runBackup d nodeID b keyFile xs w
      else case va_ExportVolume x w (bk_VolumeID b) keyFile of
             Inl err \<Rightarrow> reportBackupFailure d nodeID b err w
           | Inr content \<Rightarrow>
               (case co_backupTransfer (nd_control d) w nodeID (bk_ID b) of
                  Inl _ \<Rightarrow> w
                | Inr direct \<Rightarrow>
                    if direct
                    then (case co_uploadDirect (nd_control d) w (bk_ID b) content of
                            (Inl _, w1) \<Rightarrow> w1
                          | (Inr _, w1) \<Rightarrow> snd (co_reportUploaded (nd_control d) w1 nodeID (bk_ID b) content))
                    else snd (co_uploadBackup (nd_control d) w nodeID (bk_ID b) content)))"

definition backup_one ::
    "'w node_deps \<Rightarrow> string \<Rightarrow> volume_view list \<Rightarrow> instance_view list \<Rightarrow> 'w \<Rightarrow> backup_view \<Rightarrow> 'w" where
  "backup_one d nodeID vols assigned w b =
     (case map_of (rev (map (\<lambda>v. (vv_ID v, v)) vols)) (bk_VolumeID b) of
        None \<Rightarrow> w
      | Some v \<Rightarrow>
          if volumeIsBusy d v assigned w then w
          else (case (if vv_Encrypted v then volumeKeyFile d nodeID (vv_ID v) w else (Inr [], w)) of
                  (Inl err, w1) \<Rightarrow> reportBackupFailure d nodeID b
                     (''the key of this encrypted volume could not be placed: '' @ err) w1
                | (Inr keyFile, w1) \<Rightarrow> runBackup d nodeID b keyFile (archivers d) w1))"

definition runBackups :: "'w node_deps \<Rightarrow> string \<Rightarrow> volume_view list \<Rightarrow> instance_view list \<Rightarrow> 'w \<Rightarrow> 'w" where
  "runBackups d nodeID vols assigned w =
     (if archivers d = [] then w
      else case co_pendingBackups (nd_control d) w nodeID of
             Inl _ \<Rightarrow> w
           | Inr pending \<Rightarrow> foldl (backup_one d nodeID vols assigned) w pending)"

section \<open>A pass\<close>

fun reconcile_assigned ::
    "'w node_deps \<Rightarrow> go_time \<Rightarrow> bool \<Rightarrow> cached_state \<Rightarrow> (string \<Rightarrow> wl_disk list) \<Rightarrow> instance_view list \<Rightarrow> 'w agent \<Rightarrow> 'w agent" where
  "reconcile_assigned d now report st disks [] a = a"
| "reconcile_assigned d now report st disks (v # vs) a =
     (let w1 = plugDisks d v (disks (in_ID v)) (ag_world a);
          w2 = releaseDisks d (ag_nodeID a) v (disks (in_ID v)) (cs_Volumes st) report w1
      in case agent_reconcileOne (nd_agent d) now v (interfacesByInstance (nd_ParsePrefix d) (cs_Networks st) (in_ID v))
                (disks (in_ID v)) (a\<lparr>ag_world := w2\<rparr>) of
           ((observed, message, code), a1) \<Rightarrow>
             (case restartAttempts (in_ID v) a1 of (restarts, a2) \<Rightarrow>
                if \<not> report then reconcile_assigned d now report st disks vs a2
                else if in_ObservedState v = observed \<and> in_ObservedMessage v = message \<and>
                        in_RestartCount v = restarts \<and> sameExit (in_ExitCode v) code
                then reconcile_assigned d now report st disks vs a2
                else reconcile_assigned d now report st disks vs
                       (a2\<lparr>ag_world := snd (co_reportStatus (nd_control d) (ag_world a2) (ag_nodeID a2) (in_ID v)
                                         observed message restarts code)\<rparr>)))"

definition on_world :: "('w \<Rightarrow> 'w) \<Rightarrow> 'w agent \<Rightarrow> 'w agent" where
  "on_world f a = a\<lparr>ag_world := f (ag_world a)\<rparr>"

definition probe_step :: "'w node_deps \<Rightarrow> cached_state \<Rightarrow> 'w agent \<Rightarrow> 'w agent" where
  "probe_step d st a =
     (case runProbes (nd_probe d) (\<lambda>w reports. snd (co_reportHealth (nd_control d) w (ag_nodeID a) reports))
             (cs_Balancers st) (map in_ID (cs_Instances st)) (ag_world a) (ag_probes a) of
        (w, ps) \<Rightarrow> a\<lparr>ag_world := w, ag_probes := ps\<rparr>)"

definition report_steps :: "'w node_deps \<Rightarrow> cached_state \<Rightarrow> 'w agent \<Rightarrow> 'w agent" where
  "report_steps d st a =
     probe_step d st
       (forgetRestarts (cs_Instances st)
         (on_world (\<lambda>w. nd_shipLogs d (nd_reportUsage d
             (cloneVolumes d (cs_Volumes st) (cs_Instances st) (carryDisks d (ag_nodeID a) (cs_Instances st) w))
             (cs_Instances st)) (cs_Instances st)) a))"

definition applyDesired :: "'w node_deps \<Rightarrow> go_time \<Rightarrow> cached_state \<Rightarrow> bool \<Rightarrow> 'w agent \<Rightarrow> 'w agent" where
  "applyDesired d now st report a =
     (if ad_runtimes (nd_agent d) = [] then a
      else let
        n = ag_nodeID a;
        a1 = collectGarbage (nd_agent d) (cs_Instances st) (cs_Networks st) a;
        a2 = on_world (\<lambda>w. applySnapshots d n (cs_Volumes st) (cs_Instances st) report
               (restoreVolumes d n (cs_Volumes st) (cs_Instances st) (tidyVolumes d (cs_Volumes st) w))) a1;
        a3 = (if report then on_world (runBackups d n (cs_Volumes st) (cs_Instances st)) a2 else a2);
        a4 = on_world (\<lambda>w. nd_tidyImages d w (cs_Instances st) report) a3;
        a5 = (if report then report_steps d st a4 else a4);
        a6 = on_world (serveDNS d (cs_Networks st) (cs_Records st)) a5
      in case disksByInstance d n (cs_Volumes st) (ag_world a6) of (disks, w) \<Rightarrow>
        let w' = applyGuards d (cs_Instances st) (cs_Networks st) (cs_Firewalls st)
                  (applyForwards d (cs_Forwards st) (cs_Balancers st)
                    (applyFilters d (cs_Networks st) (cs_Instances st)
                      (applyRoutes d (cs_Networks st) (cs_Nodes st) (applyEgress d (cs_Networks st) w))))
        in reconcile_assigned d now report st disks (cs_Instances st) (a6\<lparr>ag_world := w'\<rparr>))"

definition reconcile :: "'w node_deps \<Rightarrow> go_time \<Rightarrow> 'w agent \<Rightarrow> 'w agent" where
  "reconcile d now a0 =
     (if ad_runtimes (nd_agent d) = [] then a0
      else let a = on_world (\<lambda>w. nd_refresh d w (ag_nodeID a0)) a0
      in case readDesired d a of
           Inl _ \<Rightarrow> (case fenced (nd_agent d) now a of
                       (silence, isCut) \<Rightarrow> if isCut then fence (nd_agent d) silence a else a)
         | Inr st \<Rightarrow>
             (let a1 = noteContact now a;
                  a2 = on_world (\<lambda>w. nd_saveState d w (st\<lparr>cs_NodeID := ag_nodeID a1, cs_SavedAt := now\<rparr>)) a1
              in applyDesired d now st True a2))"

definition reconcileFromCache :: "'w node_deps \<Rightarrow> go_time \<Rightarrow> 'w agent \<Rightarrow> 'w agent" where
  "reconcileFromCache d now a0 =
     (case fenced (nd_agent d) now a0 of (silence, isCut) \<Rightarrow>
        let a = (if isCut then fence (nd_agent d) silence a0 else a0)
        in case nd_loadState d (ag_world a) of
             Inl _ \<Rightarrow> a
           | Inr st \<Rightarrow>
               (let st' = (if isCut then st\<lparr>cs_Instances := unmovable (cs_Instances st)\<rparr> else st)
                in applyDesired d now st' False (a\<lparr>ag_nodeID := cs_NodeID st\<rparr>)))"

definition register :: "'w node_deps \<Rightarrow> go_time \<Rightarrow> 'w agent \<Rightarrow> (call_error + unit) \<times> 'w agent" where
  "register d now a =
     (case co_register (nd_control d) (ag_world a) of
        (Inl err, w) \<Rightarrow> (Inl err, a\<lparr>ag_world := w\<rparr>)
      | (Inr n, w) \<Rightarrow> (Inr (), (noteContact now a)\<lparr>ag_nodeID := n, ag_world := w\<rparr>))"

definition beat :: "'w node_deps \<Rightarrow> go_time \<Rightarrow> 'w agent \<Rightarrow> 'w agent" where
  "beat d now a =
     (if ag_nodeID a = [] then snd (register d now a)
      else case co_heartbeat (nd_control d) (ag_world a) (ag_nodeID a) of
             (Inl err, w) \<Rightarrow>
               if ce_code err = Some ''node_not_found'' then a\<lparr>ag_nodeID := [], ag_world := w\<rparr> else a\<lparr>ag_world := w\<rparr>
           | (Inr _, w) \<Rightarrow> (noteContact now a)\<lparr>ag_world := w\<rparr>)"

definition reconcileTick :: "'w node_deps \<Rightarrow> go_time \<Rightarrow> 'w agent \<Rightarrow> 'w agent" where
  "reconcileTick d now a = (if ag_nodeID a = [] then a else reconcile d now a)"

definition tick :: "'w node_deps \<Rightarrow> go_time \<Rightarrow> 'w agent \<Rightarrow> 'w agent" where
  "tick d now a = reconcileTick d now (beat d now a)"

end
