(* ===== verification/ContainerRuntime.thy ===== *)
theory ContainerRuntime
  imports Agent
begin

text \<open>
  The container runtime, src/internal/runtime/container/container_linux.go, on a model
  of the host: the instance directories, the pid files in them, the live processes with
  the cgroup each belongs to, and the runtime's own table of processes it started. What
  the host answers (image preparation, fork, network, signals) is a record of arguments.
  An exit is seen by \<open>reap\<close> at once. A pid file holds the number written to it, and a
  process belongs to one instance: instance ids have one length, so the containment test
  on the cgroup path is equality of ids.
\<close>

section \<open>The host\<close>

record tracked =
  tk_pid :: int
  tk_exited :: bool
  tk_exitCode :: int

record host =
  h_dirs :: "string list"
  h_pidFile :: "string \<rightharpoonup> int"
  h_cgroup :: "int \<rightharpoonup> string"
  h_running :: "string \<rightharpoonup> tracked"
  h_output :: "string \<rightharpoonup> string"

record container_env =
  ce_root :: bool
  ce_readDir :: "host \<Rightarrow> string option"
  ce_mkdir :: "host \<Rightarrow> wl_spec \<Rightarrow> start_error option"
  ce_prepare :: "host \<Rightarrow> wl_spec \<Rightarrow> start_error option"
  ce_fork :: "host \<Rightarrow> wl_spec \<Rightarrow> string + int"
  ce_writePid :: "host \<Rightarrow> wl_spec \<Rightarrow> string option"
  ce_attach :: "host \<Rightarrow> wl_spec \<Rightarrow> start_error option"
  ce_release :: "host \<Rightarrow> wl_spec \<Rightarrow> string option"
  ce_sigterm :: "host \<Rightarrow> int \<Rightarrow> string option"
  ce_obeys :: "host \<Rightarrow> string \<Rightarrow> bool"
  ce_exitCode :: "host \<Rightarrow> string \<Rightarrow> int"
  ce_sigkill :: "host \<Rightarrow> int \<Rightarrow> string option"
  ce_detach :: "host \<Rightarrow> string \<Rightarrow> string option"
  ce_leftover :: "host \<Rightarrow> string \<Rightarrow> bool"
  ce_removeCgroup :: "host \<Rightarrow> string \<Rightarrow> string option"
  ce_removeAll :: "host \<Rightarrow> string \<Rightarrow> string option"
  ce_limits :: "host \<Rightarrow> string \<Rightarrow> int \<Rightarrow> int \<Rightarrow> string option"

abbreviation plain_error :: "string \<Rightarrow> start_error" where
  "plain_error e \<equiv> StartError e False"

text \<open>A process ends: \<open>reap\<close> notes its exit code where the runtime tracks it.\<close>

definition reap :: "int \<Rightarrow> int \<Rightarrow> host \<Rightarrow> host" where
  "reap pid code h =
     h\<lparr>h_cgroup := (h_cgroup h)(pid := None),
       h_running := (\<lambda>i. case h_running h i of
          None \<Rightarrow> None
        | Some t \<Rightarrow> Some (if tk_pid t = pid \<and> \<not> tk_exited t then t\<lparr>tk_exited := True, tk_exitCode := code\<rparr> else t))\<rparr>"

section \<open>Operations\<close>

definition livePID :: "host \<Rightarrow> string \<Rightarrow> int option" where
  "livePID h i =
     (case h_pidFile h i of
        None \<Rightarrow> None
      | Some pid \<Rightarrow> if pid \<le> 1 then None else if h_cgroup h pid \<noteq> Some i then None else Some pid)"

definition tailOutput :: "host \<Rightarrow> string \<Rightarrow> string" where
  "tailOutput h i =
     (case h_output h i of
        None \<Rightarrow> []
      | Some raw \<Rightarrow>
          (let txt = trim_space raw
           in map (\<lambda>c. if c = CHR 0x0A then CHR '' '' else c) (drop (length txt - 200) txt)))"

definition ct_List :: "container_env \<Rightarrow> host \<Rightarrow> string + string list" where
  "ct_List e h = (case ce_readDir e h of Some err \<Rightarrow> Inl (''list instances: '' @ err) | None \<Rightarrow> Inr (h_dirs h))"

definition ct_Status :: "host \<Rightarrow> string \<Rightarrow> string + wl_state" where
  "ct_Status h i =
     (case h_running h i of
        Some t \<Rightarrow>
          if \<not> tk_exited t then Inr \<lparr>wl_Phase = PhaseRunning, wl_Message = [], wl_ExitCode = 0\<rparr>
          else Inr \<lparr>wl_Phase = PhaseExited,
                    wl_Message = ''exited with code '' @ itoa (tk_exitCode t) @
                      (if tailOutput h i \<noteq> [] then '': '' @ tailOutput h i else []),
                    wl_ExitCode = tk_exitCode t\<rparr>
      | None \<Rightarrow>
          if livePID h i \<noteq> None
          then Inr \<lparr>wl_Phase = PhaseRunning, wl_Message = ''adopted after an agent restart'', wl_ExitCode = 0\<rparr>
          else Inr \<lparr>wl_Phase = PhaseAbsent, wl_Message = [], wl_ExitCode = 0\<rparr>)"

definition ct_Start :: "container_env \<Rightarrow> host \<Rightarrow> wl_spec \<Rightarrow> (start_error + unit) \<times> host" where
  "ct_Start e h spec =
     (let i = ws_InstanceID spec in
      if \<not> ce_root e then (Inl (plain_error ''the container runtime must run as root''), h)
      else if (case ct_Status h i of Inl _ \<Rightarrow> False | Inr s \<Rightarrow> wl_Phase s = PhaseRunning) then (Inr (), h)
      else (case ce_mkdir e h spec of
        Some err \<Rightarrow> (Inl err, h)
      | None \<Rightarrow> (let h1 = h\<lparr>h_dirs := (if i \<in> set (h_dirs h) then h_dirs h else h_dirs h @ [i])\<rparr> in
          (case ce_prepare e h1 spec of
             Some err \<Rightarrow> (Inl err, h1)
           | None \<Rightarrow>
          (case ce_fork e h1 spec of
             Inl err \<Rightarrow> (Inl (plain_error (''start container: '' @ err)), h1)
           | Inr pid \<Rightarrow> (let h2 = h1\<lparr>h_cgroup := (h_cgroup h1)(pid \<mapsto> i)\<rparr> in
          (case ce_writePid e h2 spec of
             Some err \<Rightarrow> (Inl (plain_error (''write pid file: '' @ err)), reap pid (-1) h2)
           | None \<Rightarrow> (let h3 = h2\<lparr>h_pidFile := (h_pidFile h2)(i \<mapsto> pid)\<rparr> in
          (case ce_attach e h3 spec of
             Some err \<Rightarrow> (Inl err, reap pid (-1) h3)
           | None \<Rightarrow>
          (case ce_release e h3 spec of
             Some err \<Rightarrow> (Inl (plain_error (''release the container: '' @ err)), reap pid (-1) h3)
           | None \<Rightarrow>
               (Inr (), h3\<lparr>h_running := (h_running h3)(i \<mapsto> \<lparr>tk_pid = pid, tk_exited = False, tk_exitCode = 0\<rparr>)\<rparr>)))))))))))"

definition ct_Stop :: "container_env \<Rightarrow> host \<Rightarrow> string \<Rightarrow> (string + unit) \<times> host" where
  "ct_Stop e h i =
     (case livePID h i of
        None \<Rightarrow> (Inr (), h)
      | Some pid \<Rightarrow>
          (case ce_sigterm e h pid of
             Some err \<Rightarrow> (Inl (''signal container: '' @ err), h)
           | None \<Rightarrow>
               if ce_obeys e h i then (Inr (), reap pid (ce_exitCode e h i) h)
               else (case ce_sigkill e h pid of
                       Some err \<Rightarrow> (Inl (''kill container: '' @ err), h)
                     | None \<Rightarrow> (Inr (), reap pid (-1) h))))"

definition ct_Remove :: "container_env \<Rightarrow> host \<Rightarrow> string \<Rightarrow> (string + unit) \<times> host" where
  "ct_Remove e h i =
     (case ct_Stop e h i of
        (Inl err, h1) \<Rightarrow> (Inl err, h1)
      | (Inr _, h1) \<Rightarrow>
          (let h2 = h1\<lparr>h_running := (h_running h1)(i := None)\<rparr> in
           (case ce_detach e h2 i of
              Some err \<Rightarrow> (Inl err, h2)
            | None \<Rightarrow>
                if ce_leftover e h2 i then (Inl ''cgroup still has processes'', h2)
                else (case ce_removeCgroup e h2 i of
                        Some err \<Rightarrow> (Inl (''remove cgroup: '' @ err), h2)
                      | None \<Rightarrow>
                          (case ce_removeAll e h2 i of
                             Some err \<Rightarrow> (Inl (''remove instance directory: '' @ err), h2)
                           | None \<Rightarrow>
                               (Inr (), h2\<lparr>h_dirs := filter (\<lambda>j. j \<noteq> i) (h_dirs h2),
                                           h_pidFile := (h_pidFile h2)(i := None),
                                           h_output := (h_output h2)(i := None)\<rparr>))))))"

definition ct_Resize :: "container_env \<Rightarrow> host \<Rightarrow> string \<Rightarrow> int \<Rightarrow> int \<Rightarrow> (string + unit) \<times> host" where
  "ct_Resize e h i vcpu mem =
     (case ce_limits e h i vcpu mem of Some err \<Rightarrow> (Inl err, h) | None \<Rightarrow> (Inr (), h))"

definition container_runtime :: "container_env \<Rightarrow> host runtime_if" where
  "container_runtime e =
     \<lparr>rt_List = ct_List e, rt_Start = ct_Start e, rt_Stop = ct_Stop e, rt_Status = ct_Status, rt_Remove = ct_Remove e,
      rt_Resize = Some (ct_Resize e), rt_Keeper = None, rt_SyncDisks = None, rt_ReleaseDisks = None,
      rt_Carrier = None, rt_Cloner = None, rt_Archiver = None\<rparr>"

section \<open>The contract of theory Agent\<close>

definition host_running :: "host \<Rightarrow> string \<Rightarrow> bool" where
  "host_running h i \<longleftrightarrow> (case h_running h i of Some t \<Rightarrow> \<not> tk_exited t | None \<Rightarrow> livePID h i \<noteq> None)"

definition host_wf :: "host \<Rightarrow> bool" where
  "host_wf h \<longleftrightarrow>
     (\<forall>i t. h_running h i = Some t \<and> \<not> tk_exited t \<longrightarrow>
        1 < tk_pid t \<and> h_pidFile h i = Some (tk_pid t) \<and> h_cgroup h (tk_pid t) = Some i) \<and>
     (\<forall>i pid. h_pidFile h i = Some pid \<longrightarrow> i \<in> set (h_dirs h))"

text \<open>The kernel lists directories, delivers signals and gives a new process an unused number.\<close>

definition host_serves :: "container_env \<Rightarrow> bool" where
  "host_serves e \<longleftrightarrow>
     (\<forall>h. ce_readDir e h = None) \<and> (\<forall>h pid. ce_sigterm e h pid = None) \<and> (\<forall>h pid. ce_sigkill e h pid = None) \<and>
     (\<forall>h spec pid. ce_fork e h spec = Inr pid \<longrightarrow> 1 < pid \<and> h_cgroup h pid = None)"

definition host_good :: "container_env \<Rightarrow> host \<Rightarrow> bool" where
  "host_good e h \<longleftrightarrow> host_wf h \<and> host_serves e"

lemma livePID_keeps [simp]:
  "livePID (h\<lparr>h_running := r\<rparr>) i = livePID h i" "livePID (h\<lparr>h_dirs := ds\<rparr>) i = livePID h i"
  "livePID (h\<lparr>h_output := os\<rparr>) i = livePID h i"
  by (simp_all add: livePID_def split: option.split)

lemma reap_running:
  assumes "host_wf h" "livePID h i = Some pid"
  shows "host_wf (reap pid code h)" "host_running (reap pid code h) j \<longleftrightarrow> host_running h j \<and> j \<noteq> i"
proof -
  have pid: "h_pidFile h i = Some pid" "1 < pid" "h_cgroup h pid = Some i"
    using assms(2) by (auto simp: livePID_def split: option.splits if_splits)
  show "host_wf (reap pid code h)"
    using assms(1) by (fastforce simp: host_wf_def reap_def split: option.splits if_splits)
  show "host_running (reap pid code h) j \<longleftrightarrow> host_running h j \<and> j \<noteq> i"
  proof (cases "h_running h j")
    case None
    have "livePID (reap pid code h) j = (if j = i then None else livePID h j)"
      using pid by (auto simp: livePID_def reap_def split: option.split)
    with None show ?thesis by (simp add: host_running_def reap_def)
  next
    case (Some t)
    have "tk_pid t = pid \<longleftrightarrow> j = i" if "\<not> tk_exited t"
      using assms(1) pid Some that by (fastforce simp: host_wf_def)
    with Some show ?thesis by (auto simp: host_running_def reap_def)
  qed
qed

lemma running_live:
  assumes "host_wf h" "host_running h i"
  shows "livePID h i \<noteq> None" "i \<in> set (h_dirs h)"
proof -
  show live: "livePID h i \<noteq> None"
  proof (cases "h_running h i")
    case (Some t)
    with assms have "1 < tk_pid t" "h_pidFile h i = Some (tk_pid t)" "h_cgroup h (tk_pid t) = Some i"
      by (auto simp: host_wf_def host_running_def)
    then show ?thesis by (simp add: livePID_def)
  qed (use assms(2) in \<open>simp add: host_running_def\<close>)
  then obtain pid where "h_pidFile h i = Some pid" by (auto simp: livePID_def split: option.splits)
  with assms(1) show "i \<in> set (h_dirs h)" by (auto simp: host_wf_def)
qed

lemma ct_Stop_stops:
  assumes "host_good e h"
  shows "\<exists>h'. ct_Stop e h i = (Inr (), h') \<and> host_good e h' \<and> (\<forall>j. host_running h' j \<longleftrightarrow> host_running h j \<and> j \<noteq> i) \<and>
    livePID h' i = None \<and> h_dirs h' = h_dirs h"
proof (cases "livePID h i")
  case None
  then have "\<not> host_running h i" using assms running_live(1) [of h i] by (auto simp: host_good_def)
  with None assms show ?thesis by (auto simp: ct_Stop_def)
next
  case (Some pid)
  have "livePID (reap pid code h) i = None" for code
    using Some by (auto simp: livePID_def reap_def split: option.splits if_splits)
  with Some assms reap_running [of h i pid] show ?thesis
    by (auto simp: ct_Stop_def host_good_def host_serves_def reap_def)
qed

lemma host_wf_cgroup:
  "host_wf h \<Longrightarrow> h_cgroup h pid = None \<Longrightarrow> host_wf (h\<lparr>h_cgroup := (h_cgroup h)(pid \<mapsto> i)\<rparr>)"
  unfolding host_wf_def by (intro conjI allI impI) auto

lemma host_wf_pidFile:
  "host_wf h \<Longrightarrow> (\<And>t. h_running h i = Some t \<Longrightarrow> tk_exited t) \<Longrightarrow> i \<in> set (h_dirs h) \<Longrightarrow>
   host_wf (h\<lparr>h_pidFile := (h_pidFile h)(i \<mapsto> pid)\<rparr>)"
  unfolding host_wf_def by (intro conjI allI impI) (auto split: if_splits)

lemma host_wf_track:
  "host_wf h \<Longrightarrow> 1 < pid \<Longrightarrow> h_pidFile h i = Some pid \<Longrightarrow> h_cgroup h pid = Some i \<Longrightarrow>
   host_wf (h\<lparr>h_running := (h_running h)(i \<mapsto> \<lparr>tk_pid = pid, tk_exited = False, tk_exitCode = 0\<rparr>)\<rparr>)"
  unfolding host_wf_def by (intro conjI allI impI) (auto split: if_splits)

lemma ct_Status_running: "\<exists>s. ct_Status h i = Inr s \<and> (wl_Phase s = PhaseRunning \<longleftrightarrow> host_running h i)"
  by (auto simp: ct_Status_def host_running_def split: option.split)

lemma ct_Remove_local:
  assumes g: "host_good e h" and run: "ct_Remove e h i = (res, h')"
  shows "host_good e h' \<and> \<not> host_running h' i \<and> (\<forall>j. j \<noteq> i \<longrightarrow> host_running h' j = host_running h j)"
proof -
  obtain h1 where st: "ct_Stop e h i = (Inr (), h1)" and h1: "host_good e h1" "livePID h1 i = None"
      "\<forall>j. host_running h1 j \<longleftrightarrow> host_running h j \<and> j \<noteq> i"
    using ct_Stop_stops [OF g] by blast
  define h2 where "h2 = h1\<lparr>h_running := (h_running h1)(i := None)\<rparr>"
  define h3 where "h3 = h2\<lparr>h_dirs := filter (\<lambda>j. j \<noteq> i) (h_dirs h2), h_pidFile := (h_pidFile h2)(i := None),
      h_output := (h_output h2)(i := None)\<rparr>"
  have g2: "host_good e h2" using h1(1) by (auto simp: h2_def host_good_def host_wf_def)
  have r2: "host_running h2 j \<longleftrightarrow> host_running h1 j \<and> j \<noteq> i" for j
    using h1(2) by (simp add: h2_def host_running_def split: option.split)
  have g3: "host_good e h3" using h1(1) unfolding host_good_def host_wf_def h3_def h2_def
    by (intro conjI allI impI) (auto split: if_splits)
  have r3: "host_running h3 j = host_running h2 j" for j
    using h1(2) by (auto simp: h3_def h2_def host_running_def livePID_def split: option.splits)
  have "h' = h2 \<or> h' = h3"
    using run st by (auto simp: ct_Remove_def Let_def h2_def h3_def split: option.splits if_splits)
  then show ?thesis using g2 g3 r2 r3 h1(3) by auto
qed

lemma reap_new:
  assumes "h_cgroup h pid = Some i" "host_wf h"
  shows "host_wf (reap pid code h)" "j \<noteq> i \<Longrightarrow> host_running (reap pid code h) j = host_running h j"
proof -
  have other: "tk_pid t \<noteq> pid" if "h_running h j = Some t" "\<not> tk_exited t" "j \<noteq> i" for j t
    using assms that by (fastforce simp: host_wf_def)
  show "host_wf (reap pid code h)"
    using assms other by (fastforce simp: host_wf_def reap_def split: option.splits if_splits)
  show "host_running (reap pid code h) j = host_running h j" if "j \<noteq> i"
    using assms(1) other that by (auto simp: host_running_def reap_def livePID_def split: option.splits)
qed

lemma ct_Start_local:
  assumes g: "host_good e h" and run: "ct_Start e h spec = (res, h')"
  shows "host_good e h' \<and> (\<forall>j. j \<noteq> ws_InstanceID spec \<longrightarrow> host_running h' j = host_running h j)"
proof -
  let ?i = "ws_InstanceID spec"
  let ?dirs = "if ?i \<in> set (h_dirs h) then h_dirs h else h_dirs h @ [?i]"
  define h1 where "h1 = h\<lparr>h_dirs := ?dirs\<rparr>"
  have g1: "host_wf h1" and r1: "host_running h1 = host_running h"
    using g by (auto simp: h1_def host_good_def host_wf_def host_running_def livePID_def fun_eq_iff split: option.split)
  have idle: "\<not> host_running h ?i" if "h' \<noteq> h"
  proof
    assume "host_running h ?i"
    with ct_Status_running [of h ?i] obtain s where "ct_Status h ?i = Inr s" "wl_Phase s = PhaseRunning" by blast
    with run that show False by (cases "ce_root e") (simp_all add: ct_Start_def Let_def)
  qed
  consider (same) "h' = h" | (made) "h' = h1"
    | (forked) pid where "ce_fork e h1 spec = Inr pid" "\<not> host_running h ?i"
        "h' \<in> {reap pid (-1) (h1\<lparr>h_cgroup := (h_cgroup h1)(pid \<mapsto> ?i)\<rparr>),
               reap pid (-1) (h1\<lparr>h_cgroup := (h_cgroup h1)(pid \<mapsto> ?i), h_pidFile := (h_pidFile h1)(?i \<mapsto> pid)\<rparr>),
               h1\<lparr>h_cgroup := (h_cgroup h1)(pid \<mapsto> ?i), h_pidFile := (h_pidFile h1)(?i \<mapsto> pid),
                  h_running := (h_running h1)(?i \<mapsto> \<lparr>tk_pid = pid, tk_exited = False, tk_exitCode = 0\<rparr>)\<rparr>}"
    using run idle unfolding ct_Start_def Let_def h1_def [symmetric]
    by (auto split: option.splits sum.splits if_splits)
  then show ?thesis
  proof cases
    case forked
    have pid: "1 < pid" "h_cgroup h1 pid = None" using forked(1) g by (auto simp: host_good_def host_serves_def)
    have mem: "?i \<in> set (h_dirs h1)" by (simp add: h1_def)
    let ?h2 = "h1\<lparr>h_cgroup := (h_cgroup h1)(pid \<mapsto> ?i)\<rparr>"
    let ?h3 = "?h2\<lparr>h_pidFile := (h_pidFile h1)(?i \<mapsto> pid)\<rparr>"
    let ?h4 = "?h3\<lparr>h_running := (h_running h1)(?i \<mapsto> \<lparr>tk_pid = pid, tk_exited = False, tk_exitCode = 0\<rparr>)\<rparr>"
    have ended: "tk_exited t" if "h_running h1 ?i = Some t" for t
      using forked(2) that by (auto simp: host_running_def h1_def)
    have fork2: "host_wf ?h2" by (rule host_wf_cgroup [OF g1 pid(2)])
    have fork3: "host_wf ?h3" using host_wf_pidFile [OF fork2, of ?i pid] ended mem by simp
    have fork4: "host_wf ?h4" using host_wf_track [OF fork3 pid(1), of ?i] by simp
    have others: "host_running ?h2 j = host_running h1 j" "host_running ?h3 j = host_running h1 j"
        "host_running ?h4 j = host_running h1 j" if "j \<noteq> ?i" for j
      using that pid by (auto simp: host_running_def livePID_def split: option.split)
    have reaped: "host_wf (reap pid (-1) g)" "j \<noteq> ?i \<Longrightarrow> host_running (reap pid (-1) g) j = host_running g j"
      if "host_wf g" "h_cgroup g pid = Some ?i" for g j
      using reap_new(1) [OF that(2,1), where code = "-1"] reap_new(2) [OF that(2,1), where code = "-1" and j = j]
      by blast+
    have two: "host_wf (reap pid (-1) ?h2)" "\<And>j. j \<noteq> ?i \<Longrightarrow> host_running (reap pid (-1) ?h2) j = host_running ?h2 j"
      using reaped [OF fork2] by simp_all
    have three: "host_wf (reap pid (-1) ?h3)" "\<And>j. j \<noteq> ?i \<Longrightarrow> host_running (reap pid (-1) ?h3) j = host_running ?h3 j"
      using reaped [OF fork3] by simp_all
    show ?thesis using forked(3) two three fork4 others g r1 by (auto simp: host_good_def)
  qed (use g g1 r1 in \<open>auto simp: host_good_def\<close>)
qed

interpretation container: workload_runtime "container_runtime e" host_running "host_good e"
proof
  fix w i
  assume g: "host_good e w"
  show "\<exists>ids. rt_List (container_runtime e) w = Inr ids \<and> (\<forall>i. host_running w i \<longrightarrow> i \<in> set ids)"
    using g running_live(2) by (auto simp: container_runtime_def ct_List_def host_good_def host_serves_def)
  show "\<exists>s. rt_Status (container_runtime e) w i = Inr s \<and> (wl_Phase s = PhaseRunning \<longleftrightarrow> host_running w i)"
    using ct_Status_running by (simp add: container_runtime_def)
  show "\<exists>w'. rt_Stop (container_runtime e) w i = (Inr (), w') \<and> host_good e w' \<and>
      (\<forall>j. host_running w' j \<longleftrightarrow> host_running w j \<and> j \<noteq> i)"
    using ct_Stop_stops [OF g, of i] by (auto simp: container_runtime_def)
next
  fix w spec w' and res :: "start_error + unit"
  assume "host_good e w" "rt_Start (container_runtime e) w spec = (res, w')"
  then show "host_good e w' \<and> (\<forall>j. j \<noteq> ws_InstanceID spec \<longrightarrow> host_running w' j = host_running w j)"
    using ct_Start_local by (simp add: container_runtime_def)
next
  fix w i w' and res :: "string + unit"
  assume "host_good e w" "rt_Remove (container_runtime e) w i = (res, w')"
  then show "host_good e w' \<and> \<not> host_running w' i \<and> (\<forall>j. j \<noteq> i \<longrightarrow> host_running w' j = host_running w j)"
    using ct_Remove_local by (simp add: container_runtime_def)
next
  fix w f i c m w' and res :: "string + unit"
  assume "host_good e w" "rt_Resize (container_runtime e) = Some f" "f w i c m = (res, w')"
  then show "host_good e w' \<and> host_running w' = host_running w"
    by (auto simp: container_runtime_def ct_Resize_def split: option.splits)
qed

end
