(* ===== verification/Partition.thy ===== *)
theory Partition
  imports Wiring NodeAgent ContainerRuntime
begin

text \<open>
  A node that loses the control plane, seen from both ends: the agent stops its
  containers by itself (theory NodeAgent on the container runtime of theory
  ContainerRuntime), and the scheduler gives them to other nodes (theory Wiring). The
  deadlines of the two sides make the first happen before the second. Both ends read the
  same clock.
\<close>

section \<open>Fencing precedes replacement\<close>

lemma cut_off_tick_fences:
  assumes n: "ag_nodeID a \<noteq> []" and R: "runtimeFor (nd_agent d) fenceIsolation = Some R"
    and cut_off: "\<And>w. \<exists>e. co_assigned (nd_control d) w (ag_nodeID a) = Inl e"
    and silent: "ag_lastContact a = zero_time \<or> ad_FenceAfter (nd_agent d) \<le> time_sub now (ag_lastContact a)"
  shows "\<exists>silence. reconcileTick d now a =
    fence (nd_agent d) silence (on_world (\<lambda>w. nd_refresh d w (ag_nodeID a)) a)"
proof -
  let ?a = "on_world (\<lambda>w. nd_refresh d w (ag_nodeID a)) a"
  have some: "ad_runtimes (nd_agent d) \<noteq> []" using R by (auto simp: runtimeFor_def)
  obtain e where "co_assigned (nd_control d) (ag_world ?a) (ag_nodeID a) = Inl e" using cut_off by blast
  then have fails: "readDesired d ?a = Inl e" by (simp add: readDesired_def Let_def on_world_def)
  have cut: "snd (fenced (nd_agent d) now ?a)"
    using silent by (auto simp: fenced_def silentFor_def on_world_def)
  then show ?thesis using n some fails
    by (auto simp: reconcileTick_def reconcile_def Let_def split: prod.splits)
qed

text \<open>
  C1: no container runs twice across a partition. Let a node hold a container the
  scheduler takes away from it, after the two minutes of silence it grants. If the control
  plane did not answer the node at its last pass, at most ten seconds earlier, and the
  agent's last contact was at most fifty seconds after the last heartbeat the control
  plane saw, then that pass left the container stopped on the node.
\<close>

theorem fenced_before_replaced:
  assumes n: "ag_nodeID a = n" "n \<noteq> []"
    and R: "runtimeFor (nd_agent d) fenceIsolation = Some (container_runtime e)"
    and deadline: "ad_FenceAfter (nd_agent d) = DefaultFenceAfter"
    and host: "host_good e (ag_world a)" "\<And>w. host_good e w \<Longrightarrow> host_good e (nd_refresh d w n)"
    and cut_off: "\<And>w. \<exists>err. co_assigned (nd_control d) w n = Inl err"
    and wf: "platform_wf (world s)"
    and call: "releaseStranded (wired_sources di new_id mac now samples) DefaultStrandedGrace s = (r, s')"
    and moved: "instance_node (world s) j = n" "instance_node (world s') j \<noteq> n"
    and contact: "\<And>m. m \<in> set (nodes (pf_nodes (pf_rest (world s)))) \<Longrightarrow> n_ID m = n \<Longrightarrow>
      ag_lastContact a \<le> n_LastSeenAt m + 50 * second"
    and pass: "now \<le> at + DefaultInterval"
  shows "\<not> host_running (ag_world (reconcileTick d at a)) j"
proof -
  obtain m where m: "m \<in> set (nodes (pf_nodes (pf_rest (world s))))" "n_ID m = n"
      "DefaultStrandedGrace \<le> time_sub now (n_LastSeenAt m)"
    using stranded_release_cause [OF wf call, of j] moved by auto
  then have "DefaultFenceAfter \<le> at - ag_lastContact a"
    using contact [OF m(1,2)] pass by (simp add: go_simps)
  then have silent: "ag_lastContact a = zero_time \<or> ad_FenceAfter (nd_agent d) \<le> time_sub at (ag_lastContact a)"
    using deadline by (simp add: go_simps)
  obtain silence where "reconcileTick d at a =
      fence (nd_agent d) silence (on_world (\<lambda>w. nd_refresh d w (ag_nodeID a)) a)"
    using cut_off_tick_fences [OF _ R _ silent] n cut_off by auto
  moreover have "host_good e (ag_world (on_world (\<lambda>w. nd_refresh d w (ag_nodeID a)) a))"
    using host n by (simp add: on_world_def)
  ultimately show ?thesis using container.fence_stops_everything [OF R] by simp
qed

section \<open>A concrete node\<close>

definition calm_env :: container_env where
  "calm_env =
     \<lparr>ce_root = True, ce_readDir = (\<lambda>_. None), ce_mkdir = (\<lambda>_ _. None), ce_prepare = (\<lambda>_ _. None),
      ce_fork = (\<lambda>_ _. Inl ''no process''), ce_writePid = (\<lambda>_ _. None), ce_attach = (\<lambda>_ _. None),
      ce_release = (\<lambda>_ _. None), ce_sigterm = (\<lambda>_ _. None), ce_obeys = (\<lambda>_ _. True), ce_exitCode = (\<lambda>_ _. 143),
      ce_sigkill = (\<lambda>_ _. None), ce_detach = (\<lambda>_ _. None), ce_leftover = (\<lambda>_ _. False),
      ce_removeCgroup = (\<lambda>_ _. None), ce_removeAll = (\<lambda>_ _. None), ce_limits = (\<lambda>_ _ _ _. None)\<rparr>"

definition busy_host :: host where
  "busy_host =
     \<lparr>h_dirs = [''i1''], h_pidFile = [''i1'' \<mapsto> 42], h_cgroup = [42 \<mapsto> ''i1''],
      h_running = [''i1'' \<mapsto> \<lparr>tk_pid = 42, tk_exited = False, tk_exitCode = 0\<rparr>], h_output = Map.empty\<rparr>"

lemma busy_host_good: "host_good calm_env busy_host"
  by (auto simp: host_good_def host_wf_def host_serves_def calm_env_def busy_host_def split: if_splits)

definition silent_control :: "host control" where
  "silent_control =
     \<lparr>co_register = (\<lambda>w. (Inl (CallError ''unreachable'' None), w)),
      co_heartbeat = (\<lambda>w _. (Inl (CallError ''unreachable'' None), w)),
      co_assigned = (\<lambda>_ _. Inl ''unreachable''), co_networks = (\<lambda>_ _. Inl ''unreachable''),
      co_records = (\<lambda>_. Inl ''unreachable''), co_nodes = (\<lambda>_. Inl ''unreachable''),
      co_volumes = (\<lambda>_ _. Inl ''unreachable''), co_forwards = (\<lambda>_ _. Inl ''unreachable''),
      co_balancers = (\<lambda>_ _. Inl ''unreachable''), co_firewalls = (\<lambda>_ _. Inl ''unreachable''),
      co_volumeKey = (\<lambda>_ _ _. Inl ''unreachable''),
      co_reportStatus = (\<lambda>w _ _ _ _ _ _. (Inl ''unreachable'', w)),
      co_reportVolumes = (\<lambda>w _ _. (Inl ''unreachable'', w)), co_reportHealth = (\<lambda>w _ _. (Inl ''unreachable'', w)),
      co_parkDisk = (\<lambda>w _ _ _. (Inl ''unreachable'', w)), co_takeDisk = (\<lambda>_ _ _. Inl ''unreachable''),
      co_diskLanded = (\<lambda>w _ _. (Inl ''unreachable'', w)), co_fetchBackup = (\<lambda>_ _ _. Inl ''unreachable''),
      co_pendingBackups = (\<lambda>_ _. Inl ''unreachable''), co_failBackup = (\<lambda>w _ _ _. (Inl ''unreachable'', w)),
      co_backupTransfer = (\<lambda>_ _ _. Inl ''unreachable''), co_uploadDirect = (\<lambda>w _ _. (Inl ''unreachable'', w)),
      co_reportUploaded = (\<lambda>w _ _ _. (Inl ''unreachable'', w)),
      co_uploadBackup = (\<lambda>w _ _ _. (Inl ''unreachable'', w))\<rparr>"

definition lone_deps :: "cached_state \<Rightarrow> host node_deps" where
  "lone_deps cache =
     \<lparr>nd_agent = \<lparr>ad_runtimes = [(''container'', container_runtime calm_env)], ad_datapath = None,
                 ad_FenceAfter = DefaultFenceAfter, ad_b64_text = (\<lambda>_. [])\<rparr>,
      nd_control = silent_control, nd_ParsePrefix = (\<lambda>_. None), nd_hasKeyFile = (\<lambda>_ _. False),
      nd_writeKeyFile = (\<lambda>w _ _. (Inr (), w)), nd_saveState = (\<lambda>w _. w), nd_loadState = (\<lambda>_. Inr cache),
      nd_probe = (\<lambda>_ _. None), nd_listenDNS = None, nd_updateDNS = (\<lambda>w _. w), nd_applyTLS = None,
      nd_refresh = (\<lambda>w _. w), nd_tidyImages = (\<lambda>w _ _. w), nd_reportUsage = (\<lambda>w _. w), nd_shipLogs = (\<lambda>w _. w)\<rparr>"

definition empty_cache :: cached_state where
  "empty_cache =
     \<lparr>cs_NodeID = ''n1'', cs_SavedAt = 1, cs_Instances = [], cs_Networks = [], cs_Records = [], cs_Nodes = [],
      cs_Volumes = [], cs_Forwards = [], cs_Balancers = [], cs_Firewalls = []\<rparr>"

definition lone_agent :: "go_time \<Rightarrow> host agent" where
  "lone_agent contact =
     \<lparr>ag_nodeID = ''n1'', ag_restarts = Map.empty, ag_lastContact = contact, ag_fencedFor = Map.empty,
      ag_probes = Map.empty, ag_world = busy_host\<rparr>"

theorem fenced_before_replaced_witness:
  "host_running (ag_world (lone_agent 40000000000)) ''i1'' \<and>
   instance_node (world (snd (releaseStranded (demo_sources 200000000000) DefaultStrandedGrace demo_lost))) ''i1'' = [] \<and>
   \<not> host_running (ag_world (reconcileTick (lone_deps empty_cache) 195000000000 (lone_agent 40000000000))) ''i1''"
proof -
  let ?a = "lone_agent 40000000000"
  let ?d = "lone_deps empty_cache"
  have wf: "platform_wf (world demo_lost)"
    by (simp add: platform_wf_def demo_lost_def demo_sched_def demo_rows_wf node_db_wf_def net_wf_empty demo_node_def)
  obtain r s' where run: "releaseStranded (demo_sources 200000000000) DefaultStrandedGrace demo_lost = (r, s')"
    by fastforce
  have gone: "instance_node (world (snd (releaseStranded (demo_sources 200000000000) DefaultStrandedGrace demo_lost))) ''i1'' = []"
    and before: "instance_node (world demo_lost) ''i1'' = ''n1''" by code_simp+
  have after: "instance_node (world s') ''i1'' \<noteq> ''n1''" using gone run by simp
  have R: "runtimeFor (nd_agent ?d) fenceIsolation = Some (container_runtime calm_env)"
    by (simp add: lone_deps_def runtimeFor_def)
  have "\<not> host_running (ag_world (reconcileTick ?d 195000000000 ?a)) ''i1''"
    by (rule fenced_before_replaced [OF _ _ R _ _ _ _ wf run [unfolded demo_sources_def] before after])
      (auto simp: lone_agent_def lone_deps_def silent_control_def busy_host_good demo_lost_def demo_sched_def demo_node_def)
  moreover have "host_running (ag_world ?a) ''i1''" by (simp add: lone_agent_def busy_host_def host_running_def)
  ultimately show ?thesis using gone by blast
qed

definition cached_container :: instance_view where
  "cached_container =
     \<lparr>in_DeviceAddress = [], in_ID = ''i1'', in_Name = ''web'', in_Isolation = ''container'', in_Image = ''img'', in_ISO = [],
      in_Kernel = [], in_FirewallID = [], in_DiskGiB = 0, in_Command = [], in_VCPU = 1, in_MemoryMiB = 128,
      in_RestartPolicy = ''always'', in_RestartCount = 0, in_SSHKeys = [], in_Env = [], in_Files = [],
      in_DesiredState = ''running'', in_ObservedState = ''running'', in_ObservedMessage = [], in_ExitCode = None,
      in_Migrating = False, in_DiskParked = False\<rparr>"

definition demo_nic :: network_config where
  "demo_nic =
     \<lparr>nc_Bridge = ''br0'', nc_BridgeAddr = ''10.0.0.1/24'', nc_BridgeAddr6 = [], nc_IP = ''10.0.0.9'', nc_Prefix = 24,
      nc_Gateway = ''10.0.0.1'', nc_IP6 = [], nc_Prefix6 = 0, nc_Gateway6 = [], nc_MAC = [], nc_Nameserver = ''10.0.0.1'',
      nc_SearchDomain = ''default.internal''\<rparr>"

abbreviation lone :: "host agent_deps" where
  "lone \<equiv> nd_agent (lone_deps empty_cache)"

definition demo_table :: inst_db where
  "demo_table = \<lparr>instances = [demo_row ''i1'' ''n1'', demo_row ''i2'' []], parked = Map.empty, recorded = []\<rparr>"

theorem agent_reports_fit_witness:
  "\<exists>r'. fst (inst_reportObserved demo_deps 9 demo_table ''n1'' ''i1'' ''running'' [] 0 None) = Inr r' \<and>
     observed_text (i_Observed r') = ''running''"
proof -
  let ?run = "agent_reconcileOne lone 9 cached_container [demo_nic] [] (lone_agent 1)"
  have out: "fst ?run = (''running'', [], None)" "fst (restartAttempts ''i1'' (snd ?run)) = 0" by code_simp+
  obtain a' where run: "?run = ((''running'', [], None), a')" using out(1) by (metis prod.collapse)
  have ok: "restarts_ok (lone_agent 1)" by (simp add: restarts_ok_def rs_def lone_agent_def zero_restart_def)
  have i: "in_ID cached_container = ''i1''" by (simp add: cached_container_def)
  have "inst_wf demo_table" "demo_row ''i1'' ''n1'' \<in> set (instances demo_table)"
    by (simp_all add: demo_table_def demo_rows_wf)
  from agent_reports_fit [OF run ok this, of "''n1''" demo_deps 9] out(2) run show ?thesis
    by (auto simp: i demo_row_def)
qed

definition crashed_agent :: "host agent" where
  "crashed_agent =
     (lone_agent 1)\<lparr>ag_world := reap 42 1 busy_host\<rparr>"

theorem crash_loop_backs_off_witness:
  "\<exists>a'. snd (agent_reconcileOne lone 9 cached_container [demo_nic] [] crashed_agent) = a' \<and>
     rs_attempts (rs a' ''i1'') = 1 \<and> rs_nextAttempt (rs a' ''i1'') = 1000000009"
proof -
  obtain res a' where run: "agent_reconcileOne lone 9 cached_container [demo_nic] [] crashed_agent = (res, a')" by fastforce
  have R: "runtimeFor lone (in_Isolation cached_container) = Some (container_runtime calm_env)"
    by (simp add: lone_deps_def runtimeFor_def cached_container_def)
  have files: "fileDrops (ad_b64_text lone) (in_Files cached_container) = Inr []" by (simp add: cached_container_def)
  have status: "rt_Status (container_runtime calm_env) (ag_world crashed_agent) (in_ID cached_container) =
      Inr \<lparr>wl_Phase = PhaseExited, wl_Message = ''exited with code 1'', wl_ExitCode = 1\<rparr>" by code_simp
  have blank: "rs crashed_agent i = zero_restart" for i by (simp add: rs_def crashed_agent_def lone_agent_def)
  from crash_loop_backs_off [OF run R files status] run show ?thesis
    by (simp add: blank zero_restart_def cached_container_def shouldRestart_def)
qed

section \<open>Two gaps\<close>

text \<open>
  An agent whose node the control plane has forgotten runs no pass until it is registered
  again, so it does not fence itself either.
\<close>

lemma forgotten_node_is_not_fenced: "ag_nodeID a = [] \<Longrightarrow> reconcileTick d now a = a"
  by (simp add: reconcileTick_def)

text \<open>
  A replay from the cache keeps only what the scheduler never moves, and then collects as
  garbage whatever is not kept: the containers are removed with their files, although the
  control plane was not read.
\<close>

lemma replay_removes_containers:
  "h_dirs (ag_world (lone_agent 0)) = [''i1''] \<and>
   h_dirs (ag_world (reconcileFromCache (lone_deps (empty_cache\<lparr>cs_Instances := [cached_container]\<rparr>)) 9 (lone_agent 0))) = []"
  by code_simp

end
