(* ===== verification/Paging.thy ===== *)
theory Paging
  imports Interval
begin

text \<open>
  Cursors and windows of listings, src/internal/kernel/page, and the walk of the
  command line client over the pages of a listing, walkPages of
  src/internal/cli/client.go. Of the standard library the theory models the unpadded
  URL-safe base64 codec, \<open>strings.Cut\<close>, and the escaping and parsing of a query.
  The locale \<open>keyset_listing\<close> is the contract between a listing and its client.
\<close>

section \<open>Base64, unpadded and URL-safe\<close>

definition b64_char :: "nat \<Rightarrow> char" where
  "b64_char n =
     (if n < 26 then char_of (65 + n)
      else if n < 52 then char_of (71 + n)
      else if n < 62 then char_of (n - 4)
      else if n = 62 then CHR ''-'' else CHR ''_'')"

definition b64url_value :: "char \<Rightarrow> nat option" where
  "b64url_value c =
     (if is_upper c then Some (of_char c - 65)
      else if is_lower c then Some (of_char c - 71)
      else if is_digit c then Some (of_char c + 4)
      else if c = CHR ''-'' then Some 62
      else if c = CHR ''_'' then Some 63
      else None)"

text \<open>Three bytes are four characters; a rest of one or two bytes is two or three.\<close>

fun b64_groups :: "nat list \<Rightarrow> nat list" where
  "b64_groups [] = []"
| "b64_groups [a] = [a div 4, a mod 4 * 16]"
| "b64_groups [a, b] = [a div 4, a mod 4 * 16 + b div 16, b mod 16 * 4]"
| "b64_groups (a # b # c # rest) =
     [a div 4, a mod 4 * 16 + b div 16, b mod 16 * 4 + c div 64, c mod 64] @ b64_groups rest"

text \<open>The unused bits of the last character are not looked at.\<close>

fun b64url_bytes :: "nat list \<Rightarrow> nat list option" where
  "b64url_bytes [] = Some []"
| "b64url_bytes [p] = None"
| "b64url_bytes [p, q] = Some [p * 4 + q div 16]"
| "b64url_bytes [p, q, r] = Some [p * 4 + q div 16, q mod 16 * 16 + r div 4]"
| "b64url_bytes (p # q # r # s # rest) =
     map_option (\<lambda>bs. [p * 4 + q div 16, q mod 16 * 16 + r div 4, r mod 4 * 64 + s] @ bs)
       (b64url_bytes rest)"

definition b64_EncodeToString :: "string \<Rightarrow> string" where
  "b64_EncodeToString s = map b64_char (b64_groups (map of_char s))"

text \<open>The decoder skips line ends.\<close>

definition b64_DecodeString :: "string \<Rightarrow> string option" where
  "b64_DecodeString s =
     (let vs = map b64url_value (filter (\<lambda>c. c \<noteq> CHR 0x0A \<and> c \<noteq> CHR 0x0D) s)
      in if None \<in> set vs then None else map_option (map char_of) (b64url_bytes (map the vs)))"

lemma b64_pack:
  fixes a b c :: nat
  shows "a < 256 \<Longrightarrow> a div 4 < 64" "b < 256 \<Longrightarrow> a mod 4 * 16 + b div 16 < 64"
    "c < 256 \<Longrightarrow> b mod 16 * 4 + c div 64 < 64"
proof -
  show "a < 256 \<Longrightarrow> a div 4 < 64" by (simp add: less_mult_imp_div_less)
  show "a mod 4 * 16 + b div 16 < 64" if "b < 256"
  proof -
    have "a mod 4 < 4" "b div 16 < 16" using that by (simp_all add: less_mult_imp_div_less)
    then show ?thesis by linarith
  qed
  show "b mod 16 * 4 + c div 64 < 64" if "c < 256"
  proof -
    have "b mod 16 < 16" "c div 64 < 4" using that by (simp_all add: less_mult_imp_div_less)
    then show ?thesis by linarith
  qed
qed

lemma b64_unpack:
  fixes a b c :: nat
  shows "b < 256 \<Longrightarrow> a div 4 * 4 + (a mod 4 * 16 + b div 16) div 16 = a"
    and "b < 256 \<Longrightarrow> c < 256 \<Longrightarrow>
      (a mod 4 * 16 + b div 16) mod 16 * 16 + (b mod 16 * 4 + c div 64) div 4 = b"
    and "c < 256 \<Longrightarrow> (b mod 16 * 4 + c div 64) mod 4 * 64 + c mod 64 = c"
proof -
  have hi: "(x * 16 + b div 16) div 16 = x" "(x * 16 + b div 16) mod 16 = b div 16" if "b < 256" for x
  proof -
    have "b div 16 < 16" using that by (simp add: less_mult_imp_div_less)
    then show "(x * 16 + b div 16) div 16 = x" "(x * 16 + b div 16) mod 16 = b div 16" by simp_all
  qed
  have lo: "(x * 4 + c div 64) div 4 = x" "(x * 4 + c div 64) mod 4 = c div 64" if "c < 256" for x
  proof -
    have "c div 64 < 4" using that by (simp add: less_mult_imp_div_less)
    then show "(x * 4 + c div 64) div 4 = x" "(x * 4 + c div 64) mod 4 = c div 64" by simp_all
  qed
  show "b < 256 \<Longrightarrow> a div 4 * 4 + (a mod 4 * 16 + b div 16) div 16 = a" by (simp add: hi)
  show "b < 256 \<Longrightarrow> c < 256 \<Longrightarrow>
      (a mod 4 * 16 + b div 16) mod 16 * 16 + (b mod 16 * 4 + c div 64) div 4 = b" by (simp add: hi lo)
  show "c < 256 \<Longrightarrow> (b mod 16 * 4 + c div 64) mod 4 * 64 + c mod 64 = c" by (simp add: lo)
qed

lemma b64_bytes_groups: "list_all (\<lambda>b. b < 256) bs \<Longrightarrow> b64url_bytes (b64_groups bs) = Some bs"
proof (induction bs rule: b64_groups.induct)
  case (2 a)
  then show ?case using b64_unpack(1) [of 0 a] by simp
next
  case (3 a b)
  then show ?case using b64_unpack(1) [of b a] b64_unpack(2) [of b 0 a] by simp
next
  case (4 a b c rest)
  then have "a < 256" "b < 256" "c < 256" "b64url_bytes (b64_groups rest) = Some rest" by simp_all
  then show ?case using b64_unpack(1) [of b a] b64_unpack(2) [of b c a] b64_unpack(3) [of c b] by simp
qed simp

lemma b64_groups_bound: "list_all (\<lambda>b. b < 256) bs \<Longrightarrow> list_all (\<lambda>v. v < 64) (b64_groups bs)"
proof (induction bs rule: b64_groups.induct)
  case (2 a)
  then show ?case using b64_pack(2) [of 0 a] by (simp add: b64_pack)
next
  case (3 a b)
  then show ?case using b64_pack(3) [of 0 b] by (simp add: b64_pack)
next
  case (4 a b c rest)
  then show ?case by (simp add: b64_pack)
qed simp

text \<open>Letters, digits, hyphen and underscore.\<close>

definition url_plain :: "char \<Rightarrow> bool" where
  "url_plain c \<longleftrightarrow> is_upper c \<or> is_lower c \<or> is_digit c \<or> c = CHR ''-'' \<or> c = CHR ''_''"

lemma char_cmp: "c \<le> d \<longleftrightarrow> (of_char c :: nat) \<le> of_char d"
  by (simp add: less_eq_char_def)

lemmas char_class = is_upper_def is_lower_def is_digit_def char_cmp

lemma url_plain_least: "url_plain c \<Longrightarrow> 45 \<le> (of_char c :: nat)"
  by (auto simp: url_plain_def char_class)

lemma b64_char_facts:
  assumes "n < 64"
  shows "b64url_value (b64_char n) = Some n" and "url_plain (b64_char n)"
    and "b64_char n \<noteq> CHR 0x0A" and "b64_char n \<noteq> CHR 0x0D"
proof -
  show "b64url_value (b64_char n) = Some n"
    using assms by (auto simp: b64_char_def b64url_value_def char_class)
  show plain: "url_plain (b64_char n)"
    using assms by (auto simp: b64_char_def url_plain_def char_class)
  show "b64_char n \<noteq> CHR 0x0A" "b64_char n \<noteq> CHR 0x0D" using url_plain_least [OF plain] by auto
qed

lemma b64_bytes_of: "list_all (\<lambda>b. b < 256) (map of_char s :: nat list)"
  using nat_of_char_less_256 by (simp add: list_all_iff)

lemma b64_roundtrip [simp]: "b64_DecodeString (b64_EncodeToString s) = Some s"
proof -
  let ?g = "b64_groups (map of_char s)"
  have bound: "\<forall>v\<in>set ?g. v < 64" using b64_groups_bound [OF b64_bytes_of] by (simp add: list_all_iff)
  then have "filter (\<lambda>c. c \<noteq> CHR 0x0A \<and> c \<noteq> CHR 0x0D) (map b64_char ?g) = map b64_char ?g"
    by (auto simp: filter_id_conv b64_char_facts)
  moreover have "map b64url_value (map b64_char ?g) = map Some ?g"
    using bound by (simp add: b64_char_facts)
  ultimately have "b64_DecodeString (b64_EncodeToString s) = map_option (map char_of) (b64url_bytes ?g)"
    by (simp add: b64_DecodeString_def b64_EncodeToString_def Let_def del: map_map) (simp add: image_iff)
  also have "\<dots> = Some s" by (simp add: b64_bytes_groups b64_bytes_of o_def)
  finally show ?thesis .
qed

lemma b64_plain: "list_all url_plain (b64_EncodeToString s)"
  using b64_groups_bound [OF b64_bytes_of, of s] b64_char_facts(2)
  by (auto simp: b64_EncodeToString_def list_all_iff)

lemma b64_eq_Nil [simp]: "b64_EncodeToString s = [] \<longleftrightarrow> s = []"
  by (cases "map of_char s :: nat list" rule: b64_groups.cases) (auto simp: b64_EncodeToString_def)

section \<open>Cursors and windows\<close>

text \<open>\<open>strings.Cut\<close> with a separator of one byte.\<close>

definition str_Cut :: "char \<Rightarrow> string \<Rightarrow> (string \<times> string) option" where
  "str_Cut sep s =
     (case dropWhile (\<lambda>c. c \<noteq> sep) s of
        [] \<Rightarrow> None
      | _ # rest \<Rightarrow> Some (takeWhile (\<lambda>c. c \<noteq> sep) s, rest))"

lemma str_Cut_append [simp]: "sep \<notin> set a \<Longrightarrow> str_Cut sep (a @ sep # b) = Some (a, b)"
  unfolding str_Cut_def by (induction a) (auto split: list.splits)

lemma str_Cut_none [simp]: "sep \<notin> set a \<Longrightarrow> str_Cut sep a = None"
proof -
  assume "sep \<notin> set a"
  then have "dropWhile (\<lambda>c. c \<noteq> sep) a = []" by (auto simp: dropWhile_eq_Nil_conv)
  then show ?thesis by (simp only: str_Cut_def list.case)
qed

record cursor =
  cur_Order :: string
  cur_ID :: string

record window =
  win_Limit :: int
  win_After :: cursor

abbreviation (input) no_cursor :: cursor where "no_cursor \<equiv> \<lparr>cur_Order = [], cur_ID = []\<rparr>"

definition cursor_Empty :: "cursor \<Rightarrow> bool" where
  "cursor_Empty c \<longleftrightarrow> cur_Order c = [] \<and> cur_ID c = []"

definition page_Encode :: "string \<Rightarrow> string \<Rightarrow> string" where
  "page_Encode ord rid =
     (if ord = [] \<and> rid = [] then [] else b64_EncodeToString (ord @ CHR 0x00 # rid))"

definition page_Decode :: "string \<Rightarrow> cursor option" where
  "page_Decode raw =
     (case b64_DecodeString raw of
        None \<Rightarrow> None
      | Some blob \<Rightarrow>
          map_option (\<lambda>(ord, rid). \<lparr>cur_Order = ord, cur_ID = rid\<rparr>) (str_Cut CHR 0x00 blob))"

definition page_Back :: "cursor \<Rightarrow> int option" where
  "page_Back after =
     (if cursor_Empty after then Some 0
      else (case atoi (cur_ID after) of
              None \<Rightarrow> None
            | Some n \<Rightarrow> if n \<le> 0 then None else Some n))"

definition page_Backward :: "int \<Rightarrow> string" where
  "page_Backward n = page_Encode [] (itoa n)"

text \<open>The values of a request's query: the first value of a key, empty if absent.\<close>

definition page_From :: "(string \<Rightarrow> string) \<Rightarrow> int \<Rightarrow> int \<Rightarrow> window option" where
  "page_From query fallback ceiling =
     (let raw = query ''limit'';
          limit = (if raw = [] then Some fallback
                   else (case atoi raw of
                           None \<Rightarrow> None
                         | Some n \<Rightarrow> if n \<le> 0 then None else Some n))
      in case limit of
           None \<Rightarrow> None
         | Some n \<Rightarrow>
             (let capped = (if ceiling < n then ceiling else n);
                  after = query ''after''
              in if after = [] then Some \<lparr>win_Limit = capped, win_After = no_cursor\<rparr>
                 else map_option (\<lambda>c. \<lparr>win_Limit = capped, win_After = c\<rparr>) (page_Decode after)))"

lemma page_Encode_eq_Nil [simp]: "page_Encode ord rid = [] \<longleftrightarrow> ord = [] \<and> rid = []"
  by (simp add: page_Encode_def)

lemma page_Encode_plain: "list_all url_plain (page_Encode ord rid)"
  by (simp add: page_Encode_def b64_plain)

lemma page_roundtrip:
  "CHR 0x00 \<notin> set ord \<Longrightarrow> \<not> (ord = [] \<and> rid = []) \<Longrightarrow>
   page_Decode (page_Encode ord rid) = Some \<lparr>cur_Order = ord, cur_ID = rid\<rparr>"
  by (auto simp: page_Decode_def page_Encode_def)

lemma page_Back_roundtrip:
  assumes "0 < n" "n \<le> max_duration"
  shows "\<exists>c. page_Decode (page_Backward n) = Some c \<and> page_Back c = Some n"
proof -
  have "atoi (itoa n) = Some n" using assms by (simp add: atoi_itoa)
  moreover have "itoa n \<noteq> []" using itoa_shape [of n] by auto
  ultimately show ?thesis
    using assms by (simp add: page_Backward_def page_roundtrip page_Back_def cursor_Empty_def)
qed

lemma page_From_limit:
  assumes "page_From query fallback ceiling = Some w" "0 < fallback" "0 < ceiling"
  shows "0 < win_Limit w \<and> win_Limit w \<le> ceiling"
  using assms by (auto simp: page_From_def Let_def split: if_splits option.splits)

section \<open>Queries\<close>

text \<open>\<open>url.QueryEscape\<close> and \<open>url.QueryUnescape\<close>.\<close>

definition hex_upper :: "nat \<Rightarrow> char" where
  "hex_upper n = (if n < 10 then char_of (48 + n) else char_of (55 + n))"

definition unhex :: "char \<Rightarrow> nat option" where
  "unhex c =
     (if is_digit c then Some (of_char c - 48)
      else if CHR ''a'' \<le> c \<and> c \<le> CHR ''f'' then Some (of_char c - 87)
      else if CHR ''A'' \<le> c \<and> c \<le> CHR ''F'' then Some (of_char c - 55)
      else None)"

definition escape_char :: "char \<Rightarrow> string" where
  "escape_char c =
     (if url_plain c \<or> c = CHR ''.'' \<or> c = CHR ''~'' then [c]
      else if c = CHR '' '' then ''+''
      else [CHR ''%'', hex_upper (of_char c div 16), hex_upper (of_char c mod 16)])"

definition QueryEscape :: "string \<Rightarrow> string" where
  "QueryEscape s = concat (map escape_char s)"

fun QueryUnescape :: "string \<Rightarrow> string option" where
  "QueryUnescape [] = Some []"
| "QueryUnescape (c # rest) =
     (if c = CHR ''%'' then
        (case rest of
           h # l # rest' \<Rightarrow>
             (case (unhex h, unhex l) of
                (Some x, Some y) \<Rightarrow> map_option ((#) (char_of (16 * x + y))) (QueryUnescape rest')
              | _ \<Rightarrow> None)
         | _ \<Rightarrow> None)
      else map_option ((#) (if c = CHR ''+'' then CHR '' '' else c)) (QueryUnescape rest))"

text \<open>
  \<open>URL.Query().Get\<close>: the query is what follows the first question mark, its pairs
  are separated by ampersands; a pair that has a semicolon or does not unescape is
  left out.
\<close>

fun split_amp :: "string \<Rightarrow> string list" where
  "split_amp [] = [[]]"
| "split_amp (c # s) =
     (if c = CHR ''&'' then [] # split_amp s
      else (case split_amp s of [] \<Rightarrow> [[c]] | p # ps \<Rightarrow> (c # p) # ps))"

definition query_pair :: "string \<Rightarrow> (string \<times> string) option" where
  "query_pair piece =
     (let (k, v) = (case str_Cut CHR ''='' piece of None \<Rightarrow> (piece, []) | Some kv \<Rightarrow> kv)
      in if piece = [] \<or> CHR '';'' \<in> set piece then None
         else (case (QueryUnescape k, QueryUnescape v) of
                 (Some k', Some v') \<Rightarrow> Some (k', v') | _ \<Rightarrow> None))"

definition url_query :: "string \<Rightarrow> string" where
  "url_query path = (case str_Cut CHR ''?'' path of None \<Rightarrow> [] | Some (_, q) \<Rightarrow> q)"

definition query_Get :: "string \<Rightarrow> string \<Rightarrow> string" where
  "query_Get path k =
     (case map_of (List.map_filter query_pair (split_amp (url_query path))) k of
        None \<Rightarrow> [] | Some v \<Rightarrow> v)"

lemma url_plain_specials:
  "url_plain c \<Longrightarrow>
     c \<noteq> CHR ''%'' \<and> c \<noteq> CHR ''+'' \<and> c \<noteq> CHR ''&'' \<and> c \<noteq> CHR '';'' \<and> c \<noteq> CHR ''='' \<and> c \<noteq> CHR ''?''"
proof -
  have "\<forall>c\<in>set ''%+&;=?''. \<not> url_plain c" by code_simp
  then show "url_plain c \<Longrightarrow> ?thesis" by auto
qed

lemma unhex_upper: "n < 16 \<Longrightarrow> unhex (hex_upper n) = Some n"
proof -
  have "\<forall>n\<in>set [0..<16]. unhex (hex_upper n) = Some n" by code_simp
  then show "n < 16 \<Longrightarrow> unhex (hex_upper n) = Some n" by simp
qed

lemma query_escape_roundtrip: "QueryUnescape (QueryEscape s) = Some s"
proof (induction s)
  case (Cons c s)
  have nibbles: "of_char c div 16 < (16 :: nat)" "of_char c mod 16 < (16 :: nat)"
    using nat_of_char_less_256 [of c] by (simp_all add: less_mult_imp_div_less)
  have "char_of (16 * (of_char c div 16) + of_char c mod 16 :: nat) = c"
    by (simp only: mult_div_mod_eq) simp
  then show ?case
    using Cons nibbles url_plain_specials [of c]
    by (auto simp: QueryEscape_def escape_char_def unhex_upper)
qed (simp add: QueryEscape_def)

lemma QueryEscape_plain: "list_all url_plain s \<Longrightarrow> QueryEscape s = s"
  by (induction s) (simp_all add: QueryEscape_def escape_char_def)

lemma split_amp_plain: "CHR ''&'' \<notin> set s \<Longrightarrow> split_amp s = [s]"
  by (induction s) auto

text \<open>The query of a bare path is empty; that of the walk carries the cursor and no limit.\<close>

lemma query_Get_base: "CHR ''?'' \<notin> set base \<Longrightarrow> query_Get base k = []"
  by (simp add: query_Get_def url_query_def query_pair_def map_filter_simps Let_def)

lemma query_Get_after:
  assumes "CHR ''?'' \<notin> set base" "list_all url_plain nxt" "nxt \<noteq> []"
  shows "query_Get (base @ ''?after='' @ QueryEscape nxt) ''after'' = nxt"
    and "k \<noteq> ''after'' \<Longrightarrow> query_Get (base @ ''?after='' @ QueryEscape nxt) k = []"
proof -
  have esc: "QueryEscape nxt = nxt" and un: "QueryUnescape nxt = Some nxt"
    using assms(2) QueryEscape_plain query_escape_roundtrip [of nxt] by simp_all
  have safe: "CHR ''&'' \<notin> set nxt" "CHR '';'' \<notin> set nxt"
    using assms(2) url_plain_specials by (auto simp: list_all_iff)
  have cut: "str_Cut CHR ''='' (''after='' @ nxt) = Some (''after'', nxt)"
    using str_Cut_append [of "CHR ''=''" "''after''" nxt] by simp
  have "url_query (base @ ''?after='' @ QueryEscape nxt) = ''after='' @ nxt"
    using assms(1) esc by (simp add: url_query_def)
  moreover have "query_pair (''after='' @ nxt) = Some (''after'', nxt)"
    using safe un cut by (simp add: query_pair_def Let_def)
  moreover have "split_amp (''after='' @ nxt) = [''after='' @ nxt]"
    using safe by (intro split_amp_plain) simp
  ultimately show "query_Get (base @ ''?after='' @ QueryEscape nxt) ''after'' = nxt"
    "k \<noteq> ''after'' \<Longrightarrow> query_Get (base @ ''?after='' @ QueryEscape nxt) k = []"
    by (simp_all add: query_Get_def map_filter_simps)
qed

section \<open>Walking the pages of a listing\<close>

text \<open>
  \<open>serve n path\<close> is the server's answer to the n-th request: a fault, or rows and the
  cursor of the next page, empty on the last one. The loop ends only if the server
  stops handing out cursors.
\<close>

partial_function (option) walkPages ::
    "(nat \<Rightarrow> string \<Rightarrow> ('r list \<times> string) result) \<Rightarrow> string \<Rightarrow> string \<Rightarrow> nat \<Rightarrow> 'r list \<Rightarrow> 'r list result option"
  where
  "walkPages serve base path n acc =
     (if path = [] then Some (Inr acc)
      else (case serve n path of
              Inl e \<Rightarrow> Some (Inl e)
            | Inr got \<Rightarrow>
                walkPages serve base
                  (if snd got = [] then [] else base @ ''?after='' @ QueryEscape (snd got))
                  (Suc n) (acc @ fst got)))"

declare walkPages.simps [code]

text \<open>
  A page of the rows \<open>S\<close>: in strict order, and either all of them or, with the cursor
  of its last row, all up to that row.
\<close>

definition page_of :: "('r \<Rightarrow> 'k::linorder) \<Rightarrow> ('r \<Rightarrow> string) \<Rightarrow> 'r set \<Rightarrow> 'r list \<Rightarrow> string \<Rightarrow> bool" where
  "page_of key mark S xs nxt \<longleftrightarrow>
     sorted_wrt (<) (map key xs) \<and> set xs \<subseteq> S \<and>
     (if nxt = [] then set xs = S
      else xs \<noteq> [] \<and> nxt = mark (last xs) \<and> {s \<in> S. key s \<le> key (last xs)} \<subseteq> set xs)"

lemma page_order:
  assumes "sorted_wrt (<) (map key xs)" "x \<in> set xs"
  shows "key x \<le> (key (last xs) :: 'k::linorder)"
proof -
  have "sorted (map key xs)" using assms(1) by (rule strict_sorted_imp_sorted)
  then show ?thesis using assms(2) by (rule sorted_map_last)
qed

text \<open>The first rows in the order of the key, with a cursor when the page is full, are a page.\<close>

definition next_mark :: "('r \<Rightarrow> string) \<Rightarrow> int \<Rightarrow> 'r list \<Rightarrow> string" where
  "next_mark mark limit xs = (if int (length xs) = limit then mark (last xs) else [])"

lemma sorted_take_page:
  assumes "distinct (map key rows)" "0 < limit" "\<And>r. r \<in> set rows \<Longrightarrow> mark r \<noteq> []"
  defines "xs \<equiv> take (nat limit) (sort_key key rows)"
  shows "page_of key mark (set rows) xs (next_mark mark limit xs)"
proof -
  let ?all = "sort_key key rows" and ?rest = "drop (nat limit) (sort_key key rows)"
  have all: "?all = xs @ ?rest" by (simp add: xs_def)
  have "distinct (map key ?all)" using assms(1) by (simp add: distinct_map)
  then have strict: "sorted_wrt (<) (map key ?all)" by (simp add: strict_sorted_iff)
  have sub: "set xs \<subseteq> set rows" by (metis all set_append set_sort sup_ge1)
  have short: "set xs = set rows" if "length xs < nat limit"
    using that by (simp add: xs_def)
  have full: "xs \<noteq> []" "{s \<in> set rows. key s \<le> key (last xs)} \<subseteq> set xs" if len: "length xs = nat limit"
  proof -
    show ne: "xs \<noteq> []" using len assms(2) by auto
    have "key (last xs) < key s" if "s \<in> set ?rest" for s
      using strict that last_in_set [OF ne] by (subst (asm) all) (auto simp: sorted_wrt_append)
    moreover have "set rows = set xs \<union> set ?rest" by (metis all set_append set_sort)
    ultimately show "{s \<in> set rows. key s \<le> key (last xs)} \<subseteq> set xs" by fastforce
  qed
  have marked: "mark (last xs) \<noteq> []" if "xs \<noteq> []"
    using assms(3) sub last_in_set [OF that] by blast
  have "sorted_wrt (<) (map key xs)" using strict by (subst (asm) all) (simp add: sorted_wrt_append)
  moreover have "length xs \<le> nat limit" by (simp add: xs_def)
  ultimately show ?thesis
    using sub short full marked assms(2)
    by (cases "length xs = nat limit") (auto simp: page_of_def next_mark_def)
qed

locale keyset_listing =
  fixes serve :: "'db \<Rightarrow> string \<Rightarrow> ('r list \<times> string) result"
    and listed :: "'db \<Rightarrow> 'r set"
    and good :: "'db \<Rightarrow> bool"
    and key :: "'r \<Rightarrow> 'k::linorder"
    and mark :: "'r \<Rightarrow> string"
    and base :: string
  assumes base_path: "base \<noteq> []"
    and first_page: "good db \<Longrightarrow> \<exists>xs nxt. serve db base = Inr (xs, nxt) \<and> page_of key mark (listed db) xs nxt"
    and later_page: "good db \<Longrightarrow> good db' \<Longrightarrow> r \<in> listed db' \<Longrightarrow>
      \<exists>xs nxt. serve db (base @ ''?after='' @ QueryEscape (mark r)) = Inr (xs, nxt) \<and>
        page_of key mark {s \<in> listed db. key r < key s} xs nxt"
begin

text \<open>
  One request of the walk: what is left to list lies behind the row \<open>r\<close>, if any.
\<close>

definition behind :: "'r option \<Rightarrow> 'db \<Rightarrow> 'r set" where
  "behind r db = {s \<in> listed db. case r of None \<Rightarrow> True | Some r \<Rightarrow> key r < key s}"

definition path_to :: "'r option \<Rightarrow> string" where
  "path_to r = (case r of None \<Rightarrow> base | Some r \<Rightarrow> base @ ''?after='' @ QueryEscape (mark r))"

definition valid_from :: "(nat \<Rightarrow> 'db) \<Rightarrow> 'r option \<Rightarrow> bool" where
  "valid_from dbs r \<longleftrightarrow> (case r of None \<Rightarrow> True | Some r \<Rightarrow> \<exists>m. r \<in> listed (dbs m))"

lemma page_at:
  assumes "\<And>n. good (dbs n)" "valid_from dbs r"
  shows "\<exists>xs nxt. serve (dbs n) (path_to r) = Inr (xs, nxt) \<and> page_of key mark (behind r (dbs n)) xs nxt"
proof (cases r)
  case None
  then show ?thesis using first_page [of "dbs n"] assms(1) by (simp add: path_to_def behind_def)
next
  case (Some q)
  then obtain m where "q \<in> listed (dbs m)" using assms(2) by (auto simp: valid_from_def)
  then show ?thesis
    using later_page [of "dbs n" "dbs m" q] assms(1) Some by (simp add: path_to_def behind_def)
qed

lemma path_to_Some: "path_to (Some q) = base @ ''?after='' @ QueryEscape (mark q)"
  by (simp add: path_to_def)

lemma path_to_nonempty [simp]: "path_to r \<noteq> []"
  using base_path by (simp add: path_to_def split: option.split)

text \<open>
  The walk from \<open>r\<close> returns rows in strict order behind \<open>r\<close>, among them one for every
  key that stays in the table. It ends because every further page starts behind a
  greater key, and there are finitely many.
\<close>

lemma walk_from:
  assumes "\<And>n. good (dbs n)" "finite (\<Union>n. key ` listed (dbs n))" "valid_from dbs r"
  shows "\<exists>xs. walkPages (\<lambda>n. serve (dbs n)) base (path_to r) n acc = Some (Inr (acc @ xs)) \<and>
    sorted_wrt (<) (map key xs) \<and> set xs \<subseteq> (\<Union>n. behind r (dbs n)) \<and>
    (\<Inter>m\<in>{n..}. key ` behind r (dbs m)) \<subseteq> key ` set xs"
  using assms(3)
proof (induction "card (\<Union>m. key ` behind r (dbs m))" arbitrary: r n acc rule: less_induct)
  case less
  let ?walk = "walkPages (\<lambda>n. serve (dbs n)) base"
  obtain xs nxt where serve: "serve (dbs n) (path_to r) = Inr (xs, nxt)"
    and page: "page_of key mark (behind r (dbs n)) xs nxt"
    using page_at [OF assms(1) less.prems] by blast
  have sub: "set xs \<subseteq> behind r (dbs n)" and sorted: "sorted_wrt (<) (map key xs)"
    using page by (simp_all add: page_of_def)
  show ?case
  proof (cases "nxt = []")
    case True
    have "?walk (path_to r) n acc = Some (Inr (acc @ xs))"
      using serve True by (subst walkPages.simps) (simp add: walkPages.simps [of _ _ "[]"])
    moreover have "set xs = behind r (dbs n)" using page True by (simp add: page_of_def)
    ultimately show ?thesis using sorted by blast
  next
    case False
    let ?q = "last xs"
    have q: "xs \<noteq> []" "nxt = mark ?q" "{s \<in> behind r (dbs n). key s \<le> key ?q} \<subseteq> set xs"
      using page False by (simp_all add: page_of_def)
    then have qin: "?q \<in> behind r (dbs n)" using sub last_in_set by blast
    have further: "behind (Some ?q) db \<subseteq> behind r db" for db
      using qin by (auto simp: behind_def split: option.splits)
    have fin: "finite (\<Union>m. key ` behind r (dbs m))"
      by (rule finite_subset [OF _ assms(2)]) (auto simp: behind_def)
    have "key ?q \<notin> (\<Union>m. key ` behind (Some ?q) (dbs m))" by (auto simp: behind_def)
    moreover have "key ?q \<in> (\<Union>m. key ` behind r (dbs m))" using qin by blast
    moreover have "(\<Union>m. key ` behind (Some ?q) (dbs m)) \<subseteq> (\<Union>m. key ` behind r (dbs m))"
      by (intro UN_mono image_mono further) simp
    ultimately have "(\<Union>m. key ` behind (Some ?q) (dbs m)) \<subset> (\<Union>m. key ` behind r (dbs m))"
      by (metis psubsetI)
    then have smaller: "card (\<Union>m. key ` behind (Some ?q) (dbs m)) < card (\<Union>m. key ` behind r (dbs m))"
      by (rule psubset_card_mono [OF fin])
    have "valid_from dbs (Some ?q)" using qin by (auto simp: valid_from_def behind_def)
    from less.hyps [OF smaller this, of "Suc n" "acc @ xs"] obtain ys where
      ys: "?walk (path_to (Some ?q)) (Suc n) (acc @ xs) = Some (Inr (acc @ xs @ ys))"
        "sorted_wrt (<) (map key ys)" "set ys \<subseteq> (\<Union>n. behind (Some ?q) (dbs n))"
        "(\<Inter>m\<in>{Suc n..}. key ` behind (Some ?q) (dbs m)) \<subseteq> key ` set ys" by auto
    have "?walk (path_to r) n acc = Some (Inr (acc @ xs @ ys))"
      using serve False q(2) ys(1) path_to_Some [of ?q] by (subst walkPages.simps) simp
    moreover have step: "key x < key y" if "x \<in> set xs" "y \<in> set ys" for x y
    proof -
      have "key ?q < key y" using ys(3) that(2) by (auto simp: behind_def)
      then show ?thesis using page_order [OF sorted that(1)] by simp
    qed
    then have "sorted_wrt (<) (map key (xs @ ys))"
      using sorted ys(2) step by (auto simp: sorted_wrt_append)
    moreover have "set (xs @ ys) \<subseteq> (\<Union>n. behind r (dbs n))" using sub ys(3) further by fastforce
    moreover have "(\<Inter>m\<in>{n..}. key ` behind r (dbs m)) \<subseteq> key ` set (xs @ ys)"
    proof
      fix k assume k: "k \<in> (\<Inter>m\<in>{n..}. key ` behind r (dbs m))"
      show "k \<in> key ` set (xs @ ys)"
      proof (cases "k \<le> key ?q")
        case True
        then show ?thesis using k q(3) by fastforce
      next
        case late: False
        have "k \<in> key ` behind (Some ?q) (dbs m)" if "Suc n \<le> m" for m
          using k that late by (fastforce simp: behind_def)
        then have "k \<in> (\<Inter>m\<in>{Suc n..}. key ` behind (Some ?q) (dbs m))" by simp
        with ys(4) have "k \<in> key ` set ys" by (rule set_mp)
        then show ?thesis by auto
      qed
    qed
    ultimately show ?thesis by blast
  qed
qed

theorem walk_lists_all:
  assumes "\<And>n. good (dbs n)" "finite (\<Union>n. key ` listed (dbs n))"
  shows "\<exists>xs. walkPages (\<lambda>n. serve (dbs n)) base base 0 [] = Some (Inr xs) \<and>
    sorted_wrt (<) (map key xs) \<and> set xs \<subseteq> (\<Union>n. listed (dbs n)) \<and>
    (\<forall>k. (\<forall>n. k \<in> key ` listed (dbs n)) \<longrightarrow> k \<in> key ` set xs)"
proof -
  have "valid_from dbs None" by (simp add: valid_from_def)
  from walk_from [OF assms this, of 0 "[]"] show ?thesis
    by (simp add: path_to_def behind_def subset_iff)
qed

end

end
