(* ===== verification/Listings.thy ===== *)
theory Listings
  imports Paging Volumes Instances
begin

text \<open>
  The listings that are handed out in pages: volumes and snapshots
  (src/internal/platform/volume) and instances (src/internal/platform/instance), each
  a query that continues behind a cursor and a handler that makes the next cursor out
  of the last row. They are interpretations of the contract of theory Paging, so the
  client's walk over any of them ends and misses nothing. Rows are given as the
  tables have them; their JSON form is not modelled.
\<close>

section \<open>The text of an instant\<close>

text \<open>
  \<open>time.RFC3339Nano\<close> of a UTC instant, counted in nanoseconds from the start of year
  1: cycles of 400, 100, 4 and 1 years, then the month by the lengths of the months.
\<close>

definition pad_number :: "nat \<Rightarrow> int \<Rightarrow> string" where
  "pad_number w n = (let ds = itoa n in replicate (w - length ds) CHR ''0'' @ ds)"

definition is_leap :: "int \<Rightarrow> bool" where
  "is_leap y \<longleftrightarrow> y mod 4 = 0 \<and> (y mod 100 \<noteq> 0 \<or> y mod 400 = 0)"

definition civil_year :: "int \<Rightarrow> int \<times> int" where
  "civil_year d =
     (let n400 = d div 146097; d1 = d mod 146097;
          n100 = min 3 (d1 div 36524); d2 = d1 - n100 * 36524;
          n4 = d2 div 1461; d3 = d2 mod 1461;
          n1 = min 3 (d3 div 365)
      in (400 * n400 + 100 * n100 + 4 * n4 + n1 + 1, d3 - n1 * 365))"

fun civil_month :: "int list \<Rightarrow> int \<Rightarrow> int \<Rightarrow> int \<times> int" where
  "civil_month [] mon d = (mon, d + 1)"
| "civil_month (len # lens) mon d =
     (if d < len then (mon, d + 1) else civil_month lens (mon + 1) (d - len))"

definition rfc3339nano :: "go_time \<Rightarrow> string" where
  "rfc3339nano t =
     (let secs = t div second;
          (y, yday) = civil_year (secs div 86400);
          (mon, mday) = civil_month [31, if is_leap y then 29 else 28, 31, 30, 31, 30, 31, 31, 30, 31, 30] 1 yday;
          sod = secs mod 86400
      in pad_number 4 y @ ''-'' @ pad_number 2 mon @ ''-'' @ pad_number 2 mday @ ''T'' @
         pad_number 2 (sod div 3600) @ '':'' @ pad_number 2 (sod div 60 mod 60) @ '':'' @
         pad_number 2 (sod mod 60) @ nano_text (t mod second))"

lemma rfc3339nano_example: "rfc3339nano (63869731200 * second + 250000000) = ''2024-12-14T00:00:00.25Z''"
  by code_simp

lemma digit_not_nul: "is_digit c \<Longrightarrow> c \<noteq> CHR 0x00"
proof -
  have "\<not> is_digit CHR 0x00" by code_simp
  then show "is_digit c \<Longrightarrow> c \<noteq> CHR 0x00" by auto
qed

lemma itoa_no_nul: "CHR 0x00 \<notin> set (itoa n)"
proof -
  obtain pre ds where "itoa n = pre @ ds" "list_all is_digit ds" "pre \<in> {[], ''-''}"
    using itoa_shape by blast
  then show ?thesis using digit_not_nul by (auto simp: list_all_iff)
qed

lemma nano_text_no_nul: "CHR 0x00 \<notin> set (nano_text n)"
proof -
  have digit: "is_digit (char_of (48 + nat (n div 10 ^ k mod 10)))" for k
    by (rule digit_char) (simp add: nat_less_iff)
  let ?ds = "map (\<lambda>k. char_of (48 + nat (n div 10 ^ k mod 10))) (rev [0..<9])"
  have "CHR 0x00 \<notin> set ?ds" using digit digit_not_nul by (fastforce simp only: set_map)
  then show ?thesis
    unfolding nano_text_def Let_def by (auto simp del: set_map dest!: set_dropWhileD)
qed

lemma rfc3339nano_cursor: "CHR 0x00 \<notin> set (rfc3339nano t)" "rfc3339nano t \<noteq> []"
  using itoa_no_nul nano_text_no_nul
  by (auto simp: rfc3339nano_def pad_number_def Let_def split: prod.split)

section \<open>Listing behind a cursor\<close>

text \<open>
  The condition and order that the three queries share, with the column they order by
  and the id: \<open>(? = '' OR o > ? OR (o = ? AND id > ?)) ORDER BY o, id LIMIT ?\<close>.
\<close>

definition after_rows :: "('r \<Rightarrow> string) \<Rightarrow> ('r \<Rightarrow> string) \<Rightarrow> window \<Rightarrow> 'r list \<Rightarrow> 'r list" where
  "after_rows ord rid w rows =
     (let after = win_After w
      in take (nat (win_Limit w)) (sort_key (\<lambda>r. (ord r, rid r))
           (filter (\<lambda>r. cur_Order after = [] \<or> cur_Order after < ord r \<or>
                     (ord r = cur_Order after \<and> cur_ID after < rid r)) rows)))"

abbreviation (input) page_Default :: int where "page_Default \<equiv> 100"
abbreviation (input) page_Max :: int where "page_Max \<equiv> 500"

definition repo_vol_pageIn :: "vol_db \<Rightarrow> string \<Rightarrow> window \<Rightarrow> volume list" where
  "repo_vol_pageIn db pid w =
     after_rows v_Name v_ID w (filter (\<lambda>v. v_ProjectID v = pid) (vol_rows db))"

definition repo_snapshotsPageIn :: "vol_db \<Rightarrow> string \<Rightarrow> window \<Rightarrow> snapshot list" where
  "repo_snapshotsPageIn db pid w =
     after_rows (\<lambda>s. rfc3339nano (sn_CreatedAt s)) sn_ID w
       (filter (\<lambda>s. list_ex (\<lambda>v. v_ID v = sn_VolumeID s \<and> v_ProjectID v = pid) (vol_rows db))
         (snap_rows db))"

definition repo_inst_pageIn :: "inst_db \<Rightarrow> string \<Rightarrow> window \<Rightarrow> instance_row list" where
  "repo_inst_pageIn db pid w =
     after_rows (\<lambda>r. rfc3339nano (i_CreatedAt r)) i_ID w
       (filter (\<lambda>r. i_ProjectID r = pid) (instances db))"

text \<open>The handlers: a bad window is refused, a full page carries the cursor of its last row.\<close>

definition vol_mark :: "volume \<Rightarrow> string" where
  "vol_mark v = page_Encode (v_Name v) (v_ID v)"

definition snap_mark :: "snapshot \<Rightarrow> string" where
  "snap_mark s = page_Encode (rfc3339nano (sn_CreatedAt s)) (sn_ID s)"

definition inst_mark :: "instance_row \<Rightarrow> string" where
  "inst_mark r = page_Encode (rfc3339nano (i_CreatedAt r)) (i_ID r)"

definition handler_vol_list :: "string \<Rightarrow> vol_db \<Rightarrow> string \<Rightarrow> (volume list \<times> string) result" where
  "handler_vol_list pid db path =
     (case page_From (query_Get path) page_Default page_Max of
        None \<Rightarrow> Inl (Invalid ''invalid_page'')
      | Some w \<Rightarrow>
          (let vs = repo_vol_pageIn db pid w in Inr (vs, next_mark vol_mark (win_Limit w) vs)))"

definition handler_listSnapshots :: "string \<Rightarrow> vol_db \<Rightarrow> string \<Rightarrow> (snapshot list \<times> string) result" where
  "handler_listSnapshots pid db path =
     (case page_From (query_Get path) page_Default page_Max of
        None \<Rightarrow> Inl (Invalid ''invalid_page'')
      | Some w \<Rightarrow>
          (let ss = repo_snapshotsPageIn db pid w in Inr (ss, next_mark snap_mark (win_Limit w) ss)))"

definition handler_inst_list :: "string \<Rightarrow> inst_db \<Rightarrow> string \<Rightarrow> (instance_row list \<times> string) result" where
  "handler_inst_list pid db path =
     (case page_From (query_Get path) page_Default page_Max of
        None \<Rightarrow> Inl (Invalid ''invalid_page'')
      | Some w \<Rightarrow>
          (let rs = repo_inst_pageIn db pid w in Inr (rs, next_mark inst_mark (win_Limit w) rs)))"

section \<open>Every page is a page of the listing\<close>

lemma window_first:
  "CHR ''?'' \<notin> set base \<Longrightarrow>
   page_From (query_Get base) page_Default page_Max = Some \<lparr>win_Limit = 100, win_After = no_cursor\<rparr>"
  by (simp add: page_From_def query_Get_base)

lemma window_later:
  assumes "CHR ''?'' \<notin> set base" "CHR 0x00 \<notin> set ord" "ord \<noteq> []"
  shows "page_From (query_Get (base @ ''?after='' @ QueryEscape (page_Encode ord rid))) page_Default page_Max =
    Some \<lparr>win_Limit = 100, win_After = \<lparr>cur_Order = ord, cur_ID = rid\<rparr>\<rparr>"
  using assms page_Encode_plain [of ord rid]
  by (simp add: page_From_def query_Get_after page_roundtrip del: append_Cons append_assoc)

lemma after_rows_first:
  assumes "distinct (map (\<lambda>r. (ord r, rid r)) rows)" "\<And>r. r \<in> set rows \<Longrightarrow> ord r \<noteq> []"
  defines "xs \<equiv> after_rows ord rid \<lparr>win_Limit = 100, win_After = no_cursor\<rparr> rows"
  shows "page_of (\<lambda>r. (ord r, rid r)) (\<lambda>r. page_Encode (ord r) (rid r)) (set rows)
    xs (next_mark (\<lambda>r. page_Encode (ord r) (rid r)) 100 xs)"
  unfolding xs_def
  using sorted_take_page [of "\<lambda>r. (ord r, rid r)" rows 100 "\<lambda>r. page_Encode (ord r) (rid r)"] assms
  by (simp add: after_rows_def)

lemma after_rows_later:
  assumes "distinct (map (\<lambda>r. (ord r, rid r)) rows)" "\<And>r. r \<in> set rows \<Longrightarrow> ord r \<noteq> []"
    "ord q \<noteq> []"
  defines "xs \<equiv> after_rows ord rid \<lparr>win_Limit = 100, win_After = \<lparr>cur_Order = ord q, cur_ID = rid q\<rparr>\<rparr> rows"
  shows "page_of (\<lambda>r. (ord r, rid r)) (\<lambda>r. page_Encode (ord r) (rid r))
    {s \<in> set rows. (ord q, rid q) < (ord s, rid s)}
    xs (next_mark (\<lambda>r. page_Encode (ord r) (rid r)) 100 xs)"
proof -
  let ?rows = "filter (\<lambda>s. (ord q, rid q) < (ord s, rid s)) rows"
  have "xs = take (nat 100) (sort_key (\<lambda>r. (ord r, rid r)) ?rows)"
    using assms(3) by (simp add: xs_def after_rows_def less_prod_def' eq_commute [of "ord q"])
  moreover have "distinct (map (\<lambda>r. (ord r, rid r)) ?rows)" using assms(1) by (rule distinct_map_filter)
  ultimately show ?thesis
    using sorted_take_page [of "\<lambda>r. (ord r, rid r)" ?rows 100 "\<lambda>r. page_Encode (ord r) (rid r)"] assms(2)
    by simp
qed

definition inst_key :: "instance_row \<Rightarrow> string \<times> string" where
  "inst_key r = (rfc3339nano (i_CreatedAt r), i_ID r)"

definition snap_key :: "snapshot \<Rightarrow> string \<times> string" where
  "snap_key s = (rfc3339nano (sn_CreatedAt s), sn_ID s)"

definition vol_key :: "volume \<Rightarrow> string \<times> string" where
  "vol_key v = (v_Name v, v_ID v)"

definition inst_in :: "string \<Rightarrow> inst_db \<Rightarrow> instance_row set" where
  "inst_in pid db = {r \<in> set (instances db). i_ProjectID r = pid}"

definition snap_in :: "string \<Rightarrow> vol_db \<Rightarrow> snapshot set" where
  "snap_in pid db =
     {s \<in> set (snap_rows db). \<exists>v\<in>set (vol_rows db). v_ID v = sn_VolumeID s \<and> v_ProjectID v = pid}"

definition vol_in :: "string \<Rightarrow> vol_db \<Rightarrow> volume set" where
  "vol_in pid db = {v \<in> set (vol_rows db). v_ProjectID v = pid}"

definition named_vols :: "vol_db \<Rightarrow> bool" where
  "named_vols db \<longleftrightarrow> vol_wf db \<and> list_all (\<lambda>v. name_pattern (v_Name v)) (vol_rows db)"

lemma distinct_pair: "distinct (map g rows) \<Longrightarrow> distinct (map (\<lambda>r. (f r, g r)) rows)"
  by (induction rows) auto

lemma name_pattern_cursor: "name_pattern s \<Longrightarrow> CHR 0x00 \<notin> set s \<and> s \<noteq> []"
proof -
  have "\<not> name_inner CHR 0x00" by code_simp
  then show "name_pattern s \<Longrightarrow> CHR 0x00 \<notin> set s \<and> s \<noteq> []"
    by (auto simp: name_pattern_iff list_all_iff)
qed

text \<open>One request of a listing with these columns, whatever its handler is called.\<close>

definition list_answer ::
    "('r \<Rightarrow> string) \<Rightarrow> ('r \<Rightarrow> string) \<Rightarrow> 'r list \<Rightarrow> string \<Rightarrow> ('r list \<times> string) result" where
  "list_answer ord rid rows path =
     (case page_From (query_Get path) page_Default page_Max of
        None \<Rightarrow> Inl (Invalid ''invalid_page'')
      | Some w \<Rightarrow>
          (let rs = after_rows ord rid w rows
           in Inr (rs, next_mark (\<lambda>r. page_Encode (ord r) (rid r)) (win_Limit w) rs)))"

lemma list_answer_first:
  assumes "CHR ''?'' \<notin> set base" "distinct (map rid rows)" "\<And>r. r \<in> set rows \<Longrightarrow> ord r \<noteq> []"
  shows "\<exists>xs nxt. list_answer ord rid rows base = Inr (xs, nxt) \<and>
    page_of (\<lambda>r. (ord r, rid r)) (\<lambda>r. page_Encode (ord r) (rid r)) (set rows) xs nxt"
  using after_rows_first [of ord rid rows, OF distinct_pair [OF assms(2)] assms(3)] assms(1)
  by (simp add: list_answer_def window_first Let_def)

lemma list_answer_later:
  assumes "CHR ''?'' \<notin> set base" "distinct (map rid rows)" "\<And>r. r \<in> set rows \<Longrightarrow> ord r \<noteq> []"
    "CHR 0x00 \<notin> set (ord q)" "ord q \<noteq> []"
  shows "\<exists>xs nxt. list_answer ord rid rows (base @ ''?after='' @ QueryEscape (page_Encode (ord q) (rid q))) = Inr (xs, nxt) \<and>
    page_of (\<lambda>r. (ord r, rid r)) (\<lambda>r. page_Encode (ord r) (rid r))
      {s \<in> set rows. (ord q, rid q) < (ord s, rid s)} xs nxt"
  using after_rows_later [of ord rid rows q, OF distinct_pair [OF assms(2)] assms(3,5)]
  unfolding list_answer_def window_later [OF assms(1,4,5)]
  by (simp add: Let_def)

lemma handlers_are_listings:
  "handler_inst_list pid idb =
     list_answer (\<lambda>r. rfc3339nano (i_CreatedAt r)) i_ID (filter (\<lambda>r. i_ProjectID r = pid) (instances idb))"
  "handler_listSnapshots pid db =
     list_answer (\<lambda>s. rfc3339nano (sn_CreatedAt s)) sn_ID
       (filter (\<lambda>s. list_ex (\<lambda>v. v_ID v = sn_VolumeID s \<and> v_ProjectID v = pid) (vol_rows db)) (snap_rows db))"
  "handler_vol_list pid db =
     list_answer v_Name v_ID (filter (\<lambda>v. v_ProjectID v = pid) (vol_rows db))"
  by (simp_all add: fun_eq_iff list_answer_def handler_inst_list_def repo_inst_pageIn_def inst_mark_def [abs_def]
      handler_listSnapshots_def repo_snapshotsPageIn_def snap_mark_def [abs_def]
      handler_vol_list_def repo_vol_pageIn_def vol_mark_def [abs_def] cong: option.case_cong)

lemma listed_rows:
  "inst_in pid idb = set (filter (\<lambda>r. i_ProjectID r = pid) (instances idb))"
  "snap_in pid db =
     set (filter (\<lambda>s. list_ex (\<lambda>v. v_ID v = sn_VolumeID s \<and> v_ProjectID v = pid) (vol_rows db)) (snap_rows db))"
  "vol_in pid db = set (filter (\<lambda>v. v_ProjectID v = pid) (vol_rows db))"
  by (auto simp: inst_in_def snap_in_def vol_in_def list_ex_iff)

lemmas listing_keys = inst_key_def [abs_def] snap_key_def [abs_def] vol_key_def [abs_def]
  inst_mark_def [abs_def] snap_mark_def [abs_def] vol_mark_def [abs_def]

interpretation instance_list:
  keyset_listing "handler_inst_list pid" "inst_in pid" inst_wf inst_key inst_mark "''/v1/instances''"
  for pid
proof (unfold_locales, goal_cases)
  case (2 db)
  then show ?case unfolding handlers_are_listings listed_rows listing_keys
    by (intro list_answer_first distinct_map_filter rfc3339nano_cursor) (simp_all add: inst_wf_def)
next
  case (3 db db' q)
  then show ?case unfolding handlers_are_listings listed_rows listing_keys
    by (intro list_answer_later distinct_map_filter rfc3339nano_cursor) (simp_all add: inst_wf_def)
qed simp

interpretation snapshot_list:
  keyset_listing "handler_listSnapshots pid" "snap_in pid" vol_wf snap_key snap_mark "''/v1/snapshots''"
  for pid
proof (unfold_locales, goal_cases)
  case (2 db)
  then show ?case unfolding handlers_are_listings listed_rows listing_keys
    by (intro list_answer_first distinct_map_filter rfc3339nano_cursor) (simp_all add: vol_wf_def snaps_wf_def)
next
  case (3 db db' q)
  then show ?case unfolding handlers_are_listings listed_rows listing_keys
    by (intro list_answer_later distinct_map_filter rfc3339nano_cursor) (simp_all add: vol_wf_def snaps_wf_def)
qed simp

interpretation volume_list:
  keyset_listing "handler_vol_list pid" "vol_in pid" named_vols vol_key vol_mark "''/v1/volumes''"
  for pid
proof (unfold_locales, goal_cases)
  case (2 db)
  then show ?case unfolding handlers_are_listings listed_rows listing_keys
    by (intro list_answer_first distinct_map_filter)
      (auto simp: named_vols_def vol_wf_def vols_wf_def list_all_iff dest!: name_pattern_cursor)
next
  case (3 db db' q)
  then have "name_pattern (v_Name q)" by (auto simp: named_vols_def list_all_iff vol_in_def)
  with 3 show ?case unfolding handlers_are_listings listed_rows listing_keys
    by (intro list_answer_later distinct_map_filter)
      (auto simp: named_vols_def vol_wf_def vols_wf_def list_all_iff dest!: name_pattern_cursor)
qed simp

section \<open>The client's walk\<close>

text \<open>
  C32: However other clients add, change and remove instances between its requests, the
  command line's listing of a project ends as long as there are finitely many
  instances at all, and gives only instances of the project, in the order of creation
  and never one twice; an instance that is there all along is not missed.
\<close>

theorem instance_walk_complete:
  assumes "\<And>n. inst_wf (dbs n)" "finite (\<Union>n. inst_key ` inst_in pid (dbs n))"
  shows "\<exists>xs. walkPages (\<lambda>n. handler_inst_list pid (dbs n)) ''/v1/instances'' ''/v1/instances'' 0 [] =
      Some (Inr xs) \<and>
    sorted_wrt (<) (map inst_key xs) \<and>
    (\<forall>r\<in>set xs. \<exists>n. r \<in> set (instances (dbs n)) \<and> i_ProjectID r = pid) \<and>
    (\<forall>k. (\<forall>n. k \<in> inst_key ` inst_in pid (dbs n)) \<longrightarrow> k \<in> inst_key ` set xs)"
proof -
  obtain xs where "walkPages (\<lambda>n. handler_inst_list pid (dbs n)) ''/v1/instances'' ''/v1/instances'' 0 [] = Some (Inr xs)"
    "sorted_wrt (<) (map inst_key xs)" "set xs \<subseteq> (\<Union>n. inst_in pid (dbs n))"
    "\<forall>k. (\<forall>n. k \<in> inst_key ` inst_in pid (dbs n)) \<longrightarrow> k \<in> inst_key ` set xs"
    using instance_list.walk_lists_all [OF assms] by blast
  then show ?thesis by (fastforce simp: inst_in_def)
qed

definition busier_db :: inst_db where
  "busier_db = fst (snd (inst_create no_deps ''i_2'' 7 tiny_db () (tiny_params\<lparr>c_Name := ''db''\<rparr>)))"

theorem instance_walk_complete_witness:
  "\<exists>xs. walkPages (\<lambda>n. handler_inst_list ''p1'' (if n = 0 then tiny_db else busier_db))
      ''/v1/instances'' ''/v1/instances'' 0 [] = Some (Inr xs) \<and>
    (''0001-01-01T00:00:00.000000005Z'', ''i_1'') \<in> inst_key ` set xs"
proof -
  let ?dbs = "\<lambda>n :: nat. if n = 0 then tiny_db else busier_db"
  have "(inst_step no_deps)\<^sup>*\<^sup>* empty_inst_db busier_db"
    unfolding busier_db_def by (rule rtranclp.rtrancl_into_rtrancl [OF tiny_reachable], rule inst_step.create)
  then have wf: "inst_wf (?dbs n)" for n
    using reachable_inst_wf [of no_deps busier_db] reachable_inst_wf [OF tiny_reachable] by (simp split: if_split)
  have "(\<Union>n. inst_key ` inst_in ''p1'' (?dbs n)) \<subseteq> inst_key ` (set (instances tiny_db) \<union> set (instances busier_db))"
    by (auto simp: inst_in_def split: if_splits)
  then have fin: "finite (\<Union>n. inst_key ` inst_in ''p1'' (?dbs n))" by (rule finite_subset) simp
  have "\<forall>db\<in>set [tiny_db, busier_db]. list_ex (\<lambda>r. i_ProjectID r = ''p1'' \<and>
      inst_key r = (''0001-01-01T00:00:00.000000005Z'', ''i_1'')) (instances db)" by code_simp
  then have "\<forall>n. (''0001-01-01T00:00:00.000000005Z'', ''i_1'') \<in> inst_key ` inst_in ''p1'' (?dbs n)"
    by (force simp: inst_in_def list_ex_iff)
  then show ?thesis using instance_walk_complete [of ?dbs "''p1''", OF wf fin] by blast
qed

end
