(* ===== verification/EventLog.thy ===== *)
theory EventLog
  imports Paging
begin

text \<open>
  The event log, src/internal/platform/event, and the audit log,
  src/internal/platform/audit: tables whose ids SQLite counts up and never reuses, a
  service that prunes them every so many records, and listings that go backwards from
  a cursor. A database error is not modelled. The locale \<open>event_feed\<close> is what the
  webhook module relies on, \<open>Since\<close> and \<open>NewestID\<close>.
\<close>

section \<open>Events\<close>

abbreviation (input) ev_DefaultLimit :: int where "ev_DefaultLimit \<equiv> 100"
abbreviation (input) ev_MaxLimit :: int where "ev_MaxLimit \<equiv> 500"
abbreviation (input) ev_Retain :: int where "ev_Retain \<equiv> 20000"
abbreviation (input) PruneEvery :: int where "PruneEvery \<equiv> 500"
abbreviation (input) MaxMessage :: nat where "MaxMessage \<equiv> 500"
abbreviation (input) MaxKind :: nat where "MaxKind \<equiv> 60"

record event_row =
  ev_ID :: int
  ev_At :: go_time
  ev_ProjectID :: string
  ev_Kind :: string
  ev_Subject :: string
  ev_NodeID :: string
  ev_Message :: string
  ev_Severity :: string

record event_filter =
  ef_ProjectID :: string
  ef_Subject :: string
  ef_Kind :: string
  ef_Severity :: string
  ef_Limit :: int
  ef_Before :: int

text \<open>
  The table, the counter of its ids, and the service's count since the last pruning. The
  first two are in the database; the count is in memory and begins at 0 whenever the
  control plane starts, \<open>newService\<close>.
\<close>

record event_log =
  ev_rows :: "event_row list"
  ev_seq :: int
  ev_seen :: int

definition repo_event_insert :: "event_log \<Rightarrow> event_row \<Rightarrow> event_log" where
  "repo_event_insert l e =
     l\<lparr>ev_rows := ev_rows l @ [e\<lparr>ev_ID := ev_seq l + 1\<rparr>], ev_seq := ev_seq l + 1\<rparr>"

definition repo_event_list :: "event_log \<Rightarrow> event_filter \<Rightarrow> event_row list" where
  "repo_event_list l f =
     take (nat (ef_Limit f)) (sort_key (\<lambda>e. - ev_ID e)
       (filter (\<lambda>e. ev_ProjectID e = ef_ProjectID f \<and>
          (ef_Subject f = [] \<or> ev_Subject e = ef_Subject f) \<and>
          (ef_Kind f = [] \<or> ev_Kind e = ef_Kind f) \<and>
          (ef_Severity f = [] \<or> ev_Severity e = ef_Severity f) \<and>
          (ef_Before f = 0 \<or> ev_ID e < ef_Before f)) (ev_rows l)))"

definition repo_event_since :: "event_log \<Rightarrow> int \<Rightarrow> int \<Rightarrow> event_row list" where
  "repo_event_since l afterID limit =
     take (nat limit) (sort_key ev_ID (filter (\<lambda>e. afterID < ev_ID e) (ev_rows l)))"

text \<open>The maximum of no rows is NULL, which reads as 0.\<close>

definition repo_event_newestID :: "event_log \<Rightarrow> int" where
  "repo_event_newestID l = (if ev_rows l = [] then 0 else Max (ev_ID ` set (ev_rows l)))"

definition repo_event_prune :: "event_log \<Rightarrow> int \<Rightarrow> event_log" where
  "repo_event_prune l keep =
     l\<lparr>ev_rows := filter (\<lambda>e. \<not> ev_ID e \<le> Max (ev_ID ` set (ev_rows l)) - keep) (ev_rows l)\<rparr>"

definition repo_event_count :: "event_log \<Rightarrow> int" where
  "repo_event_count l = int (length (ev_rows l))"

definition severityOf :: "severity \<Rightarrow> string" where
  "severityOf s = (case s of Warn \<Rightarrow> ''warn'' | SevError \<Rightarrow> ''error'' | Info \<Rightarrow> ''info'')"

definition ev_clip :: "string \<Rightarrow> nat \<Rightarrow> string" where
  "ev_clip value limit = (if length value \<le> limit then value else take limit value)"

definition dueForPrune :: "event_log \<Rightarrow> bool \<times> event_log" where
  "dueForPrune l =
     (if ev_seen l + 1 < PruneEvery then (False, l\<lparr>ev_seen := ev_seen l + 1\<rparr>)
      else (True, l\<lparr>ev_seen := 0\<rparr>))"

definition event_record :: "go_time \<Rightarrow> entry \<Rightarrow> event_log \<Rightarrow> event_log" where
  "event_record now e l =
     (if e_Kind e = [] then l
      else
        (let l1 = repo_event_insert l
               \<lparr>ev_ID = 0, ev_At = now, ev_ProjectID = e_ProjectID e, ev_Kind = ev_clip (e_Kind e) MaxKind,
                ev_Subject = e_Subject e, ev_NodeID = e_NodeID e,
                ev_Message = ev_clip (e_Message e) MaxMessage, ev_Severity = severityOf (e_Severity e)\<rparr>;
             (due, l2) = dueForPrune l1
         in if due then repo_event_prune l2 ev_Retain else l2))"

definition event_newService :: "event_log \<Rightarrow> event_log" where
  "event_newService l = l\<lparr>ev_seen := 0\<rparr>"

definition event_list :: "event_log \<Rightarrow> event_filter \<Rightarrow> event_row list result" where
  "event_list l f0 =
     (let f1 = (if ef_Limit f0 \<le> 0 then f0\<lparr>ef_Limit := ev_DefaultLimit\<rparr> else f0);
          f = (if ev_MaxLimit < ef_Limit f1 then f1\<lparr>ef_Limit := ev_MaxLimit\<rparr> else f1)
      in bindR (if ef_Severity f = [] then Inr ()
                else validate_OneOf ''severity'' (ef_Severity f) [''info'', ''warn'', ''error''])
           (\<lambda>_. Inr (if ef_ProjectID f = [] then [] else repo_event_list l f)))"

definition event_since :: "event_log \<Rightarrow> int \<Rightarrow> int \<Rightarrow> event_row list" where
  "event_since l afterID limit =
     repo_event_since l afterID (if limit \<le> 0 \<or> ev_MaxLimit < limit then ev_MaxLimit else limit)"

definition handler_event_list :: "string \<Rightarrow> event_log \<Rightarrow> string \<Rightarrow> (event_row list \<times> string) result" where
  "handler_event_list pid l path =
     (case page_From (query_Get path) ev_DefaultLimit ev_MaxLimit of
        None \<Rightarrow> Inl (Invalid ''invalid_page'')
      | Some w \<Rightarrow>
          (case page_Back (win_After w) of
             None \<Rightarrow> Inl (Invalid ''invalid_page'')
           | Some before \<Rightarrow>
               bindR (event_list l
                  \<lparr>ef_ProjectID = pid, ef_Subject = query_Get path ''subject'',
                   ef_Kind = query_Get path ''kind'', ef_Severity = query_Get path ''severity'',
                   ef_Limit = win_Limit w, ef_Before = before\<rparr>)
                 (\<lambda>es. Inr (es, next_mark (\<lambda>e. page_Backward (ev_ID e)) (win_Limit w) es))))"

section \<open>The audit log\<close>

abbreviation (input) au_DefaultLimit :: int where "au_DefaultLimit \<equiv> 100"
abbreviation (input) au_MaxLimit :: int where "au_MaxLimit \<equiv> 500"
abbreviation (input) au_Retain :: int where "au_Retain \<equiv> 5000"
abbreviation (input) au_every :: int where "au_every \<equiv> 200"

record audit_record =
  ar_Actor :: string
  ar_UserID :: string
  ar_Role :: string
  ar_ProjectID :: string
  ar_Method :: string
  ar_Path :: string
  ar_Status :: int
  ar_RequestID :: string

record audit_row = audit_record +
  au_ID :: int
  au_At :: go_time

record audit_log =
  au_rows :: "audit_row list"
  au_seq :: int
  au_seen :: int

definition repo_audit_insert :: "audit_log \<Rightarrow> audit_row \<Rightarrow> audit_log" where
  "repo_audit_insert l e =
     l\<lparr>au_rows := au_rows l @ [e\<lparr>au_ID := au_seq l + 1\<rparr>], au_seq := au_seq l + 1\<rparr>"

definition repo_audit_list :: "audit_log \<Rightarrow> int \<Rightarrow> string \<Rightarrow> int \<Rightarrow> audit_row list" where
  "repo_audit_list l limit pid before =
     take (nat limit) (sort_key (\<lambda>e. - au_ID e)
       (filter (\<lambda>e. (ar_ProjectID e = pid \<or> ar_ProjectID e = []) \<and> (before = 0 \<or> au_ID e < before)) (au_rows l)))"

definition repo_audit_prune :: "audit_log \<Rightarrow> int \<Rightarrow> audit_log" where
  "repo_audit_prune l keep =
     l\<lparr>au_rows := filter (\<lambda>e. \<not> au_ID e \<le> Max (au_ID ` set (au_rows l)) - keep) (au_rows l)\<rparr>"

definition audit_record_entry :: "go_time \<Rightarrow> audit_record \<Rightarrow> audit_log \<Rightarrow> audit_log" where
  "audit_record_entry now rec0 l =
     (let l1 = repo_audit_insert l (audit_record.extend rec0 (audit_row.fields 0 now));
          n = au_seen l1 + 1
      in if n < au_every then l1\<lparr>au_seen := n\<rparr>
         else repo_audit_prune (l1\<lparr>au_seen := 0\<rparr>) au_Retain)"

definition audit_newService :: "audit_log \<Rightarrow> audit_log" where
  "audit_newService l = l\<lparr>au_seen := 0\<rparr>"

definition audit_list :: "audit_log \<Rightarrow> int \<Rightarrow> string \<Rightarrow> int \<Rightarrow> audit_row list" where
  "audit_list l limit0 pid before =
     (let limit1 = (if limit0 \<le> 0 then au_DefaultLimit else limit0)
      in repo_audit_list l (if au_MaxLimit < limit1 then au_MaxLimit else limit1) pid before)"

definition handler_audit_list :: "string \<Rightarrow> audit_log \<Rightarrow> string \<Rightarrow> (audit_row list \<times> string) result" where
  "handler_audit_list pid l path =
     (case page_From (query_Get path) au_DefaultLimit au_MaxLimit of
        None \<Rightarrow> Inl (Invalid ''invalid_page'')
      | Some w \<Rightarrow>
          (case page_Back (win_After w) of
             None \<Rightarrow> Inl (Invalid ''invalid_page'')
           | Some before \<Rightarrow>
               (let es = audit_list l (win_Limit w) pid before
                in Inr (es, next_mark (\<lambda>e. page_Backward (au_ID e)) (win_Limit w) es))))"

section \<open>What a log keeps\<close>

text \<open>
  The ids of a table are consecutive and end with the counter; of the newest
  \<open>keep\<close> entries none is missing, and beyond them there are at most \<open>over\<close> more.
\<close>

definition log_ids :: "int \<Rightarrow> int list \<Rightarrow> int \<Rightarrow> int \<Rightarrow> bool" where
  "log_ids keep ids seq over \<longleftrightarrow>
     0 \<le> over \<and> int (length ids) \<le> keep + over \<and>
     (\<exists>lo\<ge>0. lo \<le> max 0 (seq - keep) \<and> lo \<le> seq \<and> ids = [lo + 1..seq])"

lemma upto_snoc: "lo \<le> seq \<Longrightarrow> [lo + 1..seq] @ [seq + 1] = [lo + 1..seq + 1]" for lo seq :: int
  by (simp add: upto_rec2)

lemma log_ids_record:
  assumes "log_ids keep ids seq over"
  shows "log_ids keep (ids @ [seq + 1]) (seq + 1) (over + 1)"
proof -
  obtain lo where "0 \<le> lo" "lo \<le> max 0 (seq - keep)" "lo \<le> seq" "ids = [lo + 1..seq]"
    using assms by (auto simp: log_ids_def)
  then show ?thesis
    using assms upto_snoc [of lo seq] unfolding log_ids_def by (intro conjI exI [of _ lo]) auto
qed

lemma Max_upto: "lo < seq \<Longrightarrow> Max (set [lo + 1..seq]) = seq" for lo seq :: int
  by (intro Max_eqI) auto

lemma filter_upto: "filter (\<lambda>i. b < i) [a..c] = [max a (b + 1)..c]" for a b c :: int
proof (rule sorted_distinct_set_unique)
  show "sorted (filter (\<lambda>i. b < i) [a..c])" by (simp add: sorted_wrt_filter)
qed auto

lemma log_ids_prune:
  assumes "log_ids keep ids seq over" "ids \<noteq> []" "0 \<le> keep"
  shows "log_ids keep (filter (\<lambda>i. \<not> i \<le> Max (set ids) - keep) ids) seq 0"
proof -
  obtain lo where lo: "0 \<le> lo" "lo \<le> max 0 (seq - keep)" "lo \<le> seq" "ids = [lo + 1..seq]"
    using assms by (auto simp: log_ids_def)
  then have "Max (set ids) = seq" using assms(2) Max_upto [of lo seq] by simp
  then have kept: "filter (\<lambda>i. \<not> i \<le> Max (set ids) - keep) ids = [max (lo + 1) (seq - keep + 1)..seq]"
    using lo(4) filter_upto [of "seq - keep" "lo + 1" seq] by (simp add: not_le)
  let ?lo = "max lo (seq - keep)"
  have bound: "max (lo + 1) (seq - keep + 1) = ?lo + 1" by simp
  have "0 \<le> ?lo" "?lo \<le> max 0 (seq - keep)" "?lo \<le> seq" using lo assms(3) by auto
  then show ?thesis unfolding kept bound log_ids_def using assms(3) by (intro conjI exI [of _ ?lo]) auto
qed

lemma log_ids_mono: "log_ids keep ids seq over \<Longrightarrow> over \<le> over' \<Longrightarrow> log_ids keep ids seq over'"
  by (auto simp: log_ids_def)

text \<open>
  The excess over what is kept: up to what was recorded since the last pruning, and for
  each time the control plane was started again up to one less than the entries between
  two prunings.
\<close>

definition log_inv :: "int \<Rightarrow> event_log \<Rightarrow> bool" where
  "log_inv starts l \<longleftrightarrow> 0 \<le> starts \<and> 0 \<le> ev_seen l \<and> ev_seen l < PruneEvery \<and>
     log_ids ev_Retain (map ev_ID (ev_rows l)) (ev_seq l) ((PruneEvery - 1) * starts + ev_seen l)"

definition audit_inv :: "int \<Rightarrow> audit_log \<Rightarrow> bool" where
  "audit_inv starts l \<longleftrightarrow> 0 \<le> starts \<and> 0 \<le> au_seen l \<and> au_seen l < au_every \<and>
     log_ids au_Retain (map au_ID (au_rows l)) (au_seq l) ((au_every - 1) * starts + au_seen l)"

definition log_wf :: "event_log \<Rightarrow> bool" where
  "log_wf l \<longleftrightarrow> (\<exists>starts. log_inv starts l)"

definition audit_wf :: "audit_log \<Rightarrow> bool" where
  "audit_wf l \<longleftrightarrow> (\<exists>starts. audit_inv starts l)"

lemma map_filter_key: "map f (filter (\<lambda>x. P (f x)) xs) = filter P (map f xs)"
  by (induction xs) auto

text \<open>One recording: nothing, an entry more, or an entry more and the excess pruned.\<close>

lemma event_record_cases:
  assumes "log_inv starts l" "event_record now e l = l'"
  shows "log_inv starts l' \<and> (e_Kind e = [] \<and> l' = l \<or>
    e_Kind e \<noteq> [] \<and> (log_inv 0 l' \<or> ev_seen l' = ev_seen l + 1))"
proof -
  define row where "row = \<lparr>ev_ID = ev_seq l + 1, ev_At = now, ev_ProjectID = e_ProjectID e,
    ev_Kind = ev_clip (e_Kind e) MaxKind, ev_Subject = e_Subject e, ev_NodeID = e_NodeID e,
    ev_Message = ev_clip (e_Message e) MaxMessage, ev_Severity = severityOf (e_Severity e)\<rparr>"
  let ?rows = "ev_rows l @ [row]" and ?over = "(PruneEvery - 1) * starts + ev_seen l"
  have ids: "log_ids ev_Retain (map ev_ID ?rows) (ev_seq l + 1) (?over + 1)"
    using log_ids_record [of ev_Retain "map ev_ID (ev_rows l)" "ev_seq l" ?over] assms(1) by (simp add: log_inv_def row_def)
  have pruned: "log_ids ev_Retain (map ev_ID (filter (\<lambda>e. \<not> ev_ID e \<le> Max (ev_ID ` set ?rows) - ev_Retain) ?rows))
      (ev_seq l + 1) 0"
    using log_ids_prune [OF ids] map_filter_key [of ev_ID "\<lambda>i. \<not> i \<le> Max (ev_ID ` set ?rows) - ev_Retain" ?rows]
    by simp
  let ?kept = "filter (\<lambda>e. \<not> ev_ID e \<le> Max (ev_ID ` set ?rows) - ev_Retain) ?rows"
  have l': "l' = (if e_Kind e = [] then l
      else if ev_seen l + 1 < PruneEvery then l\<lparr>ev_rows := ?rows, ev_seq := ev_seq l + 1, ev_seen := ev_seen l + 1\<rparr>
      else l\<lparr>ev_rows := ?kept, ev_seq := ev_seq l + 1, ev_seen := 0\<rparr>)"
    unfolding assms(2) [symmetric]
    by (simp add: event_record_def dueForPrune_def repo_event_insert_def repo_event_prune_def row_def)
  show ?thesis
  proof (cases "e_Kind e = [] \<or> ev_seen l + 1 < PruneEvery")
    case True
    with assms(1) ids show ?thesis by (auto simp: l' log_inv_def add.assoc)
  next
    case False
    then have eq: "l' = l\<lparr>ev_rows := ?kept, ev_seq := ev_seq l + 1, ev_seen := 0\<rparr>" and kind: "e_Kind e \<noteq> []"
      using l' by simp_all
    have zero: "log_inv 0 l'" using pruned unfolding eq by (simp add: log_inv_def)
    then have "log_inv starts l'"
      using assms(1) log_ids_mono [of ev_Retain "map ev_ID (ev_rows l')" "ev_seq l'" "ev_seen l'"
          "(PruneEvery - 1) * starts + ev_seen l'"] by (simp add: log_inv_def)
    with zero kind show ?thesis by blast
  qed
qed

lemma event_record_wf: "log_wf l \<Longrightarrow> log_wf (event_record now e l)"
  using event_record_cases unfolding log_wf_def by blast

lemma event_newService_inv: "log_inv starts l \<Longrightarrow> log_inv (starts + 1) (event_newService l)"
  by (auto simp: log_inv_def event_newService_def algebra_simps intro: log_ids_mono)

lemma event_newService_wf: "log_wf l \<Longrightarrow> log_wf (event_newService l)"
  using event_newService_inv unfolding log_wf_def by blast

lemma audit_record_wf:
  assumes "audit_wf l"
  shows "audit_wf (audit_record_entry now rec0 l)"
proof -
  from assms obtain starts where inv: "audit_inv starts l" by (auto simp: audit_wf_def)
  let ?rows = "au_rows l @ [(audit_record.extend rec0 (audit_row.fields 0 now))\<lparr>au_ID := au_seq l + 1\<rparr>]"
  let ?over = "(au_every - 1) * starts + au_seen l"
  have ids: "log_ids au_Retain (map au_ID ?rows) (au_seq l + 1) (?over + 1)"
    using log_ids_record [of au_Retain "map au_ID (au_rows l)" "au_seq l" ?over] inv by (simp add: audit_inv_def)
  have "log_ids au_Retain (map au_ID (filter (\<lambda>e. \<not> au_ID e \<le> Max (au_ID ` set ?rows) - au_Retain) ?rows))
      (au_seq l + 1) 0"
    using log_ids_prune [OF ids] map_filter_key [of au_ID "\<lambda>i. \<not> i \<le> Max (au_ID ` set ?rows) - au_Retain" ?rows]
    by simp
  then have "audit_inv (if au_seen l + 1 < au_every then starts else 0) (audit_record_entry now rec0 l)"
    using inv ids by (simp add: audit_record_entry_def Let_def repo_audit_insert_def repo_audit_prune_def audit_inv_def add.assoc)
  then show ?thesis unfolding audit_wf_def by blast
qed

lemma audit_newService_wf: "audit_wf l \<Longrightarrow> audit_wf (audit_newService l)"
proof -
  have "audit_inv starts l \<Longrightarrow> audit_inv (starts + 1) (audit_newService l)" for starts
    by (auto simp: audit_inv_def audit_newService_def algebra_simps intro: log_ids_mono)
  then show "audit_wf l \<Longrightarrow> audit_wf (audit_newService l)" unfolding audit_wf_def by blast
qed

abbreviation empty_log :: event_log where "empty_log \<equiv> \<lparr>ev_rows = [], ev_seq = 0, ev_seen = 0\<rparr>"
abbreviation empty_audit :: audit_log where "empty_audit \<equiv> \<lparr>au_rows = [], au_seq = 0, au_seen = 0\<rparr>"

text \<open>What happens to a log: a recording, or the control plane starts again on its database.\<close>

datatype log_step = Record go_time entry | Restart

fun log_apply :: "log_step \<Rightarrow> event_log \<Rightarrow> event_log" where
  "log_apply (Record now e) l = event_record now e l"
| "log_apply Restart l = event_newService l"

definition recorded_in :: "log_step list \<Rightarrow> nat" where
  "recorded_in steps = length (filter (\<lambda>x. case x of Record _ e \<Rightarrow> e_Kind e \<noteq> [] | Restart \<Rightarrow> False) steps)"

abbreviation (input) restarts_in :: "log_step list \<Rightarrow> nat" where
  "restarts_in steps \<equiv> count_list steps Restart"

lemma log_run_inv:
  "log_inv starts l \<Longrightarrow> log_inv (starts + int (restarts_in steps)) (fold log_apply steps l)"
proof (induction steps arbitrary: starts l)
  case (Cons x steps)
  show ?case
  proof (cases x)
    case (Record now e)
    with Cons.IH event_record_cases [OF Cons.prems, of now e] show ?thesis by simp
  next
    case Restart
    with Cons.IH [OF event_newService_inv [OF Cons.prems]] show ?thesis by (simp add: algebra_simps)
  qed
qed simp

lemma empty_log_inv: "log_inv 0 empty_log"
  by (auto simp: log_inv_def log_ids_def intro: exI [of _ 0])

lemma event_log_wf: "log_wf (fold log_apply steps empty_log)"
  using log_run_inv [OF empty_log_inv, of steps] unfolding log_wf_def by blast

text \<open>Without a restart, a log has been pruned or its count has gone up by one per entry.\<close>

lemma log_run_counts:
  assumes "Restart \<notin> set steps" "log_inv starts l"
  shows "log_inv 0 (fold log_apply steps l) \<or> ev_seen (fold log_apply steps l) = ev_seen l + int (recorded_in steps)"
  using assms
proof (induction steps arbitrary: starts l)
  case (Cons x steps)
  then obtain now e where x: "x = Record now e" by (cases x) auto
  let ?l = "event_record now e l"
  note step = event_record_cases [OF Cons.prems(2) refl, of now e]
  then have inv: "log_inv starts ?l" by blast
  have rest: "log_inv 0 (fold log_apply steps ?l) \<or>
      ev_seen (fold log_apply steps ?l) = ev_seen ?l + int (recorded_in steps)"
    using Cons.IH [OF _ inv] Cons.prems(1) by simp
  moreover have "log_inv 0 (fold log_apply steps ?l)" if "log_inv 0 ?l"
    using log_run_inv [OF that, of steps] Cons.prems(1) by (simp add: count_notin)
  ultimately show ?case using step by (auto simp: x recorded_in_def)
qed (simp add: recorded_in_def)

lemma log_bounds:
  assumes "log_ids keep ids seq over" "0 \<le> keep"
  shows "int (length ids) \<le> keep + over" "distinct ids" "{max 1 (seq - keep + 1)..seq} \<subseteq> set ids"
    "\<And>i. i \<in> set ids \<Longrightarrow> 1 \<le> i \<and> i \<le> seq"
  using assms by (auto simp: log_ids_def)

lemma log_wf_ids:
  assumes "log_wf l"
  shows "distinct (map ev_ID (ev_rows l))" "e \<in> set (ev_rows l) \<Longrightarrow> 1 \<le> ev_ID e \<and> ev_ID e \<le> ev_seq l"
proof -
  from assms obtain over where ids: "log_ids ev_Retain (map ev_ID (ev_rows l)) (ev_seq l) over"
    by (auto simp: log_wf_def log_inv_def)
  show "distinct (map ev_ID (ev_rows l))" using log_bounds(2) [OF ids] by simp
  show "e \<in> set (ev_rows l) \<Longrightarrow> 1 \<le> ev_ID e \<and> ev_ID e \<le> ev_seq l" using log_bounds(4) [OF ids, of "ev_ID e"] by simp
qed

lemma audit_wf_ids:
  assumes "audit_wf l"
  shows "distinct (map au_ID (au_rows l))" "e \<in> set (au_rows l) \<Longrightarrow> 1 \<le> au_ID e \<and> au_ID e \<le> au_seq l"
proof -
  from assms obtain over where ids: "log_ids au_Retain (map au_ID (au_rows l)) (au_seq l) over"
    by (auto simp: audit_wf_def audit_inv_def)
  show "distinct (map au_ID (au_rows l))" using log_bounds(2) [OF ids] by simp
  show "e \<in> set (au_rows l) \<Longrightarrow> 1 \<le> au_ID e \<and> au_ID e \<le> au_seq l" using log_bounds(4) [OF ids, of "au_ID e"] by simp
qed

text \<open>
  C36: Whatever is recorded and however often the control plane starts again, the event
  log gives every entry its own id and has each of the newest 20000 ids; each start
  allows it at most 499 entries more than that, and once 500 entries were recorded
  since the last start it holds at most 20499.
\<close>

theorem event_log_retention:
  "let l = fold log_apply steps empty_log
   in distinct (map ev_ID (ev_rows l)) \<and>
      {max 1 (ev_seq l - 19999)..ev_seq l} \<subseteq> ev_ID ` set (ev_rows l) \<and>
      repo_event_count l \<le> 20000 + 499 * (1 + int (restarts_in steps)) \<and>
      (\<forall>pre post. steps = pre @ post \<and> Restart \<notin> set post \<and> 500 \<le> recorded_in post \<longrightarrow>
         repo_event_count l \<le> 20499)"
proof -
  define l where "l = fold log_apply steps empty_log"
  have inv: "log_inv (int (restarts_in steps)) l"
    using log_run_inv [OF empty_log_inv, of steps] by (simp add: l_def)
  then have ids: "log_ids ev_Retain (map ev_ID (ev_rows l)) (ev_seq l) (499 * int (restarts_in steps) + ev_seen l)"
    and seen: "ev_seen l < 500" by (simp_all add: log_inv_def)
  have "repo_event_count l \<le> 20499" if "steps = pre @ post" "Restart \<notin> set post" "500 \<le> recorded_in post" for pre post
  proof -
    let ?m = "fold log_apply pre empty_log"
    have m: "log_inv (int (restarts_in pre)) ?m" using log_run_inv [OF empty_log_inv, of pre] by simp
    have "l = fold log_apply post ?m" by (simp add: l_def that(1))
    with log_run_counts [OF that(2) m] seen that(3) m have "log_inv 0 l" by (auto simp: log_inv_def)
    then show ?thesis by (auto simp: log_inv_def repo_event_count_def dest: log_bounds(1))
  qed
  then show ?thesis
    unfolding l_def [symmetric] Let_def
    using log_bounds(1-3) [OF ids] seen by (simp add: repo_event_count_def)
qed

theorem event_log_retention_witness:
  "let e = \<lparr>e_ProjectID = ''p1'', e_Kind = ''node.lost'', e_Subject = ''n1'', e_NodeID = ''n1'', e_Message = [], e_Severity = Warn\<rparr>;
       l = fold log_apply (Record 1 e # Restart # replicate 500 (Record 2 e)) empty_log
   in repo_event_count l \<le> 20499"
proof -
  let ?x = "Record 2 \<lparr>e_ProjectID = ''p1'', e_Kind = ''node.lost'', e_Subject = ''n1'', e_NodeID = ''n1'', e_Message = [],
    e_Severity = Warn\<rparr>"
  let ?y = "Record 1 \<lparr>e_ProjectID = ''p1'', e_Kind = ''node.lost'', e_Subject = ''n1'', e_NodeID = ''n1'', e_Message = [],
    e_Severity = Warn\<rparr>"
  have post: "Restart \<notin> set (replicate 500 ?x)" "recorded_in (replicate 500 ?x) = 500"
    by (simp_all add: recorded_in_def filter_replicate)
  have "?y # Restart # replicate 500 ?x = [?y, Restart] @ replicate 500 ?x" by simp
  with event_log_retention [of "?y # Restart # replicate 500 ?x", unfolded Let_def] post
  show ?thesis unfolding Let_def by (metis order_refl)
qed

text \<open>
  A control plane that starts again before each event never prunes, and keeps every event.
\<close>

lemma restarts_defer_pruning:
  assumes "e_Kind e \<noteq> []"
  shows "repo_event_count (fold log_apply (concat (replicate n [Restart, Record now e])) empty_log) = int n"
proof -
  have "length (ev_rows (fold log_apply (concat (replicate n [Restart, Record now e])) l)) = length (ev_rows l) + n" for l
  proof (induction n arbitrary: l)
    case (Suc n)
    have "length (ev_rows (event_record now e (event_newService l))) = Suc (length (ev_rows l))"
      using assms by (simp add: event_record_def event_newService_def dueForPrune_def repo_event_insert_def)
    then show ?case by (simp add: Suc.IH)
  qed simp
  from this [of empty_log] show ?thesis by (simp add: repo_event_count_def)
qed

section \<open>Walking a log backwards\<close>

text \<open>Ids fit int64, which is what a cursor carries.\<close>

definition walkable_log :: "event_log \<Rightarrow> bool" where
  "walkable_log l \<longleftrightarrow> log_wf l \<and> ev_seq l \<le> max_duration"

definition walkable_audit :: "audit_log \<Rightarrow> bool" where
  "walkable_audit l \<longleftrightarrow> audit_wf l \<and> au_seq l \<le> max_duration"

definition event_in :: "string \<Rightarrow> event_log \<Rightarrow> event_row set" where
  "event_in pid l = {e \<in> set (ev_rows l). pid \<noteq> [] \<and> ev_ProjectID e = pid}"

definition audit_in :: "string \<Rightarrow> audit_log \<Rightarrow> audit_row set" where
  "audit_in pid l = {e \<in> set (au_rows l). ar_ProjectID e = pid \<or> ar_ProjectID e = []}"

lemma back_none [simp]: "page_Back no_cursor = Some 0"
  by (simp add: page_Back_def cursor_Empty_def)

lemma back_first:
  "CHR ''?'' \<notin> set base \<Longrightarrow>
   page_From (query_Get base) 100 500 = Some \<lparr>win_Limit = 100, win_After = no_cursor\<rparr>"
  by (simp add: page_From_def query_Get_base)

lemma back_later:
  assumes "CHR ''?'' \<notin> set base" "0 < n" "n \<le> max_duration"
  shows "\<exists>c. page_From (query_Get (base @ ''?after='' @ QueryEscape (page_Backward n))) 100 500 =
      Some \<lparr>win_Limit = 100, win_After = c\<rparr> \<and> page_Back c = Some n"
proof -
  obtain c where c: "page_Decode (page_Backward n) = Some c" "page_Back c = Some n"
    using page_Back_roundtrip [OF assms(2,3)] by blast
  have plain: "list_all url_plain (page_Backward n)" by (simp add: page_Backward_def page_Encode_plain)
  have ne: "page_Backward n \<noteq> []" using itoa_shape [of n] by (auto simp: page_Backward_def)
  show ?thesis
    using c ne query_Get_after [OF assms(1) plain ne]
    by (simp add: page_From_def del: append_Cons append_assoc)
qed

lemma backward_page:
  fixes idf :: "'r \<Rightarrow> int"
  assumes "distinct (map idf rows)"
  defines "xs \<equiv> take (nat 100) (sort_key (\<lambda>e. - idf e) rows)"
  shows "page_of (\<lambda>e. - idf e) (\<lambda>e. page_Backward (idf e)) (set rows) xs
    (next_mark (\<lambda>e. page_Backward (idf e)) 100 xs)"
proof -
  have "distinct (map (\<lambda>e. - idf e) rows)" using assms(1) by (simp add: distinct_map inj_on_def)
  moreover have "page_Backward (idf e) \<noteq> []" for e using itoa_shape [of "idf e"] by (auto simp: page_Backward_def)
  ultimately show ?thesis unfolding xs_def by (intro sorted_take_page) simp_all
qed

lemma event_rows_ids:
  assumes "walkable_log l"
  shows "distinct (map ev_ID (ev_rows l))" "e \<in> set (ev_rows l) \<Longrightarrow> 0 < ev_ID e \<and> ev_ID e \<le> max_duration"
  using assms log_wf_ids [of l] by (fastforce simp: walkable_log_def)+

lemma audit_rows_ids:
  assumes "walkable_audit l"
  shows "distinct (map au_ID (au_rows l))" "e \<in> set (au_rows l) \<Longrightarrow> 0 < au_ID e \<and> au_ID e \<le> max_duration"
  using assms audit_wf_ids [of l] by (fastforce simp: walkable_audit_def)+

interpretation audit_list:
  keyset_listing "handler_audit_list pid" "audit_in pid" walkable_audit "\<lambda>e. - au_ID e"
    "\<lambda>e. page_Backward (au_ID e)" "''/v1/audit''"
  for pid
proof (unfold_locales, goal_cases)
  case (2 l)
  let ?rows = "filter (\<lambda>e. ar_ProjectID e = pid \<or> ar_ProjectID e = []) (au_rows l)"
  have "set ?rows = audit_in pid l" by (auto simp: audit_in_def)
  then show ?case
    using backward_page [OF distinct_map_filter [OF audit_rows_ids(1) [OF 2]],
        of "\<lambda>e. ar_ProjectID e = pid \<or> ar_ProjectID e = []"]
    by (simp add: handler_audit_list_def back_first audit_list_def repo_audit_list_def Let_def)
next
  case (3 l l' q)
  have id: "0 < au_ID q" "au_ID q \<le> max_duration"
    using audit_rows_ids(2) [OF 3(2)] 3(3) by (auto simp: audit_in_def)
  obtain c where c: "page_From (query_Get (''/v1/audit'' @ ''?after='' @ QueryEscape (page_Backward (au_ID q)))) 100 500 =
      Some \<lparr>win_Limit = 100, win_After = c\<rparr>" "page_Back c = Some (au_ID q)"
    using back_later [of "''/v1/audit''", OF _ id] by auto
  let ?P = "\<lambda>e. (ar_ProjectID e = pid \<or> ar_ProjectID e = []) \<and> au_ID e < au_ID q"
  have "set (filter ?P (au_rows l)) = {s \<in> audit_in pid l. - au_ID q < - au_ID s}" by (auto simp: audit_in_def)
  then show ?case
    using backward_page [OF distinct_map_filter [OF audit_rows_ids(1) [OF 3(1)]], of ?P] id(1)
    unfolding handler_audit_list_def c(1)
    by (simp add: c(2) audit_list_def repo_audit_list_def Let_def)
qed simp

interpretation event_list:
  keyset_listing "handler_event_list pid" "event_in pid" walkable_log "\<lambda>e. - ev_ID e"
    "\<lambda>e. page_Backward (ev_ID e)" "''/v1/events''"
  for pid
proof (unfold_locales, goal_cases)
  case (2 l)
  let ?rows = "filter (\<lambda>e. pid \<noteq> [] \<and> ev_ProjectID e = pid) (ev_rows l)"
  have "set ?rows = event_in pid l" by (auto simp: event_in_def)
  then show ?case
    using backward_page [OF distinct_map_filter [OF event_rows_ids(1) [OF 2]],
        of "\<lambda>e. pid \<noteq> [] \<and> ev_ProjectID e = pid"]
    by (cases "pid = []") (simp_all add: handler_event_list_def back_first event_list_def repo_event_list_def Let_def query_Get_base)
next
  case (3 l l' q)
  have id: "0 < ev_ID q" "ev_ID q \<le> max_duration"
    using event_rows_ids(2) [OF 3(2)] 3(3) by (auto simp: event_in_def)
  obtain c where c: "page_From (query_Get (''/v1/events'' @ ''?after='' @ QueryEscape (page_Backward (ev_ID q)))) 100 500 =
      Some \<lparr>win_Limit = 100, win_After = c\<rparr>" "page_Back c = Some (ev_ID q)"
    using back_later [of "''/v1/events''", OF _ id] by auto
  have other: "query_Get (''/v1/events'' @ ''?after='' @ QueryEscape (page_Backward (ev_ID q))) k = []" if "k \<noteq> ''after''" for k
    using that itoa_shape [of "ev_ID q"]
    by (intro query_Get_after(2)) (auto simp: page_Backward_def page_Encode_plain)
  let ?P = "\<lambda>e. pid \<noteq> [] \<and> ev_ProjectID e = pid \<and> ev_ID e < ev_ID q"
  have "set (filter ?P (ev_rows l)) = {s \<in> event_in pid l. - ev_ID q < - ev_ID s}" by (auto simp: event_in_def)
  then show ?case
    using backward_page [OF distinct_map_filter [OF event_rows_ids(1) [OF 3(1)]], of ?P] id(1) 3(3)
    unfolding handler_event_list_def c(1)
    by (simp add: c(2) other event_list_def repo_event_list_def Let_def event_in_def del: append_Cons append_assoc)
qed simp

section \<open>The feed of events\<close>

text \<open>
  \<open>Since l a n\<close> gives the first \<open>n\<close> entries behind the id \<open>a\<close>: in order, and none
  is left out unless the batch is full of earlier ones.
\<close>

locale event_feed =
  fixes Since :: "'l \<Rightarrow> int \<Rightarrow> int \<Rightarrow> event_row list"
    and NewestID :: "'l \<Rightarrow> int"
    and logged :: "'l \<Rightarrow> event_row set"
    and good :: "'l \<Rightarrow> bool"
  assumes since_sorted: "good l \<Longrightarrow> sorted_wrt (<) (map ev_ID (Since l a n))"
    and since_logged: "good l \<Longrightarrow> e \<in> set (Since l a n) \<Longrightarrow> e \<in> logged l \<and> a < ev_ID e"
    and since_complete: "good l \<Longrightarrow> 0 < n \<Longrightarrow> n \<le> 500 \<Longrightarrow> e \<in> logged l \<Longrightarrow> a < ev_ID e \<Longrightarrow>
      e \<in> set (Since l a n) \<or> (int (length (Since l a n)) = n \<and> (\<forall>f\<in>set (Since l a n). ev_ID f < ev_ID e))"
    and finite_logged: "finite (logged l)"
    and newest: "good l \<Longrightarrow> 0 \<le> NewestID l" "good l \<Longrightarrow> e \<in> logged l \<Longrightarrow> 0 < ev_ID e \<and> ev_ID e \<le> NewestID l"

lemma strict_sorted_take:
  fixes key :: "'a \<Rightarrow> 'k::linorder"
  assumes "distinct (map key rows)"
  shows "sorted_wrt (<) (map key (take n (sort_key key rows)))"
    and "e \<in> set rows \<Longrightarrow> e \<in> set (take n (sort_key key rows)) \<or>
      (length (take n (sort_key key rows)) = n \<and> (\<forall>f\<in>set (take n (sort_key key rows)). key f < key e))"
proof -
  let ?s = "sort_key key rows"
  have "distinct (map key ?s)" using assms by (simp add: distinct_map)
  then have strict: "sorted_wrt (<) (map key (take n ?s @ drop n ?s))" by (simp add: strict_sorted_iff)
  then show "sorted_wrt (<) (map key (take n ?s))" unfolding map_append sorted_wrt_append by blast
  have cross: "\<forall>f\<in>set (take n ?s). \<forall>g\<in>set (drop n ?s). key f < key g"
    using strict unfolding map_append sorted_wrt_append by auto
  assume "e \<in> set rows"
  then have "e \<in> set (take n ?s) \<union> set (drop n ?s)" by (metis append_take_drop_id set_append set_sort)
  then show "e \<in> set (take n ?s) \<or> (length (take n ?s) = n \<and> (\<forall>f\<in>set (take n ?s). key f < key e))"
    using cross by (cases "length ?s \<le> n") auto
qed

interpretation event_module:
  event_feed event_since repo_event_newestID "\<lambda>l. set (ev_rows l)" log_wf
proof (unfold_locales, goal_cases)
  case (1 l a n)
  then have "distinct (map ev_ID (ev_rows l))" by (intro log_wf_ids(1))
  then show ?case
    unfolding event_since_def repo_event_since_def by (intro strict_sorted_take(1) distinct_map_filter)
next
  case (2 l e a n)
  then show ?case by (auto simp: event_since_def repo_event_since_def dest!: in_set_takeD)
next
  case (3 l n e a)
  then have "distinct (map ev_ID (filter (\<lambda>e. a < ev_ID e) (ev_rows l)))"
    by (intro distinct_map_filter log_wf_ids(1))
  from strict_sorted_take(2) [OF this, of e "nat n"] 3 show ?case
    by (auto simp: event_since_def repo_event_since_def)
next
  case (4 l)
  show ?case by simp
next
  case (5 l)
  have "0 \<le> Max (ev_ID ` set (ev_rows l))" if "ev_rows l \<noteq> []"
    using that log_wf_ids(2) [OF 5, of "hd (ev_rows l)"] by (subst Max_ge_iff) (auto intro!: bexI [of _ "hd (ev_rows l)"])
  then show ?case by (simp add: repo_event_newestID_def)
next
  case (6 l e)
  then have "0 < ev_ID e" using log_wf_ids(2) [of l e] by simp
  moreover have "ev_rows l \<noteq> []" using 6(2) by auto
  ultimately show ?case using 6 by (simp add: repo_event_newestID_def)
qed

end
