(* ===== verification/Webhooks.thy ===== *)
theory Webhooks
  imports EventLog
begin

text \<open>
  Webhooks, src/internal/platform/webhook: subscriptions, the queue of deliveries, the
  cursor in the event log, the pump that moves events into the queue and the queue to
  its targets. The event log is the interface \<open>event_feed\<close>. Parsing a URL, minting
  ids and secrets, and posting to a target are arguments; a database error is not
  modelled, except that a repeated id makes the transaction of a batch fail.
\<close>

section \<open>Types\<close>

abbreviation (input) MaxKinds :: nat where "MaxKinds \<equiv> 32"
abbreviation (input) MaxKindLength :: nat where "MaxKindLength \<equiv> 60"
abbreviation (input) MaxURLLength :: nat where "MaxURLLength \<equiv> 500"
abbreviation (input) MaxAttempts :: int where "MaxAttempts \<equiv> 6"
abbreviation (input) MaxBatch :: int where "MaxBatch \<equiv> 100"
abbreviation (input) MaxDueBatch :: nat where "MaxDueBatch \<equiv> 20"
abbreviation (input) FirstBackoff :: duration where "FirstBackoff \<equiv> 10000000000"
abbreviation (input) MaxBackoff :: duration where "MaxBackoff \<equiv> 1800000000000"
abbreviation (input) RetainFailed :: int where "RetainFailed \<equiv> 500"

datatype delivery_state = StatePending | StateDelivered | StateFailed

record subscription =
  wh_ID :: string
  wh_ProjectID :: string
  wh_Name :: string
  wh_URL :: string
  wh_Secret :: string
  wh_Kinds :: "string list"
  wh_Active :: bool
  wh_CreatedAt :: go_time

record wh_create_params =
  wc_ProjectID :: string
  wc_Name :: string
  wc_URL :: string
  wc_Kinds :: "string list"

record delivery =
  wd_ID :: string
  wd_SubscriptionID :: string
  wd_EventID :: int
  wd_Kind :: string
  wd_Subject :: string
  wd_State :: delivery_state
  wd_Attempts :: int
  wd_LastError :: string
  wd_NextAttemptAt :: go_time
  wd_CreatedAt :: go_time
  wd_UpdatedAt :: go_time

record wh_event =
  we_ID :: int
  we_At :: go_time
  we_ProjectID :: string
  we_Kind :: string
  we_Subject :: string
  we_NodeID :: string
  we_Message :: string
  we_Severity :: string

text \<open>Deliveries are kept with their rowid.\<close>

record wh_db =
  wh_rows :: "subscription list"
  wh_deliveries :: "(int \<times> delivery) list"
  wh_cursor :: "int option"

section \<open>Repository\<close>

datatype wh_error = wh_errNotFound | wh_errNameUsed | wh_errInternal

definition wh_translate :: "wh_error \<Rightarrow> fault" where
  "wh_translate e =
     (case e of
        wh_errNotFound \<Rightarrow> NotFound ''webhook_not_found''
      | wh_errNameUsed \<Rightarrow> Conflict ''webhook_name_taken''
      | wh_errInternal \<Rightarrow> Internal)"

definition wh_tr :: "wh_error + 'a \<Rightarrow> 'a result" where
  "wh_tr r = (case r of Inl e \<Rightarrow> Inl (wh_translate e) | Inr a \<Rightarrow> Inr a)"

definition repo_wh_insert :: "wh_db \<Rightarrow> subscription \<Rightarrow> (wh_error + unit) \<times> wh_db" where
  "repo_wh_insert db s =
     (if list_ex (\<lambda>r. wh_ID r = wh_ID s \<or> (wh_ProjectID r = wh_ProjectID s \<and> wh_Name r = wh_Name s)) (wh_rows db)
      then (Inl wh_errNameUsed, db)
      else (Inr (), db\<lparr>wh_rows := wh_rows db @ [s]\<rparr>))"

definition repo_wh_listIn :: "wh_db \<Rightarrow> string \<Rightarrow> subscription list" where
  "repo_wh_listIn db pid = sort_key wh_Name (filter (\<lambda>s. wh_ProjectID s = pid) (wh_rows db))"

definition repo_wh_active :: "wh_db \<Rightarrow> subscription list" where
  "repo_wh_active db = sort_key wh_ID (filter wh_Active (wh_rows db))"

definition repo_wh_byID :: "wh_db \<Rightarrow> string \<Rightarrow> string \<Rightarrow> wh_error + subscription" where
  "repo_wh_byID db pid sid =
     (case find (\<lambda>s. wh_ProjectID s = pid \<and> wh_ID s = sid) (wh_rows db) of
        None \<Rightarrow> Inl wh_errNotFound | Some s \<Rightarrow> Inr s)"

definition repo_wh_byName :: "wh_db \<Rightarrow> string \<Rightarrow> string \<Rightarrow> wh_error + subscription" where
  "repo_wh_byName db pid name =
     (case find (\<lambda>s. wh_ProjectID s = pid \<and> wh_Name s = name) (wh_rows db) of
        None \<Rightarrow> Inl wh_errNotFound | Some s \<Rightarrow> Inr s)"

definition repo_wh_setActive :: "wh_db \<Rightarrow> string \<Rightarrow> bool \<Rightarrow> (wh_error + unit) \<times> wh_db" where
  "repo_wh_setActive db sid active =
     (if list_ex (\<lambda>s. wh_ID s = sid) (wh_rows db)
      then (Inr (), db\<lparr>wh_rows := map (\<lambda>s. if wh_ID s = sid then s\<lparr>wh_Active := active\<rparr> else s) (wh_rows db)\<rparr>)
      else (Inl wh_errNotFound, db))"

text \<open>One transaction: without the subscription nothing is deleted.\<close>

definition repo_wh_delete :: "wh_db \<Rightarrow> string \<Rightarrow> (wh_error + unit) \<times> wh_db" where
  "repo_wh_delete db sid =
     (if list_ex (\<lambda>s. wh_ID s = sid) (wh_rows db)
      then (Inr (), db\<lparr>wh_deliveries := filter (\<lambda>(_, d). wd_SubscriptionID d \<noteq> sid) (wh_deliveries db),
              wh_rows := filter (\<lambda>s. wh_ID s \<noteq> sid) (wh_rows db)\<rparr>)
      else (Inl wh_errNotFound, db))"

definition repo_wh_cursor :: "wh_db \<Rightarrow> int" where
  "repo_wh_cursor db = (case wh_cursor db of None \<Rightarrow> - 1 | Some at \<Rightarrow> at)"

definition repo_wh_setCursor :: "wh_db \<Rightarrow> int \<Rightarrow> wh_db" where
  "repo_wh_setCursor db at = db\<lparr>wh_cursor := Some at\<rparr>"

definition newest_rowid :: "(int \<times> delivery) list \<Rightarrow> int" where
  "newest_rowid rows = (if rows = [] then 0 else Max (fst ` set rows))"

fun insert_deliveries :: "delivery list \<Rightarrow> (int \<times> delivery) list \<Rightarrow> (int \<times> delivery) list option" where
  "insert_deliveries [] rows = Some rows"
| "insert_deliveries (d # ds) rows =
     (if list_ex (\<lambda>(_, q). wd_ID q = wd_ID d) rows then None
      else insert_deliveries ds (rows @ [(newest_rowid rows + 1, d)]))"

definition repo_wh_enqueue :: "wh_db \<Rightarrow> delivery list \<Rightarrow> int \<Rightarrow> (wh_error + unit) \<times> wh_db" where
  "repo_wh_enqueue db ds at =
     (case insert_deliveries ds (wh_deliveries db) of
        None \<Rightarrow> (Inl wh_errInternal, db)
      | Some rows \<Rightarrow> (Inr (), db\<lparr>wh_deliveries := rows, wh_cursor := Some at\<rparr>))"

definition repo_wh_due :: "wh_db \<Rightarrow> go_time \<Rightarrow> nat \<Rightarrow> delivery list" where
  "repo_wh_due db now limit =
     take limit (sort_key (\<lambda>d. stamp_key (wd_NextAttemptAt d))
       (filter (\<lambda>d. wd_State d = StatePending \<and> stamp_key (wd_NextAttemptAt d) \<le> stamp_key now)
         (map snd (wh_deliveries db))))"

definition repo_wh_deliveriesOf :: "wh_db \<Rightarrow> string \<Rightarrow> nat \<Rightarrow> delivery list" where
  "repo_wh_deliveriesOf db sid limit =
     take limit (rev (sort_key wd_ID (filter (\<lambda>d. wd_SubscriptionID d = sid) (map snd (wh_deliveries db)))))"

definition repo_wh_markDelivery :: "delivery \<Rightarrow> wh_db \<Rightarrow> wh_db" where
  "repo_wh_markDelivery d db =
     db\<lparr>wh_deliveries := map (\<lambda>(i, q).
        (i, if wd_ID q = wd_ID d
            then q\<lparr>wd_State := wd_State d, wd_Attempts := wd_Attempts d, wd_LastError := wd_LastError d,
                   wd_NextAttemptAt := wd_NextAttemptAt d, wd_UpdatedAt := wd_UpdatedAt d\<rparr>
            else q)) (wh_deliveries db)\<rparr>"

definition repo_wh_pruneDeliveries :: "int \<Rightarrow> wh_db \<Rightarrow> wh_db" where
  "repo_wh_pruneDeliveries keep db =
     db\<lparr>wh_deliveries := filter (\<lambda>(i, d). \<not> (wd_State d \<noteq> StatePending \<and>
        i \<le> newest_rowid (wh_deliveries db) - keep)) (wh_deliveries db)\<rparr>"

section \<open>Subscriptions\<close>

fun check_each_kind :: "string list \<Rightarrow> string list result" where
  "check_each_kind [] = Inr []"
| "check_each_kind (kind0 # rest) =
     (let kind = trim_space kind0
      in if kind = [] then check_each_kind rest
         else if MaxKindLength < length kind then Inl (Invalid ''invalid_kind'')
         else if list_ex (\<lambda>c. c \<in> {CHR '' '', CHR 0x09, CHR 0x0D, CHR 0x0A}) kind then Inl (Invalid ''invalid_kind'')
         else if CHR ''*'' \<in> set kind \<and> \<not> has_suffix kind ''.*'' then Inl (Invalid ''invalid_kind'')
         else bindR (check_each_kind rest) (\<lambda>ks. Inr (kind # ks)))"

definition checkKinds :: "string list \<Rightarrow> string list result" where
  "checkKinds kinds =
     (if MaxKinds < length kinds then Inl (Invalid ''too_many_kinds'') else check_each_kind kinds)"

record parsed_url =
  pu_Scheme :: string
  pu_Host :: string
  pu_HasUser :: bool
  pu_String :: string

definition checkURL :: "(string \<Rightarrow> parsed_url option) \<Rightarrow> string \<Rightarrow> string option" where
  "checkURL url_Parse raw =
     (if MaxURLLength < length raw then None
      else (case url_Parse (trim_space raw) of
              None \<Rightarrow> None
            | Some u \<Rightarrow>
                if pu_Scheme u \<noteq> ''http'' \<and> pu_Scheme u \<noteq> ''https'' then None
                else if pu_Host u = [] then None
                else if pu_HasUser u then None
                else Some (pu_String u)))"

definition wh_create ::
    "(string \<Rightarrow> parsed_url option) \<Rightarrow> string \<Rightarrow> string \<Rightarrow> go_time \<Rightarrow> wh_db \<Rightarrow> wh_create_params
     \<Rightarrow> subscription result \<times> wh_db" where
  "wh_create url_Parse newID secret now db p =
     (case validate_Name ''name'' (wc_Name p) of
        Inl e \<Rightarrow> (Inl e, db)
      | Inr _ \<Rightarrow>
          (case checkURL url_Parse (wc_URL p) of
             None \<Rightarrow> (Inl (Invalid ''invalid_url''), db)
           | Some target \<Rightarrow>
               (case checkKinds (wc_Kinds p) of
                  Inl e \<Rightarrow> (Inl e, db)
                | Inr kinds \<Rightarrow>
                    (let sub = \<lparr>wh_ID = newID, wh_ProjectID = wc_ProjectID p, wh_Name = wc_Name p,
                           wh_URL = target, wh_Secret = secret, wh_Kinds = kinds, wh_Active = True,
                           wh_CreatedAt = now\<rparr>
                     in case repo_wh_insert db sub of
                          (Inl e, db') \<Rightarrow> (Inl (wh_translate e), db')
                        | (Inr _, db') \<Rightarrow> (Inr sub, db')))))"

definition wh_matches :: "string list \<Rightarrow> string \<Rightarrow> bool" where
  "wh_matches kinds kind \<longleftrightarrow>
     kinds = [] \<or>
     list_ex (\<lambda>wanted. wanted = kind \<or>
       (has_suffix wanted ''.*'' \<and> has_prefix kind (trim_suffix wanted ''*''))) kinds"

definition wh_find :: "wh_db \<Rightarrow> string \<Rightarrow> string \<Rightarrow> subscription result" where
  "wh_find db pid ref =
     wh_tr (case repo_wh_byID db pid ref of
              Inl e \<Rightarrow> if e = wh_errNotFound then repo_wh_byName db pid ref else Inl e
            | Inr s \<Rightarrow> Inr s)"

definition wh_setActive :: "wh_db \<Rightarrow> string \<Rightarrow> string \<Rightarrow> bool \<Rightarrow> subscription result \<times> wh_db" where
  "wh_setActive db pid ref active =
     (case wh_find db pid ref of
        Inl e \<Rightarrow> (Inl e, db)
      | Inr sub \<Rightarrow>
          (case repo_wh_setActive db (wh_ID sub) active of
             (Inl e, db') \<Rightarrow> (Inl (wh_translate e), db')
           | (Inr _, db') \<Rightarrow> (wh_find db' pid (wh_ID sub), db')))"

definition wh_remove :: "wh_db \<Rightarrow> string \<Rightarrow> string \<Rightarrow> unit result \<times> wh_db" where
  "wh_remove db pid ref =
     (case wh_find db pid ref of
        Inl e \<Rightarrow> (Inl e, db)
      | Inr sub \<Rightarrow> (case repo_wh_delete db (wh_ID sub) of (r, db') \<Rightarrow> (wh_tr r, db')))"

definition wh_deliveries_of :: "wh_db \<Rightarrow> string \<Rightarrow> string \<Rightarrow> int \<Rightarrow> delivery list result" where
  "wh_deliveries_of db pid ref limit =
     bindR (wh_find db pid ref)
       (\<lambda>sub. Inr (repo_wh_deliveriesOf db (wh_ID sub)
          (nat (if limit \<le> 0 \<or> MaxBatch < limit then MaxBatch else limit))))"

section \<open>Fan-out\<close>

text \<open>The adapter of src/internal/app/adapters.go between the event module and this one.\<close>

definition as_wh_event :: "event_row \<Rightarrow> wh_event" where
  "as_wh_event e = \<lparr>we_ID = ev_ID e, we_At = ev_At e, we_ProjectID = ev_ProjectID e, we_Kind = ev_Kind e,
     we_Subject = ev_Subject e, we_NodeID = ev_NodeID e, we_Message = ev_Message e, we_Severity = ev_Severity e\<rparr>"

definition webhookEvents_Since :: "(int \<Rightarrow> int \<Rightarrow> event_row list) \<Rightarrow> int \<Rightarrow> int \<Rightarrow> wh_event list" where
  "webhookEvents_Since Since afterID limit = map as_wh_event (Since afterID limit)"

definition wants :: "subscription \<Rightarrow> wh_event \<Rightarrow> bool" where
  "wants sub e \<longleftrightarrow> wh_ProjectID sub = we_ProjectID e \<and> wh_matches (wh_Kinds sub) (we_Kind e)"

definition pending_delivery :: "go_time \<Rightarrow> wh_event \<times> subscription \<Rightarrow> string \<Rightarrow> delivery" where
  "pending_delivery now p newID =
     \<lparr>wd_ID = newID, wd_SubscriptionID = wh_ID (snd p), wd_EventID = we_ID (fst p), wd_Kind = we_Kind (fst p),
      wd_Subject = we_Subject (fst p), wd_State = StatePending, wd_Attempts = 0, wd_LastError = [],
      wd_NextAttemptAt = now, wd_CreatedAt = now, wd_UpdatedAt = now\<rparr>"

text \<open>The nested loop: every entry of the batch with every active subscription that wants it.\<close>

definition wanted_pairs :: "wh_event list \<Rightarrow> subscription list \<Rightarrow> (wh_event \<times> subscription) list" where
  "wanted_pairs entries subs =
     concat (map (\<lambda>e. map (Pair e) (filter (\<lambda>s. wants s e) subs)) entries)"

definition fanOut ::
    "(int \<Rightarrow> int \<Rightarrow> event_row list) \<Rightarrow> int \<Rightarrow> (nat \<Rightarrow> string) \<Rightarrow> go_time \<Rightarrow> wh_db \<Rightarrow> int result \<times> wh_db" where
  "fanOut Since newest newIDs now db =
     (let at = repo_wh_cursor db
      in if at < 0 then (Inr 0, repo_wh_setCursor db newest)
         else
           (let subs = repo_wh_active db;
                entries = webhookEvents_Since Since at MaxBatch;
                highest = foldl (\<lambda>h e. if h < we_ID e then we_ID e else h) at entries;
                pairs = wanted_pairs entries subs;
                queued = map2 (pending_delivery now) pairs (map newIDs [0..<length pairs])
            in if entries = [] then (Inr 0, db)
               else (case repo_wh_enqueue db queued highest of
                       (Inl e, db') \<Rightarrow> (Inl (wh_translate e), db')
                     | (Inr _, db') \<Rightarrow> (Inr (int (length queued)), db'))))"

section \<open>Delivery\<close>

fun wh_backoff_loop :: "nat \<Rightarrow> duration \<Rightarrow> duration" where
  "wh_backoff_loop 0 wait = wait"
| "wh_backoff_loop (Suc n) wait =
     (if MaxBackoff \<le> wait * 2 then MaxBackoff else wh_backoff_loop n (wait * 2))"

definition wh_backoffFor :: "int \<Rightarrow> duration" where
  "wh_backoffFor attempts = wh_backoff_loop (nat (attempts - 1)) FirstBackoff"

definition wh_retry :: "delivery \<Rightarrow> string \<Rightarrow> go_time \<Rightarrow> wh_db \<Rightarrow> wh_db" where
  "wh_retry d0 cause now db =
     (let d = d0\<lparr>wd_Attempts := wd_Attempts d0 + 1, wd_LastError := ev_clip cause MaxURLLength, wd_UpdatedAt := now\<rparr>
      in repo_wh_markDelivery
           (if MaxAttempts \<le> wd_Attempts d then d\<lparr>wd_State := StateFailed\<rparr>
            else d\<lparr>wd_NextAttemptAt := now + wh_backoffFor (wd_Attempts d)\<rparr>) db)"

definition deliver_one ::
    "(subscription \<Rightarrow> delivery \<Rightarrow> string option) \<Rightarrow> (string \<rightharpoonup> subscription) \<Rightarrow> go_time \<Rightarrow> delivery
     \<Rightarrow> int \<times> wh_db \<Rightarrow> int \<times> wh_db" where
  "deliver_one post byID now d = (\<lambda>(sent, db).
     (case byID (wd_SubscriptionID d) of
        None \<Rightarrow> (sent, repo_wh_markDelivery (d\<lparr>wd_State := StateFailed,
                   wd_LastError := ''the webhook is paused or gone'', wd_UpdatedAt := now\<rparr>) db)
      | Some sub \<Rightarrow>
          (case post sub d of
             Some cause \<Rightarrow> (sent, wh_retry d cause now db)
           | None \<Rightarrow> (sent + 1, repo_wh_markDelivery (d\<lparr>wd_State := StateDelivered, wd_LastError := [],
                        wd_Attempts := wd_Attempts d + 1, wd_UpdatedAt := now\<rparr>) db))))"

text \<open>\<open>post sub d\<close> is the error of posting the delivery, if any.\<close>

definition wh_drain ::
    "(subscription \<Rightarrow> delivery \<Rightarrow> string option) \<Rightarrow> go_time \<Rightarrow> wh_db \<Rightarrow> int \<times> wh_db" where
  "wh_drain post now db =
     (let due = repo_wh_due db now MaxDueBatch;
          byID = map_of (rev (map (\<lambda>s. (wh_ID s, s)) (repo_wh_active db)))
      in if due = [] then (0, db)
         else (case fold (deliver_one post byID now) due (0, db) of
                 (sent, db') \<Rightarrow> (sent, repo_wh_pruneDeliveries RetainFailed db')))"

definition wh_Pump ::
    "(int \<Rightarrow> int \<Rightarrow> event_row list) \<Rightarrow> int \<Rightarrow> (nat \<Rightarrow> string) \<Rightarrow> (subscription \<Rightarrow> delivery \<Rightarrow> string option)
     \<Rightarrow> go_time \<Rightarrow> go_time \<Rightarrow> wh_db \<Rightarrow> wh_db" where
  "wh_Pump Since newest newIDs post at_fanOut at_drain db =
     snd (wh_drain post at_drain (snd (fanOut Since newest newIDs at_fanOut db)))"

section \<open>What the queue keeps\<close>

definition queue_of :: "wh_db \<Rightarrow> delivery list" where
  "queue_of db = map snd (wh_deliveries db)"

abbreviation pair_of :: "delivery \<Rightarrow> string \<times> int" where
  "pair_of d \<equiv> (wd_SubscriptionID d, wd_EventID d)"

definition attempts_ok :: "delivery \<Rightarrow> bool" where
  "attempts_ok d \<longleftrightarrow> 0 \<le> wd_Attempts d \<and> wd_Attempts d \<le> MaxAttempts \<and>
     (wd_State d = StatePending \<longrightarrow> wd_Attempts d < MaxAttempts) \<and>
     (wd_State d = StateDelivered \<longrightarrow> 0 < wd_Attempts d)"

definition wh_wf :: "wh_db \<Rightarrow> bool" where
  "wh_wf db \<longleftrightarrow> distinct (map wh_ID (wh_rows db)) \<and>
     distinct (map wd_ID (queue_of db)) \<and> distinct (map pair_of (queue_of db)) \<and>
     (\<forall>d\<in>set (queue_of db). attempts_ok d \<and> 0 < wd_EventID d \<and> wd_EventID d \<le> repo_wh_cursor db) \<and>
     - 1 \<le> repo_wh_cursor db"

text \<open>A step that may drop or update deliveries but makes none and leaves the cursor.\<close>

definition queue_shrinks :: "wh_db \<Rightarrow> wh_db \<Rightarrow> bool" where
  "queue_shrinks db db' \<longleftrightarrow> wh_cursor db' = wh_cursor db \<and> set (map wd_ID (queue_of db')) \<subseteq> set (map wd_ID (queue_of db))"

lemma map_markDelivery:
  "map wd_ID (queue_of (repo_wh_markDelivery d db)) = map wd_ID (queue_of db)"
  "map pair_of (queue_of (repo_wh_markDelivery d db)) = map pair_of (queue_of db)"
  "wh_rows (repo_wh_markDelivery d db) = wh_rows db" "wh_cursor (repo_wh_markDelivery d db) = wh_cursor db"
  by (auto simp: repo_wh_markDelivery_def queue_of_def split: prod.splits)

lemma mark_shrinks: "queue_shrinks db (repo_wh_markDelivery d db)"
  unfolding queue_shrinks_def map_markDelivery by simp

lemma queue_shrinks_trans: "queue_shrinks a b \<Longrightarrow> queue_shrinks b c \<Longrightarrow> queue_shrinks a c"
  unfolding queue_shrinks_def by (metis order.trans)

lemma queue_filter:
  "wh_deliveries db' = filter P (wh_deliveries db) \<Longrightarrow> distinct (map f (queue_of db)) \<Longrightarrow>
   distinct (map f (queue_of db'))"
  by (simp add: queue_of_def distinct_map_filter)

lemma markDelivery_wf:
  assumes "wh_wf db" "attempts_ok d"
  shows "wh_wf (repo_wh_markDelivery d db)"
proof -
  have "attempts_ok q \<and> 0 < wd_EventID q \<and> wd_EventID q \<le> repo_wh_cursor db"
    if q: "q \<in> set (queue_of (repo_wh_markDelivery d db))" for q
    using assms q by (auto simp: wh_wf_def queue_of_def repo_wh_markDelivery_def attempts_ok_def split: if_splits)
  then show ?thesis using assms(1) by (simp add: wh_wf_def map_markDelivery repo_wh_cursor_def)
qed

lemma filter_queue_wf:
  assumes "wh_wf db" "wh_rows db' = wh_rows db" "wh_cursor db' = wh_cursor db"
    "wh_deliveries db' = filter P (wh_deliveries db)"
  shows "wh_wf db' \<and> queue_shrinks db db'"
proof -
  have "set (queue_of db') \<subseteq> set (queue_of db)" using assms(4) by (auto simp: queue_of_def)
  then show ?thesis
    using assms(1-3) queue_filter [OF assms(4), of wd_ID] queue_filter [OF assms(4), of pair_of]
    by (auto simp: wh_wf_def queue_shrinks_def repo_wh_cursor_def)
qed

lemma deliver_one_wf:
  assumes "wh_wf db" "attempts_ok d" "wd_State d = StatePending"
  shows "wh_wf (snd (deliver_one post byID now d (sent, db))) \<and>
    queue_shrinks db (snd (deliver_one post byID now d (sent, db)))"
proof -
  have "\<exists>q. snd (deliver_one post byID now d (sent, db)) = repo_wh_markDelivery q db \<and> attempts_ok q"
    using assms(2,3)
    by (auto simp: deliver_one_def wh_retry_def Let_def attempts_ok_def split: option.split)
  then show ?thesis
    using markDelivery_wf [OF assms(1)] mark_shrinks by auto
qed

lemma drain_loop_wf:
  assumes "wh_wf (snd st)" "\<forall>d\<in>set ds. attempts_ok d \<and> wd_State d = StatePending"
  shows "wh_wf (snd (fold (deliver_one post byID now) ds st)) \<and>
    queue_shrinks (snd st) (snd (fold (deliver_one post byID now) ds st))"
  using assms
proof (induction ds arbitrary: st)
  case (Cons d ds)
  have step: "wh_wf (snd (deliver_one post byID now d st)) \<and> queue_shrinks (snd st) (snd (deliver_one post byID now d st))"
    using deliver_one_wf [of "snd st" d post byID now "fst st"] Cons.prems by simp
  with Cons.IH [of "deliver_one post byID now d st"] Cons.prems(2) show ?case
    using queue_shrinks_trans by auto
qed (simp add: queue_shrinks_def)

lemma drain_wf:
  assumes "wh_wf db"
  shows "wh_wf (snd (wh_drain post now db)) \<and> queue_shrinks db (snd (wh_drain post now db))"
proof -
  define due where "due = repo_wh_due db now MaxDueBatch"
  define byID where "byID = map_of (rev (map (\<lambda>s. (wh_ID s, s)) (repo_wh_active db)))"
  define db' where "db' = snd (fold (deliver_one post byID now) due (0, db))"
  have "\<forall>d\<in>set due. attempts_ok d \<and> wd_State d = StatePending"
    using assms by (auto simp: due_def repo_wh_due_def wh_wf_def queue_of_def dest!: in_set_takeD)
  then have loop: "wh_wf db' \<and> queue_shrinks db db'"
    using drain_loop_wf [of "(0, db)" due] assms by (simp add: db'_def)
  have drain: "snd (wh_drain post now db) = (if due = [] then db else repo_wh_pruneDeliveries RetainFailed db')"
    by (simp add: wh_drain_def Let_def due_def byID_def db'_def split: prod.split)
  have "wh_wf (repo_wh_pruneDeliveries RetainFailed db') \<and> queue_shrinks db' (repo_wh_pruneDeliveries RetainFailed db')"
    using loop by (intro filter_queue_wf) (auto simp: repo_wh_pruneDeliveries_def)
  then show ?thesis unfolding drain using loop assms queue_shrinks_trans by (auto simp: queue_shrinks_def [of db db])
qed

lemma insert_deliveries_queue:
  "insert_deliveries ds rows = Some rows' \<Longrightarrow>
   map snd rows' = map snd rows @ ds \<and>
   (distinct (map wd_ID (map snd rows)) \<longrightarrow> distinct (map wd_ID (map snd rows')))"
proof (induction ds rows rule: insert_deliveries.induct)
  case (2 d ds rows)
  then show ?case by (auto simp: list_ex_iff split: if_splits)
qed simp

lemma highest_bounds:
  fixes es :: "wh_event list"
  shows "at \<le> foldl (\<lambda>h e. if h < we_ID e then we_ID e else h) at es"
    and "e \<in> set es \<Longrightarrow> we_ID e \<le> foldl (\<lambda>h e. if h < we_ID e then we_ID e else h) at es"
    and "foldl (\<lambda>h e. if h < we_ID e then we_ID e else h) at es \<in> insert at (we_ID ` set es)"
proof -
  show start: "at \<le> foldl (\<lambda>h e. if h < we_ID e then we_ID e else h) at es" for at and es :: "wh_event list"
    by (induction es arbitrary: at) (auto intro: order.trans less_imp_le)
  show "e \<in> set es \<Longrightarrow> we_ID e \<le> foldl (\<lambda>h e. if h < we_ID e then we_ID e else h) at es"
  proof (induction es arbitrary: at)
    case (Cons a es)
    then show ?case using start [of "if at < we_ID a then we_ID a else at" es] by (cases "e = a") (auto split: if_splits)
  qed simp
  show "foldl (\<lambda>h e. if h < we_ID e then we_ID e else h) at es \<in> insert at (we_ID ` set es)"
  proof (induction es arbitrary: at)
    case (Cons a es)
    then show ?case using Cons [of "if at < we_ID a then we_ID a else at"] by (auto split: if_splits)
  qed simp
qed

lemma active_facts:
  assumes "distinct (map wh_ID (wh_rows db))"
  shows "distinct (map wh_ID (repo_wh_active db))" "set (repo_wh_active db) = {s \<in> set (wh_rows db). wh_Active s}"
  using assms by (auto simp: repo_wh_active_def distinct_map intro: inj_on_subset)

lemma wanted_pairs_set:
  "(e, s) \<in> set (wanted_pairs es subs) \<longleftrightarrow> e \<in> set es \<and> s \<in> set subs \<and> wants s e"
  by (auto simp: wanted_pairs_def)

lemma distinct_wanted_pairs:
  assumes "distinct (map we_ID es)" "distinct (map wh_ID subs)"
  shows "distinct (map (\<lambda>(e, s). (wh_ID s, we_ID e)) (wanted_pairs es subs))"
  using assms(1)
proof (induction es)
  case (Cons e es)
  let ?here = "map (Pair e) (filter (\<lambda>s. wants s e) subs)" and ?k = "\<lambda>(e, s). (wh_ID s, we_ID e)"
  have split: "wanted_pairs (e # es) subs = ?here @ wanted_pairs es subs" by (simp add: wanted_pairs_def)
  have "distinct (map wh_ID (filter (\<lambda>s. wants s e) subs))" using assms(2) by (rule distinct_map_filter)
  then have "distinct (map ?k ?here)" by (simp add: distinct_map inj_on_def o_def)
  moreover have "distinct (map ?k (wanted_pairs es subs))" using Cons by simp
  moreover have "set (map ?k ?here) \<inter> set (map ?k (wanted_pairs es subs)) = {}"
  proof -
    have "we_ID e \<notin> we_ID ` set es" using Cons.prems by simp
    then show ?thesis by (auto simp: wanted_pairs_set)
  qed
  ultimately show ?case unfolding split map_append distinct_append by blast
qed (simp add: wanted_pairs_def)

text \<open>What one fan-out does behind a cursor: it moves it and appends one delivery per wanted pair.\<close>

lemma map2_pending:
  assumes "length ids = length pairs"
  shows "map pair_of (map2 (pending_delivery now) pairs ids) = map (\<lambda>(e, s). (wh_ID s, we_ID e)) pairs"
    "map wd_ID (map2 (pending_delivery now) pairs ids) = ids"
    "d \<in> set (map2 (pending_delivery now) pairs ids) \<Longrightarrow>
      attempts_ok d \<and> wd_State d = StatePending \<and> wd_EventID d \<in> (we_ID \<circ> fst) ` set pairs"
  using assms
proof -
  show "map pair_of (map2 (pending_delivery now) pairs ids) = map (\<lambda>(e, s). (wh_ID s, we_ID e)) pairs"
    "map wd_ID (map2 (pending_delivery now) pairs ids) = ids"
    using assms by (induction ids pairs rule: list_induct2) (auto simp: pending_delivery_def)
  show "d \<in> set (map2 (pending_delivery now) pairs ids) \<Longrightarrow>
      attempts_ok d \<and> wd_State d = StatePending \<and> wd_EventID d \<in> (we_ID \<circ> fst) ` set pairs"
    by (force simp: pending_delivery_def attempts_ok_def dest: set_zip_leftD)
qed

text \<open>A step keeps the queue well-formed, and what it adds lies behind the cursor it leaves.\<close>

definition queue_step :: "wh_db \<Rightarrow> wh_db \<Rightarrow> bool" where
  "queue_step db db' \<longleftrightarrow> repo_wh_cursor db \<le> repo_wh_cursor db' \<and>
     (\<forall>d\<in>set (queue_of db'). wd_ID d \<in> wd_ID ` set (queue_of db) \<or>
        (repo_wh_cursor db < wd_EventID d \<and> wd_EventID d \<le> repo_wh_cursor db'))"

lemma queue_step_refl [simp]: "queue_step db db"
  by (simp add: queue_step_def)

lemma shrinks_step: "queue_shrinks db db' \<Longrightarrow> queue_step db db'"
  by (auto simp: queue_shrinks_def queue_step_def repo_wh_cursor_def)

text \<open>So many fan-outs in a row, each with new ids.\<close>

fun fan_rounds ::
    "(int \<Rightarrow> int \<Rightarrow> event_row list) \<Rightarrow> int \<Rightarrow> (nat \<Rightarrow> nat \<Rightarrow> string) \<Rightarrow> (nat \<Rightarrow> go_time) \<Rightarrow> nat \<Rightarrow> wh_db \<Rightarrow> wh_db"
  where
  "fan_rounds Since newest newIDs clock 0 db = db"
| "fan_rounds Since newest newIDs clock (Suc k) db =
     fan_rounds Since newest newIDs clock k (snd (fanOut Since newest (newIDs k) (clock k) db))"

lemma insert_deliveries_fresh:
  "distinct (map wd_ID ds) \<Longrightarrow> set (map wd_ID ds) \<inter> wd_ID ` snd ` set rows = {} \<Longrightarrow>
   insert_deliveries ds rows \<noteq> None"
proof (induction ds rows rule: insert_deliveries.induct)
  case (2 d ds rows)
  then show ?case by (auto simp: list_ex_iff image_iff)
qed simp

context event_feed
begin

definition entries_of :: "'l \<Rightarrow> wh_db \<Rightarrow> wh_event list" where
  "entries_of l db = webhookEvents_Since (Since l) (repo_wh_cursor db) MaxBatch"

lemma entries_facts:
  assumes "good l"
  shows "distinct (map we_ID (entries_of l db))"
    and "e \<in> set (entries_of l db) \<Longrightarrow> repo_wh_cursor db < we_ID e \<and> 0 < we_ID e"
proof -
  have ids: "we_ID \<circ> as_wh_event = ev_ID" by (simp add: fun_eq_iff as_wh_event_def)
  show "distinct (map we_ID (entries_of l db))"
    using since_sorted [OF assms, of "repo_wh_cursor db" MaxBatch] strict_sorted_iff
    by (auto simp: entries_of_def webhookEvents_Since_def ids)
  show "e \<in> set (entries_of l db) \<Longrightarrow> repo_wh_cursor db < we_ID e \<and> 0 < we_ID e"
    using since_logged [OF assms] newest(2) [OF assms]
    by (auto simp: entries_of_def webhookEvents_Since_def as_wh_event_def)
qed

lemma fanOut_effect:
  assumes "good l" "0 \<le> repo_wh_cursor db" "snd (fanOut (Since l) (NewestID l) ids now db) \<noteq> db"
  shows "\<exists>new h. let db' = snd (fanOut (Since l) (NewestID l) ids now db) in
      queue_of db' = queue_of db @ new \<and> wh_rows db' = wh_rows db \<and> wh_cursor db' = Some h \<and>
      map pair_of new = map (\<lambda>(e, s). (wh_ID s, we_ID e)) (wanted_pairs (entries_of l db) (repo_wh_active db)) \<and>
      (\<forall>d\<in>set new. attempts_ok d \<and> wd_State d = StatePending \<and> 0 < wd_EventID d \<and> repo_wh_cursor db < wd_EventID d) \<and>
      (distinct (map wd_ID (queue_of db)) \<longrightarrow> distinct (map wd_ID (queue_of db @ new))) \<and>
      repo_wh_cursor db \<le> h \<and> (\<forall>e\<in>set (entries_of l db). we_ID e \<le> h) \<and>
      h \<in> insert (repo_wh_cursor db) (we_ID ` set (entries_of l db)) \<and> set (map wd_ID new) \<subseteq> range ids"
proof -
  let ?at = "repo_wh_cursor db" and ?es = "entries_of l db"
  define pairs where "pairs = wanted_pairs ?es (repo_wh_active db)"
  define new where "new = map2 (pending_delivery now) pairs (map ids [0..<length pairs])"
  define h where "h = foldl (\<lambda>h e. if h < we_ID e then we_ID e else h) ?at ?es"
  have "fanOut (Since l) (NewestID l) ids now db =
      (if ?es = [] then (Inr 0, db)
       else (case repo_wh_enqueue db new h of
               (Inl e, db') \<Rightarrow> (Inl (wh_translate e), db')
             | (Inr _, db') \<Rightarrow> (Inr (int (length new)), db')))"
    using assms(2) unfolding fanOut_def Let_def new_def pairs_def h_def entries_of_def by simp
  then obtain rows where rows: "insert_deliveries new (wh_deliveries db) = Some rows"
    and db': "snd (fanOut (Since l) (NewestID l) ids now db) = db\<lparr>wh_deliveries := rows, wh_cursor := Some h\<rparr>"
    using assms(3) by (auto simp: repo_wh_enqueue_def split: if_splits option.splits)
  have len: "length (map ids [0..<length pairs]) = length pairs" by simp
  have new: "attempts_ok d \<and> wd_State d = StatePending \<and> 0 < wd_EventID d \<and> ?at < wd_EventID d" if d: "d \<in> set new" for d
  proof -
    obtain p where "p \<in> set pairs" "wd_EventID d = we_ID (fst p)"
      using map2_pending(3) [OF len] d by (fastforce simp: new_def)
    then have "fst p \<in> set ?es" using wanted_pairs_set [of "fst p" "snd p"] by (simp add: pairs_def)
    then show ?thesis
      using entries_facts(2) [OF assms(1)] map2_pending(3) [OF len] d \<open>wd_EventID d = _\<close> by (auto simp: new_def)
  qed
  have queue: "map snd rows = queue_of db @ new"
    "distinct (map wd_ID (queue_of db)) \<longrightarrow> distinct (map wd_ID (queue_of db @ new))"
    using insert_deliveries_queue [OF rows] unfolding queue_of_def by metis+
  have pairs: "map pair_of new = map (\<lambda>(e, s). (wh_ID s, we_ID e)) (wanted_pairs ?es (repo_wh_active db))"
    unfolding new_def pairs_def by (rule map2_pending(1)) simp
  have "map wd_ID new = map ids [0..<length pairs]" unfolding new_def by (rule map2_pending(2)) simp
  then have minted: "set (map wd_ID new) \<subseteq> range ids" by (simp del: set_map) auto
  have bounds: "?at \<le> h" "\<forall>e\<in>set ?es. we_ID e \<le> h" "h \<in> insert ?at (we_ID ` set ?es)"
    unfolding h_def using highest_bounds by blast+
  have "queue_of (db\<lparr>wh_deliveries := rows, wh_cursor := Some h\<rparr>) = queue_of db @ new"
    using queue(1) by (simp add: queue_of_def)
  then show ?thesis
    unfolding db' Let_def using queue(2) pairs bounds new minted by (intro exI [of _ new] exI [of _ h]) simp
qed

lemma fanOut_wf:
  fixes ids :: "nat \<Rightarrow> string" and now :: go_time
  assumes "good l" "wh_wf db"
  defines "db' \<equiv> snd (fanOut (Since l) (NewestID l) ids now db)"
  shows "wh_wf db' \<and> queue_step db db'"
proof (cases "0 \<le> repo_wh_cursor db")
  case False
  then have none: "queue_of db = []"
    using assms(2) by (cases "queue_of db") (auto simp: wh_wf_def)
  have "db' = repo_wh_setCursor db (NewestID l)" using False by (simp add: db'_def fanOut_def)
  then show ?thesis
    using none newest(1) [OF assms(1)] assms(2) False
    by (auto simp: wh_wf_def queue_step_def queue_of_def repo_wh_setCursor_def repo_wh_cursor_def)
next
  case True
  show ?thesis
  proof (cases "db' = db")
    case False
    then obtain new h where
      new: "queue_of db' = queue_of db @ new" "wh_rows db' = wh_rows db" "wh_cursor db' = Some h"
        "map pair_of new = map (\<lambda>(e, s). (wh_ID s, we_ID e)) (wanted_pairs (entries_of l db) (repo_wh_active db))"
        "\<forall>d\<in>set new. attempts_ok d \<and> wd_State d = StatePending \<and> 0 < wd_EventID d \<and> repo_wh_cursor db < wd_EventID d"
        "distinct (map wd_ID (queue_of db)) \<longrightarrow> distinct (map wd_ID (queue_of db @ new))"
        "repo_wh_cursor db \<le> h" "\<forall>e\<in>set (entries_of l db). we_ID e \<le> h"
      using fanOut_effect [OF assms(1) True, of ids now] by (auto simp: db'_def Let_def)
    have old: "\<forall>d\<in>set (queue_of db). attempts_ok d \<and> 0 < wd_EventID d \<and> wd_EventID d \<le> repo_wh_cursor db"
      and ids: "distinct (map wh_ID (wh_rows db))" "distinct (map wd_ID (queue_of db))" "distinct (map pair_of (queue_of db))"
      using assms(2) by (auto simp: wh_wf_def)
    have top: "wd_EventID d \<le> h" if "d \<in> set new" for d
    proof -
      have "pair_of d \<in> set (map pair_of new)" using that by simp
      then have "wd_EventID d \<in> we_ID ` set (entries_of l db)" unfolding new(4) by (auto simp: wanted_pairs_set)
      then show ?thesis using new(8) by auto
    qed
    have "distinct (map pair_of new)"
      unfolding new(4) using distinct_wanted_pairs entries_facts(1) [OF assms(1)] active_facts(1) [OF ids(1)] by blast
    moreover have "set (map pair_of (queue_of db)) \<inter> set (map pair_of new) = {}"
      using old new(5) by fastforce
    ultimately have "distinct (map pair_of (queue_of db'))" using ids(3) new(1) by (simp add: disjoint_iff)
    moreover have "distinct (map wd_ID (queue_of db'))" using new(1,6) ids(2) by simp
    moreover have cursor: "repo_wh_cursor db' = h" using new(3) by (simp add: repo_wh_cursor_def)
    moreover have rows: "\<forall>d\<in>set (queue_of db'). attempts_ok d \<and> 0 < wd_EventID d \<and> wd_EventID d \<le> h"
      using old new(1,5,7) top by auto
    moreover have "queue_step db db'" using new(1,5,7) top cursor by (auto simp: queue_step_def)
    ultimately show ?thesis using ids(1) new(2,7) True by (simp add: wh_wf_def)
  qed (use assms(2) in simp)
qed

lemma fanOut_moves:
  assumes "good l" "0 \<le> repo_wh_cursor db" "entries_of l db \<noteq> []" "inj ids" "\<And>i. ids i \<notin> wd_ID ` set (queue_of db)"
  shows "snd (fanOut (Since l) (NewestID l) ids now db) \<noteq> db"
proof -
  let ?es = "entries_of l db"
  define pairs where "pairs = wanted_pairs ?es (repo_wh_active db)"
  define new where "new = map2 (pending_delivery now) pairs (map ids [0..<length pairs])"
  define h where "h = foldl (\<lambda>h e. if h < we_ID e then we_ID e else h) (repo_wh_cursor db) ?es"
  have "map wd_ID new = map ids [0..<length pairs]" unfolding new_def by (rule map2_pending(2)) simp
  moreover have "distinct (map ids [0..<length pairs])" using assms(4) by (simp add: distinct_map inj_on_def)
  moreover have "set (map ids [0..<length pairs]) \<inter> wd_ID ` snd ` set (wh_deliveries db) = {}"
    using assms(5) by (auto simp: queue_of_def)
  ultimately obtain rows where "insert_deliveries new (wh_deliveries db) = Some rows"
    using insert_deliveries_fresh [of new "wh_deliveries db"] by auto
  then have "snd (fanOut (Since l) (NewestID l) ids now db) = db\<lparr>wh_deliveries := rows, wh_cursor := Some h\<rparr>"
    using assms(2,3) unfolding fanOut_def Let_def new_def pairs_def h_def entries_of_def
    by (simp add: repo_wh_enqueue_def)
  moreover have "repo_wh_cursor db < h"
    using entries_facts(2) [OF assms(1), of "hd ?es" db] highest_bounds(2) [of "hd ?es" ?es "repo_wh_cursor db"] assms(3)
    by (simp add: h_def)
  ultimately show ?thesis by (auto simp: repo_wh_cursor_def dest!: arg_cong [of _ _ wh_cursor] split: option.splits)
qed

lemma batch_shrinks:
  assumes "good l" "a \<le> h" "\<And>e. e \<in> set (Since l a MaxBatch) \<Longrightarrow> ev_ID e \<le> h"
    "card {e \<in> logged l. a < ev_ID e} \<le> 100 * Suc k"
  shows "card {e \<in> logged l. h < ev_ID e} \<le> 100 * k"
proof (cases "{e \<in> logged l. h < ev_ID e} = {}")
  case False
  let ?B = "Since l a MaxBatch"
  obtain e where e: "e \<in> logged l" "h < ev_ID e" using False by blast
  then have "int (length ?B) = MaxBatch"
    using since_complete [OF assms(1), of MaxBatch e a] assms(2,3) by fastforce
  moreover have "distinct ?B"
    using since_sorted [OF assms(1), of a MaxBatch] by (simp add: strict_sorted_iff distinct_map)
  ultimately have full: "card (set ?B) = 100" by (simp add: distinct_card)
  have sub: "set ?B \<union> {e \<in> logged l. h < ev_ID e} \<subseteq> {e \<in> logged l. a < ev_ID e}"
    using since_logged [OF assms(1)] assms(2) by auto
  have "set ?B \<inter> {e \<in> logged l. h < ev_ID e} = {}" using assms(3) by fastforce
  then have "card (set ?B) + card {e \<in> logged l. h < ev_ID e} = card (set ?B \<union> {e \<in> logged l. h < ev_ID e})"
    using finite_logged by (subst card_Un_disjoint) simp_all
  also have "\<dots> \<le> card {e \<in> logged l. a < ev_ID e}" by (rule card_mono [OF _ sub]) (simp add: finite_logged)
  finally show ?thesis using full assms(4) by simp
next
  case True
  then show ?thesis by (metis card.empty le0)
qed

text \<open>
  One round with new ids: what an active subscription wants of the log is queued, or
  still lies behind the cursor, and of that there are a hundred fewer.
\<close>

lemma fan_round:
  assumes "good l" "wh_wf db" "0 \<le> repo_wh_cursor db" "inj ids" "\<And>i. ids i \<notin> wd_ID ` set (queue_of db)"
    "card {e \<in> logged l. repo_wh_cursor db < ev_ID e} \<le> 100 * Suc k"
  obtains db' where "db' = snd (fanOut (Since l) (NewestID l) ids now db)" "wh_wf db'" "0 \<le> repo_wh_cursor db'"
    "wh_rows db' = wh_rows db" "set (queue_of db) \<subseteq> set (queue_of db')"
    "wd_ID ` set (queue_of db') \<subseteq> wd_ID ` set (queue_of db) \<union> range ids"
    "card {e \<in> logged l. repo_wh_cursor db' < ev_ID e} \<le> 100 * k"
    "\<And>e s. e \<in> logged l \<Longrightarrow> s \<in> set (wh_rows db) \<Longrightarrow> repo_wh_cursor db < ev_ID e \<Longrightarrow> wh_Active s \<Longrightarrow>
      wants s (as_wh_event e) \<Longrightarrow>
      (wh_ID s, ev_ID e) \<in> pair_of ` set (queue_of db') \<or> repo_wh_cursor db' < ev_ID e"
proof (cases "entries_of l db = []")
  case True
  have "Since l (repo_wh_cursor db) MaxBatch = []" using True by (simp add: entries_of_def webhookEvents_Since_def)
  then have none: "{e \<in> logged l. repo_wh_cursor db < ev_ID e} = {}"
    using since_complete [OF assms(1), of MaxBatch _ "repo_wh_cursor db"] by fastforce
  then have "card {e \<in> logged l. repo_wh_cursor db < ev_ID e} \<le> 100 * k" by (metis card.empty le0)
  moreover have "snd (fanOut (Since l) (NewestID l) ids now db) = db"
    using True assms(3) by (simp add: fanOut_def entries_of_def Let_def)
  ultimately show ?thesis using that [of db] assms(2,3) none by auto
next
  case False
  let ?at = "repo_wh_cursor db" and ?B = "Since l (repo_wh_cursor db) MaxBatch"
  define db' where "db' = snd (fanOut (Since l) (NewestID l) ids now db)"
  have "db' \<noteq> db" unfolding db'_def using fanOut_moves [OF assms(1,3) False assms(4,5)] .
  then obtain new h where
    new: "queue_of db' = queue_of db @ new" "wh_rows db' = wh_rows db" "wh_cursor db' = Some h"
      "map pair_of new = map (\<lambda>(e, s). (wh_ID s, we_ID e)) (wanted_pairs (entries_of l db) (repo_wh_active db))"
      "?at \<le> h" "h \<in> insert ?at (we_ID ` set (entries_of l db))" "\<forall>e\<in>set (entries_of l db). we_ID e \<le> h"
      "set (map wd_ID new) \<subseteq> range ids"
    using fanOut_effect [OF assms(1,3), of ids now] unfolding db'_def Let_def by blast
  have cursor: "repo_wh_cursor db' = h" using new(3) by (simp add: repo_wh_cursor_def)
  have batch: "as_wh_event e \<in> set (entries_of l db)" if "e \<in> set ?B" for e
    using that by (simp add: entries_of_def webhookEvents_Since_def)
  have "card {e \<in> logged l. h < ev_ID e} \<le> 100 * k"
    by (rule batch_shrinks [OF assms(1) new(5) _ assms(6)]) (use new(7) batch in \<open>force simp: as_wh_event_def\<close>)
  moreover have "(wh_ID s, ev_ID e) \<in> pair_of ` set (queue_of db') \<or> h < ev_ID e"
    if e: "e \<in> logged l" "?at < ev_ID e" and s: "s \<in> set (wh_rows db)" "wh_Active s" "wants s (as_wh_event e)" for e s
  proof (cases "e \<in> set ?B")
    case True
    have "s \<in> set (repo_wh_active db)" using s assms(2) active_facts(2) by (auto simp: wh_wf_def)
    then have "(as_wh_event e, s) \<in> set (wanted_pairs (entries_of l db) (repo_wh_active db))"
      using batch [OF True] s by (simp add: wanted_pairs_set)
    then have "(wh_ID s, we_ID (as_wh_event e)) \<in> set (map pair_of new)" unfolding new(4) by force
    then show ?thesis using new(1) by (auto simp: as_wh_event_def)
  next
    case False
    then show ?thesis
      using since_complete [OF assms(1) _ _ e, of MaxBatch] e(2) new(6)
      by (auto simp: entries_of_def webhookEvents_Since_def as_wh_event_def)
  qed
  moreover have "wh_wf db'" unfolding db'_def using fanOut_wf [OF assms(1,2)] by blast
  ultimately show ?thesis
    using that [of db'] new(1,2,5,8) assms(3) unfolding cursor by (simp add: db'_def image_Un) blast
qed

lemma fan_rounds_complete:
  assumes "good l" "\<And>j. inj (newIDs j)" "\<And>i j i' j'. newIDs j i = newIDs j' i' \<Longrightarrow> j = j'"
  shows "wh_wf db \<Longrightarrow> 0 \<le> repo_wh_cursor db \<Longrightarrow>
    (\<And>j i. j < k \<Longrightarrow> newIDs j i \<notin> wd_ID ` set (queue_of db)) \<Longrightarrow>
    card {e \<in> logged l. repo_wh_cursor db < ev_ID e} \<le> 100 * k \<Longrightarrow>
    (let db' = fan_rounds (Since l) (NewestID l) newIDs clock k db in
      wh_wf db' \<and> set (queue_of db) \<subseteq> set (queue_of db') \<and>
      (\<forall>e\<in>logged l. \<forall>s\<in>set (wh_rows db). repo_wh_cursor db < ev_ID e \<longrightarrow> wh_Active s \<longrightarrow> wants s (as_wh_event e) \<longrightarrow>
        (wh_ID s, ev_ID e) \<in> pair_of ` set (queue_of db')))"
proof (induction k arbitrary: db)
  case 0
  then have "{e \<in> logged l. repo_wh_cursor db < ev_ID e} = {}" using finite_logged by simp
  then show ?case using 0 by auto
next
  case (Suc k)
  obtain db' where round: "db' = snd (fanOut (Since l) (NewestID l) (newIDs k) (clock k) db)"
    "wh_wf db'" "0 \<le> repo_wh_cursor db'" "wh_rows db' = wh_rows db" "set (queue_of db) \<subseteq> set (queue_of db')"
    "wd_ID ` set (queue_of db') \<subseteq> wd_ID ` set (queue_of db) \<union> range (newIDs k)"
    "card {e \<in> logged l. repo_wh_cursor db' < ev_ID e} \<le> 100 * k"
    "\<And>e s. e \<in> logged l \<Longrightarrow> s \<in> set (wh_rows db) \<Longrightarrow> repo_wh_cursor db < ev_ID e \<Longrightarrow> wh_Active s \<Longrightarrow>
      wants s (as_wh_event e) \<Longrightarrow>
      (wh_ID s, ev_ID e) \<in> pair_of ` set (queue_of db') \<or> repo_wh_cursor db' < ev_ID e"
    using fan_round [OF assms(1) Suc.prems(1,2) assms(2) Suc.prems(3) [OF lessI] Suc.prems(4)] by blast
  have fresh: "newIDs j i \<notin> wd_ID ` set (queue_of db')" if "j < k" for j i
  proof -
    have "newIDs j i \<notin> range (newIDs k)" using assms(3) [of j i k] that by auto
    then show ?thesis using Suc.prems(3) [of j i] that round(6) by auto
  qed
  define last where "last = fan_rounds (Since l) (NewestID l) newIDs clock k db'"
  have rest: "wh_wf last" "set (queue_of db') \<subseteq> set (queue_of last)"
    "\<forall>e\<in>logged l. \<forall>s\<in>set (wh_rows db). repo_wh_cursor db' < ev_ID e \<longrightarrow> wh_Active s \<longrightarrow> wants s (as_wh_event e) \<longrightarrow>
      (wh_ID s, ev_ID e) \<in> pair_of ` set (queue_of last)"
    using Suc.IH [OF round(2,3) fresh round(7)] by (simp_all add: Let_def last_def round(4))
  have "fan_rounds (Since l) (NewestID l) newIDs clock (Suc k) db = last" by (simp add: last_def round(1))
  then show ?case using rest round(5,8) by (simp add: Let_def) blast
qed

end

lemma length_filter_distinct_key:
  assumes "distinct (map f xs)" "k \<in> f ` set xs"
  shows "length (filter (\<lambda>x. f x = k) xs) = 1"
  using assms
proof (induction xs)
  case (Cons x xs)
  have "filter (\<lambda>y. f y = f x) xs = []" using Cons.prems(1) by (auto simp: filter_empty_conv) (metis image_eqI)
  then show ?case using Cons by auto
qed simp

section \<open>Runs of the module\<close>

text \<open>Events are recorded, requests are served and the pump runs, in any order.\<close>

inductive wh_run :: "(string \<Rightarrow> parsed_url option) \<Rightarrow> event_log \<times> wh_db \<Rightarrow> event_log \<times> wh_db \<Rightarrow> bool"
  for url_Parse where
  record_event: "wh_run url_Parse (l, db) (event_record now e l, db)"
| restart: "wh_run url_Parse (l, db) (event_newService l, db)"
| fan_out: "wh_run url_Parse (l, db) (l, snd (fanOut (event_since l) (repo_event_newestID l) newIDs now db))"
| deliver: "wh_run url_Parse (l, db) (l, snd (wh_drain post now db))"
| create: "wh_run url_Parse (l, db) (l, snd (wh_create url_Parse newID secret now db p))"
| set_active: "wh_run url_Parse (l, db) (l, snd (wh_setActive db pid ref active))"
| remove: "wh_run url_Parse (l, db) (l, snd (wh_remove db pid ref))"

abbreviation empty_wh :: wh_db where "empty_wh \<equiv> \<lparr>wh_rows = [], wh_deliveries = [], wh_cursor = None\<rparr>"

lemma rows_change_wf:
  assumes "wh_wf db" "wh_deliveries db' = wh_deliveries db" "wh_cursor db' = wh_cursor db"
    "distinct (map wh_ID (wh_rows db'))"
  shows "wh_wf db' \<and> queue_shrinks db db'"
  using assms by (simp add: wh_wf_def queue_of_def repo_wh_cursor_def queue_shrinks_def)

lemma wh_create_wf:
  assumes "wh_wf db"
  shows "wh_wf (snd (wh_create url_Parse newID secret now db p)) \<and>
    queue_shrinks db (snd (wh_create url_Parse newID secret now db p))"
proof -
  have "wh_wf (snd (repo_wh_insert db s)) \<and> queue_shrinks db (snd (repo_wh_insert db s))" for s
    using assms by (intro rows_change_wf) (auto simp: repo_wh_insert_def wh_wf_def list_ex_iff)
  then show ?thesis
    using assms by (auto simp: wh_create_def Let_def queue_shrinks_def [of db db] split: sum.split option.split prod.split)
      (metis snd_conv)+
qed

lemma setActive_wf:
  assumes "wh_wf db"
  shows "wh_wf (snd (wh_setActive db pid ref active)) \<and> queue_shrinks db (snd (wh_setActive db pid ref active))"
proof -
  have "map wh_ID (map (\<lambda>s. if wh_ID s = sid then s\<lparr>wh_Active := active\<rparr> else s) xs) = map wh_ID xs"
    for sid and xs :: "subscription list"
    by (induction xs) auto
  then have "wh_wf (snd (repo_wh_setActive db sid active)) \<and> queue_shrinks db (snd (repo_wh_setActive db sid active))" for sid
    using assms by (intro rows_change_wf) (simp_all add: repo_wh_setActive_def wh_wf_def del: map_map)
  then show ?thesis
    using assms by (auto simp: wh_setActive_def queue_shrinks_def [of db db] split: sum.split prod.split) (metis snd_conv)+
qed

lemma wh_remove_wf:
  assumes "wh_wf db"
  shows "wh_wf (snd (wh_remove db pid ref)) \<and> queue_shrinks db (snd (wh_remove db pid ref))"
proof -
  have "wh_wf (snd (repo_wh_delete db sid)) \<and> queue_shrinks db (snd (repo_wh_delete db sid))" for sid
  proof -
    let ?cut = "db\<lparr>wh_deliveries := filter (\<lambda>(_, d). wd_SubscriptionID d \<noteq> sid) (wh_deliveries db)\<rparr>"
    have cut: "wh_wf ?cut \<and> queue_shrinks db ?cut" using assms by (rule filter_queue_wf) simp_all
    have "wh_wf (?cut\<lparr>wh_rows := filter (\<lambda>s. wh_ID s \<noteq> sid) (wh_rows db)\<rparr>) \<and>
        queue_shrinks ?cut (?cut\<lparr>wh_rows := filter (\<lambda>s. wh_ID s \<noteq> sid) (wh_rows db)\<rparr>)"
      using cut by (intro rows_change_wf) (auto simp: wh_wf_def distinct_map_filter)
    with cut show ?thesis
      using assms queue_shrinks_trans by (auto simp: repo_wh_delete_def queue_shrinks_def [of db db])
  qed
  then show ?thesis
    using assms by (auto simp: wh_remove_def queue_shrinks_def [of db db] split: sum.split prod.split) (metis snd_conv)+
qed

lemma wh_run_wf:
  assumes "wh_run url_Parse (l, db) (l', db')" "log_wf l" "wh_wf db"
  shows "log_wf l' \<and> wh_wf db' \<and> queue_step db db'"
  using assms(1)
proof cases
  case (record_event now e)
  then show ?thesis using assms event_record_wf by simp
next
  case restart
  then show ?thesis using assms event_newService_wf by simp
next
  case (fan_out newIDs now)
  then show ?thesis using assms event_module.fanOut_wf by simp
next
  case (deliver post now)
  then show ?thesis using assms drain_wf shrinks_step by simp
next
  case (create newID secret now p)
  then show ?thesis using assms wh_create_wf shrinks_step by simp
next
  case (set_active pid ref active)
  then show ?thesis using assms setActive_wf shrinks_step by simp
next
  case (remove pid ref)
  then show ?thesis using assms wh_remove_wf shrinks_step by simp
qed

lemma wh_reachable_wf:
  assumes "(wh_run url_Parse)\<^sup>*\<^sup>* (empty_log, empty_wh) (l, db)"
  shows "log_wf l \<and> wh_wf db"
  using assms
proof (induction "(l, db)" arbitrary: l db rule: rtranclp_induct)
  case base
  show ?case using event_log_wf [of "[]"] by (simp add: wh_wf_def queue_of_def repo_wh_cursor_def)
next
  case (step st)
  then show ?case using wh_run_wf [of url_Parse "fst st" "snd st" l db] by (cases st) simp
qed

text \<open>
  C16: However recording, fan-outs, deliveries, requests and restarts of the control plane
  interleave, a webhook never has two deliveries of one event, no delivery is tried more than six times and
  one that is still pending fewer, and no step queues an event that the cursor had
  already passed, so an event that was delivered and pruned does not come back.
\<close>

theorem webhook_event_once:
  assumes "(wh_run url_Parse)\<^sup>*\<^sup>* (empty_log, empty_wh) (l, db)" "wh_run url_Parse (l, db) (l', db')"
  shows "distinct (map (\<lambda>d. (wd_SubscriptionID d, wd_EventID d)) (queue_of db')) \<and>
    (\<forall>d\<in>set (queue_of db').
      wd_Attempts d \<le> 6 \<and> (wd_State d = StatePending \<longrightarrow> wd_Attempts d < 6) \<and>
      (wd_ID d \<in> wd_ID ` set (queue_of db) \<or>
       repo_wh_cursor db < wd_EventID d \<and> wd_EventID d \<le> repo_wh_cursor db'))"
proof -
  have wf: "log_wf l" "wh_wf db" using wh_reachable_wf [OF assms(1)] by simp_all
  then have "wh_wf db'" "queue_step db db'" using wh_run_wf [OF assms(2)] by simp_all
  then show ?thesis by (auto simp: wh_wf_def attempts_ok_def queue_step_def)
qed

definition hook_parse :: "string \<Rightarrow> parsed_url option" where
  "hook_parse raw = Some \<lparr>pu_Scheme = ''https'', pu_Host = ''example.org'', pu_HasUser = False, pu_String = raw\<rparr>"

definition hook_event :: entry where
  "hook_event = \<lparr>e_ProjectID = ''p1'', e_Kind = ''instance.created'', e_Subject = ''i_1'', e_NodeID = [],
     e_Message = [], e_Severity = Info\<rparr>"

definition hook_created :: wh_db where
  "hook_created = snd (wh_create hook_parse ''wh_1'' ''whsec_1'' 1 empty_wh
     \<lparr>wc_ProjectID = ''p1'', wc_Name = ''ci'', wc_URL = ''https://example.org'', wc_Kinds = [''instance.*'']\<rparr>)"

definition hook_ready :: wh_db where
  "hook_ready = snd (fanOut (event_since empty_log) (repo_event_newestID empty_log) (\<lambda>_. ''whd_0'') 2 hook_created)"

definition hook_log :: event_log where
  "hook_log = event_record 3 hook_event empty_log"

definition hook_queued :: wh_db where
  "hook_queued = snd (fanOut (event_since hook_log) (repo_event_newestID hook_log) (\<lambda>_. ''whd_1'') 4 hook_ready)"

lemma hook_reachable: "(wh_run hook_parse)\<^sup>*\<^sup>* (empty_log, empty_wh) (hook_log, hook_ready)"
proof -
  have "wh_run hook_parse (empty_log, empty_wh) (empty_log, hook_created)"
    unfolding hook_created_def by (rule wh_run.create)
  moreover have "wh_run hook_parse (empty_log, hook_created) (empty_log, hook_ready)"
    unfolding hook_ready_def by (rule wh_run.fan_out)
  moreover have "wh_run hook_parse (empty_log, hook_ready) (hook_log, hook_ready)"
    unfolding hook_log_def by (rule wh_run.record_event)
  ultimately show ?thesis by (meson r_into_rtranclp rtranclp.rtrancl_into_rtrancl)
qed

theorem webhook_event_once_witness:
  "distinct (map (\<lambda>d. (wd_SubscriptionID d, wd_EventID d)) (queue_of hook_queued)) \<and>
   map wd_EventID (queue_of hook_queued) = [1]"
proof
  have "wh_run hook_parse (hook_log, hook_ready) (hook_log, hook_queued)"
    unfolding hook_queued_def by (rule wh_run.fan_out)
  then show "distinct (map (\<lambda>d. (wd_SubscriptionID d, wd_EventID d)) (queue_of hook_queued))"
    using webhook_event_once [OF hook_reachable] by blast
qed code_simp

text \<open>
  C17: Enough fan-outs, one per hundred entries of the log, queue exactly one delivery
  for every event behind the cursor and every active webhook of its project whose
  kinds match, provided the ids of the new deliveries are new.
\<close>

theorem webhook_fan_out_complete:
  assumes "log_wf l" "wh_wf db" "0 \<le> repo_wh_cursor db"
    "inj (\<lambda>(j, i). newIDs j i)" "\<And>j i. newIDs j i \<notin> wd_ID ` set (queue_of db)"
    "length (ev_rows l) \<le> 100 * k"
    "e \<in> set (ev_rows l)" "repo_wh_cursor db < ev_ID e"
    "s \<in> set (wh_rows db)" "wh_Active s" "wants s (as_wh_event e)"
  shows "length (filter (\<lambda>d. wd_SubscriptionID d = wh_ID s \<and> wd_EventID d = ev_ID e)
    (queue_of (fan_rounds (event_since l) (repo_event_newestID l) newIDs clock k db))) = 1"
proof -
  define db' where "db' = fan_rounds (event_since l) (repo_event_newestID l) newIDs clock k db"
  have "inj (newIDs j)" for j using assms(4) by (auto simp: inj_on_def)
  moreover have "newIDs j i = newIDs j' i' \<Longrightarrow> j = j'" for i j i' j' using assms(4) by (auto simp: inj_on_def)
  moreover have "card {e \<in> set (ev_rows l). repo_wh_cursor db < ev_ID e} \<le> 100 * k"
    by (rule order.trans [OF card_mono order.trans [OF card_length assms(6)]]) auto
  ultimately have db': "wh_wf db'" "(wh_ID s, ev_ID e) \<in> pair_of ` set (queue_of db')"
    using event_module.fan_rounds_complete [OF assms(1), where newIDs = newIDs and clock = clock and k = k and db = db] assms
    by (auto simp: Let_def db'_def)
  have "distinct (map pair_of (queue_of db'))" using db'(1) by (simp add: wh_wf_def)
  then have "length (filter (\<lambda>d. pair_of d = (wh_ID s, ev_ID e)) (queue_of db')) = 1"
    using db'(2) by (intro length_filter_distinct_key) auto
  then show ?thesis by (simp add: db'_def)
qed

definition hook_ids :: "nat \<Rightarrow> nat \<Rightarrow> string" where
  "hook_ids j i = replicate j CHR ''a'' @ CHR ''b'' # replicate i CHR ''c''"

lemma hook_ids_inj: "inj (\<lambda>(j, i). hook_ids j i)"
proof (rule injI, clarify)
  fix j i j' i' assume eq: "hook_ids j i = hook_ids j' i'"
  have round: "length (takeWhile (\<lambda>c. c = CHR ''a'') (hook_ids j i)) = j" for j i
    by (simp add: hook_ids_def takeWhile_append)
  have "j = j'" using round [of j i] round [of j' i'] eq by simp
  moreover have "length (hook_ids j i) = j + 1 + i" for j i by (simp add: hook_ids_def)
  then have "j + 1 + i = j' + 1 + i'" using eq by metis
  ultimately show "j = j' \<and> i = i'" by simp
qed

theorem webhook_fan_out_complete_witness:
  "length (filter (\<lambda>d. wd_SubscriptionID d = ''wh_1'' \<and> wd_EventID d = 1)
     (queue_of (fan_rounds (event_since hook_log) (repo_event_newestID hook_log) hook_ids int 1 hook_ready))) = 1"
proof -
  have wf: "log_wf hook_log" "wh_wf hook_ready" using wh_reachable_wf [OF hook_reachable] by simp_all
  have facts: "0 \<le> repo_wh_cursor hook_ready" "queue_of hook_ready = []" "length (ev_rows hook_log) \<le> 100 * 1"
    "repo_wh_cursor hook_ready < ev_ID (hd (ev_rows hook_log))" "wh_Active (hd (wh_rows hook_ready))"
    "wants (hd (wh_rows hook_ready)) (as_wh_event (hd (ev_rows hook_log)))"
    "ev_rows hook_log \<noteq> []" "wh_rows hook_ready \<noteq> []"
    "wh_ID (hd (wh_rows hook_ready)) = ''wh_1''" "ev_ID (hd (ev_rows hook_log)) = 1"
    by code_simp+
  show ?thesis
    using webhook_fan_out_complete [OF wf facts(1) hook_ids_inj _ facts(3) hd_in_set [OF facts(7)] facts(4)
        hd_in_set [OF facts(8)] facts(5,6), of int] facts(2,9,10) by simp
qed

end
