(* ===== verification/Accounts.thy ===== *)
theory Accounts
  imports Paging
begin

text \<open>
  Who may use the platform: bearer tokens (src/internal/platform/token), people who
  sign in (src/internal/platform/user) and projects (src/internal/platform/project).
  SHA-256 and the key derivation of passwords are arguments, as are new ids, secrets
  and salts, the parser of durations and the answer of the login limiter, whose
  buckets are floating point. A database error is not modelled.
\<close>

section \<open>Projects\<close>

abbreviation (input) DefaultProjectID :: string where "DefaultProjectID \<equiv> ''prj-default''"
abbreviation (input) DefaultProjectName :: string where "DefaultProjectName \<equiv> ''default''"

record project =
  pr_ID :: string
  pr_Name :: string
  pr_CreatedAt :: go_time

datatype project_error = pr_errNotFound | pr_errNameTaken

definition project_translate :: "project_error \<Rightarrow> fault" where
  "project_translate e =
     (case e of pr_errNotFound \<Rightarrow> NotFound ''project_not_found''
              | pr_errNameTaken \<Rightarrow> Conflict ''project_name_taken'')"

definition repo_project_insert :: "project list \<Rightarrow> project \<Rightarrow> (project_error + unit) \<times> project list" where
  "repo_project_insert ps p =
     (if list_ex (\<lambda>q. pr_ID q = pr_ID p \<or> pr_Name q = pr_Name p) ps then (Inl pr_errNameTaken, ps)
      else (Inr (), ps @ [p]))"

definition repo_project_byID :: "project list \<Rightarrow> string \<Rightarrow> project_error + project" where
  "repo_project_byID ps pid =
     (case find (\<lambda>p. pr_ID p = pid) ps of None \<Rightarrow> Inl pr_errNotFound | Some p \<Rightarrow> Inr p)"

definition repo_project_byName :: "project list \<Rightarrow> string \<Rightarrow> project_error + project" where
  "repo_project_byName ps name =
     (case find (\<lambda>p. pr_Name p = name) ps of None \<Rightarrow> Inl pr_errNotFound | Some p \<Rightarrow> Inr p)"

definition repo_project_delete :: "project list \<Rightarrow> string \<Rightarrow> (project_error + unit) \<times> project list" where
  "repo_project_delete ps pid =
     (if list_ex (\<lambda>p. pr_ID p = pid) ps then (Inr (), filter (\<lambda>p. pr_ID p \<noteq> pid) ps)
      else (Inl pr_errNotFound, ps))"

definition project_create :: "string \<Rightarrow> go_time \<Rightarrow> string \<Rightarrow> project list \<Rightarrow> project result \<times> project list" where
  "project_create newID now name ps =
     (case validate_Name ''name'' name of
        Inl e \<Rightarrow> (Inl e, ps)
      | Inr _ \<Rightarrow>
          (let p = \<lparr>pr_ID = newID, pr_Name = name, pr_CreatedAt = now\<rparr>
           in case repo_project_insert ps p of
                (Inl e, ps') \<Rightarrow> (Inl (project_translate e), ps')
              | (Inr _, ps') \<Rightarrow> (Inr p, ps')))"

definition project_exists :: "project list \<Rightarrow> string \<Rightarrow> bool" where
  "project_exists ps pid = (case repo_project_byID ps pid of Inl _ \<Rightarrow> False | Inr _ \<Rightarrow> True)"

text \<open>\<open>held pid\<close> is the number of resources the project holds.\<close>

definition project_remove :: "(string \<Rightarrow> int) \<Rightarrow> string \<Rightarrow> project list \<Rightarrow> unit result \<times> project list" where
  "project_remove held pid ps =
     (if pid = DefaultProjectID then (Inl (Conflict ''default_project''), ps)
      else (case repo_project_byID ps pid of
              Inl e \<Rightarrow> (Inl (project_translate e), ps)
            | Inr _ \<Rightarrow>
                if 0 < held pid then (Inl (Conflict ''project_in_use''), ps)
                else (case repo_project_delete ps pid of
                        (Inl e, ps') \<Rightarrow> (Inl (project_translate e), ps')
                      | (Inr _, ps') \<Rightarrow> (Inr (), ps'))))"

definition ensureDefault :: "go_time \<Rightarrow> project list \<Rightarrow> project result \<times> project list" where
  "ensureDefault now ps =
     (case repo_project_byID ps DefaultProjectID of
        Inr p \<Rightarrow> (Inr p, ps)
      | Inl _ \<Rightarrow>
          (let p = \<lparr>pr_ID = DefaultProjectID, pr_Name = DefaultProjectName, pr_CreatedAt = now\<rparr>
           in case repo_project_insert ps p of
                (Inr _, ps') \<Rightarrow> (Inr p, ps')
              | (Inl e, ps') \<Rightarrow>
                  (case repo_project_byName ps' DefaultProjectName of
                     Inl _ \<Rightarrow> (Inl Internal, ps') | Inr q \<Rightarrow> (Inr q, ps'))))"

section \<open>Tokens\<close>

abbreviation (input) RoleAdmin :: string where "RoleAdmin \<equiv> ''admin''"
abbreviation (input) RoleMember :: string where "RoleMember \<equiv> ''member''"
abbreviation (input) RoleViewer :: string where "RoleViewer \<equiv> ''viewer''"
abbreviation (input) RoleNode :: string where "RoleNode \<equiv> ''node''"
abbreviation (input) MaxLifetime :: duration where "MaxLifetime \<equiv> 315360000000000000"

record token =
  tk_ID :: string
  tk_Name :: string
  tk_Role :: string
  tk_ProjectID :: string
  tk_UserID :: string
  tk_Hash :: string
  tk_CreatedAt :: go_time
  tk_LastUsedAt :: go_time
  tk_ExpiresAt :: go_time

record identity =
  idn_ID :: string
  idn_Name :: string
  idn_Role :: string
  idn_ProjectID :: string
  idn_UserID :: string
  idn_ExpiresAt :: go_time

record token_params =
  tp_Name :: string
  tp_Role :: string
  tp_ProjectID :: string
  tp_UserID :: string
  tp_ExpiresIn :: string

definition token_Expired :: "token \<Rightarrow> go_time \<Rightarrow> bool" where
  "token_Expired t now \<longleftrightarrow> tk_ExpiresAt t \<noteq> zero_time \<and> \<not> now < tk_ExpiresAt t"

definition token_Roles :: "string list" where
  "token_Roles = [RoleAdmin, RoleMember, RoleViewer, RoleNode]"

datatype token_error = tk_errNotFound | tk_errNameTaken

definition token_translate :: "token_error \<Rightarrow> fault" where
  "token_translate e =
     (case e of tk_errNotFound \<Rightarrow> NotFound ''token_not_found''
              | tk_errNameTaken \<Rightarrow> Conflict ''token_name_taken'')"

text \<open>Unique: the id, the hash, and the name within its project.\<close>

definition repo_token_insert :: "token list \<Rightarrow> token \<Rightarrow> (token_error + unit) \<times> token list" where
  "repo_token_insert ts t =
     (if list_ex (\<lambda>q. tk_ID q = tk_ID t \<or> tk_Hash q = tk_Hash t \<or>
           (tk_ProjectID q = tk_ProjectID t \<and> tk_Name q = tk_Name t)) ts
      then (Inl tk_errNameTaken, ts) else (Inr (), ts @ [t]))"

definition identity_of :: "token \<Rightarrow> identity" where
  "identity_of t = \<lparr>idn_ID = tk_ID t, idn_Name = tk_Name t, idn_Role = tk_Role t,
     idn_ProjectID = tk_ProjectID t, idn_UserID = tk_UserID t, idn_ExpiresAt = tk_ExpiresAt t\<rparr>"

definition repo_token_byHash :: "token list \<Rightarrow> string \<Rightarrow> token_error + identity" where
  "repo_token_byHash ts h =
     (case find (\<lambda>t. tk_Hash t = h) ts of None \<Rightarrow> Inl tk_errNotFound | Some t \<Rightarrow> Inr (identity_of t))"

definition repo_token_deleteForUser :: "string \<Rightarrow> token list \<Rightarrow> token list" where
  "repo_token_deleteForUser uid ts = (if uid = [] then ts else filter (\<lambda>t. tk_UserID t \<noteq> uid) ts)"

definition repo_token_touch :: "string \<Rightarrow> go_time \<Rightarrow> token list \<Rightarrow> token list" where
  "repo_token_touch tid at ts = map (\<lambda>t. if tk_ID t = tid then t\<lparr>tk_LastUsedAt := at\<rparr> else t) ts"

definition repo_token_list :: "token list \<Rightarrow> token list" where
  "repo_token_list ts = sort_key tk_Name ts"

definition repo_token_delete :: "token list \<Rightarrow> string \<Rightarrow> (token_error + unit) \<times> token list" where
  "repo_token_delete ts tid =
     (if list_ex (\<lambda>t. tk_ID t = tid) ts then (Inr (), filter (\<lambda>t. tk_ID t \<noteq> tid) ts)
      else (Inl tk_errNotFound, ts))"

definition repo_token_countInProject :: "token list \<Rightarrow> string \<Rightarrow> int" where
  "repo_token_countInProject ts pid = int (length (filter (\<lambda>t. tk_ProjectID t = pid) ts))"

record account_lib =
  hash_hex :: "string \<Rightarrow> string"
  pbkdf2_Key :: "string \<Rightarrow> string \<Rightarrow> int \<Rightarrow> string"
  ParseDuration :: "string \<Rightarrow> duration option"

definition token_create ::
    "account_lib \<Rightarrow> (string \<Rightarrow> bool) \<Rightarrow> string \<Rightarrow> string \<Rightarrow> go_time \<Rightarrow> token_params \<Rightarrow> token list
     \<Rightarrow> (token \<times> string) result \<times> token list" where
  "token_create lib exists newID secret now p ts =
     (let pid = (if tp_ProjectID p = [] then DefaultProjectID else tp_ProjectID p)
      in case validate_Name ''name'' (tp_Name p) of
           Inl e \<Rightarrow> (Inl e, ts)
         | Inr _ \<Rightarrow>
         (case validate_OneOf ''role'' (tp_Role p) token_Roles of
            Inl e \<Rightarrow> (Inl e, ts)
          | Inr _ \<Rightarrow>
              if \<not> exists pid then (Inl (Invalid ''unknown_project''), ts)
              else (case interval_Parse (ParseDuration lib) (tp_ExpiresIn p) of
                      None \<Rightarrow> (Inl (Invalid ''invalid_lifetime''), ts)
                    | Some lifetime \<Rightarrow>
                        if lifetime < 0 then (Inl (Invalid ''invalid_lifetime''), ts)
                        else if MaxLifetime < lifetime then (Inl (Invalid ''invalid_lifetime''), ts)
                        else
                          (let t = \<lparr>tk_ID = newID, tk_Name = tp_Name p, tk_Role = tp_Role p, tk_ProjectID = pid,
                                 tk_UserID = tp_UserID p, tk_Hash = hash_hex lib secret, tk_CreatedAt = now,
                                 tk_LastUsedAt = now,
                                 tk_ExpiresAt = (if 0 < lifetime then now + lifetime else zero_time)\<rparr>
                           in case repo_token_insert ts t of
                                (Inl e, ts') \<Rightarrow> (Inl (token_translate e), ts')
                              | (Inr _, ts') \<Rightarrow> (Inr (t, secret), ts')))))"

text \<open>\<open>allowed\<close> is the user module's answer for the person a token belongs to.\<close>

definition token_verify ::
    "account_lib \<Rightarrow> (string \<Rightarrow> bool) \<Rightarrow> go_time \<Rightarrow> string \<Rightarrow> token list \<Rightarrow> identity result \<times> token list" where
  "token_verify lib allowed now secret0 ts =
     (let secret = trim_space secret0
      in if secret = [] then (Inl (Unauthenticated ''missing_token''), ts)
         else (case repo_token_byHash ts (hash_hex lib secret) of
                 Inl _ \<Rightarrow> (Inl (Unauthenticated ''unknown_token''), ts)
               | Inr i \<Rightarrow>
                   if idn_ExpiresAt i \<noteq> zero_time \<and> \<not> now < idn_ExpiresAt i
                   then (Inl (Unauthenticated ''token_expired''), ts)
                   else if idn_UserID i \<noteq> [] \<and> \<not> allowed (idn_UserID i)
                   then (Inl (Unauthenticated ''user_not_allowed''), ts)
                   else (Inr i, repo_token_touch (idn_ID i) now ts)))"

definition usable_admins :: "go_time \<Rightarrow> token list \<Rightarrow> token list" where
  "usable_admins now ts = filter (\<lambda>t. tk_Role t = RoleAdmin \<and> \<not> token_Expired t now) ts"

definition token_remove :: "go_time \<Rightarrow> string \<Rightarrow> token list \<Rightarrow> unit result \<times> token list" where
  "token_remove now tid ts =
     (let tokens = repo_token_list ts
      in if list_ex (\<lambda>t. tk_ID t = tid \<and> tk_Role t = RoleAdmin \<and> \<not> token_Expired t now \<and>
              length (usable_admins now tokens) = 1) tokens
         then (Inl (Conflict ''last_admin_token''), ts)
         else (case repo_token_delete ts tid of
                 (Inl e, ts') \<Rightarrow> (Inl (token_translate e), ts')
               | (Inr _, ts') \<Rightarrow> (Inr (), ts')))"

definition ensureBootstrap ::
    "account_lib \<Rightarrow> (string \<Rightarrow> bool) \<Rightarrow> string \<Rightarrow> string \<Rightarrow> go_time \<Rightarrow> token list \<Rightarrow> string result \<times> token list" where
  "ensureBootstrap lib exists newID secret now ts =
     (if ts \<noteq> [] then (Inr [], ts)
      else (case token_create lib exists newID secret now
                   \<lparr>tp_Name = ''bootstrap'', tp_Role = RoleAdmin, tp_ProjectID = [], tp_UserID = [], tp_ExpiresIn = []\<rparr> ts of
              (Inl e, ts') \<Rightarrow> (Inl e, ts')
            | (Inr (_, s), ts') \<Rightarrow> (Inr s, ts')))"

section \<open>Passwords\<close>

text \<open>\<open>scheme$rounds$salt$key\<close>, salt and key in unpadded standard base64.\<close>

definition std_char :: "nat \<Rightarrow> char" where
  "std_char n = (if n = 62 then CHR ''+'' else if n = 63 then CHR ''/'' else b64_char n)"

definition std_value :: "char \<Rightarrow> nat option" where
  "std_value c = (if c = CHR ''+'' then Some 62 else if c = CHR ''/'' then Some 63
     else if c = CHR ''-'' \<or> c = CHR ''_'' then None else b64url_value c)"

definition std_Encode :: "string \<Rightarrow> string" where
  "std_Encode s = map std_char (b64_groups (map of_char s))"

definition std_Decode :: "string \<Rightarrow> string option" where
  "std_Decode s =
     (let vs = map std_value (filter (\<lambda>c. c \<noteq> CHR 0x0A \<and> c \<noteq> CHR 0x0D) s)
      in if None \<in> set vs then None else map_option (map char_of) (b64url_bytes (map the vs)))"

abbreviation (input) pw_scheme :: string where "pw_scheme \<equiv> ''pbkdf2-sha256''"
abbreviation (input) pw_iterations :: int where "pw_iterations \<equiv> 600000"

definition pw_derive :: "account_lib \<Rightarrow> string \<Rightarrow> string \<Rightarrow> int \<Rightarrow> string" where
  "pw_derive lib password salt rounds =
     pw_scheme @ ''$'' @ itoa rounds @ ''$'' @ std_Encode salt @ ''$'' @
     std_Encode (pbkdf2_Key lib password salt rounds)"

definition hashPassword :: "account_lib \<Rightarrow> string \<Rightarrow> string \<Rightarrow> string" where
  "hashPassword lib salt password = pw_derive lib password salt pw_iterations"

fun split_dollar :: "string \<Rightarrow> string list" where
  "split_dollar [] = [[]]"
| "split_dollar (c # s) =
     (if c = CHR ''$'' then [] # split_dollar s
      else (case split_dollar s of [] \<Rightarrow> [[c]] | p # ps \<Rightarrow> (c # p) # ps))"

text \<open>\<open>None\<close> is the error that the stored text cannot be read.\<close>

definition pw_matches :: "account_lib \<Rightarrow> string \<Rightarrow> string \<Rightarrow> bool option" where
  "pw_matches lib stored password =
     (case split_dollar stored of
        [a, b, c, d] \<Rightarrow>
          if a \<noteq> pw_scheme then None
          else (case atoi b of
                  None \<Rightarrow> None
                | Some rounds \<Rightarrow>
                    if rounds \<le> 0 then None
                    else (case std_Decode c of
                            None \<Rightarrow> None
                          | Some salt \<Rightarrow> Some (pw_derive lib password salt rounds = stored)))
      | _ \<Rightarrow> None)"

section \<open>People\<close>

abbreviation (input) MinPasswordLength :: nat where "MinPasswordLength \<equiv> 12"
abbreviation (input) MaxPasswordLength :: nat where "MaxPasswordLength \<equiv> 256"
abbreviation (input) MaxEmailLength :: nat where "MaxEmailLength \<equiv> 254"
abbreviation (input) MaxPersonName :: nat where "MaxPersonName \<equiv> 60"
abbreviation (input) SessionLifetime :: duration where "SessionLifetime \<equiv> 43200000000000"

record person =
  u_ID :: string
  u_Email :: string
  u_Name :: string
  u_Role :: string
  u_ProjectID :: string
  u_Disabled :: bool
  u_CreatedAt :: go_time
  u_UpdatedAt :: go_time
  u_Password :: string

record person_params =
  up_Email :: string
  up_Name :: string
  up_Role :: string
  up_ProjectID :: string
  up_Password :: string

record session =
  ss_Secret :: string
  ss_UserID :: string
  ss_Email :: string
  ss_Role :: string
  ss_ProjectID :: string
  ss_ExpiresAt :: go_time

text \<open>The tables that the two modules share a control plane with, and the events recorded.\<close>

record accounts =
  acc_projects :: "project list"
  acc_tokens :: "token list"
  acc_people :: "person list"
  acc_events :: "entry list"

datatype user_error = u_errNotFound | u_errEmailUsed

definition user_translate :: "user_error \<Rightarrow> fault" where
  "user_translate e =
     (case e of u_errNotFound \<Rightarrow> NotFound ''user_not_found'' | u_errEmailUsed \<Rightarrow> Conflict ''email_taken'')"

definition normalizeEmail :: "string \<Rightarrow> string" where
  "normalizeEmail e = to_lower (trim_space e)"

text \<open>\<open>^[^@\s]+@[^@\s.]+(\.[^@\s.]+)+$\<close>\<close>

definition re_space :: "char \<Rightarrow> bool" where
  "re_space c \<longleftrightarrow> c \<in> {CHR '' '', CHR 0x09, CHR 0x0A, CHR 0x0C, CHR 0x0D}"

fun split_dots :: "string \<Rightarrow> string list" where
  "split_dots [] = [[]]"
| "split_dots (c # s) =
     (if c = CHR ''.'' then [] # split_dots s
      else (case split_dots s of [] \<Rightarrow> [[c]] | p # ps \<Rightarrow> (c # p) # ps))"

definition emailPattern :: "string \<Rightarrow> bool" where
  "emailPattern s =
     (case str_Cut CHR ''@'' s of
        None \<Rightarrow> False
      | Some (local_part, domain) \<Rightarrow>
          local_part \<noteq> [] \<and> \<not> list_ex re_space local_part \<and>
          \<not> list_ex (\<lambda>c. re_space c \<or> c = CHR ''@'') domain \<and>
          2 \<le> length (split_dots domain) \<and> list_all (\<lambda>p. p \<noteq> []) (split_dots domain))"

definition checkPassword :: "string \<Rightarrow> unit result" where
  "checkPassword p =
     (if length p < MinPasswordLength then Inl (Invalid ''weak_password'')
      else if MaxPasswordLength < length p then Inl (Invalid ''invalid_password'')
      else Inr ())"

definition repo_user_insert :: "person list \<Rightarrow> person \<Rightarrow> (user_error + unit) \<times> person list" where
  "repo_user_insert us u =
     (if list_ex (\<lambda>q. u_ID q = u_ID u \<or> u_Email q = u_Email u) us then (Inl u_errEmailUsed, us)
      else (Inr (), us @ [u]))"

definition repo_user_update :: "string \<Rightarrow> (person \<Rightarrow> person) \<Rightarrow> person list \<Rightarrow> (user_error + unit) \<times> person list" where
  "repo_user_update uid f us =
     (if list_ex (\<lambda>u. u_ID u = uid) us then (Inr (), map (\<lambda>u. if u_ID u = uid then f u else u) us)
      else (Inl u_errNotFound, us))"

definition repo_user_setPassword :: "string \<Rightarrow> string \<Rightarrow> go_time \<Rightarrow> person list \<Rightarrow> (user_error + unit) \<times> person list" where
  "repo_user_setPassword uid stored at = repo_user_update uid (\<lambda>u. u\<lparr>u_Password := stored, u_UpdatedAt := at\<rparr>)"

definition repo_user_setDisabled :: "string \<Rightarrow> bool \<Rightarrow> go_time \<Rightarrow> person list \<Rightarrow> (user_error + unit) \<times> person list" where
  "repo_user_setDisabled uid disabled at = repo_user_update uid (\<lambda>u. u\<lparr>u_Disabled := disabled, u_UpdatedAt := at\<rparr>)"

definition repo_user_delete :: "string \<Rightarrow> person list \<Rightarrow> (user_error + unit) \<times> person list" where
  "repo_user_delete uid us =
     (if list_ex (\<lambda>u. u_ID u = uid) us then (Inr (), filter (\<lambda>u. u_ID u \<noteq> uid) us)
      else (Inl u_errNotFound, us))"

definition repo_user_byID :: "person list \<Rightarrow> string \<Rightarrow> user_error + person" where
  "repo_user_byID us uid = (case find (\<lambda>u. u_ID u = uid) us of None \<Rightarrow> Inl u_errNotFound | Some u \<Rightarrow> Inr u)"

definition repo_user_byEmail :: "person list \<Rightarrow> string \<Rightarrow> user_error + person" where
  "repo_user_byEmail us e = (case find (\<lambda>u. u_Email u = e) us of None \<Rightarrow> Inl u_errNotFound | Some u \<Rightarrow> Inr u)"

definition user_create ::
    "account_lib \<Rightarrow> string \<Rightarrow> string \<Rightarrow> go_time \<Rightarrow> person_params \<Rightarrow> accounts \<Rightarrow> person result \<times> accounts" where
  "user_create lib newID salt now p st =
     (let email = normalizeEmail (up_Email p)
      in if \<not> emailPattern email \<or> MaxEmailLength < length email then (Inl (Invalid ''invalid_email''), st)
         else (case validate_Name ''name'' (up_Name p) of
           Inl e \<Rightarrow> (Inl e, st)
         | Inr _ \<Rightarrow>
             if MaxPersonName < length (up_Name p) then (Inl (Invalid ''invalid_name''), st)
             else (case validate_OneOf ''role'' (up_Role p) [RoleAdmin, RoleMember, RoleViewer] of
               Inl e \<Rightarrow> (Inl e, st)
             | Inr _ \<Rightarrow>
                 (case checkPassword (up_Password p) of
                    Inl e \<Rightarrow> (Inl e, st)
                  | Inr _ \<Rightarrow>
                      (let u = \<lparr>u_ID = newID, u_Email = email, u_Name = up_Name p, u_Role = up_Role p,
                             u_ProjectID = up_ProjectID p, u_Disabled = False, u_CreatedAt = now, u_UpdatedAt = now,
                             u_Password = hashPassword lib salt (up_Password p)\<rparr>
                       in case repo_user_insert (acc_people st) u of
                            (Inl e, _) \<Rightarrow> (Inl (user_translate e), st)
                          | (Inr _, us) \<Rightarrow> (Inr u, st\<lparr>acc_people := us\<rparr>))))))"

definition user_find :: "accounts \<Rightarrow> string \<Rightarrow> person result" where
  "user_find st ref =
     (case repo_user_byID (acc_people st) ref of
        Inr u \<Rightarrow> Inr u
      | Inl _ \<Rightarrow>
          (case repo_user_byEmail (acc_people st) (normalizeEmail ref) of
             Inl e \<Rightarrow> Inl (user_translate e) | Inr u \<Rightarrow> Inr u))"

definition user_note :: "person \<Rightarrow> string \<Rightarrow> string \<Rightarrow> severity \<Rightarrow> accounts \<Rightarrow> accounts" where
  "user_note u knd message sev st =
     st\<lparr>acc_events := acc_events st @ [\<lparr>e_ProjectID = u_ProjectID u, e_Kind = knd, e_Subject = u_ID u,
        e_NodeID = [], e_Message = message, e_Severity = sev\<rparr>]\<rparr>"

definition user_setPassword ::
    "account_lib \<Rightarrow> string \<Rightarrow> go_time \<Rightarrow> string \<Rightarrow> string \<Rightarrow> accounts \<Rightarrow> unit result \<times> accounts" where
  "user_setPassword lib salt now ref password st =
     (case user_find st ref of
        Inl e \<Rightarrow> (Inl e, st)
      | Inr u \<Rightarrow>
          (case checkPassword password of
             Inl e \<Rightarrow> (Inl e, st)
           | Inr _ \<Rightarrow>
               (case repo_user_setPassword (u_ID u) (hashPassword lib salt password) now (acc_people st) of
                  (Inl e, _) \<Rightarrow> (Inl (user_translate e), st)
                | (Inr _, us) \<Rightarrow>
                    (Inr (), user_note u ''user.password_changed''
                       (u_Email u @ '' has a new password, and every session it replaces is gone'') Warn
                       (st\<lparr>acc_people := us,
                           acc_tokens := repo_token_deleteForUser (u_ID u) (acc_tokens st)\<rparr>)))))"

definition user_setDisabled ::
    "go_time \<Rightarrow> string \<Rightarrow> bool \<Rightarrow> accounts \<Rightarrow> person result \<times> accounts" where
  "user_setDisabled now ref disabled st =
     (case user_find st ref of
        Inl e \<Rightarrow> (Inl e, st)
      | Inr u \<Rightarrow>
          (case repo_user_setDisabled (u_ID u) disabled now (acc_people st) of
             (Inl e, _) \<Rightarrow> (Inl (user_translate e), st)
           | (Inr _, us) \<Rightarrow>
               (let st' = user_note u (if disabled then ''user.disabled'' else ''user.enabled'')
                      (if disabled then u_Email u @ '' can no longer sign in, and every token they hold stops working with them''
                       else u_Email u @ '' can sign in again'') Warn (st\<lparr>acc_people := us\<rparr>)
                in (user_find st' (u_ID u), st'))))"

definition user_remove :: "string \<Rightarrow> accounts \<Rightarrow> unit result \<times> accounts" where
  "user_remove ref st =
     (case user_find st ref of
        Inl e \<Rightarrow> (Inl e, st)
      | Inr u \<Rightarrow>
          (let st' = st\<lparr>acc_tokens := repo_token_deleteForUser (u_ID u) (acc_tokens st)\<rparr>
           in case repo_user_delete (u_ID u) (acc_people st') of
                (Inl e, _) \<Rightarrow> (Inl (user_translate e), st')
              | (Inr _, us) \<Rightarrow> (Inr (), st'\<lparr>acc_people := us\<rparr>)))"

definition user_Allowed :: "accounts \<Rightarrow> string \<Rightarrow> bool" where
  "user_Allowed st uid =
     (case repo_user_byID (acc_people st) uid of Inl _ \<Rightarrow> False | Inr u \<Rightarrow> \<not> u_Disabled u)"

definition trim_prefix :: "string \<Rightarrow> string \<Rightarrow> string" where
  "trim_prefix s p = (if has_prefix s p then drop (length p) s else s)"

definition sessionName :: "string \<Rightarrow> string \<Rightarrow> string" where
  "sessionName newID uid =
     (let suffix = (if 6 < length newID then drop (length newID - 6) newID else newID)
      in ''session-'' @ trim_prefix uid ''usr-'' @ ''-'' @ suffix)"

text \<open>What a sign-in draws at random: the id and secret of its token and the suffix of its name.\<close>

record fresh =
  fr_tokenID :: string
  fr_secret :: string
  fr_suffix :: string

definition user_login ::
    "account_lib \<Rightarrow> bool \<Rightarrow> fresh \<Rightarrow> go_time \<Rightarrow> string \<Rightarrow> string \<Rightarrow> accounts \<Rightarrow> session result \<times> accounts" where
  "user_login lib limiter_allows fr now email password st =
     (if \<not> limiter_allows then (Inl (TooMany ''too_many_attempts''), st)
      else (case repo_user_byEmail (acc_people st) (normalizeEmail email) of
              Inl _ \<Rightarrow> (Inl (Unauthenticated ''bad_credentials''), st)
            | Inr u \<Rightarrow>
                (case pw_matches lib (u_Password u) password of
                   None \<Rightarrow> (Inl Internal, st)
                 | Some same \<Rightarrow>
                     if \<not> same \<or> u_Disabled u then (Inl (Unauthenticated ''bad_credentials''), st)
                     else
                       (case token_create lib (project_exists (acc_projects st)) (fr_tokenID fr) (fr_secret fr) now
                               \<lparr>tp_Name = sessionName (fr_suffix fr) (u_ID u), tp_Role = u_Role u,
                                tp_ProjectID = u_ProjectID u, tp_UserID = u_ID u, tp_ExpiresIn = ''12h0m0s''\<rparr>
                               (acc_tokens st) of
                          (Inl e, ts) \<Rightarrow> (Inl e, st\<lparr>acc_tokens := ts\<rparr>)
                        | (Inr (_, secret), ts) \<Rightarrow>
                            (Inr \<lparr>ss_Secret = secret, ss_UserID = u_ID u, ss_Email = u_Email u, ss_Role = u_Role u,
                                  ss_ProjectID = u_ProjectID u, ss_ExpiresAt = now + SessionLifetime\<rparr>,
                             user_note u ''user.signed_in'' (u_Email u @ '' signed in'') Info
                               (st\<lparr>acc_tokens := ts\<rparr>))))))"

definition user_logout :: "go_time \<Rightarrow> string \<Rightarrow> accounts \<Rightarrow> unit result \<times> accounts" where
  "user_logout now tokenID st =
     (if tokenID = [] then (Inr (), st)
      else (case token_remove now tokenID (acc_tokens st) of
              (Inl e, ts) \<Rightarrow>
                (if fault_code e = ''last_admin_token'' then Inr () else Inl e, st\<lparr>acc_tokens := ts\<rparr>)
            | (Inr _, ts) \<Rightarrow> (Inr (), st\<lparr>acc_tokens := ts\<rparr>)))"

text \<open>Verifying a bearer token against the whole state.\<close>

definition acc_verify :: "account_lib \<Rightarrow> go_time \<Rightarrow> string \<Rightarrow> accounts \<Rightarrow> identity result \<times> accounts" where
  "acc_verify lib now secret st =
     (case token_verify lib (user_Allowed st) now secret (acc_tokens st) of
        (r, ts) \<Rightarrow> (r, st\<lparr>acc_tokens := ts\<rparr>))"

section \<open>Passwords come back\<close>

lemma std_char_facts:
  assumes "n < 64"
  shows "std_value (std_char n) = Some n" "std_char n \<noteq> CHR 0x0A" "std_char n \<noteq> CHR 0x0D" "std_char n \<noteq> CHR ''$''"
proof -
  have plain: "45 \<le> (of_char (b64_char n) :: nat)" using b64_char_facts(2) [OF assms] by (rule url_plain_least)
  then show "std_char n \<noteq> CHR 0x0A" "std_char n \<noteq> CHR 0x0D" "std_char n \<noteq> CHR ''$''"
    by (auto simp: std_char_def)
  show "std_value (std_char n) = Some n"
  proof (cases "n < 62")
    case True
    then have "b64_char n \<notin> {CHR ''-'', CHR ''_'', CHR ''+'', CHR ''/''}"
      by (auto simp: b64_char_def dest!: arg_cong [of _ _ "of_char :: char \<Rightarrow> nat"])
    then show ?thesis using True b64_char_facts(1) [OF assms] by (simp add: std_value_def std_char_def)
  qed (use assms in \<open>auto simp: std_value_def std_char_def\<close>)
qed

lemma std_roundtrip [simp]: "std_Decode (std_Encode s) = Some s"
proof -
  let ?g = "b64_groups (map of_char s)"
  have bound: "\<forall>v\<in>set ?g. v < 64" using b64_groups_bound [OF b64_bytes_of] by (simp add: list_all_iff)
  then have "filter (\<lambda>c. c \<noteq> CHR 0x0A \<and> c \<noteq> CHR 0x0D) (map std_char ?g) = map std_char ?g"
    by (auto simp: filter_id_conv std_char_facts)
  moreover have "map std_value (map std_char ?g) = map Some ?g"
    using bound by (simp add: std_char_facts)
  ultimately have "std_Decode (std_Encode s) = map_option (map char_of) (b64url_bytes ?g)"
    by (simp add: std_Decode_def std_Encode_def Let_def del: map_map) (simp add: image_iff)
  also have "\<dots> = Some s" by (simp add: b64_bytes_groups b64_bytes_of o_def)
  finally show ?thesis .
qed

lemma std_no_dollar: "CHR ''$'' \<notin> set (std_Encode s)"
  using b64_groups_bound [OF b64_bytes_of, of s] std_char_facts(4) by (fastforce simp: std_Encode_def list_all_iff)

lemma split_dollar_plain: "CHR ''$'' \<notin> set s \<Longrightarrow> split_dollar s = [s]"
  by (induction s) auto

lemma split_dollar_append: "CHR ''$'' \<notin> set a \<Longrightarrow> split_dollar (a @ CHR ''$'' # b) = a # split_dollar b"
  by (induction a) auto

lemma itoa_no_dollar: "CHR ''$'' \<notin> set (itoa n)"
proof -
  have "\<not> is_digit CHR ''$''" by code_simp
  moreover obtain pre ds where "itoa n = pre @ ds" "list_all is_digit ds" "pre \<in> {[], ''-''}"
    using itoa_shape by blast
  ultimately show ?thesis by (auto simp: list_all_iff)
qed

lemma split_stored: "split_dollar (pw_derive lib p salt rounds) =
  [pw_scheme, itoa rounds, std_Encode salt, std_Encode (pbkdf2_Key lib p salt rounds)]"
proof -
  have "CHR ''$'' \<notin> set pw_scheme" by simp
  then show ?thesis
    unfolding pw_derive_def append_Cons append_Nil
    using split_dollar_append [of pw_scheme] split_dollar_append [OF itoa_no_dollar]
      split_dollar_append [OF std_no_dollar] split_dollar_plain [OF std_no_dollar] by simp
qed

lemma pw_matches_derive:
  assumes "0 < rounds" "rounds \<le> max_duration"
  shows "pw_matches lib (pw_derive lib p salt rounds) q = Some (pw_derive lib q salt rounds = pw_derive lib p salt rounds)"
  using assms by (simp add: pw_matches_def split_stored atoi_itoa)

lemma password_comes_back: "pw_matches lib (hashPassword lib salt p) p = Some True"
  by (simp add: hashPassword_def pw_matches_derive)

section \<open>Tables of accounts\<close>

definition tokens_wf :: "token list \<Rightarrow> bool" where
  "tokens_wf ts \<longleftrightarrow> distinct (map tk_ID ts) \<and> distinct (map tk_Hash ts)"

definition accounts_wf :: "accounts \<Rightarrow> bool" where
  "accounts_wf st \<longleftrightarrow> tokens_wf (acc_tokens st) \<and> distinct (map u_ID (acc_people st)) \<and> distinct (map u_Email (acc_people st))"

lemma insert_token_wf: "tokens_wf ts \<Longrightarrow> tokens_wf (snd (repo_token_insert ts t))"
  by (auto simp: tokens_wf_def repo_token_insert_def list_ex_iff)

lemma snd_case_passes [simp]:
  "snd (case r of (Inl e, s) \<Rightarrow> (f e, s) | (Inr a, s) \<Rightarrow> (g a, s)) = snd r"
  by (simp split: prod.split sum.split)

lemma token_create_table:
  "snd (token_create lib exists newID secret now p ts) \<in> insert ts (range (\<lambda>t. snd (repo_token_insert ts t)))"
  by (simp add: token_create_def Let_def split: sum.split option.split)

lemma token_create_wf:
  "tokens_wf ts \<Longrightarrow> tokens_wf (snd (token_create lib exists newID secret now p ts))"
  using token_create_table [of lib exists newID secret now p ts] insert_token_wf by auto

lemma touch_keys [simp]:
  "map tk_ID (repo_token_touch tid at ts) = map tk_ID ts"
  "map tk_Hash (repo_token_touch tid at ts) = map tk_Hash ts"
  by (auto simp: repo_token_touch_def)

lemma tokens_wf_filter: "tokens_wf ts \<Longrightarrow> tokens_wf (filter P ts)"
  by (simp add: tokens_wf_def distinct_map_filter)

lemma token_remove_wf: "tokens_wf ts \<Longrightarrow> tokens_wf (snd (token_remove now tid ts))"
  by (auto simp: token_remove_def Let_def repo_token_delete_def tokens_wf_filter)

lemma find_hash: "tokens_wf ts \<Longrightarrow> t \<in> set ts \<Longrightarrow> find (\<lambda>q. tk_Hash q = tk_Hash t) ts = Some t"
  by (simp add: tokens_wf_def find_key)

section \<open>Losing access\<close>

lemma user_find_listed: "user_find st ref = Inr u \<Longrightarrow> u \<in> set (acc_people st)"
  by (auto simp: user_find_def repo_user_byID_def repo_user_byEmail_def find_Some_iff split: option.splits sum.splits)

lemma verify_needs_token:
  assumes "fst (token_verify lib allowed now secret ts) = Inr i"
  obtains t where "t \<in> set ts" "tk_Hash t = hash_hex lib (trim_space secret)" "i = identity_of t"
    "\<not> token_Expired t now" "tk_UserID t = [] \<or> allowed (tk_UserID t)"
proof (cases "find (\<lambda>t. tk_Hash t = hash_hex lib (trim_space secret)) ts")
  case None
  then show ?thesis using assms by (simp add: token_verify_def repo_token_byHash_def Let_def split: if_splits)
next
  case (Some t)
  then have t: "t \<in> set ts" "tk_Hash t = hash_hex lib (trim_space secret)" using find_SomeD by fastforce+
  have "i = identity_of t \<and> \<not> token_Expired t now \<and> (tk_UserID t = [] \<or> allowed (tk_UserID t))"
    using assms Some
    by (auto simp: token_verify_def repo_token_byHash_def Let_def identity_of_def token_Expired_def split: if_splits)
  then show ?thesis using that t by blast
qed

lemma disabled_not_allowed:
  assumes "distinct (map u_ID us)" "u \<in> set us"
  shows "\<exists>p. repo_user_byID (map (\<lambda>p. if u_ID p = u_ID u then p\<lparr>u_Disabled := True, u_UpdatedAt := now\<rparr> else p) us) (u_ID u) = Inr p \<and>
    u_Disabled p"
  using assms by (induction us) (auto simp: repo_user_byID_def)

text \<open>
  C18: When a person is disabled, is deleted or gets a new password, every token they held
  until then stops working at once.
\<close>

theorem revoked_person_loses_access:
  assumes "accounts_wf st" "t \<in> set (acc_tokens st)" "tk_UserID t = u_ID u" "u_ID u \<noteq> []"
    "hash_hex lib (trim_space secret) = tk_Hash t"
    "user_find st ref = Inr u"
    "st' \<in> {snd (user_setDisabled now ref True st), snd (user_remove ref st)} \<or>
     (fst (user_setPassword lib salt now ref password st) = Inr () \<and>
      st' = snd (user_setPassword lib salt now ref password st))"
  shows "\<exists>e. fst (acc_verify lib later secret st') = Inl e \<and> fault_kind e = KindUnauthenticated"
proof (rule ccontr)
  have kinds: "fault_kind e = KindUnauthenticated" if "fst (acc_verify lib later secret st') = Inl e" for e
    using that by (auto simp: acc_verify_def token_verify_def Let_def Unauthenticated_def split: if_splits sum.splits)
  assume "\<nexists>e. fst (acc_verify lib later secret st') = Inl e \<and> fault_kind e = KindUnauthenticated"
  then obtain i where "fst (acc_verify lib later secret st') = Inr i"
    using kinds by (cases "fst (acc_verify lib later secret st')") auto
  then have "fst (token_verify lib (user_Allowed st') later secret (acc_tokens st')) = Inr i"
    by (simp add: acc_verify_def split: prod.splits)
  then obtain q where q: "q \<in> set (acc_tokens st')" "tk_Hash q = tk_Hash t" "tk_UserID q = [] \<or> user_Allowed st' (tk_UserID q)"
    using assms(5) by (auto elim: verify_needs_token)
  have allowed: "q = t \<Longrightarrow> user_Allowed st' (u_ID u)" using q(3) assms(3,4) by auto
  have u: "u \<in> set (acc_people st)" using assms(6) by (rule user_find_listed)
  then have listed: "list_ex (\<lambda>p. u_ID p = u_ID u) (acc_people st)" by (auto simp: list_ex_iff)
  have same: "q = t" if "q \<in> set (acc_tokens st)"
    using assms(1,2) q(2) that by (auto simp: accounts_wf_def tokens_wf_def distinct_map inj_on_def)
  consider (disabled) "st' = snd (user_setDisabled now ref True st)"
    | (gone) "acc_tokens st' = repo_token_deleteForUser (u_ID u) (acc_tokens st)"
    using assms(6,7) listed
    by (auto simp: user_remove_def user_setPassword_def user_note_def repo_user_update_def repo_user_delete_def
        repo_user_setPassword_def Let_def split: sum.splits)
  then show False
  proof cases
    case disabled
    have "distinct (map u_ID (acc_people st))" using assms(1) by (simp add: accounts_wf_def)
    then obtain p where
      "repo_user_byID (map (\<lambda>p. if u_ID p = u_ID u then p\<lparr>u_Disabled := True, u_UpdatedAt := now\<rparr> else p) (acc_people st))
         (u_ID u) = Inr p" "u_Disabled p"
      using disabled_not_allowed [OF _ u, of now] by blast
    then have "\<not> user_Allowed st' (u_ID u)" "acc_tokens st' = acc_tokens st"
      using assms(6) listed
      by (simp_all add: disabled user_setDisabled_def repo_user_setDisabled_def repo_user_update_def user_note_def
          user_Allowed_def Let_def)
    then show False using allowed same q(1) by simp
  next
    case gone
    then show False using q(1) same assms(3,4) by (auto simp: repo_token_deleteForUser_def)
  qed
qed

section \<open>The last administrator\<close>

lemma length_usable_sort: "length (usable_admins now (repo_token_list ts)) = length (usable_admins now ts)"
proof -
  have "mset (usable_admins now (repo_token_list ts)) = mset (usable_admins now ts)"
    by (simp add: usable_admins_def repo_token_list_def)
  then show ?thesis by (metis size_mset)
qed

lemma listed_tokens [simp]: "set (repo_token_list ts) = set ts"
  by (simp add: repo_token_list_def)

lemma filter_other_length:
  assumes "distinct (map f xs)"
  shows "length (filter P xs) \<le> length (filter P (filter (\<lambda>x. f x \<noteq> k) xs)) + 1"
  using assms
proof (induction xs)
  case (Cons a xs)
  show ?case
  proof (cases "f a = k")
    case True
    then have "filter (\<lambda>x. f x \<noteq> k) xs = xs" using Cons.prems by (fastforce simp: filter_id_conv image_iff)
    then show ?thesis using True by simp
  qed (use Cons in auto)
qed simp

text \<open>
  C19: Revoking tokens one by one, with any number of sign-outs, never takes the last admin
  token that has not expired.
\<close>

theorem last_admin_token_stays:
  assumes "tokens_wf ts" "usable_admins now ts \<noteq> []"
  shows "usable_admins now (snd (token_remove now tid ts)) \<noteq> []"
proof (cases "snd (token_remove now tid ts) = ts")
  case False
  let ?left = "filter (\<lambda>t. tk_ID t \<noteq> tid) ts"
  have "list_ex (\<lambda>t. tk_ID t = tid) ts" and left: "snd (token_remove now tid ts) = ?left"
    and more: "\<not> list_ex (\<lambda>t. tk_ID t = tid \<and> tk_Role t = RoleAdmin \<and> \<not> token_Expired t now \<and>
      length (usable_admins now ts) = 1) ts"
    using False listed_tokens
    by (auto simp: token_remove_def Let_def repo_token_delete_def length_usable_sort list_ex_iff split: if_splits)
  show ?thesis
  proof (cases "length (usable_admins now ts) = 1")
    case True
    then have "\<forall>t\<in>set (usable_admins now ts). tk_ID t \<noteq> tid" using more by (auto simp: usable_admins_def list_ex_iff)
    then have "usable_admins now ?left = usable_admins now ts"
      by (auto simp: usable_admins_def filter_filter intro!: filter_cong)
    then show ?thesis using assms(2) left by simp
  next
    case False
    then have "1 < length (usable_admins now ts)" using assms(2) by (cases "usable_admins now ts") auto
    moreover have "length (usable_admins now ts) \<le> length (usable_admins now ?left) + 1"
      unfolding usable_admins_def using assms(1) by (intro filter_other_length) (simp add: tokens_wf_def)
    ultimately show ?thesis using left by auto
  qed
qed (use assms(2) in simp)

section \<open>An example\<close>

text \<open>A library whose hash is the identity, which keeps the secrets of the example apart.\<close>

definition demo_lib :: account_lib where
  "demo_lib = \<lparr>hash_hex = (\<lambda>s. s), pbkdf2_Key = (\<lambda>p salt n. p @ salt),
     ParseDuration = (\<lambda>s. if s = ''12h0m0s'' then Some SessionLifetime else None)\<rparr>"

definition demo_start :: accounts where
  "demo_start = \<lparr>acc_projects = snd (ensureDefault 1 []),
     acc_tokens = snd (ensureBootstrap demo_lib (project_exists (snd (ensureDefault 1 []))) ''tok-1'' ''mst_root'' 2 []),
     acc_people = [], acc_events = []\<rparr>"

definition demo_ann :: person where
  "demo_ann = \<lparr>u_ID = ''usr-1'', u_Email = ''ann@example.org'', u_Name = ''ann'', u_Role = RoleAdmin, u_ProjectID = [],
     u_Disabled = False, u_CreatedAt = 3, u_UpdatedAt = 3, u_Password = []\<rparr>"

definition demo_session :: token where
  "demo_session = \<lparr>tk_ID = ''tok-2'', tk_Name = ''session-1-abcdef'', tk_Role = RoleAdmin, tk_ProjectID = DefaultProjectID,
     tk_UserID = ''usr-1'', tk_Hash = ''mst_ann'', tk_CreatedAt = 4, tk_LastUsedAt = 4, tk_ExpiresAt = 4 + SessionLifetime\<rparr>"

definition demo_signed_in :: accounts where
  "demo_signed_in = demo_start\<lparr>acc_people := [demo_ann], acc_tokens := acc_tokens demo_start @ [demo_session]\<rparr>"

lemma demo_signed_in_facts:
  "map tk_ID (acc_tokens demo_signed_in) = [''tok-1'', ''tok-2'']"
  "map tk_Hash (acc_tokens demo_signed_in) = [''mst_root'', ''mst_ann'']"
  "map u_ID (acc_people demo_signed_in) = [''usr-1'']" "map u_Email (acc_people demo_signed_in) = [''ann@example.org'']"
  "map tk_UserID (acc_tokens demo_signed_in) = [[], ''usr-1'']"
  by code_simp+

lemma demo_signed_in_wf: "accounts_wf demo_signed_in"
  by (simp add: accounts_wf_def tokens_wf_def demo_signed_in_facts)

theorem revoked_person_loses_access_witness:
  "(\<exists>e. fst (acc_verify demo_lib 6 ''mst_ann'' (snd (user_setDisabled 5 ''ann@example.org'' True demo_signed_in))) = Inl e \<and>
      fault_kind e = KindUnauthenticated) \<and>
   map_sum (\<lambda>_. ()) idn_UserID (fst (acc_verify demo_lib 6 ''mst_ann'' demo_signed_in)) = Inr ''usr-1''"
proof
  let ?st = demo_signed_in
  have facts: "acc_tokens ?st ! 1 \<in> set (acc_tokens ?st)" "tk_UserID (acc_tokens ?st ! 1) = u_ID (hd (acc_people ?st))"
    "u_ID (hd (acc_people ?st)) \<noteq> []" "hash_hex demo_lib (trim_space ''mst_ann'') = tk_Hash (acc_tokens ?st ! 1)"
    "user_find ?st ''ann@example.org'' = Inr (hd (acc_people ?st))"
    by code_simp+
  show "\<exists>e. fst (acc_verify demo_lib 6 ''mst_ann'' (snd (user_setDisabled 5 ''ann@example.org'' True ?st))) = Inl e \<and>
      fault_kind e = KindUnauthenticated"
    by (rule revoked_person_loses_access [OF demo_signed_in_wf facts, where now = 5]) simp
qed code_simp

theorem last_admin_token_stays_witness:
  "usable_admins 5 (snd (token_remove 5 ''tok-1'' (acc_tokens demo_start))) \<noteq> [] \<and>
   fst (token_remove 5 ''tok-1'' (acc_tokens demo_start)) = Inl (Conflict ''last_admin_token'')"
proof
  have "map tk_ID (acc_tokens demo_start) = [''tok-1'']" "map tk_Hash (acc_tokens demo_start) = [''mst_root'']"
    "usable_admins 5 (acc_tokens demo_start) \<noteq> []" by code_simp+
  then show "usable_admins 5 (snd (token_remove 5 ''tok-1'' (acc_tokens demo_start))) \<noteq> []"
    by (intro last_admin_token_stays) (simp_all add: tokens_wf_def)
qed code_simp

text \<open>
  The count takes the token of a disabled person for one that works: with such a token in
  the table the last token that is accepted can be revoked, and then nobody is let in.
\<close>

definition demo_locked_out :: accounts where
  "demo_locked_out =
     (let st = snd (user_setDisabled 5 ''usr-1'' True demo_signed_in)
      in st\<lparr>acc_tokens := snd (token_remove 6 ''tok-1'' (acc_tokens st))\<rparr>)"

lemma disabled_admin_counts_as_usable:
  "map (\<lambda>s. map_sum fault_code idn_ID (fst (acc_verify demo_lib 7 s demo_locked_out))) [''mst_root'', ''mst_ann''] =
     [Inl ''unknown_token'', Inl ''user_not_allowed'']"
  by code_simp

end
