(* ===== verification/Access.thy ===== *)
theory Access
  imports Accounts EventLog
begin

text \<open>
  What a request may reach: the authentication of src/internal/app/auth.go with its
  lists of paths per role, and the audit trail of src/internal/app/audit.go around it.
  The handlers behind it are an argument. A request is its method, its clean path
  (\<open>http.ServeMux\<close> answers any other with a redirect to the clean one) and its bearer
  token; of \<open>http.ServeMux\<close> the theory models patterns of a method, literal segments
  and wildcards of one segment, which is what the lists use.
\<close>

section \<open>Patterns\<close>

datatype segment = Lit string | Wild

record pattern =
  pat_Method :: string
  pat_Path :: "segment list"

fun split_slash :: "string \<Rightarrow> string list" where
  "split_slash [] = [[]]"
| "split_slash (c # s) =
     (if c = CHR ''/'' then [] # split_slash s
      else (case split_slash s of [] \<Rightarrow> [[c]] | p # ps \<Rightarrow> (c # p) # ps))"

definition segment_of :: "string \<Rightarrow> segment" where
  "segment_of s = (if s \<noteq> [] \<and> hd s = CHR ''{'' then Wild else Lit s)"

definition pattern_of :: "string \<Rightarrow> pattern" where
  "pattern_of s =
     (case str_Cut CHR '' '' s of
        None \<Rightarrow> \<lparr>pat_Method = [], pat_Path = map segment_of (split_slash s)\<rparr>
      | Some (meth, path) \<Rightarrow> \<lparr>pat_Method = meth, pat_Path = map segment_of (split_slash path)\<rparr>)"

fun segments_match :: "segment list \<Rightarrow> string list \<Rightarrow> bool" where
  "segments_match [] [] \<longleftrightarrow> True"
| "segments_match (Lit l # ps) (s # ss) \<longleftrightarrow> l = s \<and> segments_match ps ss"
| "segments_match (Wild # ps) (s # ss) \<longleftrightarrow> s \<noteq> [] \<and> segments_match ps ss"
| "segments_match _ _ \<longleftrightarrow> False"

text \<open>A pattern for GET also takes HEAD.\<close>

definition pattern_matches :: "pattern \<Rightarrow> string \<Rightarrow> string \<Rightarrow> bool" where
  "pattern_matches p meth path \<longleftrightarrow>
     (pat_Method p = [] \<or> pat_Method p = meth \<or> (pat_Method p = ''GET'' \<and> meth = ''HEAD'')) \<and>
     segments_match (pat_Path p) (split_slash path)"

section \<open>The lists\<close>

definition nodePaths :: "string list" where
  "nodePaths = [
     ''POST /v1/nodes/register'',
     ''POST /v1/nodes/{id}/heartbeat'',
     ''GET /v1/nodes'',
     ''GET /v1/nodes/{id}/instances'',
     ''PUT /v1/nodes/{id}/instances/{instanceID}/status'',
     ''GET /v1/nodes/{id}/network'',
     ''GET /v1/nodes/{id}/volumes'',
     ''GET /v1/nodes/{id}/volumes/{volumeID}/key'',
     ''GET /v1/nodes/{id}/forwards'',
     ''GET /v1/nodes/{id}/balancers'',
     ''PUT /v1/nodes/{id}/balancers/health'',
     ''PUT /v1/nodes/{id}/volumes'',
     ''PUT /v1/nodes/{id}/images'',
     ''PUT /v1/nodes/{id}/usage'',
     ''GET /v1/nodes/{id}/exec'',
     ''POST /v1/nodes/{id}/execs/{execID}/result'',
     ''PUT /v1/nodes/{id}/instances/{instanceID}/logs'',
     ''PUT /v1/nodes/{id}/instances/{instanceID}/disk'',
     ''GET /v1/nodes/{id}/instances/{instanceID}/disk'',
     ''POST /v1/nodes/{id}/instances/{instanceID}/landed'',
     ''GET /v1/nodes/{id}/images'',
     ''GET /v1/nodes/{id}/registries'',
     ''GET /v1/nodes/{id}/acme-challenges'',
     ''PUT /v1/nodes/{id}/devices'',
     ''GET /v1/nodes/{id}/shell'',
     ''POST /v1/nodes/{id}/shells/{execID}/output'',
     ''GET /v1/nodes/{id}/shells/{execID}/input'',
     ''GET /v1/nodes/{id}/firewalls'',
     ''GET /v1/nodes/{id}/backups'',
     ''PUT /v1/nodes/{id}/backups/{backupID}/content'',
     ''GET /v1/nodes/{id}/backups/{backupID}/upload'',
     ''GET /v1/nodes/{id}/backups/{backupID}/download'',
     ''POST /v1/nodes/{id}/backups/{backupID}/uploaded'',
     ''POST /v1/nodes/{id}/backups/{backupID}/failure'',
     ''GET /v1/nodes/{id}/backups/{backupID}/content'',
     ''GET /v1/dns/records'']"

definition memberPaths :: "string list" where
  "memberPaths = [
     ''GET /v1/version'',
     ''GET /v1/usage'',
     ''GET /v1/usage/history'',
     ''GET /v1/quota'',
     ''GET /v1/dns/records'',
     ''GET /v1/events'',
     ''GET /v1/webhooks'',
     ''GET /v1/webhooks/{id}'',
     ''GET /v1/webhooks/{id}/deliveries'',
     ''POST /v1/webhooks'',
     ''POST /v1/webhooks/{id}/pause'',
     ''POST /v1/webhooks/{id}/resume'',
     ''DELETE /v1/webhooks/{id}'',
     ''POST /v1/jobs'',
     ''GET /v1/jobs'',
     ''GET /v1/jobs/{id}'',
     ''GET /v1/jobs/{id}/runs'',
     ''POST /v1/jobs/{id}/run'',
     ''POST /v1/jobs/{id}/pause'',
     ''POST /v1/jobs/{id}/resume'',
     ''DELETE /v1/jobs/{id}'',
     ''POST /v1/logout'',
     ''POST /v1/users'',
     ''GET /v1/users'',
     ''GET /v1/users/{id}'',
     ''PUT /v1/users/{id}/password'',
     ''POST /v1/users/{id}/disable'',
     ''POST /v1/users/{id}/enable'',
     ''DELETE /v1/users/{id}'',
     ''GET /v1/services'',
     ''GET /v1/services/{id}'',
     ''POST /v1/services'',
     ''POST /v1/services/{id}/scale'',
     ''PUT /v1/services/{id}/template'',
     ''PUT /v1/services/{id}/autoscale'',
     ''GET /v1/services/{id}/autoscale'',
     ''DELETE /v1/services/{id}/autoscale'',
     ''GET /v1/autoscalers'',
     ''DELETE /v1/services/{id}'',
     ''GET /v1/keys'',
     ''POST /v1/keys'',
     ''DELETE /v1/keys/{id}'',
     ''GET /v1/instances'',
     ''POST /v1/instances'',
     ''POST /v1/instances/{id}/resize'',
     ''GET /v1/instances/{id}'',
     ''GET /v1/instances/{id}/logs'',
     ''POST /v1/instances/{id}/exec'',
     ''GET /v1/execs'',
     ''GET /v1/execs/{id}'',
     ''DELETE /v1/instances/{id}'',
     ''POST /v1/instances/{id}/start'',
     ''POST /v1/instances/{id}/stop'',
     ''GET /v1/networks'',
     ''POST /v1/networks'',
     ''GET /v1/networks/{id}'',
     ''DELETE /v1/networks/{id}'',
     ''GET /v1/volumes'',
     ''POST /v1/volumes'',
     ''GET /v1/volumes/{id}'',
     ''DELETE /v1/volumes/{id}'',
     ''POST /v1/volumes/{id}/attach'',
     ''POST /v1/volumes/{id}/detach'',
     ''POST /v1/volumes/{id}/resize'',
     ''GET /v1/volumes/{id}/snapshots'',
     ''POST /v1/volumes/{id}/snapshots'',
     ''GET /v1/volumes/{id}/backups'',
     ''POST /v1/volumes/{id}/backups'',
     ''GET /v1/volumes/{id}/schedule'',
     ''PUT /v1/volumes/{id}/schedule'',
     ''DELETE /v1/volumes/{id}/schedule'',
     ''GET /v1/backup-schedules'',
     ''GET /v1/snapshot-schedules'',
     ''PUT /v1/volumes/{id}/snapshot-schedule'',
     ''DELETE /v1/volumes/{id}/snapshot-schedule'',
     ''GET /v1/backups'',
     ''GET /v1/backups/{id}'',
     ''DELETE /v1/backups/{id}'',
     ''GET /v1/snapshots'',
     ''DELETE /v1/snapshots/{id}'',
     ''POST /v1/snapshots/{id}/restore'',
     ''POST /v1/snapshots/{id}/clone'',
     ''GET /v1/images'',
     ''POST /v1/images'',
     ''GET /v1/images/{id}'',
     ''DELETE /v1/images/{id}'',
     ''GET /v1/firewalls'',
     ''POST /v1/firewalls'',
     ''GET /v1/firewalls/{id}'',
     ''PUT /v1/firewalls/{id}/rules'',
     ''DELETE /v1/firewalls/{id}'',
     ''GET /v1/forwards'',
     ''POST /v1/forwards'',
     ''PUT /v1/forwards/{id}/certificate'',
     ''DELETE /v1/forwards/{id}/certificate'',
     ''DELETE /v1/forwards/{id}'',
     ''GET /v1/balancers'',
     ''GET /v1/balancers/{id}'',
     ''POST /v1/balancers'',
     ''PUT /v1/balancers/{id}/routes'',
     ''POST /v1/balancers/{id}/certificate/acme'',
     ''GET /v1/balancers/{id}/certificate/acme'',
     ''DELETE /v1/balancers/{id}/certificate/acme'',
     ''GET /v1/certificates'',
     ''GET /v1/devices'',
     ''POST /v1/alerts'',
     ''GET /v1/alerts'',
     ''GET /v1/alerts/{id}'',
     ''DELETE /v1/alerts/{id}'',
     ''POST /v1/instances/{id}/shell'',
     ''GET /v1/shells'',
     ''GET /v1/shells/{id}'',
     ''DELETE /v1/shells/{id}'',
     ''GET /v1/shells/{id}/output'',
     ''POST /v1/shells/{id}/input'',
     ''PUT /v1/balancers/{id}/certificate'',
     ''DELETE /v1/balancers/{id}/certificate'',
     ''DELETE /v1/balancers/{id}'',
     ''POST /v1/balancers/{id}/backends'',
     ''DELETE /v1/balancers/{id}/backends/{instanceID}'']"

definition selfPaths :: "string list" where
  "selfPaths = [
     ''POST /v1/logout'']"

definition openPaths :: "string list" where
  "openPaths = [''/healthz'', ''/v1/login'']"

definition readsOf :: "string list \<Rightarrow> string list" where
  "readsOf patterns = filter (\<lambda>p. has_prefix p ''GET '' \<or> has_prefix p ''HEAD '') patterns"

record request =
  rq_Method :: string
  rq_Path :: string
  rq_Authorization :: string
  rq_SessionCookie :: string

record scope =
  sco_ProjectID :: string
  sco_TokenID :: string
  sco_TokenName :: string
  sco_UserID :: string
  sco_Role :: string

definition bearerOf :: "request \<Rightarrow> string" where
  "bearerOf r =
     (case str_Cut CHR '' '' (rq_Authorization r) of
        None \<Rightarrow> rq_SessionCookie r
      | Some (scheme, secret) \<Rightarrow>
          if to_lower scheme = ''bearer'' then trim_space secret else rq_SessionCookie r)"

definition allowList :: "string list \<Rightarrow> request \<Rightarrow> bool" where
  "allowList patterns r \<longleftrightarrow> list_ex (\<lambda>p. pattern_matches (pattern_of p) (rq_Method r) (rq_Path r)) patterns"

definition role_reaches :: "string \<Rightarrow> request \<Rightarrow> bool" where
  "role_reaches role r \<longleftrightarrow>
     (if role = RoleNode then allowList nodePaths r
      else if role = RoleMember then allowList memberPaths r
      else if role = RoleViewer then allowList (readsOf memberPaths @ selfPaths) r
      else False)"

text \<open>
  The result is a refusal or the scope the handler sees, none for an open path; beside it
  the identity noted for the audit trail and the new state.
\<close>

definition authenticate ::
    "account_lib \<Rightarrow> go_time \<Rightarrow> request \<Rightarrow> accounts \<Rightarrow> (scope option) result \<times> identity option \<times> accounts" where
  "authenticate lib now r st =
     (if rq_Path r \<in> set openPaths then (Inr None, None, st)
      else (case acc_verify lib now (bearerOf r) st of
              (Inl e, st') \<Rightarrow> (Inl e, None, st')
            | (Inr i, st') \<Rightarrow>
                if idn_Role i \<noteq> RoleAdmin \<and> \<not> role_reaches (idn_Role i) r
                then (Inl (Forbidden ''role_forbidden''), Some i, st')
                else (Inr (Some \<lparr>sco_ProjectID = idn_ProjectID i, sco_TokenID = idn_ID i, sco_TokenName = idn_Name i,
                                  sco_UserID = idn_UserID i, sco_Role = idn_Role i\<rparr>), Some i, st')))"

section \<open>The audit trail\<close>

text \<open>\<open>^/v1/nodes/[^/]+/(heartbeat|usage|images|volumes)$|^/v1/nodes/[^/]+/instances/[^/]+/status$\<close>\<close>

definition routine :: "string \<Rightarrow> bool" where
  "routine path =
     (case split_slash path of
        [a, b, c, node, d] \<Rightarrow> a = [] \<and> b = ''v1'' \<and> c = ''nodes'' \<and> node \<noteq> [] \<and>
          d \<in> set [''heartbeat'', ''usage'', ''images'', ''volumes'']
      | [a, b, c, node, d, inst, e] \<Rightarrow> a = [] \<and> b = ''v1'' \<and> c = ''nodes'' \<and> node \<noteq> [] \<and>
          d = ''instances'' \<and> inst \<noteq> [] \<and> e = ''status''
      | _ \<Rightarrow> False)"

definition worthRecording :: "string \<Rightarrow> string \<Rightarrow> string \<Rightarrow> int \<Rightarrow> bool" where
  "worthRecording meth path role status \<longleftrightarrow>
     (if status = 401 \<or> status = 403 then True
      else if meth = ''GET'' \<or> meth = ''HEAD'' then False
      else if role = RoleNode \<and> routine path then False
      else True)"

text \<open>The status of a refusal, src/internal/kernel/httpx and fault.\<close>

definition status_of :: "kind \<Rightarrow> int" where
  "status_of k = (case k of KindInvalid \<Rightarrow> 400 | KindUnauthenticated \<Rightarrow> 401 | KindForbidden \<Rightarrow> 403
     | KindNotFound \<Rightarrow> 404 | KindConflict \<Rightarrow> 409 | KindTooMany \<Rightarrow> 429 | KindUnavailable \<Rightarrow> 503 | KindInternal \<Rightarrow> 500)"

text \<open>The identity the trail writes down, empty when none was noted.\<close>

definition whoever :: "identity option \<Rightarrow> identity" where
  "whoever ident =
     (case ident of
        None \<Rightarrow> \<lparr>idn_ID = [], idn_Name = [], idn_Role = [], idn_ProjectID = [], idn_UserID = [], idn_ExpiresAt = zero_time\<rparr>
      | Some i \<Rightarrow> i)"

text \<open>
  One request through the trail and the authentication. \<open>handle\<close> answers with a status
  and the new state of the accounts and of everything else.
\<close>

definition auditTrail ::
    "account_lib \<Rightarrow> go_time \<Rightarrow> string \<Rightarrow> (scope option \<Rightarrow> request \<Rightarrow> accounts \<times> 'w \<Rightarrow> int \<times> accounts \<times> 'w) \<Rightarrow> request
     \<Rightarrow> accounts \<times> 'w \<times> audit_log \<Rightarrow> int \<times> accounts \<times> 'w \<times> audit_log" where
  "auditTrail lib now reqID handle r = (\<lambda>(st, w, trail).
     (case authenticate lib now r st of
        (answer, ident, st') \<Rightarrow>
          (let (status, st2, w2) =
                 (case answer of
                    Inl e \<Rightarrow> (status_of (fault_kind e), st', w)
                  | Inr sco \<Rightarrow> handle sco r (st', w));
               who = whoever ident
           in (status, st2, w2,
               if worthRecording (rq_Method r) (rq_Path r) (idn_Role who) status
               then audit_record_entry now
                      \<lparr>ar_Actor = idn_Name who, ar_UserID = idn_UserID who, ar_Role = idn_Role who,
                       ar_ProjectID = idn_ProjectID who, ar_Method = rq_Method r, ar_Path = rq_Path r,
                       ar_Status = status, ar_RequestID = reqID\<rparr> trail
               else trail))))"

section \<open>What a role reaches\<close>

text \<open>The third segment of every path of the lists, and that it names nothing administrative.\<close>

definition third_literal :: "string \<Rightarrow> string" where
  "third_literal p = (case pat_Path (pattern_of p) of _ # _ # Lit x # _ \<Rightarrow> x | _ \<Rightarrow> ''tokens'')"

lemma lists_not_administrative:
  "list_all (\<lambda>p. third_literal p \<notin> set [''tokens'', ''projects'', ''audit'']) nodePaths"
  "list_all (\<lambda>p. third_literal p \<notin> set [''tokens'', ''projects'', ''audit'']) memberPaths"
  "list_all (\<lambda>p. third_literal p \<notin> set [''tokens'', ''projects'', ''audit'']) selfPaths"
  by code_simp+


lemma has_prefix_append: "has_prefix s x \<Longrightarrow> \<exists>q. s = x @ q"
  unfolding has_prefix_def by (metis append_take_drop_id)

lemma reads_patterns:
  assumes "p \<in> set (readsOf ps)"
  shows "pat_Method (pattern_of p) \<in> {''GET'', ''HEAD''}"
proof -
  have "str_Cut CHR '' '' (''GET '' @ q) = Some (''GET'', q)" "str_Cut CHR '' '' (''HEAD '' @ q) = Some (''HEAD'', q)" for q
    by (simp_all add: str_Cut_def)
  moreover have "has_prefix p ''GET '' \<or> has_prefix p ''HEAD ''" using assms by (auto simp: readsOf_def)
  then obtain q where "p = ''GET '' @ q \<or> p = ''HEAD '' @ q" using has_prefix_append by blast
  ultimately show ?thesis by (auto simp: pattern_of_def)
qed

lemma matched_third:
  assumes "pattern_matches (pattern_of p) meth path"
    "third_literal p \<notin> set [''tokens'', ''projects'', ''audit'']"
  shows "split_slash path ! 2 \<notin> {''tokens'', ''projects'', ''audit''}"
proof -
  obtain a b x rest where pat: "pat_Path (pattern_of p) = a # b # Lit x # rest" "third_literal p = x"
    using assms(2) by (auto simp: third_literal_def split: list.splits segment.splits)
  then have "segments_match (a # b # Lit x # rest) (split_slash path)"
    using assms(1) by (simp add: pattern_matches_def)
  then obtain s1 s2 ss where "split_slash path = s1 # s2 # x # ss"
    by (cases a; cases b; cases "split_slash path"; cases "tl (split_slash path)"; cases "tl (tl (split_slash path))") auto
  then show ?thesis using assms(2) pat(2) by simp
qed

lemma role_not_administrative:
  assumes "role_reaches role r"
  shows "split_slash (rq_Path r) ! 2 \<notin> {''tokens'', ''projects'', ''audit''}"
proof -
  obtain p where p: "p \<in> set nodePaths \<union> set memberPaths \<union> set selfPaths"
    "pattern_matches (pattern_of p) (rq_Method r) (rq_Path r)"
    using assms by (auto simp: role_reaches_def allowList_def list_ex_iff readsOf_def split: if_splits)
  then have "third_literal p \<notin> set [''tokens'', ''projects'', ''audit'']"
    using lists_not_administrative by (auto simp: list_all_iff)
  then show ?thesis by (rule matched_third [OF p(2)])
qed

lemma viewer_reads:
  assumes "role_reaches RoleViewer r"
  shows "rq_Method r \<in> {''GET'', ''HEAD''} \<or> pattern_matches (pattern_of ''POST /v1/logout'') (rq_Method r) (rq_Path r)"
proof -
  obtain p where p: "p \<in> set (readsOf memberPaths @ selfPaths)"
    "pattern_matches (pattern_of p) (rq_Method r) (rq_Path r)"
    using assms by (auto simp: role_reaches_def allowList_def list_ex_iff)
  show ?thesis
  proof (cases "p \<in> set (readsOf memberPaths)")
    case True
    then show ?thesis using reads_patterns [OF True] p(2) by (auto simp: pattern_matches_def)
  qed (use p in \<open>simp add: selfPaths_def\<close>)
qed

text \<open>
  C2: A handler behind a closed path runs only for a token that is in the table, has not
  expired and whose person, if any, may sign in; it sees that token's project and
  role. With any role but admin the request is one of the lists of that role, which
  hold nothing under tokens, projects and audit; a viewer reads, or signs out.
\<close>

theorem request_confined_to_role:
  assumes "authenticate lib now r st = (Inr (Some sco), ident, st')"
  shows "\<exists>t\<in>set (acc_tokens st). tk_Hash t = hash_hex lib (trim_space (bearerOf r)) \<and> \<not> token_Expired t now \<and>
      (tk_UserID t = [] \<or> user_Allowed st (tk_UserID t)) \<and>
      sco_ProjectID sco = tk_ProjectID t \<and> sco_Role sco = tk_Role t \<and>
      (tk_Role t = RoleAdmin \<or>
       (role_reaches (tk_Role t) r \<and> split_slash (rq_Path r) ! 2 \<notin> {''tokens'', ''projects'', ''audit''} \<and>
        (tk_Role t = RoleViewer \<longrightarrow> rq_Method r \<in> {''GET'', ''HEAD''} \<or>
           pattern_matches (pattern_of ''POST /v1/logout'') (rq_Method r) (rq_Path r))))"
proof -
  obtain i where i: "fst (acc_verify lib now (bearerOf r) st) = Inr i"
    "idn_Role i = RoleAdmin \<or> role_reaches (idn_Role i) r"
    "sco_ProjectID sco = idn_ProjectID i" "sco_Role sco = idn_Role i"
    using assms by (auto simp: authenticate_def split: if_splits prod.splits sum.splits)
  then have "fst (token_verify lib (user_Allowed st) now (bearerOf r) (acc_tokens st)) = Inr i"
    by (simp add: acc_verify_def split: prod.splits)
  then obtain t where t: "t \<in> set (acc_tokens st)" "tk_Hash t = hash_hex lib (trim_space (bearerOf r))" "i = identity_of t"
    "\<not> token_Expired t now" "tk_UserID t = [] \<or> user_Allowed st (tk_UserID t)"
    by (rule verify_needs_token)
  have role: "idn_Role i = tk_Role t" "idn_ProjectID i = tk_ProjectID t" using t(3) by (simp_all add: identity_of_def)
  show ?thesis
    using t i(2,3,4) role_not_administrative [of "tk_Role t" r] viewer_reads [of r] unfolding role by (intro bexI [of _ t]) auto
qed

text \<open>
  C20: A request that authentication refuses is answered 401 or 403, never gets to a handler,
  changes no account but the last use of the token it carried, and leaves its method,
  path and status in the audit trail.
\<close>

theorem refused_request_recorded:
  assumes "authenticate lib now r st = (Inl e, ident, st')"
  shows "\<exists>status who. auditTrail lib now reqID handle r (st, w, trail) =
      (status, st', w, audit_record_entry now who trail) \<and> status \<in> {401, 403} \<and>
    ar_Method who = rq_Method r \<and> ar_Path who = rq_Path r \<and> ar_Status who = status \<and>
    (\<exists>tid. st' \<in> {st, st\<lparr>acc_tokens := repo_token_touch tid now (acc_tokens st)\<rparr>})"
proof -
  have verify: "\<exists>tid. st1 \<in> {st, st\<lparr>acc_tokens := repo_token_touch tid now (acc_tokens st)\<rparr>}"
    "\<And>f. x = Inl f \<Longrightarrow> fault_kind f = KindUnauthenticated" if "acc_verify lib now (bearerOf r) st = (x, st1)" for x st1
    using that
    by (auto simp: acc_verify_def token_verify_def Let_def Unauthenticated_def split: if_splits sum.splits)
  have kind: "fault_kind e \<in> {KindUnauthenticated, KindForbidden} \<and>
      (\<exists>tid. st' \<in> {st, st\<lparr>acc_tokens := repo_token_touch tid now (acc_tokens st)\<rparr>})"
    using assms verify
    by (auto simp: authenticate_def Forbidden_def split: if_splits prod.splits sum.splits)
  define status where "status = status_of (fault_kind e)"
  have status: "status = 401 \<or> status = 403" using kind by (auto simp: status_def status_of_def)
  then have "worthRecording (rq_Method r) (rq_Path r) role status" for role by (simp add: worthRecording_def)
  then show ?thesis
    using kind status assms
    by (intro exI [of _ status] exI [of _ "\<lparr>ar_Actor = idn_Name (whoever ident), ar_UserID = idn_UserID (whoever ident),
        ar_Role = idn_Role (whoever ident), ar_ProjectID = idn_ProjectID (whoever ident), ar_Method = rq_Method r,
        ar_Path = rq_Path r, ar_Status = status, ar_RequestID = reqID\<rparr>"])
      (auto simp: auditTrail_def Let_def status_def)
qed

definition dev_token :: token where
  "dev_token = \<lparr>tk_ID = ''tok-3'', tk_Name = ''dev'', tk_Role = RoleMember, tk_ProjectID = DefaultProjectID, tk_UserID = [],
     tk_Hash = ''mst_dev'', tk_CreatedAt = 4, tk_LastUsedAt = 4, tk_ExpiresAt = zero_time\<rparr>"

definition dev_accounts :: accounts where
  "dev_accounts = demo_start\<lparr>acc_tokens := [dev_token]\<rparr>"

definition dev_request :: "string \<Rightarrow> string \<Rightarrow> request" where
  "dev_request meth path = \<lparr>rq_Method = meth, rq_Path = path, rq_Authorization = ''Bearer mst_dev'', rq_SessionCookie = []\<rparr>"

theorem request_confined_to_role_witness:
  "\<exists>sco. fst (authenticate demo_lib 5 (dev_request ''GET'' ''/v1/instances'') dev_accounts) = Inr (Some sco) \<and>
     sco_Role sco = RoleMember \<and> role_reaches RoleMember (dev_request ''GET'' ''/v1/instances'')"
proof -
  let ?r = "dev_request ''GET'' ''/v1/instances''"
  have "case fst (authenticate demo_lib 5 ?r dev_accounts) of Inr (Some _) \<Rightarrow> True | _ \<Rightarrow> False" by code_simp
  then obtain sco ident st' where auth: "authenticate demo_lib 5 ?r dev_accounts = (Inr (Some sco), ident, st')"
    by (cases "authenticate demo_lib 5 ?r dev_accounts") (auto split: sum.splits option.splits)
  have "acc_tokens dev_accounts = [dev_token]" by (simp add: dev_accounts_def)
  then show ?thesis
    using request_confined_to_role [OF auth] auth by (auto simp: dev_token_def)
qed

theorem refused_request_recorded_witness:
  "\<exists>status who. auditTrail demo_lib 5 ''req-1'' (\<lambda>_ _ s. (200, s)) (dev_request ''GET'' ''/v1/tokens'') (dev_accounts, (), empty_audit) =
     (status, dev_accounts\<lparr>acc_tokens := repo_token_touch ''tok-3'' 5 (acc_tokens dev_accounts)\<rparr>, (), audit_record_entry 5 who empty_audit) \<and>
     ar_Path who = ''/v1/tokens''"
proof -
  let ?r = "dev_request ''GET'' ''/v1/tokens''"
  let ?st = "dev_accounts\<lparr>acc_tokens := repo_token_touch ''tok-3'' 5 (acc_tokens dev_accounts)\<rparr>"
  have "bearerOf ?r = ''mst_dev''" "trim_space ''mst_dev'' = ''mst_dev''" "rq_Path ?r \<notin> set openPaths"
    "\<not> role_reaches RoleMember ?r" by code_simp+
  then have "authenticate demo_lib 5 ?r dev_accounts = (Inl (Forbidden ''role_forbidden''), Some (identity_of dev_token), ?st)"
    by (simp add: authenticate_def acc_verify_def token_verify_def repo_token_byHash_def dev_accounts_def dev_token_def
        demo_lib_def identity_of_def Let_def)
  from refused_request_recorded [OF this, of "''req-1''" "\<lambda>_ _ s. (200, s)" "()" empty_audit] show ?thesis
    by (auto simp: dev_request_def)
qed

section \<open>A member makes itself an administrator\<close>

text \<open>
  The guide says that a member cannot mint itself an admin, because its role does not reach
  the tokens. It reaches the people: with a member's token one creates a person with the
  role admin, signs in as that person, and holds an admin's token.
\<close>

definition eve :: person_params where
  "eve = \<lparr>up_Email = ''eve@example.org'', up_Name = ''eve'', up_Role = RoleAdmin, up_ProjectID = [],
     up_Password = ''a long password''\<rparr>"

definition eve_person :: person where
  "eve_person = \<lparr>u_ID = ''usr-7'', u_Email = ''eve@example.org'', u_Name = ''eve'', u_Role = RoleAdmin, u_ProjectID = [],
     u_Disabled = False, u_CreatedAt = 5, u_UpdatedAt = 5, u_Password = hashPassword demo_lib ''salt'' ''a long password''\<rparr>"

definition eve_fresh :: fresh where
  "eve_fresh = \<lparr>fr_tokenID = ''tok-9'', fr_secret = ''mst_eve'', fr_suffix = ''s-abcdef''\<rparr>"

lemma eve_created:
  "user_create demo_lib ''usr-7'' ''salt'' 5 eve dev_accounts = (Inr eve_person, dev_accounts\<lparr>acc_people := [eve_person]\<rparr>)"
proof -
  have checks: "normalizeEmail (up_Email eve) = ''eve@example.org''" "emailPattern ''eve@example.org''"
    "validate_Name ''name'' (up_Name eve) = Inr ()"
    "validate_OneOf ''role'' (up_Role eve) [RoleAdmin, RoleMember, RoleViewer] = Inr ()"
    "checkPassword (up_Password eve) = Inr ()" by code_simp+
  have "acc_people dev_accounts = []" by (simp add: dev_accounts_def demo_start_def)
  then show ?thesis
    unfolding user_create_def checks Let_def
    by (simp add: checks(2) eve_def eve_person_def repo_user_insert_def)
qed

lemma eve_signs_in:
  "\<exists>s st. user_login demo_lib True eve_fresh 6 ''eve@example.org'' ''a long password''
      (dev_accounts\<lparr>acc_people := [eve_person]\<rparr>) = (Inr s, st) \<and> ss_Secret s = ''mst_eve'' \<and>
    (\<exists>t\<in>set (acc_tokens st). tk_Hash t = ''mst_eve'' \<and> tk_Role t = RoleAdmin)"
proof -
  let ?st = "dev_accounts\<lparr>acc_people := [eve_person]\<rparr>"
  have mail: "normalizeEmail ''eve@example.org'' = ''eve@example.org''" by code_simp
  have "case token_create demo_lib (project_exists (acc_projects dev_accounts)) ''tok-9'' ''mst_eve'' 6
      \<lparr>tp_Name = sessionName ''s-abcdef'' ''usr-7'', tp_Role = RoleAdmin, tp_ProjectID = [], tp_UserID = ''usr-7'',
       tp_ExpiresIn = ''12h0m0s''\<rparr> (acc_tokens dev_accounts) of
      (Inr (_, s), ts) \<Rightarrow> s = ''mst_eve'' \<and> list_ex (\<lambda>t. tk_Hash t = ''mst_eve'' \<and> tk_Role t = RoleAdmin) ts
    | (Inl _, _) \<Rightarrow> False" by code_simp
  moreover have "pw_matches demo_lib (u_Password eve_person) ''a long password'' = Some True"
    by (simp add: eve_person_def password_comes_back)
  ultimately show ?thesis
    using mail
    by (auto simp: user_login_def repo_user_byEmail_def eve_person_def eve_fresh_def user_note_def list_ex_iff
        split: prod.splits sum.splits)
qed

lemma member_mints_admin:
  "(\<exists>sco. fst (authenticate demo_lib 5 (dev_request ''POST'' ''/v1/users'') dev_accounts) = Inr (Some sco) \<and>
      sco_Role sco = RoleMember) \<and>
   (\<exists>u st. user_create demo_lib ''usr-7'' ''salt'' 5 eve dev_accounts = (Inr u, st) \<and>
     (\<exists>s st'. user_login demo_lib True eve_fresh 6 ''eve@example.org'' ''a long password'' st = (Inr s, st') \<and>
       (\<exists>t\<in>set (acc_tokens st'). tk_Hash t = hash_hex demo_lib (ss_Secret s) \<and> tk_Role t = RoleAdmin)))"
proof -
  have "case fst (authenticate demo_lib 5 (dev_request ''POST'' ''/v1/users'') dev_accounts) of
      Inr (Some sco) \<Rightarrow> sco_Role sco = RoleMember | _ \<Rightarrow> False" by code_simp
  then have "\<exists>sco. fst (authenticate demo_lib 5 (dev_request ''POST'' ''/v1/users'') dev_accounts) = Inr (Some sco) \<and>
      sco_Role sco = RoleMember" by (auto split: sum.splits option.splits)
  then show ?thesis using eve_created eve_signs_in by (auto simp: demo_lib_def)
qed

end
