(* ===== verification/Spec2Isabelle.thy ===== *)
theory Spec2Isabelle
  imports Prelude GoSort Wiring NodeView ReplicaWiring Quotas Autoscale Partition Listings Webhooks Access
begin

text \<open>
  A verification development for marstack-cloud, a small cloud written in Go: a control
  plane that keeps its state in SQLite, and an agent on every node that runs what the
  control plane assigns to it. Paths below are relative to src/internal.

  \<^bold>\<open>The program.\<close> The control plane is a set of modules under platform/, each with a
  \<open>repository\<close> (SQL statements on its own tables), a \<open>service\<close> (checks and decisions) and
  handlers. Modules know each other only through small interfaces; app/adapters.go and
  app/app.go put them together. Two loops act without a request: the scheduler places
  instances on nodes, and the service module keeps the replicas of services. The agent
  (agent/) reads the desired state, drives runtimes (runtime/) behind the interfaces of
  workload/workload.go, reports back, and stops its containers by itself when it has not
  reached the control plane for too long, so that the scheduler can place them elsewhere.

  \<^bold>\<open>How code becomes definitions.\<close> A table is a list of records, in a record with the
  other tables of its module; a SQL statement is a function on it, with the keys and
  conditions the schema and the statement state. An operation takes the tables and
  returns its result with the tables after it; a fault is a value of the sum type
  \<open>result\<close>. A module another one calls is a record of functions on a world of the
  caller's choice, as it is an interface in the code, and the theories named Wiring give
  these records on the tables of the real modules. Instants and durations are integers of
  nanoseconds, wrapped or saturated as Go does where the code can get there; strings are lists of
  bytes in byte order; floating point is a record of operations about which nothing is
  assumed. Random ids, secrets and salts, clock readings, parsers and ciphers are
  arguments. A request or a pass is one atomic step; a failing database is not modelled.

  \<^bold>\<open>Foundations.\<close> Prelude has faults, results, time and lists; GoSort is
  \<open>sort.SliceStable\<close> as the library does it (insertion runs and \<open>symMerge\<close>), shown to be a
  stable sort for orders that come from a key (locales \<open>key_comparison\<close> and
  \<open>strict_key_comparison\<close>, interpreted in Scheduler on the order of candidates). Kernel,
  Interval, Sealed and Paging are the packages of kernel/: validation and events,
  intervals with the wrap-around of their product, sealed streams and keyrings, cursors
  and pages. Sealed shows that a value opens after rotation of keys, and that a stream that
  opens is the one that was sealed if no box in it was forged. That hypothesis,
  \<open>unforged\<close>, is about the bytes at hand and goes with a cipher that opens whatever it
  sealed, \<open>is_cipher\<close>.

  \<^bold>\<open>Nodes, instances, networks, placement.\<close> Nodes is platform/node (with devices);
  Instances is platform/instance with migration and parked disks; Ipam, Networks and
  NodeView are platform/network, from carries in the bytes of an address to what a node
  is told about routes. Scheduler is platform/scheduler, over a record of sources.
  Placement states what it relies on as the locales \<open>placement_world\<close> and
  \<open>drain_world\<close> and proves what a pass guarantees; Wiring builds the sources from the
  tables of the three modules as app/adapters.go does and interprets both locales there.
  Shown are invariants of all tables under every sequence of calls, isolation of
  projects, placement as a compare-and-set, spread of strict groups, placement on ready
  matching nodes only, release from lost nodes of containers only, finished drains that
  are empty, addresses held once, lowest free slices and addresses, and routes that are
  complete and unambiguous.

  \<^bold>\<open>Services, volumes, quotas, autoscaling.\<close> Replicas is platform/service and its
  reconcile pass; ReplicaWiring puts the instance module behind it (locale
  \<open>workload_contract\<close>, interpreted on the adapter). Volumes is platform/volume with
  snapshots and their schedules. Quotas is platform/quota with its two meters; the
  locale \<open>metered\<close> is what admission needs of a module and is interpreted on instances and
  on volumes. Autoscale is platform/autoscale. Shown are what a pass may remove, what its
  counts mean, that it makes exactly the calls that are missing when they succeed and
  gives up with a reason after three failed replacements; that a volume has one home and
  one writer and its key reaches its node only; which snapshots retention leaves; that
  limits are never exceeded; that a decision to scale stays within its policy.

  \<^bold>\<open>The agent.\<close> Workload has the interfaces of workload/workload.go and the views of
  agent/client.go; Probes is agent/health.go; Agent is restarts, one workload and fencing
  (agent/reconcile.go, restart.go, fence.go); NodeAgent is a whole pass with plans and
  volumes; ContainerRuntime is runtime/container/container_linux.go on a table of
  processes. The locale \<open>workload_runtime\<close> is what fencing needs of a runtime and is
  interpreted on the container runtime. Partition joins both ends: a container the
  scheduler takes from a silent node was stopped there before. It needs that both ends
  read one clock and that the node ran a pass between its deadline and the scheduler's.

  \<^bold>\<open>Logs, listings, webhooks, access.\<close> EventLog is platform/event and platform/audit,
  with restarts of the control plane, which forget the count towards the next pruning.
  Listings has the paged listings of instances, volumes and snapshots. They and both
  logs interpret the locale \<open>keyset_listing\<close> of Paging, in which the walk of the client
  (cli/client.go) is shown to end, to repeat nothing and to miss nothing that stays.
  Webhooks is platform/webhook over the locale \<open>event_feed\<close>, interpreted on the event
  module: every step of its run relation \<open>wh_run\<close> keeps at most one delivery of an event
  per webhook, and fan-out queues every event. Accounts is platform/token, platform/user
  and platform/project; Access is app/auth.go and app/audit.go: what a role reaches, and
  that refusals are recorded.

  \<^bold>\<open>Loops and bounds.\<close> Loops over tables are structural recursion; searches of addresses
  and slices, frames of a stream, merges of a sort have termination proofs. The walk of
  the client over pages may not end in general, so it is a \<open>partial_function\<close> into
  options, and is proved to return. Nothing uses fuel. Widths are kept where they
  matter: bytes and nonces as words, counters of frames below $2^{64}$, products of
  durations in 64 bits.

  \<^bold>\<open>Not modelled.\<close> What is mostly input and output: hypervisors and the host side of
  containers, network devices, image downloads, consoles, shells, copying of logs and
  backups, the TLS proxy and the resolver, the command line but for its walk over pages,
  and the web console. Code around floating-point averages and buckets: alerts, usage and
  the rate limiter. Small tables without bearing on the above: balancers, firewalls,
  forwards, jobs, key pairs, registries, commands in instances, ACME. HTTP itself: requests reach
  the models decoded, with clean paths.
\<close>

end
